(* ===== verification/Prelude.thy ===== *)
theory Prelude
  imports Main "HOL-Library.Word" "HOL-Library.List_Lexorder" "HOL-Library.Char_ord"
begin

text \<open>
  The types and generic facts the components share: bytes and little-endian integers, Rust's
  checked slice reads, the machine-integer range checks, \<open>BTreeMap\<close> and \<open>BTreeSet\<close>, decimal
  formatting, and the record of the external functions the program calls.
\<close>

unbundle bit_operations_syntax

section \<open>Bytes and named collections\<close>

type_synonym u8 = "8 word"
type_synonym bytes = "u8 list"

named_theorems slice_simps \<open>reads of a list by position or range\<close>
named_theorems le_simps \<open>little-endian encodings\<close>
named_theorems range_simps \<open>machine-integer range checks\<close>
named_theorems btree_simps \<open>ordered maps and sets\<close>

abbreviation byte_of :: "nat \<Rightarrow> u8" where
  "byte_of n \<equiv> word_of_nat n"

lemma unat_lt_256 [simp]: "unat (b :: u8) < 256"
  using unsigned_less [of b, where ?'a = nat] by simp

lemma unat_byte_of: "unat (byte_of n) = n mod 256"
  by (simp add: unat_of_nat)

lemma unat_byte_of_small [simp]: "n < 256 \<Longrightarrow> unat (byte_of n) = n"
  by (simp add: unat_byte_of)

lemma byte_of_eq_iff: "n < 256 \<Longrightarrow> (byte_of n = b) = (n = unat b)"
  by auto

text \<open>A statement about every byte is a finite check.\<close>

lemma byte_of_unat [simp]: "byte_of (unat (b :: u8)) = b"
  by (simp add: word_unat_eq_iff unat_byte_of)

lemma all_bytes: "(\<And>n. n < 256 \<Longrightarrow> P (byte_of n)) \<Longrightarrow> P (b :: u8)"
  using unat_lt_256 [of b] byte_of_unat [of b] by metis

section \<open>Checked reads\<close>

text \<open>\<open>xs.get(i)\<close>, \<open>xs.get(i..j)\<close> and the slice \<open>xs[i..j]\<close> of a range that is in bounds.\<close>

definition get_at :: "'a list \<Rightarrow> nat \<Rightarrow> 'a option" where
  "get_at xs i = (if i < length xs then Some (xs ! i) else None)"

definition slice :: "'a list \<Rightarrow> nat \<Rightarrow> nat \<Rightarrow> 'a list" where
  "slice xs i j = take (j - i) (drop i xs)"

definition get_range :: "'a list \<Rightarrow> nat \<Rightarrow> nat \<Rightarrow> 'a list option" where
  "get_range xs i j = (if i \<le> j \<and> j \<le> length xs then Some (slice xs i j) else None)"

lemma length_slice [simp]: "length (slice xs i j) = min (j - i) (length xs - i)"
  by (simp add: slice_def min.commute)

lemma slice_same [simp]: "slice xs i i = []"
  by (simp add: slice_def)

lemma get_range_Some [slice_simps]:
  "get_range xs i j = Some ys \<longleftrightarrow> i \<le> j \<and> j \<le> length xs \<and> ys = slice xs i j"
  by (auto simp: get_range_def)

lemma get_range_None [slice_simps]: "get_range xs i j = None \<longleftrightarrow> \<not> (i \<le> j \<and> j \<le> length xs)"
  by (auto simp: get_range_def)

lemma get_at_Some [slice_simps]: "get_at xs i = Some x \<longleftrightarrow> i < length xs \<and> x = xs ! i"
  by (auto simp: get_at_def)

lemma get_at_None [slice_simps]: "get_at xs i = None \<longleftrightarrow> length xs \<le> i"
  by (auto simp: get_at_def)

lemma slice_append_take:
  "i \<le> j \<Longrightarrow> j \<le> length xs \<Longrightarrow> take i xs @ slice xs i j = take j xs"
  by (metis le_add_diff_inverse slice_def take_add)

lemma slice_drop [slice_simps]: "slice (drop k xs) i j = slice xs (k + i) (k + j)"
  by (simp add: slice_def add.commute)

lemma slice_0 [simp]: "slice xs 0 j = take j xs"
  by (simp add: slice_def)

lemma slice_append_skip:
  "length xs \<le> i \<Longrightarrow> slice (xs @ ys) i j = slice ys (i - length xs) (j - length xs)"
  by (simp add: slice_def)

lemma nth_slice: "i + k < j \<Longrightarrow> j \<le> length xs \<Longrightarrow> slice xs i j ! k = xs ! (i + k)"
  by (simp add: slice_def)

lemma slice_append_slice:
  assumes "i \<le> j" "j \<le> k"
  shows "slice xs i j @ slice xs j k = slice xs i k"
proof -
  have "k - i = (j - i) + (k - j)" using assms by simp
  moreover have "drop (j - i) (drop i xs) = drop j xs" using assms by simp
  ultimately show ?thesis unfolding slice_def by (metis take_add)
qed

lemma slice_single: "i < length xs \<Longrightarrow> slice xs i (Suc i) = [xs ! i]"
  by (simp add: slice_def take_Suc_conv_app_nth)

lemma slice_append_drop: "i \<le> j \<Longrightarrow> slice xs i j @ drop j xs = drop i xs"
  by (metis append_take_drop_id drop_drop le_add_diff_inverse2 slice_def)

lemma hd_slice: "i < j \<Longrightarrow> i < length xs \<Longrightarrow> hd (slice xs i j) = xs ! i"
  by (simp add: slice_def hd_drop_conv_nth)

lemma drop_slice: "drop k (slice xs i j) = slice xs (i + k) j"
  by (simp add: slice_def drop_take add.commute)

section \<open>Little-endian integers\<close>

text \<open>\<open>uN::from_le_bytes\<close> and \<open>to_le_bytes\<close>: \<open>nat_le k n\<close> is the \<open>k\<close>-byte encoding.\<close>

fun le_nat :: "bytes \<Rightarrow> nat" where
  "le_nat [] = 0"
| "le_nat (b # bs) = unat b + 256 * le_nat bs"

fun nat_le :: "nat \<Rightarrow> nat \<Rightarrow> bytes" where
  "nat_le 0 n = []"
| "nat_le (Suc k) n = byte_of n # nat_le k (n div 256)"

lemma length_nat_le [simp]: "length (nat_le k n) = k"
  by (induction k arbitrary: n) auto

lemma le_nat_bound: "le_nat bs < 256 ^ length bs"
proof (induction bs)
  case (Cons b bs)
  have "unat b + 256 * le_nat bs < 256 + 256 * le_nat bs" by simp
  also have "\<dots> \<le> 256 * 256 ^ length bs" using Cons.IH by linarith
  finally show ?case by simp
qed simp

lemma le_nat_nat_le [le_simps]: "le_nat (nat_le k n) = n mod 256 ^ k"
proof (induction k arbitrary: n)
  case (Suc k)
  then show ?case
    by (simp add: unat_byte_of mod_mult2_eq)
qed simp

lemma nat_le_le_nat [le_simps]: "nat_le (length bs) (le_nat bs) = bs"
proof (induction bs)
  case (Cons b bs)
  have "byte_of (unat b + 256 * le_nat bs) = b"
    unfolding word_unat_eq_iff unat_byte_of by simp
  then show ?case using Cons.IH by simp
qed simp

lemma nat_le_inj: "m < 256 ^ k \<Longrightarrow> n < 256 ^ k \<Longrightarrow> nat_le k m = nat_le k n \<longleftrightarrow> m = n"
  by (metis le_nat_nat_le mod_less)

lemma le_nat_append [le_simps]: "le_nat (xs @ ys) = le_nat xs + 256 ^ length xs * le_nat ys"
  by (induction xs) (simp_all add: algebra_simps)

lemma le_nat_replicate_0 [simp]: "le_nat (replicate k 0) = 0"
  by (induction k) auto

section \<open>Machine-integer ranges\<close>

text \<open>
  \<open>i64\<close> and \<open>i128\<close> values are \<open>int\<close>s; the ranges are written out where the code checks them.
\<close>

definition in_i64 :: "int \<Rightarrow> bool" where
  "in_i64 v \<longleftrightarrow> - (2 ^ 63) \<le> v \<and> v < 2 ^ 63"

definition in_i128 :: "int \<Rightarrow> bool" where
  "in_i128 v \<longleftrightarrow> - (2 ^ 127) \<le> v \<and> v < 2 ^ 127"

definition i64_try_from :: "int \<Rightarrow> int option" where
  "i64_try_from v = (if in_i64 v then Some v else None)"

definition checked_mul :: "int \<Rightarrow> int \<Rightarrow> int option" where
  "checked_mul a b = (if in_i128 (a * b) then Some (a * b) else None)"

definition checked_add :: "int \<Rightarrow> int \<Rightarrow> int option" where
  "checked_add a b = (if in_i128 (a + b) then Some (a + b) else None)"

definition checked_sub :: "int \<Rightarrow> int \<Rightarrow> int option" where
  "checked_sub a b = (if in_i128 (a - b) then Some (a - b) else None)"

lemma i64_try_from_Some [range_simps]: "i64_try_from v = Some w \<longleftrightarrow> in_i64 v \<and> w = v"
  by (auto simp: i64_try_from_def)

lemma checked_mul_Some [range_simps]: "checked_mul a b = Some c \<longleftrightarrow> in_i128 (a * b) \<and> c = a * b"
  by (auto simp: checked_mul_def)

lemma checked_add_Some [range_simps]: "checked_add a b = Some c \<longleftrightarrow> in_i128 (a + b) \<and> c = a + b"
  by (auto simp: checked_add_def)

lemma checked_sub_Some [range_simps]: "checked_sub a b = Some c \<longleftrightarrow> in_i128 (a - b) \<and> c = a - b"
  by (auto simp: checked_sub_def)

text \<open>Rust's \<open>/\<close> on signed integers truncates towards zero.\<close>

definition rust_div :: "int \<Rightarrow> int \<Rightarrow> int" where
  "rust_div a b = sgn a * sgn b * (\<bar>a\<bar> div \<bar>b\<bar>)"

lemma rust_div_nonneg: "0 \<le> a \<Longrightarrow> 0 < b \<Longrightarrow> rust_div a b = a div b"
  by (cases "a = 0") (simp_all add: rust_div_def)

text \<open>\<open>i64::from_le_bytes\<close> and \<open>i64::to_le_bytes\<close> (two's complement, eight bytes).\<close>

definition i64_of_le :: "bytes \<Rightarrow> int" where
  "i64_of_le bs = (let n = le_nat bs in if n < 2 ^ 63 then int n else int n - 2 ^ 64)"

definition i64_le :: "int \<Rightarrow> bytes" where
  "i64_le v = nat_le 8 (nat (v mod 2 ^ 64))"

lemma length_i64_le [simp]: "length (i64_le v) = 8"
  by (simp add: i64_le_def)

lemma i64_of_le_nonneg:
  "0 \<le> i64_of_le bs \<Longrightarrow> length bs = 8 \<Longrightarrow> i64_of_le bs = int (le_nat bs) \<and> le_nat bs < 2 ^ 63"
  using le_nat_bound [of bs] by (auto simp: i64_of_le_def Let_def split: if_splits)

lemma i64_of_le_range: "length bs = 8 \<Longrightarrow> in_i64 (i64_of_le bs)"
  using le_nat_bound [of bs] by (auto simp: i64_of_le_def in_i64_def Let_def)

lemma i64_of_le_i64_le [le_simps]:
  assumes "in_i64 v" shows "i64_of_le (i64_le v) = v"
proof -
  have m: "nat (v mod 2 ^ 64) mod 256 ^ 8 = nat (v mod 2 ^ 64)"
    by (rule mod_less) (simp add: nat_less_iff)
  show ?thesis
  proof (cases "0 \<le> v")
    case True
    with assms have "v mod 2 ^ 64 = v" by (simp add: in_i64_def)
    with True assms m show ?thesis
      by (simp add: i64_of_le_def i64_le_def le_nat_nat_le in_i64_def Let_def)
  next
    case False
    have "v mod 2 ^ 64 = (v + 2 ^ 64) mod 2 ^ 64" by simp
    also have "\<dots> = v + 2 ^ 64"
      using False assms by (intro mod_pos_pos_trivial) (simp_all add: in_i64_def)
    finally have "v mod 2 ^ 64 = v + 2 ^ 64" .
    with False assms m show ?thesis
      by (simp add: i64_of_le_def i64_le_def le_nat_nat_le in_i64_def Let_def)
  qed
qed

section \<open>Ordered maps and sets\<close>

text \<open>
  A \<open>BTreeMap\<close> is the list of its entries in key order; \<open>bt_update k f m\<close> is
  \<open>m.entry(k).or_insert(..)\<close> followed by a write, \<open>f\<close> receiving the present value if any.
  A \<open>BTreeSet\<close> is the sorted list of its elements.
\<close>

fun bt_update :: "'k::linorder \<Rightarrow> ('v option \<Rightarrow> 'v) \<Rightarrow> ('k \<times> 'v) list \<Rightarrow> ('k \<times> 'v) list" where
  "bt_update k f [] = [(k, f None)]"
| "bt_update k f ((k', v) # m) =
     (if k < k' then (k, f None) # (k', v) # m
      else if k = k' then (k, f (Some v)) # m
      else (k', v) # bt_update k f m)"

definition bt_keys :: "('k \<times> 'v) list \<Rightarrow> 'k list" where
  "bt_keys m = map fst m"

definition bt_wf :: "('k::linorder \<times> 'v) list \<Rightarrow> bool" where
  "bt_wf m \<longleftrightarrow> sorted_wrt (<) (map fst m)"

definition bt_get :: "('k \<times> 'v) list \<Rightarrow> 'k \<Rightarrow> 'v option" where
  "bt_get m k = map_of m k"

definition bs_of_list :: "'a::linorder list \<Rightarrow> 'a list" where
  "bs_of_list xs = sort (remdups xs)"

lemma set_bs_of_list [simp]: "set (bs_of_list xs) = set xs"
  by (simp add: bs_of_list_def)

lemma distinct_bs_of_list [simp]: "distinct (bs_of_list xs)"
  by (simp add: bs_of_list_def)

lemma sorted_bs_of_list [simp]: "sorted (bs_of_list xs)"
  by (simp add: bs_of_list_def)

lemma keys_bt_update [btree_simps]: "fst ` set (bt_update k f m) = insert k (fst ` set m)"
  by (induction k f m rule: bt_update.induct) auto

lemma bt_wf_Nil [simp]: "bt_wf []"
  by (simp add: bt_wf_def)

lemma bt_wf_update [simp, intro]: "bt_wf m \<Longrightarrow> bt_wf (bt_update k f m)"
proof (induction k f m rule: bt_update.induct)
  case (2 k f k' v m)
  have "\<forall>x \<in> fst ` set (bt_update k f m). k' < x" if "k' < k"
    using 2(2) that by (auto simp: keys_bt_update bt_wf_def)
  with 2 show ?case
    by (fastforce simp: bt_wf_def)
qed (simp add: bt_wf_def)

lemma bt_wf_distinct: "bt_wf m \<Longrightarrow> distinct (map fst m)"
  by (auto simp: bt_wf_def strict_sorted_iff)

lemma map_of_notin_fst: "x \<notin> fst ` set m \<Longrightarrow> map_of m x = None"
  by (induction m) auto

lemma bt_get_update [btree_simps]:
  "bt_wf m \<Longrightarrow> bt_get (bt_update k f m) x = (if x = k then Some (f (bt_get m k)) else bt_get m x)"
proof (induction k f m rule: bt_update.induct)
  case (2 k f k' v m)
  have "k \<notin> fst ` set m" if "k < k'"
    using 2(2) that by (auto simp: bt_wf_def)
  then have n: "map_of m k = None" if "k < k'"
    using that by (simp add: map_of_notin_fst)
  have "bt_wf m" using 2(2) by (simp add: bt_wf_def)
  then show ?case using 2(1) n by (auto simp: bt_get_def)
qed (simp add: bt_get_def)

lemma bt_get_None: "bt_get m k = None \<longleftrightarrow> k \<notin> fst ` set m"
  by (simp add: bt_get_def map_of_eq_None_iff)

lemma bt_get_Some: "bt_wf m \<Longrightarrow> bt_get m k = Some v \<longleftrightarrow> (k, v) \<in> set m"
  by (simp add: bt_get_def bt_wf_distinct)

text \<open>Adding to one entry adds to the total.\<close>

lemma sum_bt_update:
  fixes g :: "'v \<Rightarrow> int"
  assumes "bt_wf m"
  shows "(\<Sum>p\<leftarrow>bt_update k f m. g (snd p)) = (\<Sum>p\<leftarrow>m. g (snd p))
    + g (f (bt_get m k)) - (case bt_get m k of None \<Rightarrow> 0 | Some v \<Rightarrow> g v)"
  using assms
proof (induction k f m rule: bt_update.induct)
  case (2 k f k' v m)
  have "k \<notin> fst ` set m" if "k < k'"
    using 2(2) that by (auto simp: bt_wf_def)
  then have n: "map_of m k = None" if "k < k'"
    using that by (simp add: map_of_notin_fst)
  have "bt_wf m" using 2(2) by (simp add: bt_wf_def)
  then show ?case using 2(1) n by (auto simp: bt_get_def)
qed (simp add: bt_get_def)

text \<open>\<open>try_into::<[u8; 32]>()\<close>.\<close>

definition array32 :: "bytes \<Rightarrow> bytes option" where
  "array32 bs = (if length bs = 32 then Some bs else None)"

lemma array32_Some [slice_simps]: "array32 bs = Some a \<longleftrightarrow> length bs = 32 \<and> a = bs"
  by (auto simp: array32_def)

section \<open>Option traversals\<close>

text \<open>\<open>iter().map(f).collect::<Option<Vec<_>>>()\<close>: all or nothing.\<close>

fun traverse :: "('a \<Rightarrow> 'b option) \<Rightarrow> 'a list \<Rightarrow> 'b list option" where
  "traverse f [] = Some []"
| "traverse f (x # xs) =
     (case f x of None \<Rightarrow> None
      | Some y \<Rightarrow> (case traverse f xs of None \<Rightarrow> None | Some ys \<Rightarrow> Some (y # ys)))"

lemma traverse_Some: "traverse f xs = Some ys \<longleftrightarrow> map f xs = map Some ys"
proof
  show "traverse f xs = Some ys \<Longrightarrow> map f xs = map Some ys"
    by (induction xs arbitrary: ys) (auto split: option.splits)
  show "map f xs = map Some ys \<Longrightarrow> traverse f xs = Some ys"
  proof (induction xs arbitrary: ys)
    case (Cons x xs)
    then obtain y zs where "ys = y # zs" and "f x = Some y" and "map f xs = map Some zs"
      by (cases ys) simp_all
    moreover from this(3) have "traverse f xs = Some zs" by (rule Cons.IH)
    ultimately show ?case by simp
  qed simp
qed

lemma traverse_length: "traverse f xs = Some ys \<Longrightarrow> length ys = length xs"
  by (metis length_map traverse_Some)

lemma traverse_nth: "traverse f xs = Some ys \<Longrightarrow> i < length xs \<Longrightarrow> f (xs ! i) = Some (ys ! i)"
  by (metis length_map nth_map traverse_Some)

text \<open>\<open>iter().find_map(f)\<close>.\<close>

fun find_map :: "('a \<Rightarrow> 'b option) \<Rightarrow> 'a list \<Rightarrow> 'b option" where
  "find_map f [] = None"
| "find_map f (x # xs) = (case f x of None \<Rightarrow> find_map f xs | Some y \<Rightarrow> Some y)"

lemma find_map_Some: "find_map f xs = Some y \<Longrightarrow> \<exists>x \<in> set xs. f x = Some y"
  by (induction xs) (auto split: option.splits)

lemma find_map_None: "find_map f xs = None \<longleftrightarrow> (\<forall>x \<in> set xs. f x = None)"
  by (induction xs) (auto split: option.splits)

text \<open>\<open>iter().map(f).collect::<Result<Vec<_>, _>>()\<close>: the first error wins.\<close>

fun collect_result :: "('a \<Rightarrow> 'e + 'b) \<Rightarrow> 'a list \<Rightarrow> 'e + 'b list" where
  "collect_result f [] = Inr []"
| "collect_result f (x # xs) =
     (case f x of Inl e \<Rightarrow> Inl e
      | Inr y \<Rightarrow> (case collect_result f xs of Inl e \<Rightarrow> Inl e | Inr ys \<Rightarrow> Inr (y # ys)))"

lemma collect_result_Inr: "collect_result f xs = Inr ys \<longleftrightarrow> map f xs = map Inr ys"
proof
  show "collect_result f xs = Inr ys \<Longrightarrow> map f xs = map Inr ys"
    by (induction xs arbitrary: ys) (auto split: sum.splits)
  show "map f xs = map Inr ys \<Longrightarrow> collect_result f xs = Inr ys"
  proof (induction xs arbitrary: ys)
    case (Cons x xs)
    then obtain y zs where "ys = y # zs" and "f x = Inr y" and "map f xs = map Inr zs"
      by (cases ys) simp_all
    moreover from this(3) have "collect_result f xs = Inr zs" by (rule Cons.IH)
    ultimately show ?case by simp
  qed simp
qed

lemma collect_result_Inl:
  "collect_result f xs = Inl e \<Longrightarrow> \<exists>x \<in> set xs. f x = Inl e"
  by (induction xs) (auto split: sum.splits)

text \<open>A loop whose body may return an error: the first error ends it.\<close>

fun fold_result :: "('a \<Rightarrow> 's \<Rightarrow> 'e + 's) \<Rightarrow> 'a list \<Rightarrow> 's \<Rightarrow> 'e + 's" where
  "fold_result f [] s = Inr s"
| "fold_result f (x # xs) s = (case f x s of Inl e \<Rightarrow> Inl e | Inr s' \<Rightarrow> fold_result f xs s')"

lemma fold_result_append:
  "fold_result f (xs @ ys) s = (case fold_result f xs s of Inl e \<Rightarrow> Inl e | Inr s' \<Rightarrow> fold_result f ys s')"
  by (induction xs arbitrary: s) (auto split: sum.splits)

lemma fold_result_Inr_Cons:
  "fold_result f (x # xs) s = Inr s' \<longleftrightarrow> (\<exists>t. f x s = Inr t \<and> fold_result f xs t = Inr s')"
  by (auto split: sum.splits)

lemma fold_result_inv:
  assumes "fold_result f xs s = Inr s'" and "P s"
    and "\<And>x s s'. x \<in> set xs \<Longrightarrow> P s \<Longrightarrow> f x s = Inr s' \<Longrightarrow> P s'"
  shows "P s'"
  using assms
proof (induction xs arbitrary: s)
  case (Cons x xs)
  from Cons.prems(1) obtain t where t: "f x s = Inr t" "fold_result f xs t = Inr s'"
    by (auto split: sum.splits)
  have "P t" by (rule Cons.prems(3) [OF _ Cons.prems(2) t(1)]) simp
  then show ?case
  proof (rule Cons.IH [OF t(2)])
    show "P s2" if "y \<in> set xs" "P s1" "f y s1 = Inr s2" for y s1 s2
      using Cons.prems(3) [of y s1 s2] that by simp
  qed
qed simp

text \<open>\<open>iter().position(|y| *y == x)\<close>.\<close>

fun position :: "'a \<Rightarrow> 'a list \<Rightarrow> nat option" where
  "position x [] = None"
| "position x (y # ys) = (if y = x then Some 0 else map_option Suc (position x ys))"

lemma position_Some: "position x ys = Some i \<Longrightarrow> i < length ys \<and> ys ! i = x"
  by (induction x ys arbitrary: i rule: position.induct) (auto split: if_splits)

lemma position_None: "position x ys = None \<longleftrightarrow> x \<notin> set ys"
  by (induction x ys rule: position.induct) auto

text \<open>The arms of a \<open>match\<close> over constants, tried in order.\<close>

fun arm :: "'a \<Rightarrow> ('a \<times> 'b) list \<Rightarrow> 'b option" where
  "arm x [] = None"
| "arm x ((k, v) # arms) = (if x = k then Some v else arm x arms)"

lemma arm_SomeD: "arm x arms = Some v \<Longrightarrow> (x, v) \<in> set arms"
  by (induction x arms rule: arm.induct) (auto split: if_splits)

section \<open>Decimal formatting\<close>

text \<open>\<open>{n}\<close> of \<open>format!\<close> for unsigned and signed integers.\<close>

definition digit_char :: "nat \<Rightarrow> char" where
  "digit_char d = char_of (48 + d)"

fun show_nat :: "nat \<Rightarrow> string" where
  "show_nat n = (if n < 10 then [digit_char n] else show_nat (n div 10) @ [digit_char (n mod 10)])"

declare show_nat.simps [simp del]

definition show_int :: "int \<Rightarrow> string" where
  "show_int v = (if v < 0 then ''-'' @ show_nat (nat (- v)) else show_nat (nat v))"

section \<open>External functions\<close>

text \<open>
  What the program takes from code that is not in the repository: BLAKE2b with 32-byte output
  (crate \<open>blake2b_simd\<close>), \<open>hex::encode\<close> and \<open>hex::decode\<close> (crate \<open>hex\<close>). Fixture files that the
  build embeds with \<open>include_bytes!\<close> are read through \<open>fixture\<close>, by file name without extension.
  \<open>json_first\<close> is the first value that the crate \<open>serde_json\<close> streams from a byte string; numbers are
  kept as their text and objects as their members in iteration order.
\<close>

datatype json =
    JNull
  | JBool bool
  | JNumber string
  | JString string
  | JArray "json list"
  | JObject "(string \<times> json) list"

record externals =
  blake2b :: "bytes \<Rightarrow> bytes"
  hex_encode :: "bytes \<Rightarrow> string"
  hex_decode :: "string \<Rightarrow> bytes option"
  fixture :: "string \<Rightarrow> bytes"
  json_first :: "bytes \<Rightarrow> json option"

text \<open>The digest has 32 bytes.\<close>

definition digest32 :: "externals \<Rightarrow> bool" where
  "digest32 X \<longleftrightarrow> (\<forall>bs. length (blake2b X bs) = 32)"

text \<open>Two lower-case digits per byte, and decoding inverts encoding.\<close>

definition hex_digit :: "nat \<Rightarrow> char" where
  "hex_digit d = (if d < 10 then char_of (48 + d) else char_of (87 + d))"

definition hex_documented :: "externals \<Rightarrow> bool" where
  "hex_documented X \<longleftrightarrow>
     (\<forall>bs. hex_encode X bs =
        concat (map (\<lambda>b. [hex_digit (unat b div 16), hex_digit (unat b mod 16)]) bs)) \<and>
     (\<forall>bs. hex_decode X (hex_encode X bs) = Some bs)"

lemma distinct_set_single: "distinct xs \<Longrightarrow> set xs = {x} \<longleftrightarrow> xs = [x]"
proof (cases xs)
  case (Cons y ys)
  assume "distinct xs"
  with Cons show ?thesis by (cases ys) auto
qed simp

lemma bs_single: "bs_of_list xs = [v] \<longleftrightarrow> xs \<noteq> [] \<and> (\<forall>x \<in> set xs. x = v)"
proof -
  have "bs_of_list xs = [v] \<longleftrightarrow> set (bs_of_list xs) = {v}"
    using distinct_set_single [of "bs_of_list xs" v] by simp
  then show ?thesis by (cases xs) auto
qed

lemma all_less_Suc: "(\<forall>i < Suc n. P i) \<longleftrightarrow> P 0 \<and> (\<forall>i < n. P (Suc i))"
  using less_Suc_eq_0_disj by auto

lemma option_eqI: "(\<And>y. a = Some y \<longleftrightarrow> b = Some y) \<Longrightarrow> a = b"
  by (cases a; cases b) auto

section \<open>Early returns\<close>

text \<open>Reading a successful result back through the early returns of a body.\<close>

lemma case_None_SomeD: "(case x of None \<Rightarrow> None | Some y \<Rightarrow> f y) = Some r \<Longrightarrow> \<exists>y. x = Some y \<and> f y = Some r"
  by (cases x) auto

lemma if_None_SomeD: "(if b then None else f) = Some r \<Longrightarrow> \<not> b \<and> f = Some r"
  by (cases b) auto

lemma case_Inl_InrD: "(case x of Inl e \<Rightarrow> Inl (h e) | Inr y \<Rightarrow> f y) = Inr r \<Longrightarrow> \<exists>y. x = Inr y \<and> f y = Inr r"
  by (cases x) auto

lemma if_Inl_InrD: "(if b then Inl e else f) = Inr r \<Longrightarrow> \<not> b \<and> f = Inr r"
  by (cases b) auto

lemmas early_return = case_None_SomeD if_None_SomeD case_Inl_InrD if_Inl_InrD

section \<open>Rewrites that settle\<close>

text \<open>
  A family of rewrites of a store, one per key, each of which changes nothing when repeated and
  never unsettles another key. Running any list of them twice is running it once.
\<close>

locale settling =
  fixes step :: "'k \<Rightarrow> 's \<Rightarrow> 's"
  assumes settles: "step k (step k s) = step k s"
    and keeps: "step k s = s \<Longrightarrow> step k (step k' s) = step k' s"
begin

lemma fold_keeps: "step k s = s \<Longrightarrow> step k (fold step ks s) = fold step ks s"
  by (induction ks arbitrary: s) (simp_all add: keeps)

lemma fold_settles: "k \<in> set ks \<Longrightarrow> step k (fold step ks s) = fold step ks s"
  by (induction ks arbitrary: s) (auto simp: settles fold_keeps)

lemma fold_fixed: "(\<And>k. k \<in> set ks \<Longrightarrow> step k s = s) \<Longrightarrow> fold step ks s = s"
  by (induction ks) auto

lemma fold_idem: "fold step ks (fold step ks s) = fold step ks s"
  by (rule fold_fixed) (rule fold_settles)

end

end
