(* ===== verification/Disasm.thy ===== *)
theory Disasm
  imports Prelude
begin

text \<open>
  The Kaspa Script disassembler (\<open>crates/kascov-decode/src/disasm.rs\<close>): the opcode table and
  the loop that cuts a script into instructions. \<open>disasm_at\<close> is the loop with its index;
  \<open>dis\<close> is the same function on the remaining suffix, which the proofs use.
\<close>

datatype op_group = GPush | GStandard | GIntrospection | GCovenant | GZk | GUnknown

record instruction =
  i_offset :: nat
  i_opcode :: u8
  i_name :: string
  i_group :: op_group
  i_data :: "bytes option"

definition push_arms :: "(u8 \<times> string \<times> op_group) list" where
  "push_arms =
  [(0x00, ''OpFalse'', GPush),
   (0x4c, ''OpPushData1'', GPush),
   (0x4d, ''OpPushData2'', GPush),
   (0x4e, ''OpPushData4'', GPush),
   (0x4f, ''Op1Negate'', GPush),
   (0x50, ''OpReserved'', GStandard),
   (0x51, ''OpTrue'', GPush),
   (0x52, ''Op2'', GPush),
   (0x53, ''Op3'', GPush),
   (0x54, ''Op4'', GPush),
   (0x55, ''Op5'', GPush),
   (0x56, ''Op6'', GPush),
   (0x57, ''Op7'', GPush),
   (0x58, ''Op8'', GPush),
   (0x59, ''Op9'', GPush),
   (0x5a, ''Op10'', GPush),
   (0x5b, ''Op11'', GPush),
   (0x5c, ''Op12'', GPush),
   (0x5d, ''Op13'', GPush),
   (0x5e, ''Op14'', GPush),
   (0x5f, ''Op15'', GPush),
   (0x60, ''Op16'', GPush)]"

definition standard_arms :: "(u8 \<times> string \<times> op_group) list" where
  "standard_arms =
  [(0x61, ''OpNop'', GStandard),
   (0x62, ''OpVer'', GStandard),
   (0x63, ''OpIf'', GStandard),
   (0x64, ''OpNotIf'', GStandard),
   (0x65, ''OpVerIf'', GStandard),
   (0x66, ''OpVerNotIf'', GStandard),
   (0x67, ''OpElse'', GStandard),
   (0x68, ''OpEndIf'', GStandard),
   (0x69, ''OpVerify'', GStandard),
   (0x6a, ''OpReturn'', GStandard),
   (0x6b, ''OpToAltStack'', GStandard),
   (0x6c, ''OpFromAltStack'', GStandard),
   (0x6d, ''Op2Drop'', GStandard),
   (0x6e, ''Op2Dup'', GStandard),
   (0x6f, ''Op3Dup'', GStandard),
   (0x70, ''Op2Over'', GStandard),
   (0x71, ''Op2Rot'', GStandard),
   (0x72, ''Op2Swap'', GStandard),
   (0x73, ''OpIfDup'', GStandard),
   (0x74, ''OpDepth'', GStandard),
   (0x75, ''OpDrop'', GStandard),
   (0x76, ''OpDup'', GStandard),
   (0x77, ''OpNip'', GStandard),
   (0x78, ''OpOver'', GStandard),
   (0x79, ''OpPick'', GStandard),
   (0x7a, ''OpRoll'', GStandard),
   (0x7b, ''OpRot'', GStandard),
   (0x7c, ''OpSwap'', GStandard),
   (0x7d, ''OpTuck'', GStandard),
   (0x7e, ''OpCat'', GStandard),
   (0x7f, ''OpSubstr'', GStandard),
   (0x80, ''OpLeft'', GStandard),
   (0x81, ''OpRight'', GStandard),
   (0x82, ''OpSize'', GStandard),
   (0x83, ''OpInvert'', GStandard),
   (0x84, ''OpAnd'', GStandard),
   (0x85, ''OpOr'', GStandard),
   (0x86, ''OpXor'', GStandard),
   (0x87, ''OpEqual'', GStandard),
   (0x88, ''OpEqualVerify'', GStandard),
   (0x89, ''OpReserved1'', GStandard),
   (0x8a, ''OpReserved2'', GStandard),
   (0x8b, ''Op1Add'', GStandard),
   (0x8c, ''Op1Sub'', GStandard),
   (0x8d, ''Op2Mul'', GStandard),
   (0x8e, ''Op2Div'', GStandard),
   (0x8f, ''OpNegate'', GStandard),
   (0x90, ''OpAbs'', GStandard),
   (0x91, ''OpNot'', GStandard),
   (0x92, ''Op0NotEqual'', GStandard),
   (0x93, ''OpAdd'', GStandard),
   (0x94, ''OpSub'', GStandard),
   (0x95, ''OpMul'', GStandard),
   (0x96, ''OpDiv'', GStandard),
   (0x97, ''OpMod'', GStandard),
   (0x98, ''OpLShift'', GStandard),
   (0x99, ''OpRShift'', GStandard),
   (0x9a, ''OpBoolAnd'', GStandard),
   (0x9b, ''OpBoolOr'', GStandard),
   (0x9c, ''OpNumEqual'', GStandard),
   (0x9d, ''OpNumEqualVerify'', GStandard),
   (0x9e, ''OpNumNotEqual'', GStandard),
   (0x9f, ''OpLessThan'', GStandard),
   (0xa0, ''OpGreaterThan'', GStandard),
   (0xa1, ''OpLessThanOrEqual'', GStandard),
   (0xa2, ''OpGreaterThanOrEqual'', GStandard),
   (0xa3, ''OpMin'', GStandard),
   (0xa4, ''OpMax'', GStandard),
   (0xa5, ''OpWithin'', GStandard),
   (0xa6, ''OpZkPrecompile'', GZk),
   (0xa7, ''OpBlake2bWithKey'', GStandard),
   (0xa8, ''OpSHA256'', GStandard),
   (0xa9, ''OpCheckMultiSigECDSA'', GStandard),
   (0xaa, ''OpBlake2b'', GStandard),
   (0xab, ''OpCheckSigECDSA'', GStandard),
   (0xac, ''OpCheckSig'', GStandard),
   (0xad, ''OpCheckSigVerify'', GStandard),
   (0xae, ''OpCheckMultiSig'', GStandard),
   (0xaf, ''OpCheckMultiSigVerify'', GStandard),
   (0xb0, ''OpCheckLockTimeVerify'', GStandard),
   (0xb1, ''OpCheckSequenceVerify'', GStandard)]"

definition toccata_arms :: "(u8 \<times> string \<times> op_group) list" where
  "toccata_arms =
  [(0xb2, ''OpTxVersion'', GIntrospection),
   (0xb3, ''OpTxInputCount'', GIntrospection),
   (0xb4, ''OpTxOutputCount'', GIntrospection),
   (0xb5, ''OpTxLockTime'', GIntrospection),
   (0xb6, ''OpTxSubnetId'', GIntrospection),
   (0xb7, ''OpTxGas'', GIntrospection),
   (0xb8, ''OpTxPayloadSubstr'', GIntrospection),
   (0xb9, ''OpTxInputIndex'', GIntrospection),
   (0xba, ''OpOutpointTxId'', GIntrospection),
   (0xbb, ''OpOutpointIndex'', GIntrospection),
   (0xbc, ''OpTxInputScriptSigSubstr'', GIntrospection),
   (0xbd, ''OpTxInputSeq'', GIntrospection),
   (0xbe, ''OpTxInputAmount'', GIntrospection),
   (0xbf, ''OpTxInputSpk'', GIntrospection),
   (0xc0, ''OpTxInputDaaScore'', GIntrospection),
   (0xc1, ''OpTxInputIsCoinbase'', GIntrospection),
   (0xc2, ''OpTxOutputAmount'', GIntrospection),
   (0xc3, ''OpTxOutputSpk'', GIntrospection),
   (0xc4, ''OpTxPayloadLen'', GIntrospection),
   (0xc5, ''OpTxInputSpkLen'', GIntrospection),
   (0xc6, ''OpTxInputSpkSubstr'', GIntrospection),
   (0xc7, ''OpTxOutputSpkLen'', GIntrospection),
   (0xc8, ''OpTxOutputSpkSubstr'', GIntrospection),
   (0xc9, ''OpTxInputScriptSigLen'', GIntrospection),
   (0xcb, ''OpAuthOutputCount'', GCovenant),
   (0xcc, ''OpAuthOutputIdx'', GCovenant),
   (0xcd, ''OpNum2Bin'', GIntrospection),
   (0xce, ''OpBin2Num'', GIntrospection),
   (0xcf, ''OpInputCovenantId'', GCovenant),
   (0xd0, ''OpCovInputCount'', GCovenant),
   (0xd1, ''OpCovInputIdx'', GCovenant),
   (0xd2, ''OpCovOutputCount'', GCovenant),
   (0xd3, ''OpCovOutputIdx'', GCovenant),
   (0xd4, ''OpChainblockSeqCommit'', GCovenant),
   (0xd5, ''OpOutputCovenantId'', GCovenant),
   (0xd6, ''OpOutputAuthorizingInput'', GCovenant),
   (0xd7, ''OpCheckSigFromStack'', GStandard),
   (0xd8, ''OpCheckSigFromStackECDSA'', GStandard),
   (0xd9, ''OpBlake3'', GStandard),
   (0xda, ''OpBlake3WithKey'', GStandard),
   (0xfa, ''OpSmallInteger'', GStandard),
   (0xfb, ''OpPubKeys'', GStandard),
   (0xfd, ''OpPubKeyHash'', GStandard),
   (0xfe, ''OpPubKey'', GStandard),
   (0xff, ''OpInvalidOpCode'', GStandard)]"

definition opcode_table :: "(u8 \<times> string \<times> op_group) list" where
  "opcode_table = push_arms @ standard_arms @ toccata_arms"

lemmas arms_defs = push_arms_def standard_arms_def toccata_arms_def

definition opcode_info :: "u8 \<Rightarrow> string \<times> op_group" where
  "opcode_info op =
     (if 0x01 \<le> op \<and> op \<le> 0x4b then (''OpData'', GPush)
      else case arm op opcode_table of
        Some info \<Rightarrow> info
      | None \<Rightarrow> (''OpUnknown'', GUnknown))"

text \<open>
  The \<open>data_len\<close> match of the loop, at index \<open>i\<close> just after the opcode: the declared payload
  length, if the opcode has one and its length bytes are there, and the advanced index.
\<close>

definition data_len_at :: "bytes \<Rightarrow> u8 \<Rightarrow> nat \<Rightarrow> nat option \<times> nat" where
  "data_len_at script op i =
     (if 0x01 \<le> op \<and> op \<le> 0x4b then (Some (unat op), i)
      else if op = 0x4c then
        (case get_at script i of Some n \<Rightarrow> (Some (unat n), i + 1) | None \<Rightarrow> (None, i))
      else if op = 0x4d then
        (case get_range script i (i + 2) of Some b \<Rightarrow> (Some (le_nat b), i + 2) | None \<Rightarrow> (None, i))
      else if op = 0x4e then
        (case get_range script i (i + 4) of Some b \<Rightarrow> (Some (le_nat b), i + 4) | None \<Rightarrow> (None, i))
      else (None, i))"

definition mk_inst :: "nat \<Rightarrow> u8 \<Rightarrow> bytes option \<Rightarrow> instruction" where
  "mk_inst off op d =
     \<lparr>i_offset = off, i_opcode = op, i_name = fst (opcode_info op),
      i_group = snd (opcode_info op), i_data = d\<rparr>"

lemma data_len_at_mono: "data_len_at script op i = (d, j) \<Longrightarrow> i \<le> j"
  by (auto simp: data_len_at_def split: if_splits option.splits)

function disasm_at :: "bytes \<Rightarrow> nat \<Rightarrow> instruction list \<times> bool" where
  "disasm_at script offset =
     (if offset < length script then
        let op = script ! offset; (data_len, i) = data_len_at script op (offset + 1) in
        (case data_len of
           None \<Rightarrow> (let (out, t) = disasm_at script i in (mk_inst offset op None # out, t))
         | Some len \<Rightarrow>
             (case get_range script i (i + len) of
                None \<Rightarrow> ([mk_inst offset op None], True)
              | Some d \<Rightarrow>
                  (let (out, t) = disasm_at script (i + len)
                   in (mk_inst offset op (Some d) # out, t))))
      else ([], False))"
  by pat_completeness auto
termination
  by (relation "measure (\<lambda>(script, offset). length script - offset)")
    (auto dest!: data_len_at_mono [OF sym])

declare disasm_at.simps [simp del]

definition disassemble :: "bytes \<Rightarrow> instruction list \<times> bool" where
  "disassemble script = disasm_at script 0"

section \<open>The suffix form\<close>

text \<open>
  \<open>push_header op rest\<close> is the declared payload length and the number of length bytes that
  precede the payload.
\<close>

definition push_header :: "u8 \<Rightarrow> bytes \<Rightarrow> (nat \<times> nat) option" where
  "push_header op rest =
     (if 0x01 \<le> op \<and> op \<le> 0x4b then Some (unat op, 0)
      else if op = 0x4c \<and> 1 \<le> length rest then Some (unat (hd rest), 1)
      else if op = 0x4d \<and> 2 \<le> length rest then Some (le_nat (take 2 rest), 2)
      else if op = 0x4e \<and> 4 \<le> length rest then Some (le_nat (take 4 rest), 4)
      else None)"

function dis :: "nat \<Rightarrow> bytes \<Rightarrow> instruction list \<times> bool" where
  "dis off [] = ([], False)"
| "dis off (op # rest) =
     (case push_header op rest of
        None \<Rightarrow> (let (out, t) = dis (Suc off) rest in (mk_inst off op None # out, t))
      | Some (len, h) \<Rightarrow>
          (if h + len \<le> length rest then
             let (out, t) = dis (Suc off + h + len) (drop (h + len) rest)
             in (mk_inst off op (Some (take len (drop h rest))) # out, t)
           else ([mk_inst off op None], True)))"
  by pat_completeness auto
termination
  by (relation "measure (\<lambda>(off, s). length s)") auto

lemma push_header_len: "push_header op rest = Some (len, h) \<Longrightarrow> h \<le> length rest"
  by (auto simp: push_header_def split: if_splits)

lemma data_len_at_header:
  assumes "script = pre @ op # rest" and "i = Suc (length pre)"
  shows "data_len_at script op i =
    (case push_header op rest of None \<Rightarrow> (None, i) | Some (len, h) \<Rightarrow> (Some len, i + h))"
  using assms
  by (cases rest)
    (auto simp: data_len_at_def push_header_def get_at_def get_range_def slice_def nth_append
      numeral_2_eq_2 split: option.splits)

lemma disasm_at_dis:
  "script = pre @ s \<Longrightarrow> off = length pre \<Longrightarrow> disasm_at script off = dis off s"
proof (induction off s arbitrary: pre rule: dis.induct)
  case (1 off)
  then show ?case by (simp add: disasm_at.simps)
next
  case (2 off op rest)
  note sc = \<open>script = pre @ op # rest\<close> and off = \<open>off = length pre\<close>
  note dl = data_len_at_header [OF sc refl]
  show ?case
  proof (cases "push_header op rest")
    case None
    have "disasm_at script (Suc off) = dis (Suc off) rest"
      by (rule "2.IH"(1) [OF None, of "pre @ [op]"]) (simp_all add: sc off)
    with None dl sc off show ?thesis
      by (subst disasm_at.simps) (simp add: nth_append)
  next
    case (Some p)
    obtain len h where p: "p = (len, h)" by (cases p)
    show ?thesis
    proof (cases "h + len \<le> length rest")
      case True
      let ?pre = "pre @ op # take (h + len) rest"
      have "disasm_at script (Suc off + h + len) = dis (Suc off + h + len) (drop (h + len) rest)"
        by (rule "2.IH"(2) [OF Some p [symmetric] True, of ?pre]) (use sc off True in simp_all)
      with True Some p dl sc off show ?thesis
        by (subst disasm_at.simps)
          (simp add: nth_append get_range_def slice_def add_ac drop_take)
    next
      case False
      with Some p dl sc off show ?thesis
        by (subst disasm_at.simps) (simp add: nth_append get_range_def)
    qed
  qed
qed

lemma disassemble_dis: "disassemble script = dis 0 script"
  using disasm_at_dis [of script "[]" script 0] by (simp add: disassemble_def)

section \<open>Assembling an instruction\<close>

text \<open>The bytes an instruction stands for: its opcode, its length bytes and its payload.\<close>

definition length_bytes :: "u8 \<Rightarrow> nat \<Rightarrow> bytes" where
  "length_bytes op n =
     (if op = 0x4c then [byte_of n] else if op = 0x4d then nat_le 2 n
      else if op = 0x4e then nat_le 4 n else [])"

definition assemble :: "instruction \<Rightarrow> bytes" where
  "assemble i = i_opcode i # (case i_data i of None \<Rightarrow> [] | Some d \<Rightarrow> length_bytes (i_opcode i) (length d) @ d)"

text \<open>
  An instruction is complete when its fields agree with the opcode table and its payload is
  exactly what its opcode declares; a push opcode without a payload is incomplete.
\<close>

definition payload_fits :: "u8 \<Rightarrow> nat \<Rightarrow> bool" where
  "payload_fits op n \<longleftrightarrow>
     (0x01 \<le> op \<and> op \<le> 0x4b \<and> n = unat op) \<or> (op = 0x4c \<and> n < 2 ^ 8) \<or>
     (op = 0x4d \<and> n < 2 ^ 16) \<or> (op = 0x4e \<and> n < 2 ^ 32)"

definition well_formed :: "instruction \<Rightarrow> bool" where
  "well_formed i \<longleftrightarrow> i = mk_inst (i_offset i) (i_opcode i) (i_data i) \<and>
     (case i_data i of
        None \<Rightarrow> \<not> (0x01 \<le> i_opcode i \<and> i_opcode i \<le> 0x4e)
      | Some d \<Rightarrow> payload_fits (i_opcode i) (length d))"

lemma mk_inst_simps [simp]:
  "i_offset (mk_inst off op d) = off" "i_opcode (mk_inst off op d) = op"
  "i_data (mk_inst off op d) = d" "i_group (mk_inst off op d) = snd (opcode_info op)"
  "i_name (mk_inst off op d) = fst (opcode_info op)"
  by (simp_all add: mk_inst_def)

lemma push_header_fits:
  assumes "payload_fits op n"
  shows "push_header op (length_bytes op n @ rest) = Some (n, length (length_bytes op n))"
  using assms unfolding payload_fits_def push_header_def length_bytes_def
  by (auto simp: le_nat_nat_le)

lemma dis_assemble:
  assumes "well_formed i" and "i_offset i = off"
  shows "dis off (assemble i @ rest) =
    (let (out, t) = dis (off + length (assemble i)) rest in (i # out, t))"
proof (cases "i_data i")
  case None
  have "\<not> (0x01 \<le> i_opcode i \<and> i_opcode i \<le> 0x4b)" and
    "i_opcode i \<noteq> 0x4c \<and> i_opcode i \<noteq> 0x4d \<and> i_opcode i \<noteq> 0x4e"
    using assms(1) None by (auto simp: well_formed_def word_le_nat_alt)
  then have "push_header (i_opcode i) rest = None"
    by (auto simp: push_header_def)
  moreover have "i = mk_inst off (i_opcode i) None"
    using assms None by (simp add: well_formed_def)
  ultimately show ?thesis
    using None by (simp add: assemble_def)
next
  case (Some d)
  let ?op = "i_opcode i" and ?n = "length d"
  have fits: "payload_fits ?op ?n" and eq: "mk_inst off ?op (Some d) = i"
    using assms Some by (simp_all add: well_formed_def)
  have "push_header ?op (length_bytes ?op ?n @ d @ rest) = Some (?n, length (length_bytes ?op ?n))"
    by (rule push_header_fits [OF fits])
  then show ?thesis
    using Some eq by (simp add: assemble_def add.assoc)
qed

text \<open>Every instruction of a disassembly assembles to the bytes it was read from.\<close>

lemma push_header_bytes:
  assumes "push_header op rest = Some (len, h)" and "h + len \<le> length rest"
  shows "payload_fits op len \<and> length_bytes op len = take h rest"
proof -
  consider (small) "0x01 \<le> op \<and> op \<le> 0x4b" "len = unat op" "h = 0"
    | (one) "op = 0x4c" "h = 1" "len = unat (hd rest)" "1 \<le> length rest"
    | (two) "op = 0x4d" "h = 2" "len = le_nat (take 2 rest)" "2 \<le> length rest"
    | (four) "op = 0x4e" "h = 4" "len = le_nat (take 4 rest)" "4 \<le> length rest"
    using assms(1) unfolding push_header_def by (auto split: if_splits)
  then show ?thesis
  proof cases
    case small
    moreover from small(1) have "op \<noteq> 0x4c \<and> op \<noteq> 0x4d \<and> op \<noteq> 0x4e"
      by (auto simp: word_le_nat_alt)
    ultimately show ?thesis by (simp add: payload_fits_def length_bytes_def)
  next
    case one
    then show ?thesis
      by (cases rest) (auto simp: payload_fits_def length_bytes_def)
  next
    case two
    then have "le_nat (take 2 rest) < 2 ^ 16"
      using le_nat_bound [of "take 2 rest"] by simp
    with two show ?thesis
      using nat_le_le_nat [of "take 2 rest"]
      by (simp add: payload_fits_def length_bytes_def)
  next
    case four
    then have "le_nat (take 4 rest) < 2 ^ 32"
      using le_nat_bound [of "take 4 rest"] by simp
    with four show ?thesis
      using nat_le_le_nat [of "take 4 rest"]
      by (simp add: payload_fits_def length_bytes_def)
  qed
qed

lemma assemble_read:
  assumes "push_header op rest = Some (len, h)" and "h + len \<le> length rest"
  shows "assemble (mk_inst off op (Some (take len (drop h rest)))) = op # take (h + len) rest"
proof -
  have "length (take len (drop h rest)) = len" using assms(2) by simp
  then show ?thesis
    using push_header_bytes [OF assms] by (simp add: assemble_def take_add)
qed

text \<open>
  \<open>tiles off out\<close>: the instructions lie end to end from offset \<open>off\<close>.
\<close>

fun tiles :: "nat \<Rightarrow> instruction list \<Rightarrow> bool" where
  "tiles off [] = True"
| "tiles off (i # is) = (i_offset i = off \<and> tiles (off + length (assemble i)) is)"

lemma dis_tiles:
  "dis off s = (out, t) \<Longrightarrow>
     tiles off out \<and> (t \<longrightarrow> out \<noteq> []) \<and>
     (\<exists>tail. s = concat (map assemble (if t then butlast out else out)) @ tail
        \<and> (tail = [] \<longleftrightarrow> \<not> t) \<and> (t \<longrightarrow> hd tail = i_opcode (last out) \<and> i_data (last out) = None))"
proof (induction off s arbitrary: out t rule: dis.induct)
  case (1 off)
  then show ?case by simp
next
  case (2 off op rest)
  show ?case
  proof (cases "push_header op rest")
    case None
    obtain o1 t1 where d: "dis (Suc off) rest = (o1, t1)" by force
    then have out: "out = mk_inst off op None # o1" "t1 = t"
      using "2.prems" None by simp_all
    have "assemble (mk_inst off op None) = [op]" by (simp add: assemble_def)
    with "2.IH"(1) [OF None d] show ?thesis unfolding out by auto
  next
    case (Some p)
    obtain len h where p: "p = (len, h)" by (cases p)
    show ?thesis
    proof (cases "h + len \<le> length rest")
      case True
      obtain o1 t1 where d: "dis (Suc off + h + len) (drop (h + len) rest) = (o1, t1)" by force
      let ?i = "mk_inst off op (Some (take len (drop h rest)))"
      have out: "out = ?i # o1" "t1 = t"
        using "2.prems" Some p True d by simp_all
      have a: "assemble ?i = op # take (h + len) rest"
        using Some p True by (simp add: assemble_read)
      obtain tail where
        "drop (h + len) rest = concat (map assemble (if t1 then butlast o1 else o1)) @ tail"
        and tl: "tail = [] \<longleftrightarrow> \<not> t1" "t1 \<longrightarrow> hd tail = i_opcode (last o1) \<and> i_data (last o1) = None"
        and o1: "tiles (Suc off + h + len) o1" "t1 \<longrightarrow> o1 \<noteq> []"
        using "2.IH"(2) [OF Some p [symmetric] True d] by blast
      then have "op # rest = assemble ?i @ concat (map assemble (if t1 then butlast o1 else o1)) @ tail"
        using append_take_drop_id [of "h + len" rest] a by simp
      moreover have "(if t then butlast out else out) = ?i # (if t1 then butlast o1 else o1)"
        using o1 out by simp
      ultimately have "op # rest = concat (map assemble (if t then butlast out else out)) @ tail"
        by simp
      moreover have "tiles off out"
        using o1 a True by (simp add: out add.assoc)
      ultimately show ?thesis
        using tl o1 unfolding out by auto
    next
      case False
      then show ?thesis using "2.prems" Some p by (auto simp: assemble_def)
    qed
  qed
qed

lemma dis_complete:
  "dis off s = (out, t) \<Longrightarrow> i \<in> set out \<Longrightarrow> i_data i = Some d \<Longrightarrow> well_formed i"
proof (induction off s arbitrary: out t rule: dis.induct)
  case (2 off op rest)
  show ?case
  proof (cases "push_header op rest")
    case None
    obtain o1 t1 where d: "dis (Suc off) rest = (o1, t1)" by force
    with None "2.prems" "2.IH"(1) [OF None d] show ?thesis by auto
  next
    case (Some p)
    obtain len h where p: "p = (len, h)" by (cases p)
    show ?thesis
    proof (cases "h + len \<le> length rest")
      case True
      obtain o1 t1 where d: "dis (Suc off + h + len) (drop (h + len) rest) = (o1, t1)" by force
      have "length (take len (drop h rest)) = len" using True by simp
      then have "well_formed (mk_inst off op (Some (take len (drop h rest))))"
        using push_header_bytes [of op rest len h] Some p True by (simp add: well_formed_def)
      with "2.prems" Some p True d "2.IH"(2) [OF Some p [symmetric] True d] show ?thesis by auto
    next
      case False
      then show ?thesis using "2.prems" Some p by auto
    qed
  qed
qed simp

lemma dis_mk_inst:
  "dis off s = (out, t) \<Longrightarrow> i \<in> set out \<Longrightarrow> i = mk_inst (i_offset i) (i_opcode i) (i_data i)"
proof (induction off s arbitrary: out t rule: dis.induct)
  case (2 off op rest)
  then show ?case
    by (auto split: option.splits prod.splits if_splits)
qed simp

text \<open>A script whose instructions are all complete can be read in front of any other.\<close>

lemma dis_append:
  assumes "dis off a = (out, False)" and "\<forall>i \<in> set out. well_formed i"
  shows "dis off (a @ b) =
    (let (out', t) = dis (off + length a) b in (out @ out', t))"
proof -
  have "dis off (concat (map assemble is) @ b) =
      (let (out', t) = dis (off + length (concat (map assemble is))) b in (is @ out', t))"
    if "tiles off is" "\<forall>i \<in> set is. well_formed i" for "is"
    using that
  proof (induction "is" arbitrary: off)
    case (Cons i "is")
    then show ?case
      by (simp add: dis_assemble Cons.IH split_beta Let_def add.assoc)
  qed (simp add: Let_def)
  from this [of out] show ?thesis
    using dis_tiles [OF assms(1)] assms(2) by auto
qed

section \<open>Which opcodes push\<close>

lemma opcode_table_sorted: "sorted_wrt (<) (map fst opcode_table)"
proof -
  have "successively (<) (map fst opcode_table)"
    unfolding opcode_table_def arms_defs append.simps list.map fst_conv by simp
  then show ?thesis
    by (subst (asm) successively_conv_sorted_wrt) (auto intro!: transpI)
qed

lemma arm_sorted:
  "sorted_wrt (<) (map fst arms) \<Longrightarrow> (k :: 'a :: linorder, v) \<in> set arms \<Longrightarrow> arm k arms = Some v"
  by (induction k arms rule: arm.induct) (auto simp: image_iff)

lemma opcode_arm: "arm op opcode_table = Some v \<longleftrightarrow> (op, v) \<in> set opcode_table"
proof
  show "(op, v) \<in> set opcode_table \<Longrightarrow> arm op opcode_table = Some v"
    by (rule arm_sorted [OF opcode_table_sorted])
qed (rule arm_SomeD)

lemma push_entries:
  "set [(0x00, ''OpFalse'', GPush),
   (0x4c, ''OpPushData1'', GPush),
   (0x4d, ''OpPushData2'', GPush),
   (0x4e, ''OpPushData4'', GPush),
   (0x4f, ''Op1Negate'', GPush),
   (0x51, ''OpTrue'', GPush),
   (0x52, ''Op2'', GPush),
   (0x53, ''Op3'', GPush),
   (0x54, ''Op4'', GPush),
   (0x55, ''Op5'', GPush),
   (0x56, ''Op6'', GPush),
   (0x57, ''Op7'', GPush),
   (0x58, ''Op8'', GPush),
   (0x59, ''Op9'', GPush),
   (0x5a, ''Op10'', GPush),
   (0x5b, ''Op11'', GPush),
   (0x5c, ''Op12'', GPush),
   (0x5d, ''Op13'', GPush),
   (0x5e, ''Op14'', GPush),
   (0x5f, ''Op15'', GPush),
   (0x60, ''Op16'', GPush)]
   \<subseteq> set opcode_table"
  by (simp only: opcode_table_def set_append push_arms_def list.set Un_iff insert_subset insert_iff
      refl simp_thms empty_subsetI)

lemma push_entries_only: "(op, n, GPush) \<in> set opcode_table \<Longrightarrow> op \<le> 0x4f \<or> (0x51 \<le> op \<and> op \<le> 0x60)"
  by (auto simp: opcode_table_def arms_defs)

lemma small_int_ops:
  fixes op :: u8
  assumes "0x51 \<le> op" and "op \<le> 0x60"
  shows "op \<in> set [0x51, 0x52, 0x53, 0x54, 0x55, 0x56, 0x57, 0x58, 0x59, 0x5a, 0x5b, 0x5c, 0x5d, 0x5e, 0x5f, 0x60]"
proof -
  have "unat op \<in> set [0x51, 0x52, 0x53, 0x54, 0x55, 0x56, 0x57, 0x58, 0x59, 0x5a, 0x5b, 0x5c, 0x5d, 0x5e, 0x5f, 0x60]"
    using assms unfolding word_le_nat_alt by simp arith
  then have "byte_of (unat op) \<in> byte_of ` set [0x51, 0x52, 0x53, 0x54, 0x55, 0x56, 0x57, 0x58, 0x59, 0x5a, 0x5b, 0x5c, 0x5d, 0x5e, 0x5f, 0x60]"
    by (rule imageI)
  then show ?thesis by simp
qed

lemma table_push:
  assumes "op \<in> {0x00, 0x4c, 0x4d, 0x4e, 0x4f} \<or> (0x51 \<le> op \<and> op \<le> 0x60)"
  shows "\<exists>n. (op, n, GPush) \<in> set opcode_table"
  using assms small_int_ops [of op] push_entries by auto

lemma opcode_push: "snd (opcode_info op) = GPush \<longleftrightarrow> op \<le> 0x4f \<or> (0x51 \<le> op \<and> op \<le> 0x60)"
proof (cases "1 \<le> op \<and> op \<le> 0x4b")
  case True
  then show ?thesis by (auto simp: opcode_info_def word_le_nat_alt)
next
  case False
  have "snd (opcode_info op) = GPush \<longleftrightarrow> (\<exists>n. (op, n, GPush) \<in> set opcode_table)"
    using False by (auto simp: opcode_info_def opcode_arm [symmetric] split: option.splits)
  also have "\<dots> \<longleftrightarrow> op \<le> 0x4f \<or> (0x51 \<le> op \<and> op \<le> 0x60)"
  proof
    assume "op \<le> 0x4f \<or> (0x51 \<le> op \<and> op \<le> 0x60)"
    moreover have "op \<in> {0x00, 0x4c, 0x4d, 0x4e, 0x4f}" if "op \<le> 0x4f"
    proof -
      have "unat op \<in> {0, 0x4c, 0x4d, 0x4e, 0x4f}"
        using False that unfolding word_le_nat_alt by simp arith
      then show ?thesis by (auto simp: word_unat_eq_iff)
    qed
    ultimately show "\<exists>n. (op, n, GPush) \<in> set opcode_table"
      by (intro table_push) blast
  qed (auto dest: push_entries_only)
  finally show ?thesis .
qed

section \<open>What a disassembly says about its script\<close>

text \<open>C38. Disassembly is lossless: the instructions lie end to end from offset 0 and assemble to the
  script again. When the flag is set, the last instruction is a push without its payload and the
  bytes from it on are the only ones the instructions do not account for.\<close>

theorem disassemble_lossless:
  assumes "disassemble script = (insts, truncated)"
  shows "tiles 0 insts \<and>
    (if truncated then insts \<noteq> [] \<and> i_data (last insts) = None \<and>
       (\<exists>rest. script = concat (map assemble (butlast insts)) @ i_opcode (last insts) # rest)
     else script = concat (map assemble insts))"
proof -
  from assms have d: "dis 0 script = (insts, truncated)" by (simp add: disassemble_dis)
  from dis_tiles [OF d] obtain rest where "tiles 0 insts" "truncated \<longrightarrow> insts \<noteq> []"
    and s: "script = concat (map assemble (if truncated then butlast insts else insts)) @ rest"
    and t: "rest = [] \<longleftrightarrow> \<not> truncated"
      "truncated \<longrightarrow> hd rest = i_opcode (last insts) \<and> i_data (last insts) = None" by blast
  moreover have "rest = i_opcode (last insts) # tl rest" if truncated
    using t that by (cases rest) auto
  ultimately show ?thesis by (metis append_Nil2)
qed

lemma disassemble_lossless_witness:
  "tiles 0 [mk_inst 0 0x51 None, mk_inst 1 2 None] \<and>
   (\<exists>rest. [0x51, 2, 7] = concat (map assemble [mk_inst 0 0x51 None]) @ 2 # rest)"
proof -
  have "disassemble [0x51, 2, 7] = ([mk_inst 0 0x51 None, mk_inst 1 2 None], True)" by code_simp
  from disassemble_lossless [OF this] show ?thesis by simp
qed

text \<open>The same instruction further on in a longer script.\<close>

definition moved :: "nat \<Rightarrow> instruction \<Rightarrow> instruction" where
  "moved k i = i\<lparr>i_offset := i_offset i + k\<rparr>"

lemma moved_mk_inst [simp]: "moved k (mk_inst off op data) = mk_inst (off + k) op data"
  by (simp add: moved_def mk_inst_def)

lemma dis_moved: "dis (off + k) s = apfst (map (moved k)) (dis off s)"
  by (induction off s rule: dis.induct) (auto simp: Let_def ac_simps split: option.splits prod.splits)

text \<open>When a script ends before the length bytes of an OpPushData instruction are complete, the opcode
  is read as an instruction without data, the length bytes that are there are read again as opcodes, and the
  flag is that of this second reading: it is clear when no length byte is there, or when those that are
  happen to read as whole instructions, and it is set when they read as a push that runs past the end.\<close>

theorem cut_length_bytes_reread:
  assumes "disassemble script = (insts, False)" and "list_all well_formed insts"
    and "op = 0x4c \<and> tail = [] \<or> op = 0x4d \<and> length tail < 2 \<or> op = 0x4e \<and> length tail < 4"
  shows "disassemble (script @ op # tail) =
    (insts @ mk_inst (length script) op None # map (moved (Suc (length script))) (fst (disassemble tail)),
     snd (disassemble tail))"
proof -
  have c: "\<forall>i \<in> set insts. well_formed i" using assms(2) by (simp add: list_all_iff)
  have d: "dis 0 script = (insts, False)" using assms(1) by (simp add: disassemble_dis)
  have "push_header op tail = None" using assms(3) by (auto simp: push_header_def)
  moreover have "dis (Suc (length script)) tail = apfst (map (moved (Suc (length script)))) (disassemble tail)"
    using dis_moved [of 0 "Suc (length script)" tail] by (simp add: disassemble_dis)
  ultimately have "dis (0 + length script) (op # tail) =
      (mk_inst (length script) op None # map (moved (Suc (length script))) (fst (disassemble tail)), snd (disassemble tail))"
    by (simp add: Let_def split_beta)
  with dis_append [OF d c, of "op # tail"] show ?thesis by (simp add: disassemble_dis)
qed

lemma cut_length_bytes_reread_witness:
  "disassemble ([1, 9] @ 0x4d # [0x51]) = ([mk_inst 0 1 (Some [9]), mk_inst 2 0x4d None, mk_inst 3 0x51 None], False) \<and>
   disassemble ([1, 9] @ 0x4d # [5]) = ([mk_inst 0 1 (Some [9]), mk_inst 2 0x4d None, mk_inst 3 5 None], True)"
proof -
  have "disassemble [1, 9] = ([mk_inst 0 1 (Some [9])], False) \<and> list_all well_formed [mk_inst 0 1 (Some [9])] \<and>
    disassemble [0x51] = ([mk_inst 0 0x51 None], False) \<and> disassemble [5] = ([mk_inst 0 5 None], True)" by code_simp
  then have s: "disassemble [1, 9] = ([mk_inst 0 1 (Some [9])], False)" "list_all well_formed [mk_inst 0 1 (Some [9])]"
    and t: "disassemble [0x51] = ([mk_inst 0 0x51 None], False)" "disassemble [5] = ([mk_inst 0 5 None], True)" by blast+
  from cut_length_bytes_reread [OF s, of "0x4d" "[0x51]"] cut_length_bytes_reread [OF s, of "0x4d" "[5]"]
  show ?thesis by (simp add: t)
qed

end
