(* ===== verification/Push_Codec.thy ===== *)
theory Push_Codec
  imports Disasm
begin

text \<open>
  The two push encodings: \<open>encode_push\<close> of \<open>kascov-decode/src/lib.rs\<close> (minimal, numeric opcodes
  where they exist) and \<open>push_explicit\<close> of \<open>kcc1.rs\<close> (length forms only), with the byte-exact
  readers of \<open>kcc1.rs\<close>. Both pairs are instances of one contract, the locale \<open>prefix_codec\<close>.
\<close>

section \<open>The contract of a self-delimiting codec\<close>

locale prefix_codec =
  fixes enc :: "'a \<Rightarrow> bytes"
    and dec :: "bytes \<Rightarrow> ('a \<times> nat) option"
    and fits :: "'a \<Rightarrow> bool"
  assumes dec_enc: "fits x \<Longrightarrow> dec (enc x @ rest) = Some (x, length (enc x))"
    and enc_dec: "dec s = Some (x, n) \<Longrightarrow> n \<le> length s \<and> take n s = enc x"
    and enc_nonempty: "enc x \<noteq> []"
begin

lemma consumed_pos: "dec s = Some (x, n) \<Longrightarrow> 0 < n \<and> n = length (enc x)"
  using enc_dec [of s x n] enc_nonempty [of x] by (metis gr0I length_take min.absorb2 take0)

lemma split_input: "dec s = Some (x, n) \<Longrightarrow> s = enc x @ drop n s"
  using enc_dec [of s x n] by (metis append_take_drop_id)

lemma dec_iff:
  assumes "fits x"
  shows "dec s = Some (x, n) \<longleftrightarrow> n = length (enc x) \<and> take n s = enc x"
proof
  assume "n = length (enc x) \<and> take n s = enc x"
  then have "s = enc x @ drop n s" by (metis append_take_drop_id)
  then show "dec s = Some (x, n)"
    using dec_enc [OF assms, of "drop n s"] \<open>n = length (enc x) \<and> _\<close> by simp
qed (auto dest: enc_dec consumed_pos)

lemma prefix_free: "fits x \<Longrightarrow> fits y \<Longrightarrow> enc x @ r = enc y @ r' \<Longrightarrow> x = y \<and> r = r'"
  using dec_enc [of x r] dec_enc [of y r'] by auto

lemma enc_inj: "fits x \<Longrightarrow> fits y \<Longrightarrow> enc x = enc y \<Longrightarrow> x = y"
  using prefix_free [of x y "[]" "[]"] by simp

end

text \<open>A reader that repeats the codec until the input is used up.\<close>

locale prefix_stream = prefix_codec +
  fixes dec_all :: "bytes \<Rightarrow> 'a list option"
  assumes dec_all_Nil: "dec_all [] = Some []"
    and dec_all_step: "s \<noteq> [] \<Longrightarrow> dec_all s =
      (case dec s of None \<Rightarrow> None | Some (x, n) \<Rightarrow> map_option ((#) x) (dec_all (drop n s)))"
begin

lemma dec_all_concat: "(\<And>x. x \<in> set xs \<Longrightarrow> fits x) \<Longrightarrow> dec_all (concat (map enc xs)) = Some xs"
proof (induction xs)
  case (Cons x xs)
  have "dec (enc x @ concat (map enc xs)) = Some (x, length (enc x))"
    by (rule dec_enc) (simp add: Cons.prems)
  with Cons show ?case
    by (simp add: dec_all_step enc_nonempty)
qed (simp add: dec_all_Nil)

lemma dec_all_sound: "dec_all s = Some xs \<Longrightarrow> s = concat (map enc xs)"
proof (induction xs arbitrary: s)
  case Nil
  then show ?case
    by (cases "s = []") (auto simp: dec_all_step split: option.splits)
next
  case (Cons x xs)
  then have "s \<noteq> []" using dec_all_Nil by force
  with Cons.prems obtain n where n: "dec s = Some (x, n)" and "dec_all (drop n s) = Some xs"
    by (auto simp: dec_all_step split: option.splits)
  then show ?case using Cons.IH split_input [OF n] by simp
qed

end

section \<open>The minimal form\<close>

definition encode_push :: "bytes \<Rightarrow> bytes" where
  "encode_push value =
     (if value = [] then [0x00]
      else if value = [0x81] then [0x4f]
      else if length value = 1 \<and> 1 \<le> hd value \<and> hd value \<le> 16 then [0x50 + hd value]
      else if length value \<le> 75 then byte_of (length value) # value
      else if length value \<le> 0xff then [0x4c, byte_of (length value)] @ value
      else if length value \<le> 0xffff then 0x4d # nat_le 2 (length value) @ value
      else 0x4e # nat_le 4 (length value) @ value)"

definition read_push_minimal :: "bytes \<Rightarrow> (bytes \<times> nat) option" where
  "read_push_minimal script =
     (case script of [] \<Rightarrow> None
      | op # rest \<Rightarrow>
          (case
             (if op = 0x00 then Some ([], 1)
              else if op = 0x4f then Some ([0x81], 1)
              else if 0x51 \<le> op \<and> op \<le> 0x60 then Some ([op - 0x50], 1)
              else if 1 \<le> op \<and> op \<le> 75 then
                map_option (\<lambda>p. (p, 1 + unat op)) (get_range rest 0 (unat op))
              else if op = 0x4c then
                Option.bind (get_at rest 0) (\<lambda>b. let n = unat b in
                  map_option (\<lambda>p. (p, 2 + n)) (get_range rest 1 (1 + n)))
              else if op = 0x4d then
                Option.bind (get_range rest 0 2) (\<lambda>b. let n = le_nat b in
                  map_option (\<lambda>p. (p, 3 + n)) (get_range rest 2 (2 + n)))
              else if op = 0x4e then
                Option.bind (get_range rest 0 4) (\<lambda>b. let n = le_nat b in
                  map_option (\<lambda>p. (p, 5 + n)) (get_range rest 4 (4 + n)))
              else None)
           of None \<Rightarrow> None
            | Some (payload, consumed) \<Rightarrow>
                if encode_push payload = take consumed script
                then Some (payload, consumed) else None))"

section \<open>The explicit form\<close>

definition push_explicit :: "bytes \<Rightarrow> bytes" where
  "push_explicit payload =
     (let n = length payload in
      if n = 0 then [0x00]
      else if n \<le> 75 then byte_of n # payload
      else if n \<le> 0xff then [0x4c, byte_of n] @ payload
      else if n \<le> 0xffff then 0x4d # nat_le 2 n @ payload
      else 0x4e # nat_le 4 n @ payload)"

definition read_push_explicit :: "bytes \<Rightarrow> (bytes \<times> nat) option" where
  "read_push_explicit script =
     (case script of [] \<Rightarrow> None
      | op # rest \<Rightarrow>
          if op = 0x00 then Some ([], 1)
          else
            (case
               (if 1 \<le> op \<and> op \<le> 75 then Some (unat op, 1)
                else if op = 0x4c then
                  Option.bind (get_at rest 0) (\<lambda>b. let n = unat b in
                    if n < 76 then None else Some (n, 2))
                else if op = 0x4d then
                  Option.bind (get_range rest 0 2) (\<lambda>b. let n = le_nat b in
                    if n < 0x100 then None else Some (n, 3))
                else if op = 0x4e then
                  Option.bind (get_range rest 0 4) (\<lambda>b. let n = le_nat b in
                    if n < 0x10000 then None else Some (n, 5))
                else None)
             of None \<Rightarrow> None
              | Some (len, header) \<Rightarrow>
                  map_option (\<lambda>payload. (payload, header + len))
                    (get_range script header (header + len))))"

text \<open>A Rust slice is shorter than the 32-bit length field of the widest form.\<close>

abbreviation push_len_ok :: "bytes \<Rightarrow> bool" where
  "push_len_ok p \<equiv> length p < 2 ^ 32"

lemma push_explicit_nonempty: "push_explicit p \<noteq> []"
  by (simp add: push_explicit_def Let_def)

lemma push_explicit_form:
  "0 < length d \<Longrightarrow> length d \<le> 75 \<Longrightarrow> push_explicit d = byte_of (length d) # d"
  "75 < length d \<Longrightarrow> length d \<le> 0xff \<Longrightarrow> push_explicit d = 0x4c # byte_of (length d) # d"
  "0xff < length d \<Longrightarrow> length d \<le> 0xffff \<Longrightarrow> push_explicit d = 0x4d # nat_le 2 (length d) @ d"
  "0xffff < length d \<Longrightarrow> push_explicit d = 0x4e # nat_le 4 (length d) @ d"
  by (auto simp: push_explicit_def Let_def)

lemma byte_of_small_op:
  assumes "0 < n" and "n \<le> 75"
  shows "(1 :: u8) \<le> byte_of n" "byte_of n \<le> (75 :: u8)" "byte_of n \<noteq> (0 :: u8)"
    "byte_of n \<noteq> (0x4f :: u8)" "\<not> 0x51 \<le> (byte_of n :: u8)"
  using assms by (simp_all add: word_le_nat_alt byte_of_eq_iff)

lemma read_push_explicit_enc:
  assumes "push_len_ok p"
  shows "read_push_explicit (push_explicit p @ rest) = Some (p, length (push_explicit p))"
proof -
  let ?n = "length p"
  consider (none) "?n = 0" | (small) "0 < ?n" "?n \<le> 75" | (one) "75 < ?n" "?n \<le> 0xff"
    | (two) "0xff < ?n" "?n \<le> 0xffff" | (four) "0xffff < ?n"
    by linarith
  then show ?thesis
  proof cases
    case none
    then show ?thesis by (simp add: push_explicit_def read_push_explicit_def)
  next
    case small
    note f = push_explicit_form(1) [OF small]
    show ?thesis
      unfolding f using byte_of_small_op [OF small] small(2)
      by (simp add: read_push_explicit_def get_range_def slice_def)
  next
    case one
    note f = push_explicit_form(2) [OF one]
    show ?thesis
      unfolding f using one
      by (simp add: read_push_explicit_def get_range_def get_at_def slice_def word_le_nat_alt Let_def
          drop_Cons')
  next
    case two
    note f = push_explicit_form(3) [OF two]
    show ?thesis
      unfolding f using two
      by (simp add: read_push_explicit_def get_range_def slice_def word_le_nat_alt le_nat_nat_le
          Let_def drop_Cons')
  next
    case four
    note f = push_explicit_form(4) [OF four]
    show ?thesis
      unfolding f using four assms
      by (simp add: read_push_explicit_def get_range_def slice_def word_le_nat_alt le_nat_nat_le
          Let_def drop_Cons')
  qed
qed

lemma word_small_cases:
  assumes "\<not> (1 \<le> op \<and> op \<le> (75 :: u8))" and "op \<noteq> 0"
  shows "75 < unat op"
  using assms by (auto simp: word_le_nat_alt not_le word_unat_eq_iff)

lemma push_explicit_dec:
  assumes "read_push_explicit s = Some (x, n)"
  shows "n \<le> length s \<and> take n s = push_explicit x"
proof -
  obtain op rest where s: "s = op # rest"
    using assms by (cases s) (auto simp: read_push_explicit_def)
  show ?thesis
  proof (cases "op = 0")
    case True
    with assms s show ?thesis by (auto simp: read_push_explicit_def push_explicit_def)
  next
    case False
    consider (small) "1 \<le> op" "op \<le> 75" | (one) "op = 0x4c" | (two) "op = 0x4d" | (four) "op = 0x4e"
      using assms s False by (auto simp: read_push_explicit_def split: if_splits)
    then show ?thesis
    proof cases
      case small
      then have "n = 1 + unat op" "x = take (unat op) rest" "unat op \<le> length rest"
        using assms s False
        by (auto simp: read_push_explicit_def get_range_def slice_def split: if_splits)
      moreover have "0 < unat op" "unat op \<le> 75"
        using small by (simp_all add: word_le_nat_alt)
      ultimately show ?thesis
        using s by (simp add: push_explicit_form min_def)
    next
      case one
      then obtain b r where r: "rest = b # r"
        using assms s by (cases rest) (auto simp: read_push_explicit_def get_at_def)
      then have "n = 2 + unat b" "x = take (unat b) r" "unat b \<le> length r" "75 < unat b"
        using assms s one
        by (auto simp: read_push_explicit_def get_at_def get_range_def slice_def Let_def
            split: if_splits)
      moreover have "unat b \<le> 0xff" using unat_lt_256 [of b] by linarith
      ultimately show ?thesis
        using s r one by (simp add: push_explicit_form min_def)
    next
      case two
      let ?b = "take 2 rest"
      let ?k = "le_nat ?b"
      have l: "2 \<le> length rest"
        using assms s two by (auto simp: read_push_explicit_def get_range_def split: if_splits)
      then have n: "n = 3 + ?k" "x = take ?k (drop 2 rest)" "?k \<le> length (drop 2 rest)" "0xff < ?k"
        using assms s two
        by (auto simp: read_push_explicit_def get_range_def slice_def Let_def split: if_splits)
      moreover have "?k \<le> 0xffff"
        using le_nat_bound [of ?b] l by simp
      moreover have "nat_le 2 ?k = ?b"
        using nat_le_le_nat [of ?b] l by simp
      moreover have "take n s = 0x4d # ?b @ x"
        using s two n(1,2) take_add [of 2 ?k rest] by (simp add: take_Cons')
      ultimately show ?thesis
        using s l by (simp add: push_explicit_form min_def)
    next
      case four
      let ?b = "take 4 rest"
      let ?k = "le_nat ?b"
      have l: "4 \<le> length rest"
        using assms s four by (auto simp: read_push_explicit_def get_range_def split: if_splits)
      then have n: "n = 5 + ?k" "x = take ?k (drop 4 rest)" "?k \<le> length (drop 4 rest)" "0xffff < ?k"
        using assms s four
        by (auto simp: read_push_explicit_def get_range_def slice_def Let_def split: if_splits)
      moreover have "nat_le 4 ?k = ?b"
        using nat_le_le_nat [of ?b] l by simp
      moreover have "take n s = 0x4e # ?b @ x"
        using s four n(1,2) take_add [of 4 ?k rest] by (simp add: take_Cons')
      ultimately show ?thesis
        using s l by (simp add: push_explicit_form min_def)
    qed
  qed
qed

interpretation explicit: prefix_codec push_explicit read_push_explicit push_len_ok
  by unfold_locales
    (use push_explicit_dec in \<open>auto simp: read_push_explicit_enc push_explicit_nonempty\<close>)

section \<open>The minimal form is a codec\<close>

lemma encode_push_nonempty: "encode_push p \<noteq> []"
  by (simp add: encode_push_def)

lemma encode_push_small_op:
  assumes "0x51 \<le> op" and "op \<le> (0x60 :: u8)"
  shows "encode_push [op - 0x50] = [op]"
proof -
  have "unat (op - 0x50) = unat op - 80"
    using assms by (simp add: unat_sub word_le_nat_alt)
  then have "1 \<le> op - 0x50" "op - 0x50 \<le> 16"
    using assms by (simp_all add: word_le_nat_alt)
  moreover from this(2) have "op - 0x50 \<noteq> 0x81"
    by (auto simp: word_le_nat_alt)
  ultimately show ?thesis by (simp add: encode_push_def)
qed

lemma read_push_minimal_enc:
  assumes "push_len_ok p"
  shows "read_push_minimal (encode_push p @ rest) = Some (p, length (encode_push p))"
proof -
  let ?n = "length p"
  consider (nil) "p = []" | (neg) "p = [0x81]" | (num) v where "p = [v]" "1 \<le> v" "v \<le> 16"
    | (data) "p \<noteq> []" "p \<noteq> [0x81]" "\<not> (?n = 1 \<and> 1 \<le> hd p \<and> hd p \<le> 16)"
    by (cases p) auto
  then show ?thesis
  proof cases
    case nil
    then show ?thesis by (simp add: encode_push_def read_push_minimal_def)
  next
    case neg
    then show ?thesis by (simp add: encode_push_def read_push_minimal_def)
  next
    case (num v)
    let ?op = "0x50 + v"
    have u: "unat ?op = 80 + unat v"
      using num by (simp add: unat_add_lem [THEN iffD1] word_le_nat_alt)
    then have op: "0x51 \<le> ?op" "?op \<le> 0x60" "?op \<noteq> 0" "?op \<noteq> 0x4f" "?op - 0x50 = v"
      using num by (auto simp: word_le_nat_alt word_unat_eq_iff)
    then have "encode_push p = [?op]"
      using encode_push_small_op [of ?op] num by simp
    with op num show ?thesis by (simp add: read_push_minimal_def)
  next
    case data
    have e: "encode_push p = push_explicit p"
      using data by (simp add: encode_push_def push_explicit_def Let_def)
    have "0 < ?n" using data(1) by simp
    then consider (small) "0 < ?n" "?n \<le> 75" | (one) "75 < ?n" "?n \<le> 0xff"
      | (two) "0xff < ?n" "?n \<le> 0xffff" | (four) "0xffff < ?n"
      by linarith
    then show ?thesis
    proof cases
      case small
      note f = push_explicit_form(1) [OF small]
      have "encode_push p = take (Suc ?n) (byte_of ?n # p @ rest)" by (simp add: e f)
      then show ?thesis
        unfolding e f using byte_of_small_op [OF small] small(2) e f
        by (simp add: read_push_minimal_def get_range_def)
    next
      case one
      note f = push_explicit_form(2) [OF one]
      show ?thesis
        unfolding e f using one e f
        by (simp add: read_push_minimal_def get_range_def get_at_def slice_def word_le_nat_alt Let_def
            drop_Cons')
    next
      case two
      note f = push_explicit_form(3) [OF two]
      show ?thesis
        unfolding e f using two e f
        by (simp add: read_push_minimal_def get_range_def slice_def word_le_nat_alt le_nat_nat_le
            Let_def drop_Cons' take_Cons')
    next
      case four
      note f = push_explicit_form(4) [OF four]
      show ?thesis
        unfolding e f using four assms e f
        by (simp add: read_push_minimal_def get_range_def slice_def word_le_nat_alt le_nat_nat_le
            Let_def drop_Cons' take_Cons')
    qed
  qed
qed

lemma read_push_minimal_dec:
  assumes "read_push_minimal s = Some (x, n)"
  shows "n \<le> length s \<and> take n s = encode_push x"
  using assms
  by (cases s)
    (auto simp: read_push_minimal_def get_range_def get_at_def Let_def
      split: if_splits option.splits prod.splits bind_splits)

lemma read_push_minimal_fits:
  assumes "read_push_minimal s = Some (x, n)"
  shows "push_len_ok x"
proof -
  have le: "le_nat (take 2 l) < 4294967296" "le_nat (take 4 l) < 4294967296" for l
    using le_nat_bound [of "take 2 l"] le_nat_bound [of "take 4 l"]
      power_increasing [of "length (take 2 l)" 2 "256::nat"] power_increasing [of "length (take 4 l)" 4 "256::nat"]
    by simp_all
  have b: "unat (b :: u8) < 4294967296" for b using unat_lt_256 [of b] by linarith
  from assms show ?thesis
    by (cases s) (use le b in \<open>auto simp: read_push_minimal_def get_range_def get_at_def Let_def
      split: if_splits option.splits prod.splits bind_splits\<close>)
qed

interpretation minimal: prefix_codec encode_push read_push_minimal push_len_ok
  by unfold_locales
    (use read_push_minimal_dec in \<open>auto simp: read_push_minimal_enc encode_push_nonempty\<close>)

text \<open>The minimal reader accepts exactly the minimal encodings: it returns a payload and a length
  when the input starts with the encoding of that payload and the length is the encoding's.\<close>

theorem read_push_minimal_iff:
  "read_push_minimal s = Some (p, n) \<longleftrightarrow>
     push_len_ok p \<and> n = length (encode_push p) \<and> (\<exists>rest. s = encode_push p @ rest)"
proof
  assume r: "read_push_minimal s = Some (p, n)"
  show "push_len_ok p \<and> n = length (encode_push p) \<and> (\<exists>rest. s = encode_push p @ rest)"
    using read_push_minimal_fits [OF r] minimal.consumed_pos [OF r] minimal.split_input [OF r] by blast
next
  assume "push_len_ok p \<and> n = length (encode_push p) \<and> (\<exists>rest. s = encode_push p @ rest)"
  then show "read_push_minimal s = Some (p, n)" using minimal.dec_enc [of p] by auto
qed

section \<open>Pushes as the disassembler sees them\<close>

text \<open>\<open>push_value\<close> and \<open>is_push\<close> of \<open>kascov-decode/src/lib.rs\<close>.\<close>

definition push_value :: "instruction \<Rightarrow> bytes option" where
  "push_value inst =
     (case i_data inst of
        Some d \<Rightarrow> Some d
      | None \<Rightarrow>
          (if i_opcode inst = 0x00 then Some []
           else if i_opcode inst = 0x4f then Some [0x81]
           else if 0x51 \<le> i_opcode inst \<and> i_opcode inst \<le> 0x60 then Some [i_opcode inst - 0x50]
           else None))"

definition is_push :: "instruction \<Rightarrow> bool" where
  "is_push inst \<longleftrightarrow> i_group inst = GPush"

lemma small_op_form:
  assumes "1 \<le> v" and "v \<le> (16 :: u8)"
  shows "0x51 \<le> 0x50 + v" "0x50 + v \<le> 0x60" "0x50 + v \<noteq> 0x00" "0x50 + v \<noteq> 0x4f"
proof -
  have "unat (0x50 + v) = 80 + unat v"
    using assms by (simp add: unat_add_lem [THEN iffD1] word_le_nat_alt)
  then show "0x51 \<le> 0x50 + v" "0x50 + v \<le> 0x60" "0x50 + v \<noteq> 0x00" "0x50 + v \<noteq> 0x4f"
    using assms by (auto simp: word_le_nat_alt word_unat_eq_iff)
qed

text \<open>The explicit form of a non-empty payload is one complete data instruction.\<close>

definition data_op :: "nat \<Rightarrow> u8" where
  "data_op n = (if n \<le> 75 then byte_of n else if n \<le> 0xff then 0x4c else if n \<le> 0xffff then 0x4d else 0x4e)"

lemma explicit_inst:
  assumes "p \<noteq> []" and "push_len_ok p"
  shows "assemble (mk_inst off (data_op (length p)) (Some p)) = push_explicit p"
    and "well_formed (mk_inst off (data_op (length p)) (Some p))"
proof -
  let ?n = "length p"
  have "0 < ?n" using assms by simp
  then consider (small) "0 < ?n" "?n \<le> 75" | (one) "75 < ?n" "?n \<le> 0xff"
    | (two) "0xff < ?n" "?n \<le> 0xffff" | (four) "0xffff < ?n" by linarith
  then show "assemble (mk_inst off (data_op ?n) (Some p)) = push_explicit p"
  proof cases
    case small
    then have "byte_of ?n \<noteq> (0x4c :: u8)" "byte_of ?n \<noteq> (0x4d :: u8)" "byte_of ?n \<noteq> (0x4e :: u8)"
      by (simp_all add: byte_of_eq_iff)
    then show ?thesis
      using small push_explicit_form(1) [OF small]
      by (simp add: assemble_def data_op_def length_bytes_def)
  next
    case one
    then show ?thesis using push_explicit_form(2) [OF one]
      by (simp add: assemble_def data_op_def length_bytes_def)
  next
    case two
    then show ?thesis using push_explicit_form(3) [OF two]
      by (simp add: assemble_def data_op_def length_bytes_def)
  next
    case four
    then show ?thesis using push_explicit_form(4) [OF four]
      by (simp add: assemble_def data_op_def length_bytes_def)
  qed
  have "payload_fits (data_op ?n) ?n"
    using assms \<open>0 < ?n\<close> byte_of_small_op [of ?n]
    by (simp add: payload_fits_def data_op_def)
  then show "well_formed (mk_inst off (data_op ?n) (Some p))"
    by (simp add: well_formed_def)
qed

text \<open>
  What the compiler's push of a value is read back as: one complete push instruction that
  carries exactly this value.
\<close>

lemma encode_push_inst:
  assumes "push_len_ok p"
  obtains i where "i_offset i = off" and "well_formed i" and "assemble i = encode_push p"
    and "push_value i = Some p" and "is_push i"
proof -
  consider (nil) "p = []" | (neg) "p = [0x81]" | (num) v where "p = [v]" "1 \<le> v" "v \<le> 16"
    | (data) "p \<noteq> []" "p \<noteq> [0x81]" "\<not> (length p = 1 \<and> 1 \<le> hd p \<and> hd p \<le> 16)"
    by (cases p) auto
  then show ?thesis
  proof cases
    case nil
    show ?thesis
      by (rule that [of "mk_inst off 0x00 None"])
        (simp_all add: nil well_formed_def assemble_def encode_push_def push_value_def is_push_def
          opcode_push)
  next
    case neg
    show ?thesis
      by (rule that [of "mk_inst off 0x4f None"])
        (simp_all add: neg well_formed_def assemble_def encode_push_def push_value_def is_push_def
          opcode_push)
  next
    case (num v)
    note op = small_op_form [OF num(2,3)]
    have e: "encode_push p = [0x50 + v]"
      using encode_push_small_op [of "0x50 + v"] op num by simp
    have "\<not> 0x50 + v \<le> (0x4e :: u8)" using op(1) by (simp add: word_le_nat_alt)
    with op num(1) e show ?thesis
      by (intro that [of "mk_inst off (0x50 + v) None"])
        (simp_all add: well_formed_def assemble_def push_value_def is_push_def opcode_push)
  next
    case data
    have e: "encode_push p = push_explicit p"
      using data by (simp add: encode_push_def push_explicit_def Let_def)
    have "data_op (length p) \<le> 0x4f"
      using data(1) byte_of_small_op [of "length p"] by (auto simp: data_op_def word_le_nat_alt)
    with explicit_inst [OF data(1) assms, of off] e show ?thesis
      by (intro that [of "mk_inst off (data_op (length p)) (Some p)"])
        (simp_all add: push_value_def is_push_def opcode_push)
  qed
qed

end
