(* ===== verification/Script_Int.thy ===== *)
theory Script_Int
  imports Push_Codec
begin

text \<open>
  The integer encodings of \<open>kcc1.rs\<close>: the eight-byte signed-magnitude form of a state field and
  the minimal script number of an invocation argument, and \<open>snum\<close> of \<open>lib.rs\<close>. Each encoder is
  shown to be the inverse of its decoder in both directions.
\<close>

section \<open>Bit facts about one byte\<close>

lemma sign_bit_iff: "b AND 0x80 \<noteq> 0 \<longleftrightarrow> 128 \<le> unat (b :: u8)"
proof -
  have "b AND 0x80 \<noteq> 0 \<longleftrightarrow> bit b 7"
    using and_exp_eq_0_iff_not_bit [of b 7] by simp
  also have "\<dots> \<longleftrightarrow> odd (unat b div 2 ^ 7)"
    using bit_unsigned_iff [of b 7, where ?'a = nat] bit_iff_odd [of "unat b" 7] by simp
  also have "\<dots> \<longleftrightarrow> 128 \<le> unat b"
  proof -
    have "unat b div 128 < 2" using unat_lt_256 [of b] by linarith
    then have "unat b div 128 = 0 \<or> unat b div 128 = 1" by linarith
    then show ?thesis by auto
  qed
  finally show ?thesis .
qed

lemma clear_sign: "unat (b AND 0x7f) = unat (b :: u8) mod 128"
proof -
  have "b AND 0x7f = b mod 128"
    using take_bit_eq_mask [of 7 b] by (simp add: mask_eq_exp_minus_1 take_bit_eq_mod)
  then show ?thesis by (simp add: unat_mod_distrib)
qed

lemma set_sign:
  assumes "unat b < 128" shows "unat (b OR 0x80) = unat (b :: u8) + 128"
proof -
  have "b AND 0x80 = 0" using sign_bit_iff [of b] assms by auto
  then have "b OR 0x80 = b + 0x80" by (simp add: disjunctive_add_eq_or)
  with assms show ?thesis by (simp add: unat_add_lem [THEN iffD1])
qed

lemma high_mod:
  assumes "128 \<le> unat b" shows "unat (b :: u8) mod 128 = unat b - 128"
proof -
  have "(unat b - 128) mod 128 = unat b - 128"
    by (rule mod_less) (use unat_lt_256 [of b] in linarith)
  then show ?thesis using le_mod_geq [OF assms] by simp
qed

section \<open>The state integer\<close>

definition encode_state_int :: "int \<Rightarrow> bytes option" where
  "encode_state_int value =
     (if value = - (2 ^ 63) then None
      else let out = nat_le 8 (nat \<bar>value\<bar>) in
        Some (if value < 0 then out[7 := out ! 7 OR 0x80] else out))"

definition decode_state_int :: "bytes \<Rightarrow> int option" where
  "decode_state_int bs =
     (let magnitude = i64_of_le (bs[7 := bs ! 7 AND 0x7f]) in
      if bs ! 7 AND 0x80 = 0 then Some magnitude
      else if magnitude = 0 then None
      else Some (- magnitude))"

text \<open>The range both integer encodings cover: symmetric, without \<open>i64::MIN\<close>.\<close>

abbreviation script_range :: "int \<Rightarrow> bool" where
  "script_range v \<equiv> \<bar>v\<bar> < 2 ^ 63"

lemma split8:
  assumes "length bs = 8"
  obtains init b where "bs = init @ [b]" and "length init = 7"
proof -
  have "bs \<noteq> []" using assms by auto
  with assms show ?thesis by (intro that [of "butlast bs" "last bs"]) simp_all
qed

lemma i64_of_le_small: "le_nat bs < 2 ^ 63 \<Longrightarrow> i64_of_le bs = int (le_nat bs)"
  by (simp add: i64_of_le_def)

lemma encode_state_int_length: "encode_state_int v = Some bs \<Longrightarrow> length bs = 8"
  by (auto simp: encode_state_int_def Let_def split: if_splits)

lemma decode_encode_state_int:
  assumes "script_range v"
  shows "\<exists>bs. encode_state_int v = Some bs \<and> decode_state_int bs = Some v"
proof -
  define n where "n = nat \<bar>v\<bar>"
  obtain init b where o: "nat_le 8 n = init @ [b]" "length init = 7"
    by (rule split8 [of "nat_le 8 n"]) simp
  have n: "n < 2 ^ 63" and av: "\<bar>v\<bar> = int n" and vm: "v \<noteq> - (2 ^ 63)"
    using assms by (auto simp: n_def nat_less_iff)
  have le: "le_nat init + 2 ^ 56 * unat b = n"
    using le_nat_nat_le [of 8 n] n by (simp add: o le_nat_append)
  then have b: "unat b < 128" using n by simp
  show ?thesis
  proof (cases "v < 0")
    case True
    have s: "unat (b OR 0x80) = unat b + 128" by (rule set_sign [OF b])
    then have "unat ((b OR 0x80) AND 0x7f) = unat b" using b by (simp add: clear_sign)
    then have "le_nat (init @ [(b OR 0x80) AND 0x7f]) = n"
      using le o by (simp add: le_nat_append)
    then have "i64_of_le (init @ [(b OR 0x80) AND 0x7f]) = - v"
      using n av True by (simp add: i64_of_le_small)
    moreover have "(b OR 0x80) AND 0x80 \<noteq> 0" using s by (simp add: sign_bit_iff)
    moreover have "encode_state_int v = Some (init @ [b OR 0x80])"
      unfolding encode_state_int_def Let_def n_def [symmetric] o(1)
      using True vm o(2) by (simp add: nth_append list_update_append)
    ultimately show ?thesis
      using True o by (simp add: decode_state_int_def nth_append list_update_append)
  next
    case False
    have "unat (b AND 0x7f) = unat b" using b by (simp add: clear_sign)
    then have "le_nat (init @ [b AND 0x7f]) = n"
      using le o by (simp add: le_nat_append)
    then have "i64_of_le (init @ [b AND 0x7f]) = v"
      using n av False by (simp add: i64_of_le_small)
    moreover have "b AND 0x80 = 0" using b sign_bit_iff [of b] by auto
    moreover have "encode_state_int v = Some (init @ [b])"
      unfolding encode_state_int_def Let_def n_def [symmetric] o(1)
      using False vm by simp
    ultimately show ?thesis
      using o by (simp add: decode_state_int_def nth_append list_update_append)
  qed
qed

lemma encode_decode_state_int:
  assumes "length bs = 8" and "decode_state_int bs = Some v"
  shows "script_range v \<and> encode_state_int v = Some bs"
proof -
  obtain init b where o: "bs = init @ [b]" "length init = 7" by (rule split8 [OF assms(1)])
  define c where "c = b AND 0x7f"
  define m where "m = le_nat init + 2 ^ 56 * unat c"
  have c: "unat c = unat b mod 128" unfolding c_def by (rule clear_sign)
  have m: "m < 2 ^ 63"
    using le_nat_bound [of init] o c by (simp add: m_def)
  have lm: "le_nat (init @ [c]) = m" using o by (simp add: le_nat_append m_def)
  then have mag: "i64_of_le (init @ [c]) = int m"
    using m by (simp add: i64_of_le_small)
  have enc: "nat_le 8 m = init @ [c]"
    using nat_le_le_nat [of "init @ [c]"] o lm by simp
  have dec: "decode_state_int bs = (if b AND 0x80 = 0 then Some (int m)
      else if int m = 0 then None else Some (- int m))"
    using mag o by (simp add: decode_state_int_def nth_append list_update_append c_def)
  show ?thesis
  proof (cases "b AND 0x80 = 0")
    case True
    then have "unat b < 128" using sign_bit_iff [of b] by auto
    then have "c = b" using c by (simp add: word_unat_eq_iff)
    moreover have "v = int m" using assms(2) True dec by simp
    ultimately show ?thesis
      using enc m o by (simp add: encode_state_int_def)
  next
    case False
    then have b: "128 \<le> unat b" using sign_bit_iff [of b] by simp
    have uc: "unat c = unat b - 128"
      unfolding c by (rule high_mod [OF b])
    then have "unat c < 128" using unat_lt_256 [of b] by linarith
    then have "unat (c OR 0x80) = unat b" using set_sign [of c] uc b by linarith
    then have cb: "c OR 0x80 = b" by (simp add: word_unat_eq_iff)
    have v: "v = - int m" "m \<noteq> 0" using assms(2) False dec by (auto split: if_splits)
    then have "v < 0" "nat \<bar>v\<bar> = m" "v \<noteq> - (2 ^ 63)" "\<bar>v\<bar> < 2 ^ 63" using m by auto
    then show ?thesis
      using enc o cb by (simp add: encode_state_int_def nth_append list_update_append)
  qed
qed

section \<open>The minimal script number\<close>

text \<open>
  The loop that \<open>snum\<close> and \<open>encode_arg_int\<close> share: the little-endian bytes of a magnitude,
  none for zero.
\<close>

fun le_min :: "nat \<Rightarrow> bytes" where
  "le_min n = (if n = 0 then [] else byte_of n # le_min (n div 256))"

declare le_min.simps [simp del]

definition snum :: "int \<Rightarrow> bytes" where
  "snum v =
     (let out = le_min (nat \<bar>v\<bar>) in
      if out \<noteq> [] \<and> last out AND 0x80 \<noteq> 0 then out @ [0] else out)"

definition encode_arg_int :: "int \<Rightarrow> bytes option" where
  "encode_arg_int value =
     (if value = - (2 ^ 63) then None
      else
        let out = le_min (nat \<bar>value\<bar>);
            out = (if out \<noteq> [] \<and> last out AND 0x80 \<noteq> 0 then out @ [0] else out);
            k = length out - 1
        in Some (if value < 0 then out[k := out ! k OR 0x80] else out))"

definition decode_arg_int :: "bytes \<Rightarrow> int option" where
  "decode_arg_int bs =
     (if bs = [] then Some 0
      else
        let head = butlast bs; lst = last bs in
        if lst AND 0x7f = 0 \<and> \<not> (head \<noteq> [] \<and> last head AND 0x80 \<noteq> 0) then None
        else if length bs > 9 then None
        else
          let magnitude = int (le_nat head + 256 ^ length head * unat (lst AND 0x7f)) in
          (case i64_try_from magnitude of
             None \<Rightarrow> None
           | Some m \<Rightarrow> Some (if lst AND 0x80 \<noteq> 0 then - m else m)))"

lemma le_nat_le_min: "le_nat (le_min n) = n"
proof (induction n rule: le_min.induct)
  case (1 n)
  then show ?case
    by (cases "n = 0") (simp_all add: le_min.simps [of n] le_min.simps [of 0] unat_byte_of)
qed

lemma le_min_last: "le_min n \<noteq> [] \<Longrightarrow> last (le_min n) \<noteq> 0"
proof (induction n rule: le_min.induct)
  case (1 n)
  have n: "n \<noteq> 0" using 1(2) by (cases "n = 0") (simp_all add: le_min.simps [of 0])
  show ?case
  proof (cases "n div 256 = 0")
    case True
    then have "n < 256" by simp
    with n True show ?thesis
      by (simp add: le_min.simps [of n] le_min.simps [of 0] byte_of_eq_iff)
  next
    case False
    then have "le_min (n div 256) \<noteq> []" by (simp add: le_min.simps [of "n div 256"])
    with 1 n show ?thesis by (simp add: le_min.simps [of n])
  qed
qed

lemma le_min_unique:
  "bs = [] \<or> last bs \<noteq> 0 \<Longrightarrow> le_min (le_nat bs) = bs"
proof (induction bs)
  case (Cons b bs)
  have "le_nat (b # bs) \<noteq> 0"
  proof
    assume "le_nat (b # bs) = 0"
    then have "le_nat bs = 0" and "b = 0" by (simp_all add: unat_eq_0)
    with Cons show False by (cases "bs = []") (auto simp: le_min.simps)
  qed
  then have "le_min (le_nat (b # bs)) =
      byte_of (le_nat (b # bs)) # le_min (le_nat (b # bs) div 256)"
    by (subst le_min.simps) simp
  also have "byte_of (le_nat (b # bs)) = b"
    unfolding word_unat_eq_iff unat_byte_of by simp
  also have "le_nat (b # bs) div 256 = le_nat bs" by simp
  also have "le_min (le_nat bs) = bs"
    using Cons by (cases "bs = []") (auto simp: le_min.simps [of 0])
  finally show ?case .
qed (simp add: le_min.simps)

lemma le_min_length:
  assumes "n < 256 ^ k" shows "length (le_min n) \<le> k"
proof (rule ccontr)
  assume long: "\<not> length (le_min n) \<le> k"
  define bs where "bs = le_min n"
  then have ne: "bs \<noteq> []" using long by auto
  then have l: "last bs \<noteq> 0" using le_min_last [of n] by (simp add: bs_def)
  have "n = le_nat (butlast bs @ [last bs])"
    using ne by (simp add: bs_def le_nat_le_min)
  also have "\<dots> = le_nat (butlast bs) + 256 ^ (length bs - 1) * unat (last bs)"
    by (simp add: le_nat_append)
  finally have "256 ^ (length bs - 1) * unat (last bs) \<le> n" by linarith
  moreover have "256 ^ (length bs - 1) * 1 \<le> 256 ^ (length bs - 1) * unat (last bs)"
    using l by (intro mult_le_mono2) (simp add: Suc_leI unat_gt_0)
  ultimately have "256 ^ (length bs - 1) \<le> n" by linarith
  moreover have "256 ^ k \<le> (256 :: nat) ^ (length bs - 1)"
    using long by (intro power_increasing) (auto simp: bs_def)
  ultimately show False using assms by linarith
qed

lemma mag_ext:
  assumes "bs \<noteq> []"
  shows "le_nat (butlast bs) + 256 ^ (length bs - 1) * unat (last bs) = le_nat bs"
  using arg_cong [OF append_butlast_last_id [OF assms], of le_nat] by (simp add: le_nat_append)

lemma decode_encode_arg_int:
  assumes "script_range v"
  shows "\<exists>bs. encode_arg_int v = Some bs \<and> decode_arg_int bs = Some v"
proof -
  define n where "n = nat \<bar>v\<bar>"
  define m where "m = le_min n"
  have n: "n < 2 ^ 63" and av: "\<bar>v\<bar> = int n" and vm: "v \<noteq> - (2 ^ 63)"
    using assms by (auto simp: n_def nat_less_iff)
  have lm: "le_nat m = n" by (simp add: m_def le_nat_le_min)
  have len: "length m \<le> 8" unfolding m_def using n by (intro le_min_length) simp
  show ?thesis
  proof (cases "m = []")
    case True
    then have "v = 0" using lm av by simp
    then show ?thesis
      by (simp add: encode_arg_int_def decode_arg_int_def le_min.simps [of 0])
  next
    case False
    then have pos: "0 < n" unfolding m_def by (cases "n = 0") (simp_all add: le_min.simps [of 0])
    define init b where "init = butlast m" and "b = last m"
    have m: "m = init @ [b]" using False by (simp add: init_def b_def)
    have b0: "b \<noteq> 0" using le_min_last [of n] False by (simp add: m_def b_def)
    \<comment> \<open>the magnitude with its sign byte still clear\<close>
    define ini2 c where "ini2 = (if b AND 0x80 \<noteq> 0 then m else init)"
      and "c = (if b AND 0x80 \<noteq> 0 then 0 else b)"
    have c: "unat c < 128" using sign_bit_iff [of b] by (auto simp: c_def)
    have mag: "le_nat ini2 + 256 ^ length ini2 * unat c = n"
      using lm unfolding ini2_def c_def by (simp add: m le_nat_append)
    have minimal: "c \<noteq> 0 \<or> (ini2 \<noteq> [] \<and> last ini2 AND 0x80 \<noteq> 0)"
      using b0 by (simp add: c_def ini2_def m)
    have len2: "length ini2 \<le> 8" using len by (simp add: ini2_def m)
    define d where "d = (if v < 0 then c OR 0x80 else c)"
    have enc: "encode_arg_int v = Some (ini2 @ [d])"
      unfolding encode_arg_int_def Let_def n_def [symmetric] m_def [symmetric]
      using vm False by (simp add: d_def ini2_def c_def m nth_append list_update_append)
    have d: "unat (d AND 0x7f) = unat c" "d AND 0x80 \<noteq> 0 \<longleftrightarrow> v < 0"
      using c set_sign [OF c] sign_bit_iff [of d] by (auto simp: d_def clear_sign)
    have "d AND 0x7f = 0 \<longleftrightarrow> c = 0" using d(1) by (metis unat_eq_0)
    then have "decode_arg_int (ini2 @ [d]) = Some v"
      using mag minimal d len2 n av by (auto simp: decode_arg_int_def Let_def range_simps in_i64_def
          i64_try_from_def)
    with enc show ?thesis by blast
  qed
qed

lemma encode_decode_arg_int:
  assumes "decode_arg_int bs = Some v"
  shows "script_range v \<and> encode_arg_int v = Some bs"
proof (cases "bs = []")
  case True
  with assms show ?thesis
    by (simp add: decode_arg_int_def encode_arg_int_def le_min.simps [of 0])
next
  case False
  define head d where "head = butlast bs" and "d = last bs"
  have bs: "bs = head @ [d]" using False by (simp add: head_def d_def)
  define c where "c = d AND 0x7f"
  define n where "n = le_nat head + 256 ^ length head * unat c"
  have dec: "decode_arg_int bs =
      (if c = 0 \<and> \<not> (head \<noteq> [] \<and> last head AND 0x80 \<noteq> 0) then None
       else if length bs > 9 then None
       else case i64_try_from (int n) of None \<Rightarrow> None
         | Some m \<Rightarrow> Some (if d AND 0x80 \<noteq> 0 then - m else m))"
    unfolding decode_arg_int_def Let_def head_def [symmetric] d_def [symmetric]
      c_def [symmetric] n_def [symmetric] using False by simp
  have minimal: "c \<noteq> 0 \<or> (head \<noteq> [] \<and> last head AND 0x80 \<noteq> 0)"
    and n: "n < 2 ^ 63" and v: "v = (if d AND 0x80 \<noteq> 0 then - int n else int n)"
    using assms unfolding dec
    by (auto simp: i64_try_from_def in_i64_def split: if_splits)
  have c: "unat c = unat d mod 128" unfolding c_def by (rule clear_sign)
  have npos: "0 < n"
  proof (cases "c = 0")
    case True
    then have "head \<noteq> []" and "128 \<le> unat (last head)" using minimal sign_bit_iff by auto
    then have "0 < le_nat head" using mag_ext [of head] by (metis add_gr_0 mult_pos_pos
          not_numeral_le_zero zero_less_iff_neq_zero zero_less_numeral zero_less_power)
    then show ?thesis by (simp add: n_def)
  next
    case False
    then show ?thesis by (simp add: n_def unat_gt_0)
  qed
  then have sign: "v < 0 \<longleftrightarrow> d AND 0x80 \<noteq> 0" and nv: "nat \<bar>v\<bar> = n" and vm: "v \<noteq> - (2 ^ 63)"
    and rng: "script_range v"
    using v n by auto
  define m where "m = (if c = 0 then head else head @ [c])"
  have "m = [] \<or> last m \<noteq> 0" using minimal by (auto simp: m_def)
  moreover have lm: "le_nat m = n" by (simp add: m_def n_def le_nat_append)
  ultimately have lemin: "le_min n = m" using le_min_unique [of m] by simp
  have "m \<noteq> []" using npos lm by auto
  have cb: "c AND 0x80 = 0" using sign_bit_iff [of c] c by auto
  have ext: "(if last m AND 0x80 \<noteq> 0 then m @ [0] else m) = head @ [c]"
    using minimal cb by (auto simp: m_def)
  have cd: "(if v < 0 then c OR 0x80 else c) = d"
  proof (cases "d AND 0x80 \<noteq> 0")
    case True
    then have "128 \<le> unat d" by (simp add: sign_bit_iff)
    then have uc: "unat c = unat d - 128"
      unfolding c by (rule high_mod)
    then have "unat c < 128" using unat_lt_256 [of d] by linarith
    then have "unat (c OR 0x80) = unat d"
      using set_sign [of c] uc \<open>128 \<le> unat d\<close> by linarith
    with True sign show ?thesis by (simp add: word_unat_eq_iff)
  next
    case False
    then have "unat d < 128" using sign_bit_iff [of d] by auto
    then have "c = d" using c by (simp add: word_unat_eq_iff)
    with False sign show ?thesis by simp
  qed
  have "encode_arg_int v = Some (head @ [d])"
    unfolding encode_arg_int_def Let_def nv lemin
    using vm ext cd \<open>m \<noteq> []\<close> by (auto simp: list_update_append nth_append)
  with rng bs show ?thesis by simp
qed

text \<open>On the non-negative integers it is documented for, \<open>snum\<close> is the argument encoding.\<close>

lemma snum_encode_arg_int: "0 \<le> v \<Longrightarrow> v < 2 ^ 63 \<Longrightarrow> encode_arg_int v = Some (snum v)"
  by (auto simp: encode_arg_int_def snum_def Let_def)

section \<open>The two integer codecs\<close>

text \<open>The argument integer is a canonical codec: a byte string decodes to a value exactly when
  it is that value's encoding, the values being those of an \<open>i64\<close> except its minimum. Padded and
  negative-zero encodings are refused.\<close>

theorem decode_arg_int_iff: "decode_arg_int bs = Some v \<longleftrightarrow> script_range v \<and> encode_arg_int v = Some bs"
  using encode_decode_arg_int [of bs v] decode_encode_arg_int [of v] by auto

text \<open>The state integer is a canonical codec on eight-byte strings, over the same range of
  values.\<close>

theorem decode_state_int_iff:
  assumes "length bs = 8"
  shows "decode_state_int bs = Some v \<longleftrightarrow> script_range v \<and> encode_state_int v = Some bs"
  using encode_decode_state_int [OF assms, of v] decode_encode_state_int [of v] by auto

lemma decode_state_int_iff_witness: "encode_state_int (- 5) = Some [5, 0, 0, 0, 0, 0, 0, 0x80]"
proof -
  have upd: "([5, 0, 0, 0, 0, 0, 0, 0x80] :: bytes)[7 := b] = [5, 0, 0, 0, 0, 0, 0, b]" for b
    by (simp add: eval_nat_numeral)
  have "decode_state_int [5, 0, 0, 0, 0, 0, 0, 0x80] = Some (- 5)"
    by (simp add: decode_state_int_def i64_of_le_def Let_def upd)
  moreover have "length ([5, 0, 0, 0, 0, 0, 0, 0x80] :: bytes) = 8" by simp
  ultimately show ?thesis using decode_state_int_iff [of "[5, 0, 0, 0, 0, 0, 0, 0x80]" "- 5"] by blast
qed

end
