(* ===== verification/Kcc1.thy ===== *)
theory Kcc1
  imports Script_Int
begin

text \<open>
  The KCC-0001 primitives of \<open>crates/kascov-decode/src/kcc1.rs\<close>: hashes and envelopes, the typed
  state block, the invocation read back from a signature script, and the KCC-0020 recognizer.
\<close>

section \<open>Hashes and envelopes\<close>

definition hash32 :: "externals \<Rightarrow> bytes \<Rightarrow> bytes" where
  "hash32 X input = blake2b X input"

definition dispatch_tag :: "externals \<Rightarrow> bytes \<Rightarrow> bytes" where
  "dispatch_tag X signature = slice (hash32 X signature) 0 4"

text \<open>The hasher is fed in four pieces, which is hashing their concatenation.\<close>

definition template_hash :: "externals \<Rightarrow> bytes \<Rightarrow> bytes \<Rightarrow> bytes" where
  "template_hash X prefix suffix =
     blake2b X (nat_le 8 (length prefix) @ prefix @ nat_le 8 (length suffix) @ suffix)"

definition envelope_spk :: "externals \<Rightarrow> bytes \<Rightarrow> bytes" where
  "envelope_spk X program = 0xaa # 0x20 # hash32 X program @ [0x87]"

definition signature_script :: "bytes \<Rightarrow> bytes option \<Rightarrow> bytes \<Rightarrow> bytes" where
  "signature_script arg_pushes dispatch program =
     arg_pushes @ (case dispatch of None \<Rightarrow> [] | Some tag \<Rightarrow> 0x04 # tag) @ encode_push program"

section \<open>Invocations\<close>

record invocation =
  inv_args :: "bytes list"
  inv_dispatch :: "bytes option"
  inv_program :: bytes

text \<open>The loop of \<open>read_invocation\<close>: one minimal push after another until the script ends.\<close>

function read_pushes :: "bytes \<Rightarrow> bytes list option" where
  "read_pushes s =
     (if s = [] then Some []
      else case read_push_minimal s of
        None \<Rightarrow> None
      | Some (payload, consumed) \<Rightarrow>
          map_option ((#) payload) (read_pushes (drop consumed s)))"
  by pat_completeness auto
termination
proof (relation "measure length")
  fix s p payload consumed
  assume "s \<noteq> []" and "read_push_minimal s = Some p" and "(payload, consumed) = p"
  then have "0 < consumed" using minimal.consumed_pos [of s payload consumed] by (simp add: encode_push_nonempty)
  with \<open>s \<noteq> []\<close> show "(drop consumed s, s) \<in> measure length" by simp
qed simp

declare read_pushes.simps [simp del]

definition read_invocation :: "bytes \<Rightarrow> bool \<Rightarrow> invocation option" where
  "read_invocation sig_script multi_branch =
     (case read_pushes sig_script of
        None \<Rightarrow> None
      | Some pushes \<Rightarrow>
          if pushes = [] then None
          else
            let program = last pushes; pushes = butlast pushes in
            if program = [] then None
            else if multi_branch then
              (if pushes = [] then None
               else if length (last pushes) = 4 then
                 Some \<lparr>inv_args = butlast pushes, inv_dispatch = Some (last pushes), inv_program = program\<rparr>
               else None)
            else Some \<lparr>inv_args = pushes, inv_dispatch = None, inv_program = program\<rparr>)"

definition read_invocation_checked ::
  "externals \<Rightarrow> bytes \<Rightarrow> bytes \<Rightarrow> bool \<Rightarrow> invocation option" where
  "read_invocation_checked X spk sig_script multi_branch =
     (case read_invocation sig_script multi_branch of
        None \<Rightarrow> None
      | Some r \<Rightarrow> if envelope_spk X (inv_program r) = spk then Some r else None)"

lemma read_pushes_step:
  "s \<noteq> [] \<Longrightarrow> read_pushes s =
    (case read_push_minimal s of None \<Rightarrow> None
     | Some (x, n) \<Rightarrow> map_option ((#) x) (read_pushes (drop n s)))"
  by (subst read_pushes.simps) simp

interpretation stream: prefix_stream encode_push read_push_minimal push_len_ok read_pushes
proof unfold_locales
  show "read_pushes [] = Some []" by (subst read_pushes.simps) simp
qed (rule read_pushes_step)

lemma read_pushes_fit: "read_pushes s = Some ps \<Longrightarrow> p \<in> set ps \<Longrightarrow> push_len_ok p"
proof (induction s arbitrary: ps rule: read_pushes.induct)
  case (1 s)
  show ?case
  proof (cases "s = []")
    case False
    with "1.prems"(1) obtain x n ps' where r: "read_push_minimal s = Some (x, n)"
      and ps: "read_pushes (drop n s) = Some ps'" "ps = x # ps'"
      by (auto simp: read_pushes_step split: option.splits)
    from "1.IH" [OF False r refl ps(1)] read_push_minimal_fits [OF r] ps(2) "1.prems"(2)
    show ?thesis by auto
  qed (use "1.prems" in \<open>simp add: read_pushes.simps [of "[]"]\<close>)
qed

section \<open>State fields\<close>

datatype field_type = FInt | FBool | FByte | FBytes | FString | FPubKey | FSig | FDataSig | FFixedBytes nat

datatype state_value = VInt int | VBool bool | VBytes bytes

text \<open>
  \<open>std::str::from_utf8(b).is_ok()\<close>: the well-formed byte sequences of the Unicode standard,
  which exclude overlong forms, surrogates and values above U+10FFFF.
\<close>

definition utf8_cont :: "u8 \<Rightarrow> bool" where
  "utf8_cont b \<longleftrightarrow> 0x80 \<le> b \<and> b \<le> 0xbf"

fun is_utf8 :: "bytes \<Rightarrow> bool" where
  "is_utf8 [] = True"
| "is_utf8 (a # bs) =
     (if a \<le> 0x7f then is_utf8 bs
      else if 0xc2 \<le> a \<and> a \<le> 0xdf then
        (case bs of b # r \<Rightarrow> utf8_cont b \<and> is_utf8 r | _ \<Rightarrow> False)
      else if 0xe0 \<le> a \<and> a \<le> 0xef then
        (case bs of b # c # r \<Rightarrow>
             utf8_cont b \<and> (a = 0xe0 \<longrightarrow> 0xa0 \<le> b) \<and> (a = 0xed \<longrightarrow> b \<le> 0x9f) \<and> utf8_cont c \<and> is_utf8 r
         | _ \<Rightarrow> False)
      else if 0xf0 \<le> a \<and> a \<le> 0xf4 then
        (case bs of b # c # d # r \<Rightarrow>
             utf8_cont b \<and> (a = 0xf0 \<longrightarrow> 0x90 \<le> b) \<and> (a = 0xf4 \<longrightarrow> b \<le> 0x8f) \<and> utf8_cont c \<and>
             utf8_cont d \<and> is_utf8 r
         | _ \<Rightarrow> False)
      else False)"

definition state_payload :: "field_type \<Rightarrow> state_value \<Rightarrow> bytes option" where
  "state_payload ty value =
     (case (ty, value) of
        (FInt, VInt v) \<Rightarrow> encode_state_int v
      | (FBool, VBool b) \<Rightarrow> Some [if b then 1 else 0]
      | (_, VBytes b) \<Rightarrow>
          (if (case ty of
                 FByte \<Rightarrow> length b = 1
               | FBytes \<Rightarrow> True
               | FString \<Rightarrow> is_utf8 b
               | FPubKey \<Rightarrow> length b = 32
               | FSig \<Rightarrow> length b = 65
               | FDataSig \<Rightarrow> length b = 64
               | FFixedBytes n \<Rightarrow> length b = n
               | FInt \<Rightarrow> False
               | FBool \<Rightarrow> False)
           then Some b else None)
      | _ \<Rightarrow> None)"

fun encode_state :: "(field_type \<times> state_value) list \<Rightarrow> bytes option" where
  "encode_state [] = Some []"
| "encode_state ((ty, value) # fs) =
     (case state_payload ty value of
        None \<Rightarrow> None
      | Some p \<Rightarrow> map_option ((@) (push_explicit p)) (encode_state fs))"

definition decode_payload :: "field_type \<Rightarrow> bytes \<Rightarrow> state_value option" where
  "decode_payload ty payload =
     (case ty of
        FInt \<Rightarrow> (if length payload = 8 then map_option VInt (decode_state_int payload) else None)
      | FBool \<Rightarrow>
          (if payload = [0x00] then Some (VBool False)
           else if payload = [0x01] then Some (VBool True) else None)
      | _ \<Rightarrow> map_option (\<lambda>_. VBytes payload) (state_payload ty (VBytes payload)))"

text \<open>The loop of \<open>decode_state\<close> over the declared types, from position \<open>at\<close>.\<close>

fun decode_fields :: "field_type list \<Rightarrow> bytes \<Rightarrow> nat \<Rightarrow> (state_value list \<times> nat) option" where
  "decode_fields [] encoded at = Some ([], at)"
| "decode_fields (ty # types) encoded at =
     (case read_push_explicit (drop at encoded) of
        None \<Rightarrow> None
      | Some (payload, consumed) \<Rightarrow>
          (case decode_payload ty payload of
             None \<Rightarrow> None
           | Some v \<Rightarrow>
               map_option (\<lambda>(vs, end). (v # vs, end)) (decode_fields types encoded (at + consumed))))"

definition decode_state :: "field_type list \<Rightarrow> bytes \<Rightarrow> state_value list option" where
  "decode_state types encoded =
     (case decode_fields types encoded 0 of
        None \<Rightarrow> None
      | Some (values, at) \<Rightarrow> if at = length encoded then Some values else None)"

fun packed :: "(field_type \<times> state_value) list \<Rightarrow> bytes option" where
  "packed [] = Some []"
| "packed ((ty, value) # fs) =
     (if ty = FBytes \<or> ty = FString then None
      else case state_payload ty value of
        None \<Rightarrow> None
      | Some p \<Rightarrow> map_option ((@) p) (packed fs))"

definition commitment :: "externals \<Rightarrow> bytes \<Rightarrow> bytes" where
  "commitment X payload = hash32 X payload"

definition verify_commitment :: "externals \<Rightarrow> bytes \<Rightarrow> bytes \<Rightarrow> bool" where
  "verify_commitment X c payload \<longleftrightarrow> c = hash32 X payload"

section \<open>The KCC-0020 recognizer\<close>

definition KCC0020_STATE_TYPES :: "field_type list" where
  "KCC0020_STATE_TYPES = [FFixedBytes 32, FByte, FInt, FBool]"

record kcc0020_state =
  k_owner_identifier :: bytes
  k_identifier_type :: u8
  k_amount :: int
  k_is_minter :: bool
  k_template_hash :: bytes

definition recognize_kcc0020 :: "externals \<Rightarrow> bytes \<Rightarrow> kcc0020_state option" where
  "recognize_kcc0020 X program =
     (case program of
        [] \<Rightarrow> None
      | b0 # _ \<Rightarrow>
          (case
             (if b0 = 0x6b then
                (case get_at program 47 of
                   None \<Rightarrow> None
                 | Some g \<Rightarrow> if g \<noteq> 0x6c then None else Some 1)
              else Some 0)
           of None \<Rightarrow> None
            | Some start \<Rightarrow>
                (case get_range program start (start + 46) of
                   None \<Rightarrow> None
                 | Some state \<Rightarrow>
                     if length program \<le> start + 46 + start then None
                     else
                       (case decode_state KCC0020_STATE_TYPES state of
                          Some [VBytes owner, VBytes id_type, VInt amount, VBool is_minter] \<Rightarrow>
                            if amount < 0 then None
                            else if length owner = 32 \<and> id_type \<noteq> [] then
                              Some \<lparr>k_owner_identifier = owner, k_identifier_type = hd id_type,
                                k_amount = amount, k_is_minter = is_minter,
                                k_template_hash =
                                  template_hash X (take start program) (drop (start + 46) program)\<rparr>
                            else None
                        | _ \<Rightarrow> None))))"

section \<open>Invocations round-trip\<close>

lemma tag_push: "length tag = 4 \<Longrightarrow> 0x04 # tag = encode_push tag"
  by (cases tag) (auto simp: encode_push_def)

lemma signature_script_pushes:
  "(case d of None \<Rightarrow> True | Some tag \<Rightarrow> length tag = 4) \<Longrightarrow>
   signature_script (concat (map encode_push args)) d program =
   concat (map encode_push (args @ (case d of None \<Rightarrow> [] | Some tag \<Rightarrow> [tag]) @ [program]))"
  by (auto simp: signature_script_def tag_push split: option.splits)

text \<open>C32. A signature script built from minimal argument pushes, an optional four-byte dispatch
  tag and a non-empty program is read back as exactly that invocation, when the reader is told
  whether a tag is present.\<close>

theorem invocation_roundtrip:
  assumes "\<forall>a \<in> set args. push_len_ok a" and "push_len_ok program" and "program \<noteq> []"
    and "case d of None \<Rightarrow> True | Some tag \<Rightarrow> length tag = 4"
  shows "read_invocation (signature_script (concat (map encode_push args)) d program) (d \<noteq> None) =
    Some \<lparr>inv_args = args, inv_dispatch = d, inv_program = program\<rparr>"
proof -
  let ?ps = "args @ (case d of None \<Rightarrow> [] | Some tag \<Rightarrow> [tag]) @ [program]"
  have "read_pushes (concat (map encode_push ?ps)) = Some ?ps"
    by (rule stream.dec_all_concat) (use assms in \<open>auto split: option.splits\<close>)
  then show ?thesis
    using assms(3,4) unfolding signature_script_pushes [OF assms(4)]
    by (cases d) (simp_all add: read_invocation_def butlast_append)
qed

theorem invocation_roundtrip_witness:
  "read_invocation (signature_script (encode_push [5] @ encode_push [1, 2]) (Some [9, 8, 7, 6]) [0x51, 0xac]) True =
    Some \<lparr>inv_args = [[5], [1, 2]], inv_dispatch = Some [9, 8, 7, 6], inv_program = [0x51, 0xac]\<rparr>"
  using invocation_roundtrip [of "[[5], [1, 2]]" "[0x51, 0xac]" "Some [9, 8, 7, 6]"] by simp

lemma split_last_two:
  "ps \<noteq> [] \<Longrightarrow> butlast ps \<noteq> [] \<Longrightarrow> ps = butlast (butlast ps) @ [last (butlast ps), last ps]"
  by (cases ps rule: rev_cases; cases "butlast ps" rule: rev_cases) (auto simp: butlast_append)

text \<open>C33. Reading is byte-exact: whatever signature script is accepted is the one that
  \<open>signature_script\<close> builds from the result, the program is not empty, and a tag of four bytes is
  present exactly in the multi-branch reading.\<close>

theorem invocation_canonical:
  assumes "read_invocation s multi_branch = Some r"
  shows "s = signature_script (concat (map encode_push (inv_args r))) (inv_dispatch r) (inv_program r)
    \<and> inv_program r \<noteq> []
    \<and> (case inv_dispatch r of None \<Rightarrow> \<not> multi_branch | Some tag \<Rightarrow> multi_branch \<and> length tag = 4)"
proof -
  obtain ps where ps: "read_pushes s = Some ps" "ps \<noteq> []"
    using assms by (auto simp: read_invocation_def split: option.splits if_splits)
  let ?d = "inv_dispatch r"
  have r: "ps = inv_args r @ (case ?d of None \<Rightarrow> [] | Some tag \<Rightarrow> [tag]) @ [inv_program r]"
      "inv_program r \<noteq> []"
      "case ?d of None \<Rightarrow> \<not> multi_branch | Some tag \<Rightarrow> multi_branch \<and> length tag = 4"
    using assms ps split_last_two [of ps]
    by (auto simp: read_invocation_def Let_def split: if_splits)
  then have "case ?d of None \<Rightarrow> True | Some tag \<Rightarrow> length tag = 4" by (auto split: option.splits)
  from signature_script_pushes [OF this, of "inv_args r" "inv_program r"] r
  show ?thesis using stream.dec_all_sound [OF ps(1)] by simp
qed

theorem invocation_canonical_witness:
  "signature_script (encode_push [7]) None [0x51, 0x51] = [0x57, 0x02, 0x51, 0x51]"
proof -
  have "read_invocation [0x57, 0x02, 0x51, 0x51] False =
      Some \<lparr>inv_args = [[7]], inv_dispatch = None, inv_program = [0x51, 0x51]\<rparr>"
    by (simp add: read_invocation_def read_pushes.simps read_push_minimal_def encode_push_def get_range_def
        slice_def)
  from invocation_canonical [OF this] show ?thesis by simp
qed

section \<open>State blocks round-trip\<close>

definition value_in_range :: "state_value \<Rightarrow> bool" where
  "value_in_range v \<longleftrightarrow>
     (case v of VInt n \<Rightarrow> in_i64 n | VBool _ \<Rightarrow> True | VBytes b \<Rightarrow> push_len_ok b)"

lemma encode_state_int_Some: "encode_state_int v = Some p \<Longrightarrow> in_i64 v \<Longrightarrow> script_range v"
  by (auto simp: encode_state_int_def in_i64_def split: if_splits)

lemma decode_payload_of_payload:
  assumes "state_payload ty v = Some p" and "value_in_range v"
  shows "decode_payload ty p = Some v \<and> push_len_ok p"
proof (cases v)
  case (VInt n)
  then have ty: "ty = FInt" and e: "encode_state_int n = Some p"
    using assms(1) by (auto simp: state_payload_def split: field_type.splits)
  have "script_range n" using encode_state_int_Some [OF e] assms(2) VInt by (simp add: value_in_range_def)
  from decode_encode_state_int [OF this] e have "decode_state_int p = Some n" by simp
  then show ?thesis
    using VInt ty encode_state_int_length [OF e] by (simp add: decode_payload_def)
next
  case (VBool b)
  then show ?thesis
    using assms(1)
    by (cases b) (auto simp: state_payload_def decode_payload_def split: field_type.splits)
next
  case (VBytes b)
  then have "p = b" using assms(1)
    by (auto simp: state_payload_def split: field_type.splits if_splits)
  with VBytes assms show ?thesis
    by (cases ty) (auto simp: state_payload_def decode_payload_def value_in_range_def split: if_splits)
qed

lemma payload_of_decode_payload:
  assumes "decode_payload ty p = Some v" shows "state_payload ty v = Some p"
proof (cases ty)
  case FInt
  with assms show ?thesis
    using encode_decode_state_int [of p]
    by (auto simp: decode_payload_def state_payload_def split: if_splits)
next
  case FBool
  with assms show ?thesis
    by (auto simp: decode_payload_def state_payload_def split: if_splits)
qed (use assms in \<open>auto simp: decode_payload_def state_payload_def split: if_splits\<close>)

lemma decode_fields_encode:
  "encode_state fs = Some bs \<Longrightarrow> \<forall>f \<in> set fs. value_in_range (snd f) \<Longrightarrow>
   decode_fields (map fst fs) (pre @ bs) (length pre) = Some (map snd fs, length pre + length bs)"
proof (induction fs arbitrary: pre bs)
  case (Cons f fs)
  obtain ty v where f: "f = (ty, v)" by (cases f)
  from Cons.prems f obtain p bs' where p: "state_payload ty v = Some p"
    and bs': "encode_state fs = Some bs'" and bs: "bs = push_explicit p @ bs'"
    by (auto split: option.splits)
  have v: "value_in_range v" using Cons.prems f by simp
  note dp = decode_payload_of_payload [OF p v]
  have "read_push_explicit (push_explicit p @ bs') = Some (p, length (push_explicit p))"
    by (rule explicit.dec_enc) (use dp in simp)
  moreover have "decode_fields (map fst fs) ((pre @ push_explicit p) @ bs') (length (pre @ push_explicit p))
      = Some (map snd fs, length (pre @ push_explicit p) + length bs')"
    by (rule Cons.IH) (use bs' Cons.prems in auto)
  ultimately show ?case using f dp bs by simp
qed simp

lemma decode_fields_sound:
  "decode_fields tys s at = Some (vs, e) \<Longrightarrow> at \<le> length s \<Longrightarrow>
   length vs = length tys \<and> at \<le> e \<and> e \<le> length s \<and> encode_state (zip tys vs) = Some (slice s at e)"
proof (induction tys arbitrary: at vs)
  case (Cons ty tys)
  from Cons.prems(1) obtain p n v ws where p: "read_push_explicit (drop at s) = Some (p, n)"
    and v: "decode_payload ty p = Some v" and ws: "decode_fields tys s (at + n) = Some (ws, e)"
    and vs: "vs = v # ws"
    by (auto split: option.splits)
  have n: "n \<le> length (drop at s)" "take n (drop at s) = push_explicit p"
    using explicit.enc_dec [OF p] by simp_all
  then have "at + n \<le> length s" using Cons.prems(2) by simp
  from Cons.IH [OF ws this] have IH: "length ws = length tys" "at + n \<le> e" "e \<le> length s"
    "encode_state (zip tys ws) = Some (slice s (at + n) e)" by auto
  have "slice s at e = push_explicit p @ slice s (at + n) e"
    using n(2) IH(2) take_add [of n "e - (at + n)" "drop at s"]
    by (simp add: slice_def add.commute)
  with IH v vs show ?case by (simp add: payload_of_decode_payload)
qed simp

text \<open>C34. Decoding the encoding of a typed state returns the values it was built from, for every
  declared layout.\<close>

theorem state_roundtrip:
  assumes "encode_state fs = Some bs" and "\<forall>f \<in> set fs. value_in_range (snd f)"
  shows "decode_state (map fst fs) bs = Some (map snd fs)"
  using decode_fields_encode [OF assms, of "[]"] by (simp add: decode_state_def)

theorem state_roundtrip_witness:
  "decode_state [FInt, FBool, FByte] [8, 44, 1, 0, 0, 0, 0, 0, 0x80, 1, 1, 1, 7] =
    Some [VInt (- 300), VBool True, VBytes [7]]"
proof -
  let ?fs = "[(FInt, VInt (- 300)), (FBool, VBool True), (FByte, VBytes [7])]"
  have "encode_state ?fs = Some [8, 44, 1, 0, 0, 0, 0, 0, 0x80, 1, 1, 1, 7]"
    by code_simp
  then have "decode_state (map fst ?fs) [8, 44, 1, 0, 0, 0, 0, 0, 0x80, 1, 1, 1, 7] = Some (map snd ?fs)"
    by (rule state_roundtrip) (simp add: value_in_range_def in_i64_def)
  then show ?thesis by simp
qed

text \<open>Decoding accepts only canonical encodings: an accepted block has one value per declared
  type and is, byte for byte, the encoding of those values.\<close>

theorem state_canonical:
  assumes "decode_state tys bs = Some vs"
  shows "length vs = length tys \<and> encode_state (zip tys vs) = Some bs"
  using assms decode_fields_sound [of tys bs 0 vs "length bs"]
  by (auto simp: decode_state_def split: option.splits if_splits)

theorem state_canonical_witness:
  "encode_state [(FByte, VBytes [3])] = Some [1, 3]"
proof -
  have "decode_state [FByte] [1, 3] = Some [VBytes [3]]"
    by (simp add: decode_state_def read_push_explicit_def decode_payload_def state_payload_def
        get_range_def slice_def)
  from state_canonical [OF this] show ?thesis by simp
qed

section \<open>Packed values\<close>

definition field_width :: "field_type \<Rightarrow> nat" where
  "field_width ty = (case ty of FInt \<Rightarrow> 8 | FBool \<Rightarrow> 1 | FByte \<Rightarrow> 1 | FPubKey \<Rightarrow> 32 | FSig \<Rightarrow> 65
     | FDataSig \<Rightarrow> 64 | FFixedBytes n \<Rightarrow> n | _ \<Rightarrow> 0)"

lemma payload_width:
  "state_payload ty v = Some p \<Longrightarrow> ty \<noteq> FBytes \<Longrightarrow> ty \<noteq> FString \<Longrightarrow> length p = field_width ty"
  by (cases ty; cases v)
    (auto simp: state_payload_def field_width_def encode_state_int_length split: if_splits)

lemma packed_inj:
  "packed fs = Some bs \<Longrightarrow> packed gs = Some bs \<Longrightarrow> map fst fs = map fst gs \<Longrightarrow>
   \<forall>f \<in> set fs \<union> set gs. value_in_range (snd f) \<Longrightarrow> fs = gs"
proof (induction fs arbitrary: gs bs)
  case (Cons f fs)
  obtain ty v where f: "f = (ty, v)" by (cases f)
  with Cons.prems(3) obtain w gs' where gs: "gs = (ty, w) # gs'" and t: "map fst fs = map fst gs'"
    by (cases gs) auto
  have ty: "ty \<noteq> FBytes" "ty \<noteq> FString" using Cons.prems(1) f by auto
  from Cons.prems(1) f ty obtain p ps where p: "state_payload ty v = Some p" "packed fs = Some ps"
    "bs = p @ ps" by (auto split: option.splits)
  from Cons.prems(2) gs ty obtain q qs where q: "state_payload ty w = Some q" "packed gs' = Some qs"
    "bs = q @ qs" by (auto split: option.splits)
  have eq: "p = q \<and> ps = qs"
    using p q payload_width [OF p(1) ty] payload_width [OF q(1) ty] by (simp add: append_eq_append_conv)
  have "v = w"
    using decode_payload_of_payload [OF p(1)] decode_payload_of_payload [OF q(1)] eq Cons.prems(4) f gs
    by simp
  moreover have "fs = gs'"
    by (rule Cons.IH [of ps]) (use p q eq t Cons.prems(4) f gs in auto)
  ultimately show ?case using f gs by simp
qed simp

end
