(* ===== verification/Skeletons.thy ===== *)
theory Skeletons
  imports Kcc1
begin

text \<open>
  Compiled-contract templates of \<open>crates/kascov-decode/src/lib.rs\<close>: fixed-shape skeletons, their
  derivation from builds of one contract, \<open>emit\<close> and \<open>match_script\<close>, and the repeat skeletons of
  variable arity.
\<close>

section \<open>Skeletons\<close>

record field =
  f_name :: string
  f_value :: bytes

datatype skel_item = SOp u8 | SConstPush bytes bytes | SSlot string

record skeleton =
  sk_name :: string
  sk_items :: "skel_item list"
  sk_param_order :: "string list"

text \<open>\<open>insts.get(i + 1).map_or(len, |n| n.offset)\<close>: where the instruction at \<open>i\<close> ends.\<close>

definition next_offset :: "instruction list \<Rightarrow> nat \<Rightarrow> nat \<Rightarrow> nat" where
  "next_offset insts len i =
     (case get_at insts (i + 1) of None \<Rightarrow> len | Some n \<Rightarrow> i_offset n)"

definition derive_item ::
  "bytes \<Rightarrow> (string \<times> bytes) list \<Rightarrow> instruction list \<Rightarrow> nat \<Rightarrow> instruction \<Rightarrow> instruction
    \<Rightarrow> skel_item option" where
  "derive_item a sentinels ia i x y =
     (if \<not> is_push x \<and> \<not> is_push y then
        (if i_opcode x \<noteq> i_opcode y then None else Some (SOp (i_opcode x)))
      else if is_push x \<and> is_push y then
        (case push_value x of None \<Rightarrow> None
         | Some vx \<Rightarrow>
             (case push_value y of None \<Rightarrow> None
              | Some vy \<Rightarrow>
                  if vx = vy then
                    Some (SConstPush vx (slice a (i_offset x) (next_offset ia (length a) i)))
                  else map_option (\<lambda>(l, _). SSlot l) (find (\<lambda>(_, s). s = vx) sentinels)))
      else None)"

fun derive_items ::
  "bytes \<Rightarrow> (string \<times> bytes) list \<Rightarrow> instruction list \<Rightarrow> (instruction \<times> instruction) list \<Rightarrow> nat
    \<Rightarrow> skel_item list option" where
  "derive_items a sentinels ia [] i = Some []"
| "derive_items a sentinels ia ((x, y) # rest) i =
     (case derive_item a sentinels ia i x y of
        None \<Rightarrow> None
      | Some item \<Rightarrow> map_option ((#) item) (derive_items a sentinels ia rest (i + 1)))"

definition derive :: "string \<Rightarrow> bytes \<Rightarrow> bytes \<Rightarrow> (string \<times> bytes) list \<Rightarrow> skeleton option" where
  "derive name a b sentinels =
     (let (ia, ta) = disassemble a; (ib, tb) = disassemble b in
      if ta \<or> tb \<or> length ia \<noteq> length ib then None
      else map_option
        (\<lambda>items. \<lparr>sk_name = name, sk_items = items, sk_param_order = map fst sentinels\<rparr>)
        (derive_items a sentinels ia (zip ia ib) 0))"

text \<open>
  Disassembly of a set of instances: none truncated, all as long as the first. The same loop
  opens \<open>derive_observed\<close> and (as the closure \<open>parse\<close>) \<open>RepeatSkeleton::derive\<close>.
\<close>

fun parse_streams :: "instruction list list \<Rightarrow> bytes list \<Rightarrow> instruction list list option" where
  "parse_streams streams [] = Some streams"
| "parse_streams streams (bs # rest) =
     (let (insts, truncated) = disassemble bs in
      if truncated \<or> (streams \<noteq> [] \<and> length (hd streams) \<noteq> length insts) then None
      else parse_streams (streams @ [insts]) rest)"

text \<open>
  The body both derivations run at one position: \<open>x\<close> is the first instance's instruction,
  \<open>column\<close> the instructions of all instances there, \<open>raw\<close> the bytes of \<open>x\<close>. Equal non-push
  opcodes stay fixed, pushes that agree everywhere become constants, pushes that differ become
  slots; \<open>slots\<close> holds the value vectors of the distinct slots seen so far.
\<close>

definition column_item ::
  "string list \<Rightarrow> instruction \<Rightarrow> instruction list \<Rightarrow> bytes \<Rightarrow> bytes list list
    \<Rightarrow> (skel_item \<times> bytes list list) option" where
  "column_item labels x column raw slots =
     (if \<not> is_push x then
        (if \<exists>y \<in> set column. is_push y \<or> i_opcode y \<noteq> i_opcode x then None
         else Some (SOp (i_opcode x), slots))
      else
        (case traverse push_value column of
           None \<Rightarrow> None
         | Some vector \<Rightarrow>
             if \<forall>v \<in> set vector. v = hd vector then Some (SConstPush (hd vector) raw, slots)
             else
               let (slot, slots') =
                 (case position vector slots of
                    Some idx \<Rightarrow> (idx, slots)
                  | None \<Rightarrow> (length slots, slots @ [vector]))
               in map_option (\<lambda>l. (SSlot l, slots')) (get_at labels slot)))"

fun column_items ::
  "string list \<Rightarrow> (instruction \<times> instruction list \<times> bytes) list \<Rightarrow> bytes list list
    \<Rightarrow> (skel_item list \<times> bytes list list) option" where
  "column_items labels [] slots = Some ([], slots)"
| "column_items labels ((x, column, raw) # rest) slots =
     (case column_item labels x column raw slots of
        None \<Rightarrow> None
      | Some (item, slots') \<Rightarrow>
          map_option (\<lambda>(items, s). (item # items, s)) (column_items labels rest slots'))"

definition derive_observed :: "string \<Rightarrow> bytes list \<Rightarrow> string list \<Rightarrow> skeleton option" where
  "derive_observed name instances labels =
     (if length instances < 2 then None
      else case parse_streams [] instances of
        None \<Rightarrow> None
      | Some streams \<Rightarrow>
          let first = hd streams; a = hd instances;
            columns = map (\<lambda>i. (first ! i, map (\<lambda>s. s ! i) streams,
              slice a (i_offset (first ! i)) (next_offset first (length a) i))) [0..<length first]
          in
          (case column_items labels columns [] of
             None \<Rightarrow> None
           | Some (items, slots) \<Rightarrow>
               if length slots \<noteq> length labels then None
               else Some \<lparr>sk_name = name, sk_items = items, sk_param_order = labels\<rparr>))"

fun emit_items :: "(string \<times> bytes) list \<Rightarrow> skel_item list \<Rightarrow> bytes option" where
  "emit_items args [] = Some []"
| "emit_items args (item # items) =
     (case
        (case item of
           SOp op \<Rightarrow> Some [op]
         | SConstPush value raw \<Rightarrow> Some raw
         | SSlot label \<Rightarrow> map_option encode_push (map_of args label))
      of None \<Rightarrow> None
       | Some out \<Rightarrow> map_option ((@) out) (emit_items args items))"

definition emit :: "skeleton \<Rightarrow> (string \<times> bytes) list \<Rightarrow> bytes option" where
  "emit s args = emit_items args (sk_items s)"

text \<open>
  \<open>match_skel_item\<close> returns the extended \<open>values\<close>, or \<open>None\<close> where the code returns \<open>false\<close>; the
  callers give up on \<open>false\<close> and drop \<open>values\<close>.
\<close>

definition match_skel_item ::
  "skel_item \<Rightarrow> instruction \<Rightarrow> (string \<times> bytes) list \<Rightarrow> (string \<times> bytes) list option" where
  "match_skel_item item inst values =
     (case item of
        SOp op \<Rightarrow> if \<not> is_push inst \<and> i_opcode inst = op then Some values else None
      | SConstPush value raw \<Rightarrow> if push_value inst = Some value then Some values else None
      | SSlot label \<Rightarrow>
          (case push_value inst of
             None \<Rightarrow> None
           | Some v \<Rightarrow>
               (case map_of values label of
                  Some prev \<Rightarrow> if prev = v then Some values else None
                | None \<Rightarrow> Some (values @ [(label, v)]))))"

fun match_items ::
  "skel_item list \<Rightarrow> instruction list \<Rightarrow> (string \<times> bytes) list \<Rightarrow> (string \<times> bytes) list option" where
  "match_items (item # items) (inst # insts) values =
     (case match_skel_item item inst values of
        None \<Rightarrow> None
      | Some values' \<Rightarrow> match_items items insts values')"
| "match_items _ _ values = Some values"

definition fields_in_order :: "string list \<Rightarrow> (string \<times> bytes) list \<Rightarrow> field list" where
  "fields_in_order order values =
     List.map_filter
       (\<lambda>label. map_option (\<lambda>v. \<lparr>f_name = label, f_value = v\<rparr>) (map_of values label)) order"

definition match_script :: "skeleton \<Rightarrow> instruction list \<Rightarrow> field list option" where
  "match_script s instructions =
     (if length instructions \<noteq> length (sk_items s) then None
      else map_option (fields_in_order (sk_param_order s))
        (match_items (sk_items s) instructions []))"

section \<open>Repeat skeletons\<close>

definition same_shape :: "instruction \<Rightarrow> instruction \<Rightarrow> bool" where
  "same_shape a b =
     (case (push_value a, push_value b) of
        (Some x, Some y) \<Rightarrow> length x = length y
      | (None, None) \<Rightarrow> i_opcode a = i_opcode b
      | _ \<Rightarrow> False)"

record repeat_skeleton =
  rs_name :: string
  rs_prefix :: "skel_item list"
  rs_group :: "skel_item list"
  rs_suffix :: "skel_item list"
  rs_min_repeats :: nat
  rs_param_order :: "string list"
  rs_group_params :: "string list"

text \<open>The three alignment loops of \<open>RepeatSkeleton::derive\<close>.\<close>

fun shape_run :: "instruction list \<Rightarrow> instruction list \<Rightarrow> nat" where
  "shape_run (a # as) (b # bs) = (if same_shape a b then Suc (shape_run as bs) else 0)"
| "shape_run _ _ = 0"

fun rotate_left :: "instruction list \<Rightarrow> nat \<Rightarrow> nat \<Rightarrow> nat" where
  "rotate_left a0 g 0 = 0"
| "rotate_left a0 g (Suc p) =
     (if same_shape (a0 ! p) (a0 ! (p + g)) then rotate_left a0 g p else Suc p)"

text \<open>The repeated block: every push is a slot, labelled in order.\<close>

fun group_items :: "string list \<Rightarrow> instruction list \<Rightarrow> nat \<Rightarrow> (skel_item list \<times> nat) option" where
  "group_items group_labels [] pushes = Some ([], pushes)"
| "group_items group_labels (inst # insts) pushes =
     (if is_push inst then
        (case get_at group_labels pushes of
           None \<Rightarrow> None
         | Some l \<Rightarrow>
             map_option (\<lambda>(items, n). (SSlot l # items, n)) (group_items group_labels insts (pushes + 1)))
      else
        map_option (\<lambda>(items, n). (SOp (i_opcode inst) # items, n)) (group_items group_labels insts pushes))"

text \<open>The \<open>repeats\<close> loop of \<open>match_script\<close>: a fresh scope per repeat.\<close>

fun match_repeats ::
  "skel_item list \<Rightarrow> string list \<Rightarrow> nat \<Rightarrow> instruction list \<Rightarrow> field list option" where
  "match_repeats grp group_params 0 insts = Some []"
| "match_repeats grp group_params (Suc n) insts =
     (case match_items grp insts [] of
        None \<Rightarrow> None
      | Some rv \<Rightarrow>
          map_option ((@) (fields_in_order group_params rv))
            (match_repeats grp group_params n (drop (length grp) insts)))"

definition match_repeat_script :: "repeat_skeleton \<Rightarrow> instruction list \<Rightarrow> field list option" where
  "match_repeat_script r instructions =
     (let fixed = length (rs_prefix r) + length (rs_suffix r); g = length (rs_group r) in
      if length instructions < fixed then None
      else
        let extra = length instructions - fixed in
        if rs_group r = [] \<or> extra mod g \<noteq> 0 then None
        else
          let repeats = extra div g in
          if repeats < rs_min_repeats r then None
          else
            (case match_items (rs_prefix r) instructions [] of
               None \<Rightarrow> None
             | Some values \<Rightarrow>
                 (case match_repeats (rs_group r) (rs_group_params r) repeats
                     (drop (length (rs_prefix r)) instructions) of
                    None \<Rightarrow> None
                  | Some repeat_fields \<Rightarrow>
                      (case match_items (rs_suffix r)
                          (drop (length (rs_prefix r) + repeats * g) instructions) values of
                         None \<Rightarrow> None
                       | Some values \<Rightarrow>
                           Some (fields_in_order (rs_param_order r) values @ repeat_fields)))))"

definition dedup_first :: "string list \<Rightarrow> string list" where
  "dedup_first labels = fold (\<lambda>l acc. if l \<in> set acc then acc else acc @ [l]) labels []"

text \<open>The \<open>build\<close> closure over positions \<open>(ia, ib)\<close> of the long and the short arity.\<close>

definition repeat_columns ::
  "bytes \<Rightarrow> instruction list list \<Rightarrow> instruction list list \<Rightarrow> (nat \<times> nat) list
    \<Rightarrow> (instruction \<times> instruction list \<times> bytes) list" where
  "repeat_columns a la lb positions =
     map (\<lambda>(ia, ib). (hd la ! ia, map (\<lambda>s. s ! ia) la @ map (\<lambda>s. s ! ib) lb,
       slice a (i_offset (hd la ! ia)) (next_offset (hd la) (length a) ia))) positions"

text \<open>The closing check: a skeleton that does not match its own instances is refused.\<close>

definition self_checked :: "repeat_skeleton \<Rightarrow> bytes list \<Rightarrow> repeat_skeleton option" where
  "self_checked skel instances =
     (if \<forall>bs \<in> set instances. match_repeat_script skel (fst (disassemble bs)) \<noteq> None
      then Some skel else None)"

definition derive_repeat ::
  "string \<Rightarrow> bytes list \<Rightarrow> bytes list \<Rightarrow> string list \<Rightarrow> string list \<Rightarrow> repeat_skeleton option" where
  "derive_repeat name long short labels group_labels =
     (if length long < 2 \<or> short = [] then None
      else case (parse_streams [] long, parse_streams [] short) of
        (Some la, Some lb) \<Rightarrow>
          let a0 = hd la; b0 = hd lb in
          if length a0 \<le> length b0 then None
          else
            let g = length a0 - length b0;
              p = shape_run a0 b0;
              s = shape_run (rev a0) (take (length b0 - p) (rev b0)) in
            if length a0 - p - s < g then None
            else
              let p = rotate_left a0 g (length a0 - s - g) in
              if length b0 < p + s then None
              else
                let extra = length b0 - (p + s) in
                if extra mod g \<noteq> 0 then None
                else
                  let cols = repeat_columns (hd long) la lb in
                  (case column_items labels (cols (map (\<lambda>i. (i, i)) [0..<p])) [] of
                     None \<Rightarrow> None
                   | Some (prefix, slots) \<Rightarrow>
                  (case column_items labels
                       (cols (map (\<lambda>j. (length a0 - s + j, length b0 - s + j)) [0..<s])) slots of
                     None \<Rightarrow> None
                   | Some (suffix, slots) \<Rightarrow>
                  if length slots \<noteq> length labels then None
                  else
                  (case group_items group_labels (slice a0 p (p + g)) 0 of
                     None \<Rightarrow> None
                   | Some (grp, pushes) \<Rightarrow>
                  if pushes \<noteq> length group_labels then None
                  else
                    let skel = \<lparr>rs_name = name, rs_prefix = prefix, rs_group = grp,
                      rs_suffix = suffix, rs_min_repeats = extra div g,
                      rs_param_order = labels, rs_group_params = dedup_first group_labels\<rparr> in
                    self_checked skel (long @ short))))
      | _ \<Rightarrow> None)"

section \<open>Matching is agreement with an assignment\<close>

text \<open>What one item says of one instruction, under an assignment of values to labels.\<close>

definition item_holds :: "(string \<Rightarrow> bytes) \<Rightarrow> skel_item \<Rightarrow> instruction \<Rightarrow> bool" where
  "item_holds \<sigma> item inst =
     (case item of
        SOp op \<Rightarrow> \<not> is_push inst \<and> i_opcode inst = op
      | SConstPush value raw \<Rightarrow> push_value inst = Some value
      | SSlot label \<Rightarrow> push_value inst = Some (\<sigma> label))"

lemma match_skel_item_holds:
  assumes "item_holds \<sigma> item inst" and "\<And>l v. map_of vals l = Some v \<Longrightarrow> v = \<sigma> l"
  shows "\<exists>vals'. match_skel_item item inst vals = Some vals' \<and>
    (\<forall>l. map_of vals' l = (if SSlot l = item then Some (\<sigma> l) else map_of vals l))"
proof (cases item)
  case (SSlot l)
  then have pv: "push_value inst = Some (\<sigma> l)" using assms(1) by (simp add: item_holds_def)
  show ?thesis
  proof (cases "map_of vals l")
    case None
    with SSlot pv show ?thesis
      by (intro exI [of _ "vals @ [(l, \<sigma> l)]"])
        (auto simp: match_skel_item_def map_add_def split: option.splits)
  next
    case (Some v)
    with assms(2) have "v = \<sigma> l" by blast
    with Some SSlot pv show ?thesis by (auto simp: match_skel_item_def)
  qed
qed (use assms in \<open>auto simp: item_holds_def match_skel_item_def\<close>)

lemma match_items_holds:
  "list_all2 (item_holds \<sigma>) items insts \<Longrightarrow> (\<And>l v. map_of vals l = Some v \<Longrightarrow> v = \<sigma> l) \<Longrightarrow>
   \<exists>vals'. match_items items (insts @ rest) vals = Some vals' \<and>
     (\<forall>l. map_of vals' l = (if SSlot l \<in> set items then Some (\<sigma> l) else map_of vals l))"
proof (induction items insts arbitrary: vals rule: list_all2_induct)
  case Nil
  then show ?case by (cases rest) auto
next
  case (Cons item items inst insts)
  from match_skel_item_holds [OF Cons.hyps(1) Cons.prems] obtain v1 where
    v1: "match_skel_item item inst vals = Some v1"
      "\<And>l. map_of v1 l = (if SSlot l = item then Some (\<sigma> l) else map_of vals l)" by auto
  have "\<exists>vals'. match_items items (insts @ rest) v1 = Some vals' \<and>
     (\<forall>l. map_of vals' l = (if SSlot l \<in> set items then Some (\<sigma> l) else map_of v1 l))"
    by (rule Cons.IH) (use v1 Cons.prems in \<open>auto split: if_splits\<close>)
  with v1 show ?case by auto
qed

lemma match_skel_item_keeps:
  assumes "match_skel_item item inst vals = Some vals'"
  shows "map_of vals l = Some v \<Longrightarrow> map_of vals' l = Some v"
    and "(\<And>l v. map_of vals' l = Some v \<Longrightarrow> \<sigma> l = v) \<Longrightarrow> item_holds \<sigma> item inst"
    and "map_of vals' l \<noteq> None \<longleftrightarrow> map_of vals l \<noteq> None \<or> SSlot l = item"
  using assms
  by (auto simp: match_skel_item_def item_holds_def map_add_def split: skel_item.splits option.splits
      if_splits)

lemma match_items_sound:
  "match_items items insts vals = Some vals' \<Longrightarrow> length items \<le> length insts \<Longrightarrow>
   (\<forall>l v. map_of vals l = Some v \<longrightarrow> map_of vals' l = Some v) \<and>
   list_all2 (item_holds (\<lambda>l. the (map_of vals' l))) items (take (length items) insts) \<and>
   (\<forall>l. map_of vals' l \<noteq> None \<longleftrightarrow> map_of vals l \<noteq> None \<or> SSlot l \<in> set items)"
proof (induction items insts vals rule: match_items.induct)
  case (1 item items inst insts vals)
  then obtain v1 where v1: "match_skel_item item inst vals = Some v1"
    "match_items items insts v1 = Some vals'" by (auto split: option.splits)
  from "1.IH" [OF v1] "1.prems"(2) have IH:
    "\<forall>l v. map_of v1 l = Some v \<longrightarrow> map_of vals' l = Some v"
    "list_all2 (item_holds (\<lambda>l. the (map_of vals' l))) items (take (length items) insts)"
    "\<forall>l. map_of vals' l \<noteq> None \<longleftrightarrow> map_of v1 l \<noteq> None \<or> SSlot l \<in> set items" by auto
  have "item_holds (\<lambda>l. the (map_of vals' l)) item inst"
    by (rule match_skel_item_keeps(2) [OF v1(1)]) (use IH(1) in auto)
  with IH match_skel_item_keeps(1,3) [OF v1(1)] show ?case by fastforce
qed auto

lemma fields_in_order_assign:
  assumes "\<And>l. map_of vals l = (if l \<in> S then Some (\<sigma> l) else None)"
  shows "fields_in_order order vals = map (\<lambda>l. \<lparr>f_name = l, f_value = \<sigma> l\<rparr>) (filter (\<lambda>l. l \<in> S) order)"
  by (induction order) (simp_all add: fields_in_order_def assms map_filter_simps)

text \<open>C35. A script matches a skeleton exactly when it has one instruction per item and one
  assignment of values to the labels makes every item agree with its instruction: repeated slots
  carry one value. The fields returned are the assigned values, in parameter order.\<close>

theorem match_script_iff:
  "match_script s insts = Some fs \<longleftrightarrow>
     (\<exists>\<sigma>. list_all2 (item_holds \<sigma>) (sk_items s) insts \<and>
        fs = map (\<lambda>l. \<lparr>f_name = l, f_value = \<sigma> l\<rparr>)
          (filter (\<lambda>l. SSlot l \<in> set (sk_items s)) (sk_param_order s)))"
  (is "?L \<longleftrightarrow> ?R")
proof
  assume L: ?L
  then obtain vals where len: "length insts = length (sk_items s)"
    and m: "match_items (sk_items s) insts [] = Some vals"
    and fs: "fs = fields_in_order (sk_param_order s) vals"
    by (auto simp: match_script_def split: if_splits)
  let ?\<sigma> = "\<lambda>l. the (map_of vals l)"
  have snd: "list_all2 (item_holds ?\<sigma>) (sk_items s) insts"
    "\<And>l. map_of vals l \<noteq> None \<longleftrightarrow> SSlot l \<in> set (sk_items s)"
    using match_items_sound [OF m] len by auto
  have "\<And>l. map_of vals l = (if l \<in> {l. SSlot l \<in> set (sk_items s)} then Some (?\<sigma> l) else None)"
    using snd(2) by force
  from fields_in_order_assign [OF this] fs snd(1) show ?R by auto
next
  assume ?R
  then obtain \<sigma> where a: "list_all2 (item_holds \<sigma>) (sk_items s) insts"
    and fs: "fs = map (\<lambda>l. \<lparr>f_name = l, f_value = \<sigma> l\<rparr>)
          (filter (\<lambda>l. SSlot l \<in> set (sk_items s)) (sk_param_order s))" by blast
  from match_items_holds [OF a, of "[]" "[]"] obtain vals where
    "match_items (sk_items s) insts [] = Some vals"
    "\<And>l. map_of vals l = (if l \<in> {l. SSlot l \<in> set (sk_items s)} then Some (\<sigma> l) else None)"
    by auto
  with fields_in_order_assign [of vals "{l. SSlot l \<in> set (sk_items s)}" \<sigma>] fs
    list_all2_lengthD [OF a] show ?L
    by (simp add: match_script_def)
qed

section \<open>Well-formed skeletons and \<open>emit\<close>\<close>

text \<open>
  What a derived skeleton's items are: a fixed opcode is not a push, and the raw bytes of a
  constant are one complete push of its value.
\<close>

definition item_wf :: "skel_item \<Rightarrow> bool" where
  "item_wf item =
     (case item of
        SOp op \<Rightarrow> snd (opcode_info op) \<noteq> GPush
      | SConstPush value raw \<Rightarrow>
          (\<exists>i. well_formed i \<and> assemble i = raw \<and> push_value i = Some value)
      | SSlot _ \<Rightarrow> True)"

definition skeleton_wf :: "skeleton \<Rightarrow> bool" where
  "skeleton_wf s \<longleftrightarrow> (\<forall>item \<in> set (sk_items s). item_wf item)"

text \<open>A complete instruction can be moved to any offset.\<close>

lemma complete_move:
  assumes "well_formed i"
  shows "well_formed (i\<lparr>i_offset := off\<rparr>)" "assemble (i\<lparr>i_offset := off\<rparr>) = assemble i"
    "push_value (i\<lparr>i_offset := off\<rparr>) = push_value i" "is_push (i\<lparr>i_offset := off\<rparr>) = is_push i"
proof -
  have i: "i = mk_inst (i_offset i) (i_opcode i) (i_data i)" using assms by (simp add: well_formed_def)
  then have m: "i\<lparr>i_offset := off\<rparr> = mk_inst off (i_opcode i) (i_data i)"
    by (cases i) (simp add: mk_inst_def split: prod.splits)
  show "well_formed (i\<lparr>i_offset := off\<rparr>)"
    using assms m by (simp add: well_formed_def cong: option.case_cong)
  show "assemble (i\<lparr>i_offset := off\<rparr>) = assemble i"
    "push_value (i\<lparr>i_offset := off\<rparr>) = push_value i" "is_push (i\<lparr>i_offset := off\<rparr>) = is_push i"
    by (simp_all add: assemble_def push_value_def is_push_def cong: option.case_cong)
qed

lemma non_push_complete:
  assumes "snd (opcode_info op) \<noteq> GPush"
  shows "well_formed (mk_inst off op None)" "assemble (mk_inst off op None) = [op]"
    "\<not> is_push (mk_inst off op None)"
proof -
  have "\<not> op \<le> 0x4f" using assms by (simp add: opcode_push)
  then show "well_formed (mk_inst off op None)" by (auto simp: well_formed_def word_le_nat_alt)
  show "assemble (mk_inst off op None) = [op]" by (simp add: assemble_def)
  show "\<not> is_push (mk_inst off op None)" using assms by (simp add: is_push_def)
qed

lemma emit_items_dis:
  "emit_items args items = Some bs \<Longrightarrow> \<forall>item \<in> set items. item_wf item \<Longrightarrow>
   \<forall>p \<in> set args. push_len_ok (snd p) \<Longrightarrow>
   \<exists>insts. dis off bs = (insts, False) \<and> list_all2 (item_holds (\<lambda>l. the (map_of args l))) items insts
     \<and> (\<forall>i \<in> set insts. well_formed i)"
proof (induction items arbitrary: bs off)
  case (Cons item items)
  let ?h = "item_holds (\<lambda>l. the (map_of args l))"
  from Cons.prems(1) obtain out bs' where bs: "bs = out @ bs'" and bs': "emit_items args items = Some bs'"
    and out: "(case item of SOp op \<Rightarrow> Some [op] | SConstPush value raw \<Rightarrow> Some raw
      | SSlot label \<Rightarrow> map_option encode_push (map_of args label)) = Some out"
    by (auto split: option.splits)
  have wf: "item_wf item" using Cons.prems(2) by simp
  have "\<exists>i. i_offset i = off \<and> well_formed i \<and> assemble i = out \<and> ?h item i"
  proof (cases item)
    case (SOp op)
    with wf out non_push_complete [of op off] show ?thesis
      by (intro exI [of _ "mk_inst off op None"]) (simp add: item_wf_def item_holds_def)
  next
    case (SConstPush cv raw)
    with wf obtain i where "well_formed i" "assemble i = raw" "push_value i = Some cv"
      by (auto simp: item_wf_def)
    with SConstPush out complete_move [of i off] show ?thesis
      by (intro exI [of _ "i\<lparr>i_offset := off\<rparr>"]) (simp add: item_holds_def)
  next
    case (SSlot label)
    with out obtain v where v: "map_of args label = Some v" "out = encode_push v" by auto
    then have "push_len_ok v" using Cons.prems(3) map_of_SomeD [OF v(1)] by fastforce
    then obtain i where "i_offset i = off" "well_formed i" "assemble i = encode_push v"
      "push_value i = Some v" using encode_push_inst [of v off] by blast
    with SSlot v show ?thesis by (auto simp: item_holds_def)
  qed
  then obtain i where i: "i_offset i = off" "well_formed i" "assemble i = out" "?h item i" by blast
  obtain insts where "dis (off + length out) bs' = (insts, False)" "list_all2 ?h items insts"
    "\<forall>i \<in> set insts. well_formed i"
    using Cons.IH [OF bs', of "off + length out"] Cons.prems by auto
  with i bs dis_assemble [OF i(2,1), of bs'] show ?case by auto
qed simp

text \<open>What \<open>emit\<close> produces from a well-formed skeleton is a complete script that the same
  skeleton matches, and the match recovers the arguments: each parameter the skeleton uses, in
  parameter order, with the value it was given.\<close>

theorem emit_match_script:
  assumes "skeleton_wf s" and "emit s args = Some bs" and "\<forall>p \<in> set args. push_len_ok (snd p)"
  shows "\<not> snd (disassemble bs) \<and>
    match_script s (fst (disassemble bs)) =
      Some (map (\<lambda>l. \<lparr>f_name = l, f_value = the (map_of args l)\<rparr>)
        (filter (\<lambda>l. SSlot l \<in> set (sk_items s)) (sk_param_order s)))"
proof -
  from emit_items_dis [of args "sk_items s" bs 0] assms obtain insts where
    d: "disassemble bs = (insts, False)" and
    h: "list_all2 (item_holds (\<lambda>l. the (map_of args l))) (sk_items s) insts"
    by (auto simp: emit_def skeleton_wf_def disassemble_dis)
  show ?thesis using h unfolding d fst_conv snd_conv match_script_iff by auto
qed

lemma emit_match_script_witness:
  "match_script \<lparr>sk_name = ''demo'', sk_items = [SOp 0x76, SSlot ''k'', SConstPush [5] [0x55], SSlot ''k''],
      sk_param_order = [''k'']\<rparr> (fst (disassemble [0x76, 0x02, 1, 2, 0x55, 0x02, 1, 2])) =
    Some [\<lparr>f_name = ''k'', f_value = [1, 2]\<rparr>]"
proof -
  let ?s = "\<lparr>sk_name = ''demo'', sk_items = [SOp 0x76, SSlot ''k'', SConstPush [5] [0x55], SSlot ''k''],
      sk_param_order = [''k'']\<rparr>"
  have "well_formed (mk_inst 0 0x55 None) \<and> assemble (mk_inst 0 0x55 None) = [0x55] \<and>
      push_value (mk_inst 0 0x55 None) = Some [5]"
    by (simp add: well_formed_def assemble_def push_value_def)
  then have wf: "skeleton_wf ?s"
    by (auto simp: skeleton_wf_def item_wf_def opcode_push)
  have e: "emit ?s [(''k'', [1, 2])] = Some [0x76, 0x02, 1, 2, 0x55, 0x02, 1, 2]" by code_simp
  show ?thesis using emit_match_script [OF wf e] by simp
qed

section \<open>Derivation from instances\<close>

lemma tiles_offset:
  "tiles off xs \<Longrightarrow> i < length xs \<Longrightarrow>
   i_offset (xs ! i) = off + length (concat (map assemble (take i xs)))"
proof (induction xs arbitrary: off i)
  case (Cons x xs)
  then show ?case by (cases i) auto
qed simp

text \<open>The bytes between one instruction's offset and the next are that instruction's own.\<close>

lemma raw_of_instruction:
  assumes "disassemble a = (ia, False)" and "i < length ia"
  shows "slice a (i_offset (ia ! i)) (next_offset ia (length a) i) = assemble (ia ! i)"
proof -
  let ?c = "\<lambda>xs. concat (map assemble xs)"
  have t: "tiles 0 ia" and a: "a = ?c ia"
    using assms(1) dis_tiles [of 0 a ia False] by (auto simp: disassemble_dis)
  have off: "j < length ia \<Longrightarrow> i_offset (ia ! j) = length (?c (take j ia))" for j
    using tiles_offset [OF t] by simp
  have split: "a = ?c (take i ia) @ assemble (ia ! i) @ ?c (drop (Suc i) ia)"
    unfolding a by (subst id_take_nth_drop [OF assms(2)]) simp
  have nxt: "next_offset ia (length a) i = length (?c (take i ia)) + length (assemble (ia ! i))"
  proof (cases "Suc i < length ia")
    case True
    then show ?thesis
      using off [OF True] by (simp add: next_offset_def get_at_def take_Suc_conv_app_nth [OF assms(2)])
  next
    case False
    then have "length a = length (?c (take i ia)) + length (assemble (ia ! i))"
      by (subst split) simp
    with False show ?thesis by (simp add: next_offset_def get_at_def)
  qed
  show ?thesis unfolding nxt off [OF assms(2)] slice_def by (subst split) simp
qed

lemma disassembled_push_complete:
  assumes "disassemble a = (ia, t)" and "x \<in> set ia" and "push_value x = Some v"
  shows "well_formed x"
proof (cases "i_data x")
  case None
  have "x = mk_inst (i_offset x) (i_opcode x) (i_data x)"
    using dis_mk_inst assms(1,2) by (metis disassemble_dis)
  moreover have "i_opcode x = 0x00 \<or> i_opcode x = 0x4f \<or> 0x51 \<le> i_opcode x"
    using assms(3) None by (auto simp: push_value_def split: if_splits)
  ultimately show ?thesis using None by (auto simp: well_formed_def word_le_nat_alt)
next
  case (Some d)
  then show ?thesis using dis_complete assms(1,2) by (metis disassemble_dis)
qed

lemma disassembled_is_push:
  assumes "disassemble a = (ia, t)" and "x \<in> set ia"
  shows "is_push x \<longleftrightarrow> snd (opcode_info (i_opcode x)) = GPush"
  using dis_mk_inst [of 0 a ia t x] assms by (metis disassemble_dis is_push_def mk_inst_simps(4))

lemma const_item_wf:
  assumes "disassemble a = (ia, False)" and "i < length ia" and "push_value (ia ! i) = Some v"
  shows "item_wf (SConstPush v (slice a (i_offset (ia ! i)) (next_offset ia (length a) i)))"
  using assms disassembled_push_complete [OF assms(1) _ assms(3)] raw_of_instruction [OF assms(1,2)]
  by (auto simp: item_wf_def)

lemma derive_item_holds:
  assumes "disassemble a = (ia, False)" and "i < length ia" and "distinct (map fst sentinels)"
    and "derive_item a sentinels ia i (ia ! i) y = Some item"
  shows "item_wf item" "item_holds (\<lambda>l. the (map_of sentinels l)) item (ia ! i)"
proof -
  let ?x = "ia ! i"
  have mem: "?x \<in> set ia" using assms(2) by simp
  have fnd: "\<exists>l. find (\<lambda>(_, s). s = v) sentinels = Some (l, v) \<and> item' = SSlot l"
    if "map_option (\<lambda>(l, _). SSlot l) (find (\<lambda>(_, s). s = v) sentinels) = Some item'" for v item'
  proof -
    from that obtain l w where f: "find (\<lambda>(_, s). s = v) sentinels = Some (l, w)" "item' = SSlot l" by auto
    then have "w = v" by (auto simp: find_Some_iff)
    with f show ?thesis by blast
  qed
  consider (op) "\<not> is_push ?x" "item = SOp (i_opcode ?x)"
    | (const) v where "push_value ?x = Some v"
        "item = SConstPush v (slice a (i_offset ?x) (next_offset ia (length a) i))"
    | (slot) v l where "push_value ?x = Some v" "find (\<lambda>(_, s). s = v) sentinels = Some (l, v)" "item = SSlot l"
  proof (cases "is_push ?x")
    case False
    then show ?thesis using assms(4) op by (simp add: derive_item_def split: if_splits)
  next
    case True
    then obtain vx vy where v: "push_value ?x = Some vx" "push_value y = Some vy" "is_push y"
      using assms(4) by (simp add: derive_item_def split: if_splits option.splits)
    show ?thesis
    proof (cases "vx = vy")
      case True
      then show ?thesis using assms(4) v \<open>is_push ?x\<close> const by (simp add: derive_item_def)
    next
      case False
      then have "map_option (\<lambda>(l, _). SSlot l) (find (\<lambda>(_, s). s = vx) sentinels) = Some item"
        using assms(4) v \<open>is_push ?x\<close> by (simp add: derive_item_def)
      from fnd [OF this] v(1) slot show ?thesis by blast
    qed
  qed
  then have "item_wf item \<and> item_holds (\<lambda>l. the (map_of sentinels l)) item ?x"
  proof cases
    case op
    then show ?thesis
      using disassembled_is_push [OF assms(1) mem] by (simp add: item_wf_def item_holds_def)
  next
    case const
    then show ?thesis
      using const_item_wf [OF assms(1,2)] by (simp add: item_holds_def)
  next
    case slot
    then have "(l, v) \<in> set sentinels" by (auto simp: find_Some_iff) (metis nth_mem)
    then have "map_of sentinels l = Some v" using assms(3) by simp
    with slot show ?thesis by (simp add: item_wf_def item_holds_def)
  qed
  then show "item_wf item" "item_holds (\<lambda>l. the (map_of sentinels l)) item (ia ! i)" by auto
qed

lemma derive_items_holds:
  assumes "disassemble a = (ia, False)" and "distinct (map fst sentinels)"
  shows "derive_items a sentinels ia pairs i = Some items \<Longrightarrow>
    map fst pairs = drop i ia \<Longrightarrow>
    (\<forall>item \<in> set items. item_wf item) \<and>
    list_all2 (item_holds (\<lambda>l. the (map_of sentinels l))) items (drop i ia)"
proof (induction pairs arbitrary: i items)
  case (Cons p rest)
  obtain x y where p: "p = (x, y)" by (cases p)
  have len: "i < length ia" using Cons.prems(2) by (cases "i < length ia") auto
  then have dr: "drop i ia = ia ! i # drop (i + 1) ia" by (simp add: Cons_nth_drop_Suc)
  with Cons.prems(2) p have x: "x = ia ! i" and rest: "map fst rest = drop (i + 1) ia" by auto
  from Cons.prems(1) p obtain item items' where items: "items = item # items'"
    and r: "derive_items a sentinels ia rest (i + 1) = Some items'"
    and it: "derive_item a sentinels ia i (ia ! i) y = Some item"
    by (auto simp: x split: option.splits)
  show ?case
    unfolding dr items using derive_item_holds [OF assms(1) len assms(2) it] Cons.IH [OF r rest] by simp
qed simp

text \<open>A skeleton derived from two builds is well-formed (its fixed opcodes are no pushes and
  the raw bytes kept for each constant are one complete push of exactly that constant, so what
  \<open>emit\<close> replays disassembles back item by item), and it matches the build with the sentinels,
  returning the sentinels as the values of the slots.\<close>

theorem derive_matches:
  assumes "derive name a b sentinels = Some s" and "distinct (map fst sentinels)"
  shows "skeleton_wf s \<and>
    match_script s (fst (disassemble a)) =
      Some (map (\<lambda>(l, v). \<lparr>f_name = l, f_value = v\<rparr>)
        (filter (\<lambda>(l, v). SSlot l \<in> set (sk_items s)) sentinels))"
proof -
  obtain ia ta ib tb where d: "disassemble a = (ia, ta)" "disassemble b = (ib, tb)" by fastforce
  with assms(1) have t: "\<not> ta" "length ia = length ib" and po: "sk_param_order s = map fst sentinels" and
    items: "derive_items a sentinels ia (zip ia ib) 0 = Some (sk_items s)"
    by (auto simp: derive_def split: if_splits)
  have da: "disassemble a = (ia, False)" using d t by simp
  have "map fst (zip ia ib) = drop 0 ia" using t by simp
  from derive_items_holds [OF da assms(2) items this] have
    h: "\<forall>item \<in> set (sk_items s). item_wf item"
      "list_all2 (item_holds (\<lambda>l. the (map_of sentinels l))) (sk_items s) ia" by simp_all
  have "map (\<lambda>l. \<lparr>f_name = l, f_value = the (map_of sentinels l)\<rparr>)
          (filter (\<lambda>l. SSlot l \<in> set (sk_items s)) (map fst sentinels)) =
      map (\<lambda>(l, v). \<lparr>f_name = l, f_value = v\<rparr>)
        (filter (\<lambda>(l, v). SSlot l \<in> set (sk_items s)) sentinels)"
    using assms(2) by (auto simp: filter_map o_def case_prod_unfold)
  then have "match_script s ia = Some (map (\<lambda>(l, v). \<lparr>f_name = l, f_value = v\<rparr>)
        (filter (\<lambda>(l, v). SSlot l \<in> set (sk_items s)) sentinels))"
    using h(2) unfolding match_script_iff po by metis
  then show ?thesis using h(1) unfolding da fst_conv skeleton_wf_def by simp
qed

lemma derive_matches_witness:
  "match_script \<lparr>sk_name = ''demo'', sk_items = [SOp 0x76, SSlot ''k'', SConstPush [5] [0x55]],
      sk_param_order = [''k'']\<rparr> (fst (disassemble [0x76, 0x01, 17, 0x55])) =
    Some [\<lparr>f_name = ''k'', f_value = [17]\<rparr>]"
proof -
  have "derive ''demo'' [0x76, 0x01, 17, 0x55] [0x76, 0x01, 19, 0x55] [(''k'', [17])] =
    Some \<lparr>sk_name = ''demo'', sk_items = [SOp 0x76, SSlot ''k'', SConstPush [5] [0x55]],
      sk_param_order = [''k'']\<rparr>" by code_simp
  from derive_matches [OF this] show ?thesis by simp
qed

text \<open>The instances a derivation disassembles.\<close>

lemma parse_streams_sound:
  "parse_streams streams bss = Some out \<Longrightarrow>
   out = streams @ map (fst \<circ> disassemble) bss \<and>
   (\<forall>bs \<in> set bss. \<not> snd (disassemble bs)) \<and>
   (\<forall>bs \<in> set bss. length (fst (disassemble bs)) = length (hd out))"
proof (induction streams bss rule: parse_streams.induct)
  case (2 streams bs rest)
  obtain insts t where d: "disassemble bs = (insts, t)" by fastforce
  with "2.prems" have g: "\<not> t" "streams \<noteq> [] \<longrightarrow> length (hd streams) = length insts"
    and r: "parse_streams (streams @ [insts]) rest = Some out" by (auto split: if_splits)
  from "2.IH" [OF d [symmetric] refl _ r] g have
    IH: "out = (streams @ [insts]) @ map (fst \<circ> disassemble) rest"
      "\<forall>bs \<in> set rest. \<not> snd (disassemble bs)"
      "\<forall>bs \<in> set rest. length (fst (disassemble bs)) = length (hd out)" by auto
  moreover have "length insts = length (hd out)" using g IH(1) by (cases streams) auto
  ultimately show ?case using d g by simp
qed simp

text \<open>A column of one position holds under any assignment that gives each slot label the entry of
  its value vector.\<close>

definition item_of :: "instruction \<Rightarrow> bytes \<Rightarrow> skel_item \<Rightarrow> bool" where
  "item_of x raw item =
     (case item of
        SOp op \<Rightarrow> \<not> is_push x \<and> op = i_opcode x
      | SConstPush v r \<Rightarrow> push_value x = Some v \<and> r = raw
      | SSlot l \<Rightarrow> True)"

definition slots_for :: "(string \<Rightarrow> bytes) \<Rightarrow> string list \<Rightarrow> bytes list list \<Rightarrow> nat \<Rightarrow> bool" where
  "slots_for \<sigma> labels slots k \<longleftrightarrow> (\<forall>j < length slots. \<sigma> (labels ! j) = slots ! j ! k)"

lemma column_item_holds:
  assumes "column_item labels x column raw slots = Some (item, slots')"
    and "column \<noteq> []" and "x = hd column" and "length slots \<le> length labels"
  shows "take (length slots) slots' = slots \<and> length slots \<le> length slots' \<and> length slots' \<le> length labels
    \<and> (\<forall>k \<sigma>. k < length column \<longrightarrow> slots_for \<sigma> labels slots' k \<longrightarrow> item_holds \<sigma> item (column ! k))
    \<and> (\<forall>j. length slots \<le> j \<longrightarrow> j < length slots' \<longrightarrow> item = SSlot (labels ! j))
    \<and> item_of x raw item"
proof (cases "is_push x")
  case False
  then have eq: "slots' = slots" "item = SOp (i_opcode x)"
    and all: "\<forall>y \<in> set column. \<not> is_push y \<and> i_opcode y = i_opcode x"
    using assms(1) by (simp_all add: column_item_def split: if_split_asm)
  have "item_holds \<sigma> item (column ! k)" if "k < length column" for \<sigma> k
    using all nth_mem [OF that] by (simp add: eq(2) item_holds_def)
  then show ?thesis using False assms(4) by (simp add: eq item_of_def)
next
  case True
  with assms(1) obtain vec where vec: "traverse push_value column = Some vec"
    by (auto simp: column_item_def split: option.splits)
  have nth: "push_value (column ! k) = Some (vec ! k)" if "k < length column" for k
    using traverse_nth [OF vec that] .
  have len: "length vec = length column" using traverse_length [OF vec] .
  have hd: "push_value x = Some (hd vec)"
    using nth [of 0] assms(2,3) len by (metis hd_conv_nth length_greater_0_conv)
  show ?thesis
  proof (cases "\<forall>v \<in> set vec. v = hd vec")
    case True
    then have "item = SConstPush (hd vec) raw" "slots' = slots"
      using assms(1) \<open>is_push x\<close> vec by (auto simp: column_item_def)
    moreover have "k < length column \<Longrightarrow> vec ! k = hd vec" for k using True len by auto
    ultimately show ?thesis using nth assms(4) hd by (simp add: item_holds_def item_of_def)
  next
    case False
    note ne = False
    show ?thesis
    proof (cases "position vec slots")
      case (Some idx)
      from position_Some [OF this] have idx: "idx < length slots" "slots ! idx = vec" by simp_all
      then have "item = SSlot (labels ! idx)" "slots' = slots"
        using assms(1,4) \<open>is_push x\<close> vec ne Some by (auto simp: column_item_def get_at_def)
      moreover have "item_holds \<sigma> (SSlot (labels ! idx)) (column ! k)"
        if "k < length column" "slots_for \<sigma> labels slots k" for \<sigma> k
        using nth [OF that(1)] that(2) idx by (simp add: item_holds_def slots_for_def)
      ultimately show ?thesis using assms(4) by (simp add: item_of_def)
    next
      case None
      then have "length slots < length labels \<and> item = SSlot (labels ! length slots)
          \<and> slots' = slots @ [vec]"
        using assms(1) \<open>is_push x\<close> vec ne by (auto simp: column_item_def get_at_def split: if_splits)
      moreover have "item_holds \<sigma> (SSlot (labels ! length slots)) (column ! k)"
        if "k < length column" "slots_for \<sigma> labels (slots @ [vec]) k" for \<sigma> k
        using nth [OF that(1)] that(2) by (simp add: item_holds_def slots_for_def)
      ultimately show ?thesis by (auto simp: item_of_def le_less_Suc_eq)
    qed
  qed
qed

lemma column_items_holds:
  "column_items labels cols slots = Some (items, slots') \<Longrightarrow> length slots \<le> length labels \<Longrightarrow>
   \<forall>(x, column, raw) \<in> set cols. length column = n \<and> column \<noteq> [] \<and> x = hd column \<Longrightarrow>
   take (length slots) slots' = slots \<and> length slots \<le> length slots' \<and> length slots' \<le> length labels
    \<and> (\<forall>k \<sigma>. k < n \<longrightarrow> slots_for \<sigma> labels slots' k \<longrightarrow>
          list_all2 (item_holds \<sigma>) items (map (\<lambda>(x, column, raw). column ! k) cols))
    \<and> (\<forall>j. length slots \<le> j \<longrightarrow> j < length slots' \<longrightarrow> SSlot (labels ! j) \<in> set items)
    \<and> list_all2 (\<lambda>item (x, column, raw). item_of x raw item) items cols"
proof (induction labels cols slots arbitrary: items rule: column_items.induct)
  case (2 labels x column raw rest slots)
  from "2.prems"(1) obtain item s1 items' where it: "column_item labels x column raw slots = Some (item, s1)"
    and r: "column_items labels rest s1 = Some (items', slots')" and items: "items = item # items'"
    by (auto split: option.splits)
  have c: "length column = n" "column \<noteq> []" "x = hd column" using "2.prems"(3) by auto
  note h = column_item_holds [OF it c(2,3) "2.prems"(2)]
  then have l1: "length s1 \<le> length labels" by blast
  note IH = "2.IH" [OF it refl r l1]
  have IH: "take (length s1) slots' = s1" "length s1 \<le> length slots'" "length slots' \<le> length labels"
    "\<forall>k \<sigma>. k < n \<longrightarrow> slots_for \<sigma> labels slots' k \<longrightarrow>
          list_all2 (item_holds \<sigma>) items' (map (\<lambda>(x, column, raw). column ! k) rest)"
    "\<forall>j. length s1 \<le> j \<longrightarrow> j < length slots' \<longrightarrow> SSlot (labels ! j) \<in> set items'"
    "list_all2 (\<lambda>item (x, column, raw). item_of x raw item) items' rest"
    using IH "2.prems"(3) by auto
  have "slots_for \<sigma> labels s1 k" if "slots_for \<sigma> labels slots' k" for \<sigma> k
    using that IH(1,2) unfolding slots_for_def
    by (metis nth_take order_less_le_trans)
  moreover have "take (length slots) slots' = slots"
    using h IH(1) by (metis min.absorb1 take_take)
  moreover have "SSlot (labels ! j) \<in> set items" if "length slots \<le> j" "j < length slots'" for j
    using h IH(5) that unfolding items by (cases "j < length s1") auto
  ultimately show ?case
    using h IH c(1) unfolding items by simp
qed (auto simp: slots_for_def)

text \<open>\<open>derive_observed\<close> yields a well-formed skeleton that matches every instance it was derived
  from; the match yields one field for each label, in label order.\<close>

theorem derive_observed_accepts:
  assumes "derive_observed name instances labels = Some s" and "distinct labels"
    and "bs \<in> set instances"
  shows "skeleton_wf s \<and> sk_param_order s = labels \<and>
    (\<exists>fs. match_script s (fst (disassemble bs)) = Some fs \<and> map f_name fs = labels)"
proof -
  from assms(1) obtain streams items slots where len2: "2 \<le> length instances"
    and st: "parse_streams [] instances = Some streams"
    and s: "s = \<lparr>sk_name = name, sk_items = items, sk_param_order = labels\<rparr>"
    and ls: "length slots = length labels"
    and ci: "column_items labels (map (\<lambda>i. (hd streams ! i, map (\<lambda>s. s ! i) streams,
        slice (hd instances) (i_offset (hd streams ! i)) (next_offset (hd streams) (length (hd instances)) i)))
        [0..<length (hd streams)]) [] = Some (items, slots)"
    by (auto simp: derive_observed_def Let_def split: if_split_asm option.splits)
  note ps = parse_streams_sound [OF st]
  have streams: "streams = map (fst \<circ> disassemble) instances" using ps by simp
  have ne: "instances \<noteq> []" using len2 by auto
  let ?first = "hd streams"
  have first: "?first = fst (disassemble (hd instances))" using ne by (simp add: streams hd_map)
  have d0: "disassemble (hd instances) = (?first, False)"
  proof -
    have "\<forall>bs \<in> set instances. \<not> snd (disassemble bs)" using ps by simp
    then have "\<not> snd (disassemble (hd instances))" using ne by simp
    then show ?thesis by (simp add: first prod_eq_iff)
  qed
  note h = column_items_holds [OF ci, of "length instances"]
  have h: "\<forall>k \<sigma>. k < length instances \<longrightarrow> slots_for \<sigma> labels slots k \<longrightarrow>
        list_all2 (item_holds \<sigma>) items (map (\<lambda>i. streams ! k ! i) [0..<length ?first])"
    "\<forall>j < length slots. SSlot (labels ! j) \<in> set items"
    "\<forall>i < length ?first. item_of (?first ! i)
        (slice (hd instances) (i_offset (?first ! i)) (next_offset ?first (length (hd instances)) i)) (items ! i)"
    "length items = length ?first"
    using h ne by (auto simp: streams hd_map o_def list_all2_conv_all_nth)
  have "item_wf (items ! i)" if "i < length ?first" for i
  proof (cases "items ! i")
    case (SOp op)
    with h(3) that have "\<not> is_push (?first ! i)" "op = i_opcode (?first ! i)"
      by (auto simp: item_of_def)
    then show ?thesis
      using disassembled_is_push [OF d0, of "?first ! i"] that SOp by (simp add: item_wf_def)
  next
    case (SConstPush v r)
    with h(3) that const_item_wf [OF d0 that, of v] show ?thesis by (auto simp: item_of_def)
  qed (simp add: item_wf_def)
  then have wf: "skeleton_wf s"
    using h(4) by (auto simp: skeleton_wf_def s in_set_conv_nth)
  obtain k where k: "k < length instances" "instances ! k = bs"
    using assms(3) by (auto simp: in_set_conv_nth)
  define \<sigma> where "\<sigma> l = (case position l labels of None \<Rightarrow> [] | Some j \<Rightarrow> slots ! j ! k)" for l
  have pos: "position (labels ! j) labels = Some j" if "j < length labels" for j
    using that assms(2) by (cases "position (labels ! j) labels")
      (auto dest!: position_Some simp: position_None nth_eq_iff_index_eq)
  then have sf: "slots_for \<sigma> labels slots k" by (simp add: slots_for_def \<sigma>_def ls)
  have lk: "length (streams ! k) = length ?first"
    using ps k by (auto simp: streams)
  have "map (\<lambda>i. streams ! k ! i) [0..<length ?first] = fst (disassemble bs)"
    using lk k by (auto simp: streams intro!: nth_equalityI)
  with h(1) k(1) sf have m: "list_all2 (item_holds \<sigma>) items (fst (disassemble bs))" by metis
  have "filter (\<lambda>l. SSlot l \<in> set items) labels = labels"
    using h(2) ls by (auto simp: filter_id_conv in_set_conv_nth)
  with m have "match_script s (fst (disassemble bs)) =
      Some (map (\<lambda>l. \<lparr>f_name = l, f_value = \<sigma> l\<rparr>) labels)"
    unfolding match_script_iff s by auto
  with wf show ?thesis by (simp add: s o_def)
qed

lemma derive_observed_accepts_witness:
  "\<exists>s. derive_observed ''demo'' [[0x76, 0x01, 17, 0x55], [0x76, 0x01, 18, 0x55]] [''k''] = Some s \<and>
     (\<exists>fs. match_script s (fst (disassemble [0x76, 0x01, 18, 0x55])) = Some fs \<and> map f_name fs = [''k''])"
proof -
  have "derive_observed ''demo'' [[0x76, 0x01, 17, 0x55], [0x76, 0x01, 18, 0x55]] [''k''] =
    Some \<lparr>sk_name = ''demo'', sk_items = [SOp 0x76, SSlot ''k'', SConstPush [5] [0x55]],
      sk_param_order = [''k'']\<rparr>" by code_simp
  from this derive_observed_accepts [OF this, of "[0x76, 0x01, 18, 0x55]"] show ?thesis by auto
qed

section \<open>Matching a repeat skeleton\<close>

lemma match_items_append_iff:
  assumes "length items \<le> length insts"
  shows "match_items items insts vals = match_items items (take (length items) insts) vals"
  using assms
proof (induction items insts vals rule: match_items.induct)
  case (1 item items inst insts vals)
  then show ?case by (auto split: option.splits)
qed auto

definition assigned :: "skel_item list \<Rightarrow> string list \<Rightarrow> (string \<Rightarrow> bytes) \<Rightarrow> field list" where
  "assigned items order \<sigma> =
     map (\<lambda>l. \<lparr>f_name = l, f_value = \<sigma> l\<rparr>) (filter (\<lambda>l. SSlot l \<in> set items) order)"

lemma match_repeats_sound:
  "match_repeats grp ps n insts = Some fs \<Longrightarrow> length insts \<ge> n * length grp \<Longrightarrow>
   \<exists>gs \<sigma>s. length gs = n \<and> take (n * length grp) insts = concat gs \<and>
     list_all2 (\<lambda>\<sigma> g. list_all2 (item_holds \<sigma>) grp g) \<sigma>s gs \<and>
     fs = concat (map (assigned grp ps) \<sigma>s)"
proof (induction n arbitrary: insts fs)
  case (Suc n)
  from Suc.prems(1) obtain rv fs' where rv: "match_items grp insts [] = Some rv"
    and r: "match_repeats grp ps n (drop (length grp) insts) = Some fs'"
    and fs: "fs = fields_in_order ps rv @ fs'" by (auto split: option.splits)
  have len: "length grp \<le> length insts" using Suc.prems(2) by simp
  let ?\<sigma> = "\<lambda>l. the (map_of rv l)"
  have s: "list_all2 (item_holds ?\<sigma>) grp (take (length grp) insts)"
    "\<And>l. map_of rv l \<noteq> None \<longleftrightarrow> SSlot l \<in> set grp"
    using match_items_sound [OF rv len] by auto
  have "\<And>l. map_of rv l = (if l \<in> {l. SSlot l \<in> set grp} then Some (?\<sigma> l) else None)"
    using s(2) by force
  from fields_in_order_assign [OF this] have f: "fields_in_order ps rv = assigned grp ps ?\<sigma>"
    by (simp add: assigned_def)
  have "n * length grp \<le> length (drop (length grp) insts)" using Suc.prems(2) by simp
  from Suc.IH [OF r this] obtain gs \<sigma>s where IH: "length gs = n"
    "take (n * length grp) (drop (length grp) insts) = concat gs"
    "list_all2 (\<lambda>\<sigma> g. list_all2 (item_holds \<sigma>) grp g) \<sigma>s gs"
    "fs' = concat (map (assigned grp ps) \<sigma>s)" by blast
  have "take (Suc n * length grp) insts = concat (take (length grp) insts # gs)"
    using IH(2) by (simp add: take_add)
  with IH s(1) f fs show ?case
    by (intro exI [of _ "take (length grp) insts # gs"] exI [of _ "?\<sigma> # \<sigma>s"]) simp
qed simp

lemma match_repeats_complete:
  "list_all2 (\<lambda>\<sigma> g. list_all2 (item_holds \<sigma>) grp g) \<sigma>s gs \<Longrightarrow>
   match_repeats grp ps (length gs) (concat gs @ rest) = Some (concat (map (assigned grp ps) \<sigma>s))"
proof (induction \<sigma>s gs rule: list_all2_induct)
  case (Cons \<sigma> \<sigma>s g gs)
  from match_items_holds [OF Cons.hyps(1), of "[]" "concat gs @ rest"] obtain vals where
    m: "match_items grp (g @ concat gs @ rest) [] = Some vals"
    "\<And>l. map_of vals l = (if l \<in> {l. SSlot l \<in> set grp} then Some (\<sigma> l) else None)" by auto
  with fields_in_order_assign [OF m(2)] Cons.IH list_all2_lengthD [OF Cons.hyps(1)] show ?case
    by (simp add: assigned_def)
qed simp

text \<open>A script matches a repeat skeleton exactly when it is a prefix, at least \<open>min_repeats\<close>
  copies of the group and a suffix, with one assignment for the labels of prefix and suffix and one
  of its own for each repeat. The fields are those of prefix and suffix, then each repeat's.\<close>

theorem match_repeat_script_iff:
  "match_repeat_script r insts = Some fs \<longleftrightarrow>
     rs_group r \<noteq> [] \<and>
     (\<exists>pre gs suf \<sigma> \<sigma>s. insts = pre @ concat gs @ suf \<and> rs_min_repeats r \<le> length gs \<and>
        list_all2 (item_holds \<sigma>) (rs_prefix r @ rs_suffix r) (pre @ suf) \<and>
        length pre = length (rs_prefix r) \<and>
        list_all2 (\<lambda>\<tau> g. list_all2 (item_holds \<tau>) (rs_group r) g) \<sigma>s gs \<and>
        fs = assigned (rs_prefix r @ rs_suffix r) (rs_param_order r) \<sigma> @
             concat (map (assigned (rs_group r) (rs_group_params r)) \<sigma>s))"
  (is "?L \<longleftrightarrow> ?R")
proof
  assume ?L
  define g where "g = length (rs_group r)"
  define p where "p = length (rs_prefix r)"
  define s where "s = length (rs_suffix r)"
  define n where "n = (length insts - (p + s)) div g"
  from \<open>?L\<close> obtain v0 rf v1 where
    a: "p + s \<le> length insts" "rs_group r \<noteq> []" "(length insts - (p + s)) mod g = 0"
      "rs_min_repeats r \<le> n" "match_items (rs_prefix r) insts [] = Some v0"
      "match_repeats (rs_group r) (rs_group_params r) n (drop p insts) = Some rf"
      "match_items (rs_suffix r) (drop (p + n * g) insts) v0 = Some v1"
      "fs = fields_in_order (rs_param_order r) v1 @ rf"
    by (auto simp: match_repeat_script_def Let_def g_def p_def s_def n_def not_less not_le
        split: if_split_asm option.splits)
  have len: "length insts = p + n * g + s"
    using a(1,3) by (auto simp: n_def)
  let ?suf = "drop (p + n * g) insts"
  have pl: "length (rs_prefix r) \<le> length insts" "length (rs_suffix r) \<le> length ?suf"
    "n * length (rs_group r) \<le> length (drop p insts)"
    using len by (simp_all add: p_def s_def g_def)
  let ?\<sigma> = "\<lambda>l. the (map_of v1 l)"
  note m0 = match_items_sound [OF a(5) pl(1)] and m1 = match_items_sound [OF a(7) pl(2)]
  have pre: "list_all2 (item_holds ?\<sigma>) (rs_prefix r) (take p insts)"
  proof -
    have "item_holds ?\<sigma> item i"
      if "item \<in> set (rs_prefix r)" "item_holds (\<lambda>l. the (map_of v0 l)) item i" for item i
    proof (cases item)
      case (SSlot l)
      then have "map_of v0 l \<noteq> None" using m0 that(1) by simp
      then obtain v where "map_of v0 l = Some v" by blast
      moreover then have "map_of v1 l = Some v" using m1 by simp
      ultimately show ?thesis using that(2) SSlot by (simp add: item_holds_def)
    qed (use that(2) in \<open>simp_all add: item_holds_def\<close>)
    moreover have "list_all2 (item_holds (\<lambda>l. the (map_of v0 l))) (rs_prefix r) (take p insts)"
      using m0 by (simp add: p_def)
    ultimately show ?thesis by (auto simp: list_all2_conv_all_nth)
  qed
  have suf: "list_all2 (item_holds ?\<sigma>) (rs_suffix r) ?suf"
    using m1 len by (simp add: s_def)
  have dom: "\<And>l. map_of v1 l = (if l \<in> {l. SSlot l \<in> set (rs_prefix r @ rs_suffix r)} then Some (?\<sigma> l) else None)"
    using m0 m1 by force
  obtain gs \<sigma>s where gs: "length gs = n" "take (n * g) (drop p insts) = concat gs"
    "list_all2 (\<lambda>\<sigma> g. list_all2 (item_holds \<sigma>) (rs_group r) g) \<sigma>s gs"
    "rf = concat (map (assigned (rs_group r) (rs_group_params r)) \<sigma>s)"
    using match_repeats_sound [OF a(6) pl(3)] unfolding g_def by blast
  have "insts = take p insts @ take (n * g) (drop p insts) @ ?suf"
    by (metis append_take_drop_id drop_drop add.commute)
  then have c1: "insts = take p insts @ concat gs @ ?suf" unfolding gs(2) .
  have c2: "fs = assigned (rs_prefix r @ rs_suffix r) (rs_param_order r) ?\<sigma> @
      concat (map (assigned (rs_group r) (rs_group_params r)) \<sigma>s)"
    unfolding a(8) gs(4) fields_in_order_assign [OF dom] assigned_def by simp
  have c3: "list_all2 (item_holds ?\<sigma>) (rs_prefix r @ rs_suffix r) (take p insts @ ?suf)"
    using pre suf by (rule list_all2_appendI)
  have c4: "length (take p insts) = length (rs_prefix r)" "rs_min_repeats r \<le> length gs"
    using pl(1) a(4) gs(1) by (simp_all add: p_def)
  show ?R
    by (rule conjI [OF a(2)], rule exI [of _ "take p insts"], rule exI [of _ gs], rule exI [of _ ?suf],
        rule exI [of _ ?\<sigma>], rule exI [of _ \<sigma>s]) (intro conjI c1 c2 c3 c4 gs(3))
next
  assume ?R
  then obtain pre gs suf \<sigma> \<sigma>s where ne: "rs_group r \<noteq> []" and insts: "insts = pre @ concat gs @ suf"
    and min: "rs_min_repeats r \<le> length gs"
    and ps: "list_all2 (item_holds \<sigma>) (rs_prefix r @ rs_suffix r) (pre @ suf)"
    and lp: "length pre = length (rs_prefix r)"
    and gs: "list_all2 (\<lambda>\<tau> g. list_all2 (item_holds \<tau>) (rs_group r) g) \<sigma>s gs"
    and fs: "fs = assigned (rs_prefix r @ rs_suffix r) (rs_param_order r) \<sigma> @
             concat (map (assigned (rs_group r) (rs_group_params r)) \<sigma>s)" by blast
  have pre: "list_all2 (item_holds \<sigma>) (rs_prefix r) pre"
    and suf: "list_all2 (item_holds \<sigma>) (rs_suffix r) suf"
    using ps lp by (simp_all add: list_all2_append)
  have lg: "length x = length (rs_group r)" if "x \<in> set gs" for x
    using gs that by (auto simp: list_all2_conv_all_nth in_set_conv_nth)
  then have lc: "length (concat gs) = length gs * length (rs_group r)"
    by (induction gs) auto
  obtain v0 where v0: "match_items (rs_prefix r) (pre @ concat gs @ suf) [] = Some v0"
    "\<And>l. map_of v0 l = (if SSlot l \<in> set (rs_prefix r) then Some (\<sigma> l) else None)"
    using match_items_holds [OF pre, of "[]" "concat gs @ suf"] by auto
  have c0: "\<And>l v. map_of v0 l = Some v \<Longrightarrow> v = \<sigma> l" using v0(2) by (simp split: if_splits)
  obtain v1 where v1: "match_items (rs_suffix r) (suf @ []) v0 = Some v1"
    "\<And>l. map_of v1 l = (if SSlot l \<in> set (rs_suffix r) then Some (\<sigma> l) else map_of v0 l)"
    using match_items_holds [OF suf, of v0 "[]"] c0 by blast
  have dom: "\<And>l. map_of v1 l = (if l \<in> {l. SSlot l \<in> set (rs_prefix r @ rs_suffix r)} then Some (\<sigma> l) else None)"
    using v0(2) v1(2) by auto
  have f: "fields_in_order (rs_param_order r) v1 = assigned (rs_prefix r @ rs_suffix r) (rs_param_order r) \<sigma>"
    unfolding fields_in_order_assign [OF dom] assigned_def by simp
  show ?L
    using ne min match_repeats_complete [OF gs, of "rs_group_params r" suf] v0(1) v1(1)
    unfolding match_repeat_script_def insts fs
    by (simp add: lp lc f list_all2_lengthD [OF suf])
qed

text \<open>A repeat skeleton is only returned when it matches every instance it was derived from;
  its group is not empty, and both arities are consistent with its minimum: every instance
  carries at least \<open>min_repeats\<close> copies of the group.\<close>

theorem derive_repeat_accepts:
  assumes "derive_repeat name long short labels group_labels = Some r"
    and "bs \<in> set long \<union> set short"
  shows "\<exists>pre gs suf. fst (disassemble bs) = pre @ concat gs @ suf \<and>
    rs_group r \<noteq> [] \<and> rs_min_repeats r \<le> length gs \<and>
    (\<forall>g \<in> set gs. length g = length (rs_group r)) \<and>
    length pre = length (rs_prefix r) \<and> length suf = length (rs_suffix r)"
proof -
  obtain skel where "self_checked skel (long @ short) = Some r"
    using assms(1) unfolding derive_repeat_def Let_def
    by (auto dest!: early_return simp only: split_beta)
  then have "match_repeat_script r (fst (disassemble bs)) \<noteq> None"
    using assms(2) by (auto simp: self_checked_def split: if_split_asm)
  then obtain fs where "match_repeat_script r (fst (disassemble bs)) = Some fs" by blast
  then obtain pre gs suf \<sigma> \<sigma>s where m: "rs_group r \<noteq> []" "fst (disassemble bs) = pre @ concat gs @ suf"
    "rs_min_repeats r \<le> length gs" "list_all2 (item_holds \<sigma>) (rs_prefix r @ rs_suffix r) (pre @ suf)"
    "length pre = length (rs_prefix r)"
    "list_all2 (\<lambda>\<tau> g. list_all2 (item_holds \<tau>) (rs_group r) g) \<sigma>s gs"
    unfolding match_repeat_script_iff by blast
  have "length suf = length (rs_suffix r)"
    using list_all2_lengthD [OF m(4)] m(5) by simp
  moreover have "\<forall>g \<in> set gs. length g = length (rs_group r)"
    using m(6) by (auto simp: list_all2_conv_all_nth in_set_conv_nth)
  ultimately show ?thesis using m by blast
qed

lemma derive_repeat_accepts_witness:
  "\<exists>pre gs suf. fst (disassemble [0x01, 20]) = pre @ concat gs @ suf \<and> 1 \<le> length gs \<and>
    (\<forall>g \<in> set gs. length g = (1::nat))"
proof -
  define r where "r = \<lparr>rs_name = ''demo'', rs_prefix = [], rs_group = [SSlot ''k''], rs_suffix = [],
      rs_min_repeats = 1, rs_param_order = [], rs_group_params = [''k'']\<rparr>"
  have d: "derive_repeat ''demo'' [[0x01, 17, 0x01, 18], [0x01, 19, 0x01, 21]] [[0x01, 20]] [] [''k''] = Some r"
    unfolding r_def by code_simp
  have len: "length (rs_group r) = 1" "rs_min_repeats r = 1" by (simp_all add: r_def)
  have "[0x01, 20] \<in> set [[0x01, 17, 0x01, 18], [0x01, 19, 0x01, 21]] \<union> set [[0x01, 20::u8]]" by simp
  from derive_repeat_accepts [OF d this] show ?thesis unfolding len by blast
qed

end
