(* ===== verification/Decoders.thy ===== *)
theory Decoders
  imports Skeletons
begin

text \<open>
  The decoders of \<open>crates/kascov-decode/src/lib.rs\<close> and \<open>observed.rs\<close>: the base decode, the
  proving-system guess, the state decoders behind the trait \<open>StateDecoder\<close>, and the registry that
  tries them in order. The fixtures and the digest are parameters of the model.
\<close>

section \<open>The base decode\<close>

record decoded =
  d_decoder :: string
  d_instructions :: "instruction list"
  d_truncated :: bool
  d_pushes :: "bytes list"
  d_uses_covenant_ops :: bool
  d_uses_zk_ops :: bool
  d_zk_system :: "string option"
  d_template :: "string option"
  d_fields :: "field list"

definition zk_system_from :: "instruction list \<Rightarrow> string option" where
  "zk_system_from instructions =
     (if \<not> (\<exists>i \<in> set instructions. i_group i = GZk) then None
      else
        let sizes = List.map_filter (\<lambda>i. map_option length (i_data i)) instructions in
        if \<exists>n \<in> set sizes. n \<ge> 1024 then Some ''risc0''
        else if \<exists>n \<in> set sizes. 128 \<le> n \<and> n \<le> 256 then Some ''groth16''
        else if \<exists>n \<in> set sizes. 300 \<le> n \<and> n < 1024 then Some ''succinct proof (inferred)''
        else None)"

definition zk_system :: "bytes \<Rightarrow> string option" where
  "zk_system script = zk_system_from (fst (disassemble script))"

definition base_decode :: "string \<Rightarrow> bytes \<Rightarrow> decoded" where
  "base_decode name script =
     (let (instructions, truncated) = disassemble script in
      \<lparr>d_decoder = name, d_instructions = instructions, d_truncated = truncated,
       d_pushes = List.map_filter i_data instructions,
       d_uses_covenant_ops = (\<exists>i \<in> set instructions. i_group i = GCovenant),
       d_uses_zk_ops = (\<exists>i \<in> set instructions. i_group i = GZk),
       d_zk_system = zk_system_from instructions,
       d_template = None, d_fields = []\<rparr>)"

section \<open>State decoders\<close>

type_synonym state_decoder = "16 word \<Rightarrow> bytes \<Rightarrow> decoded option"

definition disasm_decode :: state_decoder where
  "disasm_decode spk_version script = Some (base_decode ''disasm'' script)"

definition p2pk_decode :: state_decoder where
  "p2pk_decode spk_version script =
     (let len = length script;
        ok = (len = 34 \<or> len = 35) \<and> unat (script ! 0) = len - 2 \<and> script ! (len - 1) = 0xac
      in
      if \<not> ok then None
      else Some ((base_decode ''p2pk-state'' script)
        \<lparr>d_template := Some ''p2pk state'',
         d_fields := [\<lparr>f_name = ''owner_pubkey'', f_value = slice script 1 (len - 1)\<rparr>]\<rparr>))"

definition p2sh_hash :: "bytes \<Rightarrow> bytes option" where
  "p2sh_hash spk =
     (if length spk = 35 \<and> spk ! 0 = 0xaa \<and> spk ! 1 = 0x20 \<and> spk ! 34 = 0x87
      then Some (slice spk 2 34) else None)"

definition p2sh_decode :: state_decoder where
  "p2sh_decode spk_version script =
     (case p2sh_hash script of
        None \<Rightarrow> None
      | Some hash \<Rightarrow>
          Some ((base_decode ''p2sh-commitment'' script)
            \<lparr>d_template := Some ''p2sh commitment'',
             d_fields := [\<lparr>f_name = ''program_hash'', f_value = hash\<rparr>]\<rparr>))"

text \<open>\<open>p2sh_reveal\<close>: the last push of a signature script, when its digest is the committed one.\<close>

definition p2sh_reveal :: "externals \<Rightarrow> bytes \<Rightarrow> bytes \<Rightarrow> bytes option" where
  "p2sh_reveal X spk sig_script =
     (case p2sh_hash spk of
        None \<Rightarrow> None
      | Some hash \<Rightarrow>
          let (instructions, truncated) = disassemble sig_script in
          if truncated then None
          else if instructions = [] then None
          else (case i_data (last instructions) of
                  None \<Rightarrow> None
                | Some redeem \<Rightarrow> if blake2b X redeem = hash then Some redeem else None))"

record template_decoder =
  td_skeletons :: "skeleton list"
  td_repeats :: "repeat_skeleton list"

definition template_hit :: "template_decoder \<Rightarrow> instruction list \<Rightarrow> (string \<times> field list) option" where
  "template_hit td instructions =
     (case find_map (\<lambda>s. map_option (Pair (sk_name s)) (match_script s instructions)) (td_skeletons td) of
        Some hit \<Rightarrow> Some hit
      | None \<Rightarrow>
          find_map (\<lambda>s. map_option (Pair (rs_name s)) (match_repeat_script s instructions)) (td_repeats td))"

definition template_decode :: "template_decoder \<Rightarrow> state_decoder" where
  "template_decode td spk_version script =
     (let (instructions, truncated) = disassemble script in
      if truncated then None
      else (case template_hit td instructions of
              None \<Rightarrow> None
            | Some (name, fs) \<Rightarrow>
                Some ((base_decode ''template'' script) \<lparr>d_template := Some name, d_fields := fs\<rparr>)))"

section \<open>The registry\<close>

definition decode_with :: "state_decoder list \<Rightarrow> 16 word \<Rightarrow> bytes \<Rightarrow> decoded" where
  "decode_with decoders spk_version script =
     (case find_map (\<lambda>d. d spk_version script) decoders of
        Some d \<Rightarrow> d
      | None \<Rightarrow> the (disasm_decode spk_version script))"

definition register :: "state_decoder list \<Rightarrow> state_decoder \<Rightarrow> state_decoder list" where
  "register decoders decoder = decoders @ [decoder]"

text \<open>UTF-8 of the middle dot the template names contain.\<close>

definition middle_dot :: string where
  "middle_dot = '' '' @ [CHR 0xC2, CHR 0xB7] @ '' ''"

section \<open>The SilverScript templates\<close>

definition SENT_A32 :: bytes where "SENT_A32 = replicate 32 0x11"
definition SENT_B32 :: bytes where "SENT_B32 = replicate 32 0x22"
definition SENT_C32 :: bytes where "SENT_C32 = replicate 32 0x33"
definition SENT_D32 :: bytes where "SENT_D32 = replicate 32 0x44"

definition MECENAS_A :: string where
  "MECENAS_A =
    ''6b6c76009c637502e803b100c3201111111111111111111111111111111111111111111111111111111111111111030000207c7e01ac7e876902e803b9be760400e1f50594527994760400e1f505547993a16300c252795479949c696700c20400e1f5059c6951c3b9bf876951c2789c6968007a75007a75007a75516776519c637578aa2033333333333333333333333333333333333333333333333333333333333333338769765279ac69757551677500696868''"

definition MECENAS_B :: string where
  "MECENAS_B =
    ''6b6c76009c637502d007b100c3202222222222222222222222222222222222222222222222222222222222222222030000207c7e01ac7e876902e803b9be760480b2e60e94527994760480b2e60e547993a16300c252795479949c696700c20480b2e60e9c6951c3b9bf876951c2789c6968007a75007a75007a75516776519c637578aa2044444444444444444444444444444444444444444444444444444444444444448769765279ac69757551677500696868''"

definition ESCROW_A :: string where
  "ESCROW_A =
    ''78aa2033333333333333333333333333333333333333333333333333333333333333338769765279ac6900c2b9be02e803949c6900c3201111111111111111111111111111111111111111111111111111111111111111030000207c7e01ac7e8700c3202222222222222222222222222222222222222222222222222222222222222222030000207c7e01ac7e879b69757551''"

definition ESCROW_B :: string where
  "ESCROW_B =
    ''78aa2044444444444444444444444444444444444444444444444444444444444444448769765279ac6900c2b9be02e803949c6900c3202222222222222222222222222222222222222222222222222222222222222222030000207c7e01ac7e8700c3201111111111111111111111111111111111111111111111111111111111111111030000207c7e01ac7e879b69757551''"

definition LASTWILL_A :: string where
  "LASTWILL_A =
    ''6b6c76009c637502b400b178aa2033333333333333333333333333333333333333333333333333333333333333338769765279ac697575516776519c637578aa2044444444444444444444444444444444444444444444444444444444444444448769765279ac697575516776529c637578aa2011111111111111111111111111111111111111111111111111111111111111118769765279ac6900c2b9be02e803949c6900c3b9bf876975755167750069686868''"

definition LASTWILL_B :: string where
  "LASTWILL_B =
    ''6b6c76009c637502b400b178aa2044444444444444444444444444444444444444444444444444444444444444448769765279ac697575516776519c637578aa2033333333333333333333333333333333333333333333333333333333333333338769765279ac697575516776529c637578aa2022222222222222222222222222222222222222222222222222222222222222228769765279ac6900c2b9be02e803949c6900c3b9bf876975755167750069686868''"

text \<open>The constants are decoded with \<open>expect\<close>, so a dump that is not hex is a panic: \<open>None\<close>.\<close>

definition silverscript_skeleton ::
  "externals \<Rightarrow> string \<Rightarrow> string \<Rightarrow> string \<Rightarrow> (string \<times> bytes) list \<Rightarrow> skeleton list option" where
  "silverscript_skeleton X name dump_a dump_b sentinels =
     (case (hex_decode X dump_a, hex_decode X dump_b) of
        (Some a, Some b) \<Rightarrow>
          Some (case derive name a b sentinels of None \<Rightarrow> [] | Some s \<Rightarrow> [s])
      | _ \<Rightarrow> None)"

definition silverscript_skeletons :: "externals \<Rightarrow> skeleton list option" where
  "silverscript_skeletons X =
     map_option concat (traverse (\<lambda>f. f)
       [silverscript_skeleton X (''SilverScript'' @ middle_dot @ ''Mecenas'') MECENAS_A MECENAS_B
          [(''recipient'', SENT_A32), (''funder_hash'', SENT_C32),
           (''pledge'', snum 100000000), (''period'', snum 1000)],
        silverscript_skeleton X (''SilverScript'' @ middle_dot @ ''Escrow'') ESCROW_A ESCROW_B
          [(''arbiter_hash'', SENT_C32), (''buyer'', SENT_A32), (''seller'', SENT_B32)],
        silverscript_skeleton X (''SilverScript'' @ middle_dot @ ''LastWill'') LASTWILL_A LASTWILL_B
          [(''inheritor_hash'', SENT_C32), (''cold_hash'', SENT_D32), (''hot_hash'', SENT_A32)]])"

section \<open>The observed templates\<close>


text \<open>Name, fixtures and slot labels of each observed family, in registration order.\<close>

definition OBSERVED :: "(string \<times> string list \<times> string list) list" where
  "OBSERVED =
    [(''PURE'', [''pure_a'', ''pure_b''],
     [''signer_pubkey'']),
     ((''genesis0'' @ middle_dot @ ''list''), [''g0_list_v1_a'', ''g0_list_v1_b''],
     [''state_hash_a'', ''state_hash_b'', ''state_hash_c'', ''min_amount'', ''next_state_template'']),
     ((''genesis0'' @ middle_dot @ ''buy''), [''g0_buy_v1_a'', ''g0_buy_v1_b''],
     [''state_amount'', ''state_hash_a'', ''state_hash_b'', ''min_amount'', ''output_spk_hash_a'', ''output_amount'', ''output_spk_hash_b'']),
     ((''genesis0'' @ middle_dot @ ''list''), [''g0_list_v2_a'', ''g0_list_v2_b''],
     [''witness_hash'', ''output_spk_hash'', ''salt_a'', ''salt_b'']),
     ((''genesis0'' @ middle_dot @ ''buy''), [''g0_buy_v2_a'', ''g0_buy_v2_b''],
     [''output_spk_hash'', ''price'', ''witness_hash'', ''salt'']),
     ((''genesis0'' @ middle_dot @ ''collection''), [''g0_col_a'', ''g0_col_b''],
     [''amount_step'']),
     (''KCC20 token'', [''kcc20_a_a'', ''kcc20_a_b''],
     [''owner_identifier'', ''identifier_type'', ''amount'', ''is_minter'']),
     (''KCC20 token'', [''kcc20_b_a'', ''kcc20_b_b''],
     [''owner_identifier'', ''identifier_type'', ''amount'', ''is_minter'']),
     (''KCC20 token'', [''kcc20_c_a'', ''kcc20_c_b''],
     [''owner_identifier'', ''identifier_type'', ''amount'', ''is_minter'']),
     (''KCC20 minter'', [''kcc20_minter_a'', ''kcc20_minter_b''],
     [''kcc20_covenant_a'', ''kcc20_covenant_b''])]"

definition observed_skeletons :: "externals \<Rightarrow> skeleton list" where
  "observed_skeletons X =
     List.map_filter (\<lambda>(name, fixtures, labels). derive_observed name (map (fixture X) fixtures) labels)
       OBSERVED"

definition observed_repeat_skeletons :: "externals \<Rightarrow> repeat_skeleton list" where
  "observed_repeat_skeletons X =
     (case derive_repeat (''genesis0'' @ middle_dot @ ''slot-mint'')
        [fixture X ''slot_mint_di4m_a'', fixture X ''slot_mint_di4m_b'']
        [fixture X ''slot_mint_gz4m_a'', fixture X ''slot_mint_gz4m_b'']
        [''min_outputs'', ''lane_tag'', ''payload_hash_a'', ''payload_hash_b'',
         ''payload_len_a'', ''payload_len_b'', ''instance_salt'']
        [''output_index'', ''output_amount'', ''output_index'', ''output_spk_hash''] of
        None \<Rightarrow> []
      | Some s \<Rightarrow> [s])"

definition default_registry :: "externals \<Rightarrow> state_decoder list option" where
  "default_registry X =
     map_option
       (\<lambda>skeletons.
          [template_decode
             \<lparr>td_skeletons = skeletons @ observed_skeletons X, td_repeats = observed_repeat_skeletons X\<rparr>,
           p2pk_decode, p2sh_decode])
       (silverscript_skeletons X)"

definition registry_decode :: "externals \<Rightarrow> 16 word \<Rightarrow> bytes \<Rightarrow> decoded option" where
  "registry_decode X spk_version script =
     map_option (\<lambda>ds. decode_with ds spk_version script) (default_registry X)"

section \<open>The decoder contract\<close>

text \<open>
  What every decoder owes its callers: apart from its own name, template and fields, the result is
  the base decode of the script, so the instructions and flags never depend on which template hit.
\<close>

definition decodes :: "string \<Rightarrow> bytes \<Rightarrow> decoded \<Rightarrow> bool" where
  "decodes name script d \<longleftrightarrow> d\<lparr>d_template := None, d_fields := []\<rparr> = base_decode name script"

locale decoder =
  fixes decode :: state_decoder and name :: string
  assumes faithful: "decode v s = Some d \<Longrightarrow> decodes name s d"
begin

lemma instructions: "decode v s = Some d \<Longrightarrow> d_instructions d = fst (disassemble s)"
  by (drule faithful, cases d)
    (simp add: decodes_def base_decode_def Let_def split: prod.splits)

lemma named: "decode v s = Some d \<Longrightarrow> d_decoder d = name"
  by (drule faithful, cases d)
    (simp add: decodes_def base_decode_def Let_def split: prod.splits)

end

locale decoder_list =
  fixes decoders :: "state_decoder list"
  assumes all_faithful: "dec \<in> set decoders \<Longrightarrow> dec v s = Some d \<Longrightarrow> \<exists>name. decodes name s d"
begin

lemma decode_with_faithful: "\<exists>name. decodes name s (decode_with decoders v s)"
proof (cases "find_map (\<lambda>d. d v s) decoders")
  case None
  then show ?thesis by (simp add: decode_with_def disasm_decode_def decodes_def base_decode_def Let_def
      split: prod.splits)
next
  case (Some d)
  from find_map_Some [OF this] all_faithful obtain name where "decodes name s d" by blast
  then show ?thesis by (auto simp: decode_with_def Some)
qed

lemma register_faithful:
  "(\<And>v s d. dec v s = Some d \<Longrightarrow> \<exists>name. decodes name s d) \<Longrightarrow> decoder_list (register decoders dec)"
  by unfold_locales (auto simp: register_def dest: all_faithful)

end

lemma base_decode_decodes [simp]: "decodes name s ((base_decode name s)\<lparr>d_template := t, d_fields := fs\<rparr>)"
  by (simp add: decodes_def base_decode_def Let_def split: prod.splits)

lemma decodes_base [simp]: "decodes name s (base_decode name s)"
  by (simp add: decodes_def base_decode_def Let_def split: prod.splits)

interpretation disasm: decoder disasm_decode "''disasm''"
  by unfold_locales (auto simp: disasm_decode_def)

interpretation p2pk: decoder p2pk_decode "''p2pk-state''"
  by unfold_locales (auto simp: p2pk_decode_def Let_def split: if_splits)

interpretation p2sh: decoder p2sh_decode "''p2sh-commitment''"
  by unfold_locales (auto simp: p2sh_decode_def split: option.splits)

interpretation template: decoder "template_decode td" "''template''" for td
  by unfold_locales
    (auto simp: template_decode_def Let_def split: prod.splits if_splits option.splits)

interpretation builtin: decoder_list "[template_decode td, p2pk_decode, p2sh_decode]" for td
  by unfold_locales (auto dest: template.faithful p2pk.faithful p2sh.faithful)

text \<open>C36. Whatever the registry makes of a script, the instructions, the truncation flag, the data
  pushes and the opcode flags it reports are those of the disassembly of that very script; a
  template match only adds a name and labelled fields.\<close>

theorem registry_decode_faithful:
  assumes "registry_decode X v script = Some d"
  shows "d_instructions d = fst (disassemble script) \<and> d_truncated d = snd (disassemble script) \<and>
    d_pushes d = List.map_filter i_data (fst (disassemble script)) \<and>
    d_uses_covenant_ops d = (\<exists>i \<in> set (fst (disassemble script)). i_group i = GCovenant) \<and>
    d_uses_zk_ops d = (\<exists>i \<in> set (fst (disassemble script)). i_group i = GZk) \<and>
    d_zk_system d = zk_system script"
proof -
  obtain td where "d = decode_with [template_decode td, p2pk_decode, p2sh_decode] v script"
    using assms by (auto simp: registry_decode_def default_registry_def)
  with builtin.decode_with_faithful obtain name where "decodes name script d" by blast
  then show ?thesis
    by (cases d) (simp add: decodes_def base_decode_def Let_def zk_system_def split: prod.splits)
qed

definition demo_externals :: externals where
  "demo_externals = \<lparr>blake2b = \<lambda>bs. replicate 32 (byte_of (length bs)), hex_encode = \<lambda>_. [],
     hex_decode = \<lambda>_. Some [], fixture = \<lambda>_. [], json_first = \<lambda>_. None\<rparr>"

lemma registry_decode_faithful_witness:
  "\<exists>d. registry_decode demo_externals 0 [0x51] = Some d \<and> d_instructions d = fst (disassemble [0x51])"
proof -
  have "default_registry demo_externals \<noteq> None"
    by (simp add: default_registry_def silverscript_skeletons_def silverscript_skeleton_def
        demo_externals_def)
  then obtain d where "registry_decode demo_externals 0 [0x51] = Some d"
    by (auto simp: registry_decode_def)
  with registry_decode_faithful [OF this] show ?thesis by blast
qed

text \<open>Which decoder of the default registry answers: a matching template wins over the
  pay-to-pubkey shape, that over the pay-to-script-hash shape, and only a script none of them
  recognizes falls back to the plain disassembly, with no template and no fields.\<close>

theorem registry_order:
  "decode_with [template_decode td, p2pk_decode, p2sh_decode] v script =
     (case (if snd (disassemble script) then None else template_hit td (fst (disassemble script))) of
        Some (name, fs) \<Rightarrow> (base_decode ''template'' script)\<lparr>d_template := Some name, d_fields := fs\<rparr>
      | None \<Rightarrow>
          if length script \<in> {34, 35} \<and> unat (script ! 0) = length script - 2 \<and> last script = 0xac
          then (base_decode ''p2pk-state'' script)\<lparr>d_template := Some ''p2pk state'',
            d_fields := [\<lparr>f_name = ''owner_pubkey'', f_value = butlast (tl script)\<rparr>]\<rparr>
          else (case p2sh_hash script of
              Some hash \<Rightarrow> (base_decode ''p2sh-commitment'' script)\<lparr>d_template := Some ''p2sh commitment'',
                 d_fields := [\<lparr>f_name = ''program_hash'', f_value = hash\<rparr>]\<rparr>
            | None \<Rightarrow> base_decode ''disasm'' script))"
proof -
  have sl: "slice script 1 (length script - 1) = butlast (tl script)"
    by (simp add: slice_def butlast_conv_take drop_Suc)
  have la: "length script \<in> {34, 35} \<Longrightarrow> last script = script ! (length script - 1)"
    by (rule last_conv_nth) auto
  define ok where "ok \<longleftrightarrow> length script \<in> {34, 35} \<and> unat (script ! 0) = length script - 2 \<and> last script = 0xac"
  have p2pk: "p2pk_decode v script =
      (if ok
       then Some ((base_decode ''p2pk-state'' script)\<lparr>d_template := Some ''p2pk state'',
            d_fields := [\<lparr>f_name = ''owner_pubkey'', f_value = butlast (tl script)\<rparr>]\<rparr>)
       else None)"
    using la unfolding p2pk_decode_def Let_def sl ok_def by auto
  obtain insts t where d: "disassemble script = (insts, t)" by fastforce
  show ?thesis
    unfolding decode_with_def find_map.simps p2pk p2sh_decode_def template_decode_def d disasm_decode_def
      ok_def [symmetric]
    by (cases t; cases "template_hit td insts"; cases ok; cases "p2sh_hash script") auto
qed

text \<open>A proving system is named exactly when the script has a ZK opcode and some data push of
  128 to 256 bytes or of 300 bytes or more; a push of 1024 bytes or more always reads as RISC Zero,
  whatever else is pushed.\<close>

theorem zk_system_known_iff:
  "(zk_system script \<noteq> None \<longleftrightarrow>
      (\<exists>i \<in> set (fst (disassemble script)). i_group i = GZk) \<and>
      (\<exists>i d. i \<in> set (fst (disassemble script)) \<and> i_data i = Some d \<and>
         128 \<le> length d \<and> (length d \<le> 256 \<or> 300 \<le> length d))) \<and>
   (zk_system script = Some ''risc0'' \<longleftrightarrow>
      (\<exists>i \<in> set (fst (disassemble script)). i_group i = GZk) \<and>
      (\<exists>i d. i \<in> set (fst (disassemble script)) \<and> i_data i = Some d \<and> 1024 \<le> length d))"
proof -
  let ?is = "fst (disassemble script)"
  have sizes: "set (List.map_filter (\<lambda>i. map_option length (i_data i)) ?is) =
      {length d |i d. i \<in> set ?is \<and> i_data i = Some d}"
    by (force simp: map_filter_def)
  show ?thesis
    unfolding zk_system_def zk_system_from_def Let_def sizes
    by (auto split: if_splits) (metis not_le less_or_eq_imp_le not_less)+
qed

section \<open>Commitments and reveals\<close>

text \<open>C37. A reveal is accepted exactly when the output script is a pay-to-script-hash commitment to
  the digest of the revealed program and the signature script is a complete script whose last
  instruction carries that program as its data.\<close>

theorem p2sh_reveal_iff:
  "p2sh_reveal X spk sig_script = Some redeem \<longleftrightarrow>
     spk = [0xaa, 0x20] @ blake2b X redeem @ [0x87] \<and> length (blake2b X redeem) = 32 \<and>
     (\<exists>insts i. disassemble sig_script = (insts @ [i], False) \<and> i_data i = Some redeem)"
proof -
  have hash: "p2sh_hash spk = Some h \<longleftrightarrow> spk = [0xaa, 0x20] @ h @ [0x87] \<and> length h = 32" for h
  proof
    assume "p2sh_hash spk = Some h"
    then have a: "length spk = 35" "spk ! 0 = 0xaa" "spk ! 1 = 0x20" "spk ! 34 = 0x87" "h = slice spk 2 34"
      by (auto simp: p2sh_hash_def split: if_splits)
    have "spk = [0xaa, 0x20] @ h @ [0x87]"
    proof (rule nth_equalityI)
      fix i
      assume "i < length spk"
      then consider "i = 0" | "i = 1" | "2 \<le> i \<and> i < 34" | "i = 34" using a(1) by linarith
      then show "spk ! i = ([0xaa, 0x20] @ h @ [0x87]) ! i"
        using a by cases (auto simp: nth_append slice_def nth_Cons' numeral_2_eq_2 Suc_diff_Suc)
    qed (simp add: a)
    then show "spk = [0xaa, 0x20] @ h @ [0x87] \<and> length h = 32" using a by simp
  next
    assume "spk = [0xaa, 0x20] @ h @ [0x87] \<and> length h = 32"
    then show "p2sh_hash spk = Some h"
      by (auto simp: p2sh_hash_def slice_def nth_append nth_Cons')
  qed
  obtain insts t where d: "disassemble sig_script = (insts, t)" by fastforce
  have "p2sh_reveal X spk sig_script = Some redeem \<longleftrightarrow>
      p2sh_hash spk = Some (blake2b X redeem) \<and> \<not> t \<and> insts \<noteq> [] \<and> i_data (last insts) = Some redeem"
    by (auto simp: p2sh_reveal_def d split: option.splits if_splits)
  also have "\<not> t \<and> insts \<noteq> [] \<and> i_data (last insts) = Some redeem \<longleftrightarrow>
      (\<exists>is i. disassemble sig_script = (is @ [i], False) \<and> i_data i = Some redeem)"
    unfolding d by (auto simp: snoc_eq_iff_butlast) (metis append_butlast_last_id)
  finally show ?thesis by (simp only: hash conj_assoc)
qed

lemma encode_push_stream_dis:
  "\<forall>p \<in> set pushes. push_len_ok p \<Longrightarrow>
   \<exists>insts. dis off (concat (map encode_push pushes)) = (insts, False) \<and> map push_value insts = map Some pushes"
proof (induction pushes arbitrary: off)
  case (Cons p pushes)
  then obtain i where i: "i_offset i = off" "well_formed i" "assemble i = encode_push p" "push_value i = Some p"
    using encode_push_inst [of p off] by auto
  from Cons obtain insts where
    "dis (off + length (encode_push p)) (concat (map encode_push pushes)) = (insts, False)"
    "map push_value insts = map Some pushes" by (meson list.set_intros(2))
  with i dis_assemble [OF i(2,1), of "concat (map encode_push pushes)"] show ?case by auto
qed simp

text \<open>The canonical invocation reader and the spend-time reveal agree: when the checked reader
  accepts a signature script against an output script, the reveal returns the same program, for
  every program of two bytes or more (a shorter one can be pushed by an opcode without data).\<close>

theorem invocation_revealed:
  assumes "digest32 X" and "read_invocation_checked X spk sig_script multi_branch = Some r"
    and "2 \<le> length (inv_program r)"
  shows "p2sh_reveal X spk sig_script = Some (inv_program r)"
proof -
  from assms(2) obtain pushes where ps: "read_pushes sig_script = Some pushes" "pushes \<noteq> []"
    "inv_program r = last pushes" and spk: "spk = envelope_spk X (inv_program r)"
    by (auto simp: read_invocation_checked_def read_invocation_def Let_def
        split: option.splits if_splits)
  have sig: "sig_script = concat (map encode_push pushes)" and ok: "\<forall>p \<in> set pushes. push_len_ok p"
    using stream.dec_all_sound [OF ps(1)] read_pushes_fit [OF ps(1)] by simp_all
  from encode_push_stream_dis [OF ok, of 0] obtain insts where
    d: "disassemble sig_script = (insts, False)" and v: "map push_value insts = map Some pushes"
    by (auto simp: sig disassemble_dis)
  have ne: "insts \<noteq> []" using v ps(2) by auto
  have "push_value (last insts) = Some (last pushes)"
    using arg_cong [OF v, of last] ne ps(2) by (simp add: last_map)
  then have "i_data (last insts) = Some (inv_program r)"
    using assms(3) ps(3)
    by (auto simp: push_value_def split: option.splits if_splits dest!: arg_cong [of _ _ length])
  moreover have "insts = butlast insts @ [last insts]" using ne by simp
  ultimately show ?thesis
    using d assms(1) unfolding p2sh_reveal_iff spk envelope_spk_def hash32_def digest32_def by fastforce
qed

lemma invocation_revealed_witness:
  "p2sh_reveal demo_externals (envelope_spk demo_externals [0x51, 0x52])
     (signature_script (encode_push [9, 9]) None [0x51, 0x52]) = Some [0x51, 0x52]"
proof -
  have "digest32 demo_externals" by (simp add: digest32_def demo_externals_def)
  moreover have "read_invocation_checked demo_externals (envelope_spk demo_externals [0x51, 0x52])
     (signature_script (encode_push [9, 9]) None [0x51, 0x52]) False =
     Some \<lparr>inv_args = [[9, 9]], inv_dispatch = None, inv_program = [0x51, 0x52]\<rparr>" by code_simp
  ultimately show ?thesis by (rule invocation_revealed [THEN trans]) simp_all
qed

end
