(* ===== verification/Kcc20.thy ===== *)
theory Kcc20
  imports Decoders
begin

text \<open>
  \<open>crates/kascov-decode/src/kcc20.rs\<close>: the state block of a KCC20 token program, reading and
  splicing it, and the proof of an output's hidden state by hashing a candidate program.
\<close>

section \<open>Token states\<close>

definition TOKEN_TEMPLATE :: string where "TOKEN_TEMPLATE = ''KCC20 token''"

definition MINTER_TEMPLATE :: string where "MINTER_TEMPLATE = ''KCC20 minter''"

record token_state =
  ts_owner :: bytes
  ts_identifier_type :: u8
  ts_amount_raw :: bytes
  ts_minter_raw :: bytes

definition amount_i64 :: "token_state \<Rightarrow> int option" where
  "amount_i64 st =
     (if length (ts_amount_raw st) = 8 then
        (let v = i64_of_le (ts_amount_raw st) in if v \<ge> 0 then Some v else None)
      else None)"

definition ts_is_minter :: "token_state \<Rightarrow> bool option" where
  "ts_is_minter st =
     (if ts_minter_raw st = [0x00] then Some False
      else if ts_minter_raw st = [0x01] then Some True
      else None)"

definition owner_key :: "externals \<Rightarrow> token_state \<Rightarrow> string" where
  "owner_key X st = hex_encode X (ts_identifier_type st # ts_owner st)"

section \<open>The state block\<close>

record state_block =
  sb_start :: nat
  sb_guarded :: bool

definition sb_owner :: "state_block \<Rightarrow> nat \<times> nat" where
  "sb_owner b = (sb_start b + 1, sb_start b + 33)"

definition sb_identifier_type :: "state_block \<Rightarrow> nat" where
  "sb_identifier_type b = sb_start b + 34"

definition sb_amount :: "state_block \<Rightarrow> nat \<times> nat" where
  "sb_amount b = (sb_start b + 36, sb_start b + 44)"

definition sb_is_minter :: "state_block \<Rightarrow> nat" where
  "sb_is_minter b = sb_start b + 45"

definition sb_end :: "state_block \<Rightarrow> nat" where
  "sb_end b = sb_start b + 46"

lemmas sb_defs = sb_owner_def sb_identifier_type_def sb_amount_def sb_is_minter_def sb_end_def

definition locate_state_block :: "bytes \<Rightarrow> state_block option" where
  "locate_state_block program =
     (if length program \<ge> 48 \<and> program ! 0 = 0x6b \<and> program ! 1 = 0x20 \<and> program ! 34 = 0x01
        \<and> program ! 36 = 0x08 \<and> program ! 45 = 0x01 \<and> program ! 47 = 0x6c
      then Some \<lparr>sb_start = 1, sb_guarded = True\<rparr>
      else if length program \<ge> 46 \<and> program ! 0 = 0x20 \<and> program ! 33 = 0x01
        \<and> program ! 35 = 0x08 \<and> program ! 44 = 0x01
      then Some \<lparr>sb_start = 0, sb_guarded = False\<rparr>
      else None)"

definition has_state_block :: "bytes \<Rightarrow> bool" where
  "has_state_block program \<longleftrightarrow> locate_state_block program \<noteq> None"

definition decode_state_block :: "bytes \<Rightarrow> token_state option" where
  "decode_state_block program =
     (case locate_state_block program of
        None \<Rightarrow> None
      | Some b \<Rightarrow>
          (case (get_range program (fst (sb_owner b)) (snd (sb_owner b)),
                 get_at program (sb_identifier_type b),
                 get_range program (fst (sb_amount b)) (snd (sb_amount b)),
                 get_at program (sb_is_minter b)) of
             (Some owner, Some identifier_type, Some amount, Some minter) \<Rightarrow>
               Some \<lparr>ts_owner = owner, ts_identifier_type = identifier_type,
                 ts_amount_raw = amount, ts_minter_raw = [minter]\<rparr>
           | _ \<Rightarrow> None))"

definition revealed_template :: "state_decoder list \<Rightarrow> 16 word \<Rightarrow> bytes \<Rightarrow> string option" where
  "revealed_template registry spk_version program =
     (case d_template (decode_with registry spk_version program) of
        Some t \<Rightarrow> Some t
      | None \<Rightarrow> map_option (\<lambda>_. TOKEN_TEMPLATE) (locate_state_block program))"

definition field_value :: "field list \<Rightarrow> string \<Rightarrow> bytes option" where
  "field_value fs name = map_option f_value (find (\<lambda>f. f_name f = name) fs)"

definition decode_token_state :: "state_decoder list \<Rightarrow> 16 word \<Rightarrow> bytes \<Rightarrow> token_state option" where
  "decode_token_state registry spk_version program =
     (let d = decode_with registry spk_version program; fv = field_value (d_fields d) in
      if d_template d = Some TOKEN_TEMPLATE then
        (case fv ''owner_identifier'' of None \<Rightarrow> None
         | Some owner \<Rightarrow>
             if length owner \<noteq> 32 then None
             else
               (case fv ''identifier_type'' of
                  Some [identifier_type] \<Rightarrow>
                    (case (fv ''amount'', fv ''is_minter'') of
                       (Some amount, Some minter) \<Rightarrow>
                         Some \<lparr>ts_owner = owner, ts_identifier_type = identifier_type,
                           ts_amount_raw = amount, ts_minter_raw = minter\<rparr>
                     | _ \<Rightarrow> None)
                | _ \<Rightarrow> None))
      else decode_state_block program)"

definition kcc1_template_hash :: "externals \<Rightarrow> bytes \<Rightarrow> bytes option" where
  "kcc1_template_hash X program =
     map_option (\<lambda>b. template_hash X (take (sb_start b) program) (drop (sb_end b) program))
       (locate_state_block program)"

text \<open>\<open>p[i..j].copy_from_slice(v)\<close>, for \<open>v\<close> of the length of the range.\<close>

definition copy_into :: "bytes \<Rightarrow> nat \<times> nat \<Rightarrow> bytes \<Rightarrow> bytes" where
  "copy_into p r v = take (fst r) p @ v @ drop (snd r) p"

definition splice_token_state :: "bytes \<Rightarrow> bytes \<Rightarrow> u8 \<Rightarrow> bytes \<Rightarrow> u8 \<Rightarrow> bytes option" where
  "splice_token_state program owner identifier_type amount is_minter =
     (case locate_state_block program of
        None \<Rightarrow> None
      | Some b \<Rightarrow>
          let p = copy_into program (sb_owner b) owner;
              p = p[sb_identifier_type b := identifier_type];
              p = copy_into p (sb_amount b) amount;
              p = p[sb_is_minter b := is_minter]
          in Some p)"

definition blake2b_256 :: "externals \<Rightarrow> bytes \<Rightarrow> bytes" where
  "blake2b_256 X bs = blake2b X bs"

definition prove_output_state ::
  "externals \<Rightarrow> bytes \<Rightarrow> bytes \<Rightarrow> bytes \<Rightarrow> u8 \<Rightarrow> bytes \<Rightarrow> u8 \<Rightarrow> token_state option" where
  "prove_output_state X base_program output_spk owner identifier_type amount is_minter =
     (case p2sh_hash output_spk of
        None \<Rightarrow> None
      | Some want \<Rightarrow>
          (case splice_token_state base_program owner identifier_type amount is_minter of
             None \<Rightarrow> None
           | Some candidate \<Rightarrow>
               if blake2b_256 X candidate = want then
                 Some \<lparr>ts_owner = owner, ts_identifier_type = identifier_type,
                   ts_amount_raw = amount, ts_minter_raw = [is_minter]\<rparr>
               else None))"

section \<open>The shape of a program with a block\<close>

text \<open>The 46 bytes of a state block, and a program as guard, block and rest.\<close>

definition block_bytes :: "bytes \<Rightarrow> u8 \<Rightarrow> bytes \<Rightarrow> u8 \<Rightarrow> bytes" where
  "block_bytes owner identifier_type amount is_minter =
     [0x20] @ owner @ [0x01, identifier_type, 0x08] @ amount @ [0x01, is_minter]"

definition framed :: "state_block \<Rightarrow> bytes \<Rightarrow> bytes \<Rightarrow> bool" where
  "framed b pre post \<longleftrightarrow>
     (if sb_guarded b then sb_start b = 1 \<and> pre = [0x6b] \<and> post \<noteq> [] \<and> hd post = 0x6c
      else sb_start b = 0 \<and> pre = [])"

lemma block_split:
  assumes "46 \<le> length q" "q ! 0 = 0x20" "q ! 33 = 0x01" "q ! 35 = 0x08" "q ! 44 = 0x01"
  shows "q = block_bytes (slice q 1 33) (q ! 34) (slice q 36 44) (q ! 45) @ drop 46 q"
proof -
  have sing: "slice q i (Suc i) = [q ! i]" if "i < 46" for i
    using that assms(1) by (simp add: slice_single)
  have "q = slice q 0 1 @ slice q 1 33 @ slice q 33 34 @ slice q 34 35 @ slice q 35 36 @
      slice q 36 44 @ slice q 44 45 @ slice q 45 46 @ drop 46 q"
    by (simp add: slice_append_drop)
  moreover have "slice q 0 1 = [0x20]" "slice q 33 34 = [0x01]" "slice q 34 35 = [q ! 34]"
    "slice q 35 36 = [0x08]" "slice q 44 45 = [0x01]" "slice q 45 46 = [q ! 45]"
    using sing [of 0] sing [of 33] sing [of 34] sing [of 35] sing [of 44] sing [of 45] assms by simp_all
  ultimately show ?thesis by (simp add: block_bytes_def)
qed

lemma locate_framed:
  assumes "framed b pre post" "length owner = 32" "length amount = 8"
  shows "locate_state_block (pre @ block_bytes owner i amount m @ post) = Some b"
proof -
  have nth: "(owner @ y) ! k = y ! (k - 32)" if "32 \<le> k" for y k
    using that assms(2) by (simp add: nth_append)
  have nth8: "(amount @ y) ! k = y ! (k - 8)" if "8 \<le> k" for y k
    using that assms(3) by (simp add: nth_append)
  show ?thesis
    using assms
    by (cases b; cases post)
      (auto simp: framed_def locate_state_block_def block_bytes_def nth nth8 split: if_splits)
qed

lemma locate_split:
  assumes "locate_state_block p = Some b"
  obtains pre owner i amount m post where
    "p = pre @ block_bytes owner i amount m @ post" "framed b pre post"
    "length owner = 32" "length amount = 8"
proof (cases "sb_guarded b")
  case True
  with assms have b: "b = \<lparr>sb_start = 1, sb_guarded = True\<rparr>" and g: "48 \<le> length p" "p ! 0 = 0x6b"
    "p ! 1 = 0x20" "p ! 34 = 0x01" "p ! 36 = 0x08" "p ! 45 = 0x01" "p ! 47 = 0x6c"
    by (auto simp: locate_state_block_def split: if_splits)
  let ?q = "tl p"
  have p: "p = [0x6b] @ ?q" using g by (cases p) auto
  have nth: "?q ! k = p ! Suc k" if "k < 47" for k using that g(1) by (simp add: nth_tl)
  have q: "?q = block_bytes (slice ?q 1 33) (?q ! 34) (slice ?q 36 44) (?q ! 45) @ drop 46 ?q"
    using g by (intro block_split) (simp_all add: nth)
  have "hd (drop 46 ?q) = 0x6c" using g by (simp add: hd_drop_conv_nth nth)
  with g(1) b have "framed b [0x6b] (drop 46 ?q)" by (simp add: framed_def)
  moreover have "p = [0x6b] @ block_bytes (slice ?q 1 33) (?q ! 34) (slice ?q 36 44) (?q ! 45) @ drop 46 ?q"
    using p q by metis
  ultimately show ?thesis
    using that [of "[0x6b]" "slice ?q 1 33" "?q ! 34" "slice ?q 36 44" "?q ! 45" "drop 46 ?q"] g(1)
    by simp
next
  case False
  with assms have b: "b = \<lparr>sb_start = 0, sb_guarded = False\<rparr>" and g: "46 \<le> length p" "p ! 0 = 0x20"
    "p ! 33 = 0x01" "p ! 35 = 0x08" "p ! 44 = 0x01"
    by (auto simp: locate_state_block_def split: if_splits)
  have "framed b [] (drop 46 p)" using b by (simp add: framed_def)
  with block_split [OF g] g(1) that [of "[]"] show ?thesis by simp
qed

lemma decode_framed:
  assumes "framed b pre post" "length owner = 32" "length amount = 8"
  shows "decode_state_block (pre @ block_bytes owner i amount m @ post) =
    Some \<lparr>ts_owner = owner, ts_identifier_type = i, ts_amount_raw = amount, ts_minter_raw = [m]\<rparr>"
proof -
  have st: "sb_start b = length pre" using assms(1) by (auto simp: framed_def split: if_splits)
  let ?q = "block_bytes owner i amount m @ post"
  have "slice ?q 1 33 = owner" "slice ?q 36 44 = amount" "?q ! 34 = i" "?q ! 45 = m" "46 \<le> length ?q"
    using assms(2,3) by (simp_all add: block_bytes_def slice_def nth_append)
  then show ?thesis
    by (simp only: decode_state_block_def locate_framed [OF assms] sb_defs st option.case fst_conv snd_conv)
      (simp add: get_range_def get_at_def slice_append_skip nth_append)
qed

lemma splice_framed:
  assumes "framed b pre post" "length owner = 32" "length amount = 8"
    and "length owner' = 32" "length amount' = 8"
  shows "splice_token_state (pre @ block_bytes owner i amount m @ post) owner' i' amount' m' =
    Some (pre @ block_bytes owner' i' amount' m' @ post)"
proof -
  have st: "sb_start b = length pre" using assms(1) by (auto simp: framed_def split: if_splits)
  show ?thesis
    using assms(2-5)
    by (simp only: splice_token_state_def locate_framed [OF assms(1-3)] sb_defs st copy_into_def
        option.case fst_conv snd_conv Let_def)
      (simp add: block_bytes_def list_update_append)
qed

section \<open>Proving a state by its commitment\<close>

text \<open>
  The contract shared by the token cells here and the vesting locks of \<open>vesting.rs\<close>: a candidate
  program is built from a state, and the state counts as proven when that program's digest is the
  one the output commits to.
\<close>

locale state_proof =
  fixes X :: externals
    and build :: "'b \<Rightarrow> 's \<Rightarrow> bytes option"
    and read :: "bytes \<Rightarrow> 's option"
    and valid :: "'s \<Rightarrow> bool"
    and prove :: "'b \<Rightarrow> bytes \<Rightarrow> 's \<Rightarrow> bool"
  assumes read_build: "valid st \<Longrightarrow> build base st = Some p \<Longrightarrow> read p = Some st"
    and prove_build: "valid st \<Longrightarrow>
      prove base spk st \<longleftrightarrow> (\<exists>p. build base st = Some p \<and> p2sh_hash spk = Some (blake2b X p))"
begin

lemma sound:
  "valid st \<Longrightarrow> prove base spk st \<Longrightarrow>
   \<exists>p. build base st = Some p \<and> read p = Some st \<and> p2sh_hash spk = Some (blake2b X p)"
  using prove_build read_build by blast

lemma unique:
  assumes "valid st" "valid st'" "prove base spk st" "prove base' spk st'"
  shows "st = st' \<or>
    (\<exists>p p'. p \<noteq> p' \<and> blake2b X p = blake2b X p' \<and> read p = Some st \<and> read p' = Some st')"
proof -
  from assms sound obtain p p' where "read p = Some st" "read p' = Some st'"
    "p2sh_hash spk = Some (blake2b X p)" "p2sh_hash spk = Some (blake2b X p')" by meson
  then show ?thesis by (cases "p = p'") (simp, metis option.sel)
qed

end

definition token_fits :: "token_state \<Rightarrow> bool" where
  "token_fits st \<longleftrightarrow> length (ts_owner st) = 32 \<and> length (ts_amount_raw st) = 8 \<and>
     length (ts_minter_raw st) = 1"

definition splice_state_into :: "bytes \<Rightarrow> token_state \<Rightarrow> bytes option" where
  "splice_state_into base st =
     splice_token_state base (ts_owner st) (ts_identifier_type st) (ts_amount_raw st) (hd (ts_minter_raw st))"

definition proves_token :: "externals \<Rightarrow> bytes \<Rightarrow> bytes \<Rightarrow> token_state \<Rightarrow> bool" where
  "proves_token X base spk st \<longleftrightarrow>
     prove_output_state X base spk (ts_owner st) (ts_identifier_type st) (ts_amount_raw st)
       (hd (ts_minter_raw st)) = Some st"

lemma splice_split:
  assumes "splice_token_state p owner' i' amount' m' = Some q"
    and "length owner' = 32" "length amount' = 8"
  obtains b pre post owner i amount m where "locate_state_block p = Some b" "framed b pre post"
    "p = pre @ block_bytes owner i amount m @ post" "length owner = 32" "length amount = 8"
    "q = pre @ block_bytes owner' i' amount' m' @ post"
proof -
  from assms(1) obtain b where b: "locate_state_block p = Some b"
    by (auto simp: splice_token_state_def split: option.splits)
  from locate_split [OF b] obtain pre owner i amount m post where
    p: "p = pre @ block_bytes owner i amount m @ post" "framed b pre post"
    "length owner = 32" "length amount = 8" .
  have "q = pre @ block_bytes owner' i' amount' m' @ post"
    using splice_framed [OF p(2-4) assms(2,3)] assms(1) p(1) by simp
  with b p show ?thesis using that by blast
qed

lemma decode_splice:
  assumes "splice_token_state p owner i amount m = Some q" "length owner = 32" "length amount = 8"
  shows "decode_state_block q =
    Some \<lparr>ts_owner = owner, ts_identifier_type = i, ts_amount_raw = amount, ts_minter_raw = [m]\<rparr>"
  using splice_split [OF assms] decode_framed assms(2,3) by metis

interpretation token: state_proof X splice_state_into decode_state_block token_fits "proves_token X" for X
proof unfold_locales
  fix st base p
  assume v: "token_fits st" and "splice_state_into base st = Some p"
  then have "decode_state_block p = Some \<lparr>ts_owner = ts_owner st, ts_identifier_type = ts_identifier_type st,
      ts_amount_raw = ts_amount_raw st, ts_minter_raw = [hd (ts_minter_raw st)]\<rparr>"
    using decode_splice by (auto simp: splice_state_into_def token_fits_def)
  then show "decode_state_block p = Some st"
    using v by (cases st) (auto simp: token_fits_def length_Suc_conv)
next
  fix st base spk
  assume "token_fits st"
  then have "st = \<lparr>ts_owner = ts_owner st, ts_identifier_type = ts_identifier_type st,
      ts_amount_raw = ts_amount_raw st, ts_minter_raw = [hd (ts_minter_raw st)]\<rparr>"
    by (cases st) (auto simp: token_fits_def length_Suc_conv)
  then show "proves_token X base spk st \<longleftrightarrow>
      (\<exists>p. splice_state_into base st = Some p \<and> p2sh_hash spk = Some (blake2b X p))"
    by (auto simp: proves_token_def prove_output_state_def splice_state_into_def blake2b_256_def
        split: option.splits)
qed

text \<open>C31. Splicing a state into a program with a state block changes nothing but the four fields: the
  result has the same length and the same located block, decodes to exactly the spliced state, and
  its KCC-1 template hash is that of the original program.\<close>

theorem splice_token_state_spec:
  assumes "has_state_block p" and "length owner = 32" and "length amount = 8"
  shows "\<exists>q. splice_token_state p owner i amount m = Some q \<and>
    decode_state_block q =
      Some \<lparr>ts_owner = owner, ts_identifier_type = i, ts_amount_raw = amount, ts_minter_raw = [m]\<rparr> \<and>
    length q = length p \<and> locate_state_block q = locate_state_block p \<and>
    kcc1_template_hash X q = kcc1_template_hash X p"
proof -
  from assms(1) obtain b where b: "locate_state_block p = Some b" by (auto simp: has_state_block_def)
  then obtain q where q: "splice_token_state p owner i amount m = Some q"
    by (simp add: splice_token_state_def Let_def)
  from splice_split [OF q assms(2,3)] obtain b pre post o0 i0 a0 m0 where
    s: "locate_state_block p = Some b" "framed b pre post" "p = pre @ block_bytes o0 i0 a0 m0 @ post"
      "length o0 = 32" "length a0 = 8" "q = pre @ block_bytes owner i amount m @ post" .
  have lq: "locate_state_block q = Some b"
    using locate_framed [OF s(2) assms(2,3)] s(6) by simp
  have len: "length (block_bytes o0 i0 a0 m0) = 46" "length (block_bytes owner i amount m) = 46"
    using s(4,5) assms(2,3) by (simp_all add: block_bytes_def)
  have st: "sb_start b = length pre" using s(2) by (auto simp: framed_def split: if_splits)
  have "kcc1_template_hash X q = kcc1_template_hash X p"
    by (simp add: kcc1_template_hash_def lq s(1)) (simp add: s(3,6) st len sb_end_def)
  with q decode_splice [OF q assms(2,3)] lq s(1) len show ?thesis
    by (simp add: s(3,6))
qed

definition demo_program :: bytes where
  "demo_program = [0x6b] @ block_bytes (replicate 32 7) 2 (i64_le 500) 0 @ [0x6c, 0x51]"

lemma splice_token_state_spec_witness:
  "\<exists>q. splice_token_state demo_program (replicate 32 9) 0 (i64_le 4) 1 = Some q \<and>
     length q = length demo_program"
proof -
  have "has_state_block demo_program" by code_simp
  from splice_token_state_spec [OF this, of "replicate 32 9" "i64_le 4" 0 1] show ?thesis by auto
qed

text \<open>C30. A proven token state is sound: the output commits to the digest of a program with a state
  block that decodes to exactly that state, and which has the template of the program the proof
  started from.\<close>

theorem prove_output_state_sound:
  assumes "prove_output_state X base spk owner i amount m = Some st"
    and "length owner = 32" and "length amount = 8"
  shows "\<exists>p. p2sh_hash spk = Some (blake2b X p) \<and> decode_state_block p = Some st \<and>
    kcc1_template_hash X p = kcc1_template_hash X base \<and> length p = length base"
proof -
  from assms(1) obtain q where q: "splice_token_state base owner i amount m = Some q"
    and h: "p2sh_hash spk = Some (blake2b X q)"
    and st: "st = \<lparr>ts_owner = owner, ts_identifier_type = i, ts_amount_raw = amount, ts_minter_raw = [m]\<rparr>"
    by (auto simp: prove_output_state_def blake2b_256_def split: option.splits if_splits)
  then have "has_state_block base"
    by (auto simp: has_state_block_def splice_token_state_def split: option.splits)
  from splice_token_state_spec [OF this assms(2,3), of i m X] q h st show ?thesis by auto
qed

lemma prove_output_state_sound_witness:
  "\<exists>p. p2sh_hash (envelope_spk demo_externals demo_program) = Some (blake2b demo_externals p) \<and>
    decode_state_block p = Some \<lparr>ts_owner = replicate 32 7, ts_identifier_type = 2,
      ts_amount_raw = i64_le 500, ts_minter_raw = [0]\<rparr>"
proof -
  have "prove_output_state demo_externals demo_program (envelope_spk demo_externals demo_program)
     (replicate 32 7) 2 (i64_le 500) 0 = Some \<lparr>ts_owner = replicate 32 7, ts_identifier_type = 2,
      ts_amount_raw = i64_le 500, ts_minter_raw = [0]\<rparr>" by code_simp
  from prove_output_state_sound [OF this] show ?thesis by auto
qed

text \<open>The proof is complete: when an output commits to a program that decodes to a state, every
  program of the same build (the same bytes around a block at the same place) proves exactly that
  state against the output. No state of that program is ever missed.\<close>

theorem prove_output_state_complete:
  assumes "p2sh_hash spk = Some (blake2b X p)" and "decode_state_block p = Some st"
    and "locate_state_block p = Some b" and "locate_state_block base = Some b"
    and "take (sb_start b) base = take (sb_start b) p" and "drop (sb_end b) base = drop (sb_end b) p"
  shows "prove_output_state X base spk (ts_owner st) (ts_identifier_type st) (ts_amount_raw st)
      (hd (ts_minter_raw st)) = Some st"
proof -
  from locate_split [OF assms(3)] obtain pre owner i amount m post where
    p: "p = pre @ block_bytes owner i amount m @ post" "framed b pre post"
    "length owner = 32" "length amount = 8" .
  from locate_split [OF assms(4)] obtain pre' owner' i' amount' m' post' where
    q: "base = pre' @ block_bytes owner' i' amount' m' @ post'" "framed b pre' post'"
    "length owner' = 32" "length amount' = 8" .
  have len: "length (block_bytes owner i amount m) = 46" "length (block_bytes owner' i' amount' m') = 46"
    using p(3,4) q(3,4) by (simp_all add: block_bytes_def)
  have st: "sb_start b = length pre" "sb_start b = length pre'"
    using p(2) q(2) by (auto simp: framed_def split: if_splits)
  have eq: "pre' = pre" "post' = post"
    using assms(5,6) len st(1) st(2) [symmetric] unfolding p(1) q(1) sb_end_def by auto
  have "st = \<lparr>ts_owner = owner, ts_identifier_type = i, ts_amount_raw = amount, ts_minter_raw = [m]\<rparr>"
    using decode_framed [OF p(2-4), of i m] assms(2) p(1) by simp
  then show ?thesis
    using splice_framed [OF q(2-4) p(3,4), of i' m' i m] assms(1)
    by (simp add: prove_output_state_def blake2b_256_def q(1) eq) (simp add: p(1))
qed

lemma prove_output_state_complete_witness:
  "prove_output_state demo_externals ([0x6b] @ block_bytes (replicate 32 1) 0 (i64_le 3) 1 @ [0x6c, 0x51])
     (envelope_spk demo_externals demo_program) (replicate 32 7) 2 (i64_le 500) 0 =
   Some \<lparr>ts_owner = replicate 32 7, ts_identifier_type = 2, ts_amount_raw = i64_le 500, ts_minter_raw = [0]\<rparr>"
proof -
  have h: "p2sh_hash (envelope_spk demo_externals demo_program) = Some (blake2b demo_externals demo_program)"
    by code_simp
  have d: "decode_state_block demo_program = Some \<lparr>ts_owner = replicate 32 7, ts_identifier_type = 2,
      ts_amount_raw = i64_le 500, ts_minter_raw = [0]\<rparr>" by code_simp
  have l: "locate_state_block demo_program = Some \<lparr>sb_start = 1, sb_guarded = True\<rparr>"
    "locate_state_block ([0x6b] @ block_bytes (replicate 32 1) 0 (i64_le 3) 1 @ [0x6c, 0x51]) =
      Some \<lparr>sb_start = 1, sb_guarded = True\<rparr>" by code_simp+
  from prove_output_state_complete [OF h d l] show ?thesis
    by (simp add: demo_program_def block_bytes_def sb_end_def)
qed

text \<open>Two different states proven against one output exhibit a digest collision: two distinct
  programs that decode to the two states and have the same digest.\<close>

theorem prove_output_state_unique:
  assumes "prove_output_state X base spk (ts_owner st) (ts_identifier_type st) (ts_amount_raw st)
      (hd (ts_minter_raw st)) = Some st" and "token_fits st"
    and "prove_output_state X base' spk (ts_owner st') (ts_identifier_type st') (ts_amount_raw st')
      (hd (ts_minter_raw st')) = Some st'" and "token_fits st'"
  shows "st = st' \<or> (\<exists>p p'. p \<noteq> p' \<and> blake2b X p = blake2b X p' \<and>
    decode_state_block p = Some st \<and> decode_state_block p' = Some st')"
  using token.unique [of st st' X base spk base'] assms unfolding proves_token_def by blast

lemma prove_output_state_unique_witness:
  "\<exists>p p'. p \<noteq> p' \<and> blake2b demo_externals p = blake2b demo_externals p'"
proof -
  define st where "st = \<lparr>ts_owner = replicate 32 7, ts_identifier_type = 2, ts_amount_raw = i64_le 500, ts_minter_raw = [0]\<rparr>"
  define st' where "st' = \<lparr>ts_owner = replicate 32 8, ts_identifier_type = 2, ts_amount_raw = i64_le 500, ts_minter_raw = [0]\<rparr>"
  have "prove_output_state demo_externals demo_program (envelope_spk demo_externals demo_program)
     (ts_owner st) (ts_identifier_type st) (ts_amount_raw st) (hd (ts_minter_raw st)) = Some st"
    unfolding st_def by code_simp
  moreover have "prove_output_state demo_externals demo_program (envelope_spk demo_externals demo_program)
     (ts_owner st') (ts_identifier_type st') (ts_amount_raw st') (hd (ts_minter_raw st')) = Some st'"
    unfolding st'_def by code_simp
  moreover have "token_fits st" "token_fits st'" by (simp_all add: token_fits_def st_def st'_def)
  moreover have "st \<noteq> st'" by (simp add: st_def st'_def eval_nat_numeral)
  ultimately show ?thesis using prove_output_state_unique by blast
qed

section \<open>Agreement with the KCC-0020 recognizer\<close>

lemma state_int_nonneg:
  assumes "length a = 8"
  shows "decode_state_int a = Some v \<and> 0 \<le> v \<longleftrightarrow> v = i64_of_le a \<and> 0 \<le> v"
proof -
  obtain init b where a: "a = init @ [b]" "length init = 7" by (rule split8 [OF assms])
  define L where "L = le_nat init"
  have L: "L < 2 ^ 56" using le_nat_bound [of init] a(2) by (simp add: L_def)
  have le: "le_nat a = L + 2 ^ 56 * unat b" by (simp add: a L_def le_nat_append)
  show ?thesis
  proof (cases "unat b < 128")
    case True
    have z: "b AND 0x80 = 0" using sign_bit_iff [of b] True by (metis not_le)
    have "unat (b AND 0x7f) = unat b" using True by (simp add: clear_sign)
    then have c: "b AND 0x7f = b" by (simp add: word_unat_eq_iff)
    have "a[7 := a ! 7 AND 0x7f] = a" by (simp add: a nth_append list_update_append c)
    then show ?thesis using z a by (auto simp: decode_state_int_def Let_def nth_append)
  next
    case False
    then have n: "b AND 0x80 \<noteq> 0" by (simp add: sign_bit_iff)
    have "unat (b AND 0x7f) < 128" by (simp add: clear_sign)
    then have "le_nat (a[7 := a ! 7 AND 0x7f]) < 2 ^ 63"
      using L by (simp add: a nth_append list_update_append le_nat_append L_def)
    then have m: "0 \<le> i64_of_le (a[7 := a ! 7 AND 0x7f])" by (simp add: i64_of_le_small)
    have "\<not> le_nat a < 2 ^ 63" using False le by simp
    moreover have "le_nat a < 2 ^ 64" using le_nat_bound [of a] assms by simp
    ultimately have "i64_of_le a < 0" by (simp add: i64_of_le_def Let_def)
    moreover have "\<not> (decode_state_int a = Some v \<and> 0 \<le> v)"
      using n m a by (auto simp: decode_state_int_def Let_def nth_append split: if_splits)
    ultimately show ?thesis by auto
  qed
qed

lemma push_explicit_small: "p \<noteq> [] \<Longrightarrow> length p \<le> 75 \<Longrightarrow> push_explicit p = byte_of (length p) # p"
  by (simp add: push_explicit_def Let_def)

lemma decode_state_block_bytes:
  assumes "length owner = 32" "length amount = 8"
  shows "decode_state KCC0020_STATE_TYPES (block_bytes owner i amount m) =
    (case (decode_state_int amount, decode_payload FBool [m]) of
       (Some v, Some mv) \<Rightarrow> Some [VBytes owner, VBytes [i], VInt v, mv] | _ \<Rightarrow> None)"
proof -
  have r: "read_push_explicit (byte_of (length p) # p @ rest) = Some (p, 1 + length p)"
    if "p \<noteq> []" "length p \<le> 75" for p rest
    using explicit.dec_enc [of p rest] that by (simp add: push_explicit_small)
  have r1: "read_push_explicit (32 # owner @ rest) = Some (owner, 33)" for rest
    using r [of owner rest] assms(1) by (cases "owner = []"; cases "amount = []") auto
  have r2: "read_push_explicit (1 # x # rest) = Some ([x], 2)" for x rest
    using r [of "[x]" rest] by simp
  have r3: "read_push_explicit (8 # amount @ rest) = Some (amount, 9)" for rest
    using r [of amount rest] assms(2) by (cases "owner = []"; cases "amount = []") auto
  have p: "decode_payload (FFixedBytes 32) owner = Some (VBytes owner)"
    "decode_payload FByte [x] = Some (VBytes [x])"
    "decode_payload FInt amount = map_option VInt (decode_state_int amount)" for x
    using assms by (simp_all add: decode_payload_def state_payload_def)
  show ?thesis
    unfolding decode_state_def KCC0020_STATE_TYPES_def block_bytes_def
    using assms by (simp add: r1 r2 r3 p drop_Cons' split: option.split)
qed

lemma decode_state_is_block:
  assumes "decode_state KCC0020_STATE_TYPES s = Some vs"
  obtains owner i amount m where "s = block_bytes owner i amount m" "length owner = 32" "length amount = 8"
proof -
  from assms have d: "decode_fields KCC0020_STATE_TYPES s 0 = Some (vs, length s)"
    by (auto simp: decode_state_def split: option.splits if_splits)
  from decode_fields_sound [OF this] have len: "length vs = 4"
    and e: "encode_state (zip KCC0020_STATE_TYPES vs) = Some s" by (simp_all add: KCC0020_STATE_TYPES_def)
  from len obtain v1 v2 v3 v4 where vs: "vs = [v1, v2, v3, v4]"
    by (auto simp: eval_nat_numeral length_Suc_conv)
  from e obtain p1 p2 p3 p4 where p: "state_payload (FFixedBytes 32) v1 = Some p1"
    "state_payload FByte v2 = Some p2" "state_payload FInt v3 = Some p3" "state_payload FBool v4 = Some p4"
    and s: "s = push_explicit p1 @ push_explicit p2 @ push_explicit p3 @ push_explicit p4"
    unfolding vs KCC0020_STATE_TYPES_def by (auto split: option.splits)
  have w: "length p1 = 32" "length p2 = 1" "length p3 = 8" "length p4 = 1"
    using p [THEN payload_width] by (simp_all add: field_width_def)
  have ne: "p1 \<noteq> []" "p2 \<noteq> []" "p3 \<noteq> []" "p4 \<noteq> []" using w by auto
  obtain i m where "p2 = [i]" "p4 = [m]" using w(2,4) by (auto simp: length_Suc_conv)
  then have "s = block_bytes p1 i p3 m"
    using s w ne by (simp add: push_explicit_small block_bytes_def)
  then show ?thesis using that w by blast
qed

lemma recognize_at:
  assumes "p \<noteq> []"
    and "(if hd p = 0x6b then (case get_at p 47 of None \<Rightarrow> None | Some g \<Rightarrow> if g \<noteq> 0x6c then None else Some 1)
      else Some 0) = Some start"
    and "get_range p start (start + 46) = Some state"
    and "decode_state KCC0020_STATE_TYPES state =
      (case (n, mv) of (Some v, Some w) \<Rightarrow> Some [VBytes owner, VBytes [i], VInt v, w] | _ \<Rightarrow> None)"
    and "mv = None \<or> (\<exists>w. mv = Some (VBool w))" and "length owner = 32"
  shows "recognize_kcc0020 X p =
    (case (n, mv) of
       (Some v, Some (VBool w)) \<Rightarrow>
         if length p \<le> start + 46 + start \<or> v < 0 then None
         else Some \<lparr>k_owner_identifier = owner, k_identifier_type = i, k_amount = v, k_is_minter = w,
           k_template_hash = template_hash X (take start p) (drop (start + 46) p)\<rparr>
     | _ \<Rightarrow> None)"
proof -
  obtain b0 r where p: "p = b0 # r" using assms(1) by (cases p) auto
  have h: "(if b0 = 0x6b then (case get_at p 47 of None \<Rightarrow> None | Some g \<Rightarrow> if g \<noteq> 0x6c then None else Some 1)
      else Some 0) = Some start" using assms(2) by (simp add: p)
  define d where "d = decode_state KCC0020_STATE_TYPES state"
  have "recognize_kcc0020 X p =
      (if length p \<le> start + 46 + start then None
       else (case d of
          Some [VBytes owner, VBytes id_type, VInt amount, VBool is_minter] \<Rightarrow>
            if amount < 0 then None
            else if length owner = 32 \<and> id_type \<noteq> [] then
              Some \<lparr>k_owner_identifier = owner, k_identifier_type = hd id_type,
                k_amount = amount, k_is_minter = is_minter,
                k_template_hash = template_hash X (take start p) (drop (start + 46) p)\<rparr>
            else None
        | _ \<Rightarrow> None))"
    unfolding recognize_kcc0020_def d_def p list.case h [unfolded p] option.case assms(3) [unfolded p] ..
  moreover have "d = (case (n, mv) of (Some v, Some w) \<Rightarrow> Some [VBytes owner, VBytes [i], VInt v, w] | _ \<Rightarrow> None)"
    unfolding d_def by (rule assms(4))
  ultimately show ?thesis using assms(5,6) by (cases n; cases mv) auto
qed

text \<open>The two readings of a token program agree: the KCC-0020 recognizer accepts exactly the
  programs whose located state block carries a non-negative amount and a strict boolean and which
  have logic after the block, and it returns the owner, type, amount, minter flag and template hash
  that the block reader returns.\<close>

theorem recognize_kcc0020_iff:
  "recognize_kcc0020 X p = Some k \<longleftrightarrow>
     (\<exists>b st. locate_state_block p = Some b \<and> decode_state_block p = Some st \<and>
        46 + 2 * sb_start b < length p \<and>
        k_owner_identifier k = ts_owner st \<and> k_identifier_type k = ts_identifier_type st \<and>
        amount_i64 st = Some (k_amount k) \<and> ts_is_minter st = Some (k_is_minter k) \<and>
        kcc1_template_hash X p = Some (k_template_hash k))"
  (is "?L \<longleftrightarrow> ?R")
proof -
  have framed_case: "recognize_kcc0020 X (pre @ block_bytes owner i amount m @ post) = Some k \<longleftrightarrow>
      46 + 2 * sb_start b < length (pre @ block_bytes owner i amount m @ post) \<and>
      k = \<lparr>k_owner_identifier = owner, k_identifier_type = i, k_amount = i64_of_le amount,
        k_is_minter = (m = 1), k_template_hash = template_hash X pre post\<rparr> \<and>
      0 \<le> i64_of_le amount \<and> (m = 0 \<or> m = 1)"
    if f: "framed b pre post" "length owner = 32" "length amount = 8" for b pre post owner i amount m
  proof -
    let ?B = "block_bytes owner i amount m"
    have lB: "length ?B = 46" using f by (simp add: block_bytes_def)
    have st: "sb_start b = length pre" using f(1) by (auto simp: framed_def split: if_splits)
    have hd: "(if hd (pre @ ?B @ post) = 0x6b
         then (case get_at (pre @ ?B @ post) 47 of None \<Rightarrow> None | Some g \<Rightarrow> if g \<noteq> 0x6c then None else Some 1)
         else Some 0) = Some (length pre)"
    proof (cases "sb_guarded b")
      case True
      with f(1) obtain r where "pre = [0x6b]" "post = 0x6c # r" by (cases post) (auto simp: framed_def)
      then show ?thesis using lB by (simp add: get_at_def nth_append)
    next
      case False
      with f(1) show ?thesis by (simp add: framed_def block_bytes_def)
    qed
    have ne: "pre @ ?B @ post \<noteq> []" by (simp add: block_bytes_def)
    have gr: "get_range (pre @ ?B @ post) (length pre) (length pre + 46) = Some ?B"
      using lB by (simp add: get_range_def slice_def)
    have bool: "decode_payload FBool [m] = (if m = 0 then Some (VBool False) else if m = 1 then Some (VBool True) else None)"
      by (simp add: decode_payload_def)
    have tk: "take (length pre) (pre @ ?B @ post) = pre" "drop (length pre + 46) (pre @ ?B @ post) = post"
      using lB by simp_all
    define L where "L \<longleftrightarrow> 46 + 2 * sb_start b < length (pre @ ?B @ post)"
    have L: "length (pre @ ?B @ post) \<le> length pre + 46 + length pre \<longleftrightarrow> \<not> L"
      by (auto simp: L_def st)
    have "recognize_kcc0020 X (pre @ ?B @ post) =
      (case (decode_state_int amount, if m = 0 then Some (VBool False) else if m = 1 then Some (VBool True) else None) of
       (Some v, Some (VBool w)) \<Rightarrow>
         if \<not> L \<or> v < 0 then None
         else Some \<lparr>k_owner_identifier = owner, k_identifier_type = i, k_amount = v, k_is_minter = w,
           k_template_hash = template_hash X pre post\<rparr>
     | _ \<Rightarrow> None)"
      by (rule recognize_at [OF ne hd gr decode_state_block_bytes [OF f(2,3), of i m] _ f(2), unfolded bool tk L])
        auto
    moreover have "(0 \<le> i64_of_le amount \<and> decode_state_int amount = Some (i64_of_le amount)) \<or>
        (\<not> 0 \<le> i64_of_le amount \<and> (\<forall>v. decode_state_int amount = Some v \<longrightarrow> v < 0))"
      using state_int_nonneg [OF f(3)] by (metis not_le)
    ultimately show ?thesis
      unfolding L_def [symmetric]
      by (elim disjE; cases "decode_state_int amount"; cases "m = 0"; cases "m = 1"; cases L)
        auto
  qed
  have block_case: "?R \<longleftrightarrow>
      46 + 2 * sb_start b < length p \<and>
      k = \<lparr>k_owner_identifier = owner, k_identifier_type = i, k_amount = i64_of_le amount,
        k_is_minter = (m = 1), k_template_hash = template_hash X pre post\<rparr> \<and>
      0 \<le> i64_of_le amount \<and> (m = 0 \<or> m = 1)"
    if p: "p = pre @ block_bytes owner i amount m @ post" and
      f: "framed b pre post" "length owner = 32" "length amount = 8" for b pre post owner i amount m
  proof -
    have st: "sb_start b = length pre" using f(1) by (auto simp: framed_def split: if_splits)
    have lB: "length (block_bytes owner i amount m) = 46" using f by (simp add: block_bytes_def)
    have th: "kcc1_template_hash X p = Some (template_hash X pre post)"
      unfolding kcc1_template_hash_def p locate_framed [OF f] by (simp add: st sb_end_def lB)
    show ?thesis
      unfolding th using locate_framed [OF f, of i m] decode_framed [OF f, of i m] f(3)
      by (cases k) (auto simp: p amount_i64_def ts_is_minter_def Let_def split: if_splits)
  qed
  show ?thesis
  proof (cases "locate_state_block p")
    case (Some b)
    from locate_split [OF this] obtain pre owner i amount m post where
      s: "p = pre @ block_bytes owner i amount m @ post" "framed b pre post"
      "length owner = 32" "length amount = 8" .
    show ?thesis
      unfolding block_case [OF s] using framed_case [OF s(2-4), of i m] by (simp only: s(1))
  next
    case None
    have False if ?L
    proof -
      from that obtain start state vs where
        g: "get_range p start (start + 46) = Some state" "start = (if hd p = 0x6b then 1 else 0)" "p \<noteq> []"
        "hd p = 0x6b \<longrightarrow> get_at p 47 = Some 0x6c"
        and d: "decode_state KCC0020_STATE_TYPES state = Some vs"
        by (auto simp: recognize_kcc0020_def split: list.splits option.splits if_splits)
      from decode_state_is_block [OF d] obtain owner i amount m where
        b: "state = block_bytes owner i amount m" "length owner = 32" "length amount = 8" .
      from g(1) have st: "start + 46 \<le> length p" "state = slice p start (start + 46)"
        by (simp_all add: slice_simps)
      have p: "p = take start p @ block_bytes owner i amount m @ drop (start + 46) p"
        using slice_append_drop [of start "start + 46" p] st(2) b(1) by (metis append_take_drop_id le_add1)
      define b' where "b' = \<lparr>sb_start = start, sb_guarded = (hd p = 0x6b)\<rparr>"
      have "framed b' (take start p) (drop (start + 46) p)"
        using g(2-4) st(1) by (cases p) (auto simp: framed_def b'_def get_at_def hd_drop_conv_nth split: if_splits)
      from locate_framed [OF this b(2,3), of i m] p None show False by simp
    qed
    with None show ?thesis by auto
  qed
qed

end
