(* ===== verification/Vesting.thy ===== *)
theory Vesting
  imports Kcc20
begin

text \<open>
  \<open>crates/kascov-decode/src/vesting.rs\<close>: the KRON vesting lock, its state block, and the proofs
  that an output is this lock on a given schedule. The template bytes around the state are the two
  fixture files, a parameter of the model.
\<close>

section \<open>The lock's program\<close>

type_synonym u64 = "64 word"

record vesting_state =
  v_creator :: bytes
  v_total :: u64
  v_start_score :: u64
  v_duration_score :: u64
  v_claimed :: u64

definition vesting_prefix :: "externals \<Rightarrow> bytes" where
  "vesting_prefix X = fixture X ''vesting_kron_prefix''"

definition vesting_suffix :: "externals \<Rightarrow> bytes" where
  "vesting_suffix X = fixture X ''vesting_kron_suffix''"

definition u64_le :: "u64 \<Rightarrow> bytes" where
  "u64_le v = nat_le 8 (unat v)"

definition u64_of_le :: "bytes \<Rightarrow> u64" where
  "u64_of_le bs = of_nat (le_nat bs)"

definition vesting_splice_state :: "bytes \<Rightarrow> u64 \<Rightarrow> u64 \<Rightarrow> u64 \<Rightarrow> u64 \<Rightarrow> bytes" where
  "vesting_splice_state creator total_amount start duration claimed =
     0x20 # creator @ concat (map (\<lambda>v. 0x08 # u64_le v) [total_amount, start, duration, claimed])"

definition program_for_state :: "externals \<Rightarrow> vesting_state \<Rightarrow> bytes" where
  "program_for_state X state =
     vesting_prefix X @
     vesting_splice_state (v_creator state) (v_total state) (v_start_score state)
       (v_duration_score state) (v_claimed state) @
     vesting_suffix X"

text \<open>The closure \<open>next_u64\<close>: an eight-byte push at \<open>at\<close>, and the position after it.\<close>

definition next_u64 :: "bytes \<Rightarrow> nat \<Rightarrow> (u64 \<times> nat) option" where
  "next_u64 state at =
     (if get_at state at \<noteq> Some 0x08 then None
      else map_option (\<lambda>b. (u64_of_le b, at + 9)) (get_range state (at + 1) (at + 9)))"

definition vesting_decode_state :: "externals \<Rightarrow> bytes \<Rightarrow> vesting_state option" where
  "vesting_decode_state X program =
     (let pre = vesting_prefix X; suf = vesting_suffix X in
      if length program \<noteq> length pre + 69 + length suf
         \<or> take (length pre) program \<noteq> pre
         \<or> drop (length program - length suf) program \<noteq> suf
      then None
      else
        let state = slice program (length pre) (length pre + 69) in
        if get_at state 0 \<noteq> Some 0x20 then None
        else
          (case get_range state 1 33 of None \<Rightarrow> None | Some creator \<Rightarrow>
          (case next_u64 state 33 of None \<Rightarrow> None | Some (total_amount, at) \<Rightarrow>
          (case next_u64 state at of None \<Rightarrow> None | Some (start, at) \<Rightarrow>
          (case next_u64 state at of None \<Rightarrow> None | Some (duration, at) \<Rightarrow>
          (case next_u64 state at of None \<Rightarrow> None | Some (claimed, at) \<Rightarrow>
             if at = 69 \<and> claimed \<le> total_amount \<and> duration > 0 then
               Some \<lparr>v_creator = creator, v_total = total_amount, v_start_score = start,
                 v_duration_score = duration, v_claimed = claimed\<rparr>
             else None))))))"

definition state_commitment :: "externals \<Rightarrow> vesting_state \<Rightarrow> bytes" where
  "state_commitment X state = blake2b_256 X (program_for_state X state)"

definition prove_state :: "externals \<Rightarrow> bytes \<Rightarrow> vesting_state \<Rightarrow> bool" where
  "prove_state X output_spk state =
     (case p2sh_hash output_spk of
        None \<Rightarrow> False
      | Some want \<Rightarrow> state_commitment X state = want)"

text \<open>The value a witness instruction offers as \<open>claimed\<close>, zero-padded to eight bytes.\<close>

definition witness_value :: "instruction \<Rightarrow> u64 option" where
  "witness_value inst =
     (case i_data inst of
        Some bs \<Rightarrow> if length bs \<le> 8 then Some (u64_of_le (bs @ replicate (8 - length bs) 0)) else None
      | None \<Rightarrow>
          if i_opcode inst = 0x00 then Some (u64_of_le (replicate 8 0))
          else if 0x51 \<le> i_opcode inst \<and> i_opcode inst \<le> 0x60
          then Some (u64_of_le ((i_opcode inst - 0x50) # replicate 7 0))
          else None)"

definition claim_candidates :: "u64 \<Rightarrow> bytes \<Rightarrow> u64 list" where
  "claim_candidates total_amount witness =
     bs_of_list (0 # filter (\<lambda>v. v \<le> total_amount) (List.map_filter witness_value (fst (disassemble witness))))"

definition recover_continuation_state ::
  "externals \<Rightarrow> bytes \<Rightarrow> bytes \<Rightarrow> u64 \<Rightarrow> u64 \<Rightarrow> u64 \<Rightarrow> bytes \<Rightarrow> vesting_state option" where
  "recover_continuation_state X output_spk creator total_amount start_score duration_score witness =
     (case filter (prove_state X output_spk)
        (map (\<lambda>claimed. \<lparr>v_creator = creator, v_total = total_amount, v_start_score = start_score,
            v_duration_score = duration_score, v_claimed = claimed\<rparr>)
          (claim_candidates total_amount witness)) of
        [only] \<Rightarrow> Some only
      | _ \<Rightarrow> None)"

definition prove_genesis_lock ::
  "externals \<Rightarrow> bytes \<Rightarrow> bytes \<Rightarrow> u64 \<Rightarrow> u64 \<Rightarrow> u64 \<Rightarrow> bool" where
  "prove_genesis_lock X output_spk creator total_amount start_score duration_score =
     (if duration_score = 0 then False
      else
        (case p2sh_hash output_spk of
           None \<Rightarrow> False
         | Some want \<Rightarrow>
             let state = \<lparr>v_creator = creator, v_total = total_amount, v_start_score = start_score,
               v_duration_score = duration_score, v_claimed = 0\<rparr>
             in blake2b_256 X (program_for_state X state) = want))"

section \<open>Reading a lock back\<close>

definition vesting_fits :: "vesting_state \<Rightarrow> bool" where
  "vesting_fits st \<longleftrightarrow> length (v_creator st) = 32 \<and> v_claimed st \<le> v_total st \<and> v_duration_score st > 0"

lemma length_u64_le [simp]: "length (u64_le v) = 8"
  by (simp add: u64_le_def)

lemma u64_of_le_u64_le [simp]: "u64_of_le (u64_le v) = v"
proof -
  have "unat v < 256 ^ 8" using unsigned_less [of v, where ?'a = nat] by simp
  then show ?thesis by (simp add: u64_of_le_def u64_le_def le_nat_nat_le)
qed

lemma u64_le_u64_of_le: "length bs = 8 \<Longrightarrow> u64_le (u64_of_le bs) = bs"
  using le_nat_bound [of bs] nat_le_le_nat [of bs]
  by (simp add: u64_of_le_def u64_le_def unat_of_nat)

lemma next_u64_Some:
  "next_u64 state at = Some (v, at') \<longleftrightarrow>
     at + 9 \<le> length state \<and> at' = at + 9 \<and> slice state at (at + 9) = 0x08 # u64_le v"
proof -
  have s: "slice state at (at + 9) = state ! at # slice state (at + 1) (at + 9)" if "at + 9 \<le> length state"
    using slice_append_slice [of at "Suc at" "at + 9" state] slice_single [of at state] that by simp
  show ?thesis
  proof
    assume "next_u64 state at = Some (v, at')"
    then show "at + 9 \<le> length state \<and> at' = at + 9 \<and> slice state at (at + 9) = 0x08 # u64_le v"
      using s by (auto simp: next_u64_def slice_simps u64_le_u64_of_le split: if_splits)
  next
    assume a: "at + 9 \<le> length state \<and> at' = at + 9 \<and> slice state at (at + 9) = 0x08 # u64_le v"
    with s have "state ! at = 0x08" "slice state (at + 1) (at + 9) = u64_le v" by simp_all
    with a show "next_u64 state at = Some (v, at')"
      by (simp add: next_u64_def get_at_def get_range_def)
  qed
qed

text \<open>C40. A revealed program decodes to a vesting state exactly when it is, byte for byte, the
  audited template around that state, with a 32-byte creator, a claim within the total_amount and a
  positive duration. Encoding and decoding are inverse to each other.\<close>

theorem vesting_decode_iff:
  "vesting_decode_state X program = Some st \<longleftrightarrow>
     program = program_for_state X st \<and> length (v_creator st) = 32 \<and>
     v_claimed st \<le> v_total st \<and> v_duration_score st > 0"
  (is "?L \<longleftrightarrow> ?R")
proof
  let ?pre = "vesting_prefix X" and ?suf = "vesting_suffix X"
  assume ?L
  then obtain state total_amount start duration claimed where
    g: "length program = length ?pre + 69 + length ?suf" "take (length ?pre) program = ?pre"
      "drop (length program - length ?suf) program = ?suf"
      "state = slice program (length ?pre) (length ?pre + 69)" "get_at state 0 = Some 0x20"
    and n: "next_u64 state 33 = Some (total_amount, 42)" "next_u64 state 42 = Some (start, 51)"
      "next_u64 state 51 = Some (duration, 60)" "next_u64 state 60 = Some (claimed, 69)"
    and st: "st = \<lparr>v_creator = slice state 1 33, v_total = total_amount, v_start_score = start,
        v_duration_score = duration, v_claimed = claimed\<rparr>"
    and v: "claimed \<le> total_amount" "duration > 0"
    by (auto simp: vesting_decode_state_def Let_def slice_simps next_u64_Some
        split: if_splits option.splits prod.splits)
  have ls: "length state = 69" using g(1,4) by simp
  have "state = slice state 0 1 @ slice state 1 33 @ slice state 33 42 @ slice state 42 51 @
      slice state 51 60 @ slice state 60 69 @ drop 69 state"
    by (simp add: slice_append_drop)
  moreover have "slice state 0 1 = [0x20]"
    using g(5) ls slice_single [of 0 state] by (simp add: slice_simps)
  ultimately have "state = vesting_splice_state (slice state 1 33) total_amount start duration claimed"
    using n ls by (simp add: next_u64_Some vesting_splice_state_def)
  moreover have "program = ?pre @ state @ ?suf"
    using g slice_append_drop [of "length ?pre" "length ?pre + 69" program]
    by (metis add_diff_cancel_right' append_take_drop_id le_add1)
  ultimately show ?R using st v ls by (simp add: program_for_state_def)
next
  let ?pre = "vesting_prefix X" and ?suf = "vesting_suffix X"
  assume R: ?R
  define state where "state = vesting_splice_state (v_creator st) (v_total st) (v_start_score st)
    (v_duration_score st) (v_claimed st)"
  have c: "length (v_creator st) = 32" using R by simp
  have ls: "length state = 69" using c by (simp add: state_def vesting_splice_state_def)
  have p: "program = ?pre @ state @ ?suf" using R by (simp add: program_for_state_def state_def)
  have sl: "slice program (length ?pre) (length ?pre + 69) = state"
    using ls by (simp add: p slice_def)
  have cr: "slice state 1 33 = v_creator st" and g0: "get_at state 0 = Some 0x20"
    using c by (simp_all add: state_def vesting_splice_state_def slice_def get_at_def)
  have nx: "next_u64 state 33 = Some (v_total st, 42)" "next_u64 state 42 = Some (v_start_score st, 51)"
    "next_u64 state 51 = Some (v_duration_score st, 60)" "next_u64 state 60 = Some (v_claimed st, 69)"
    using c by (simp_all add: next_u64_Some ls) (simp_all add: state_def vesting_splice_state_def slice_def)
  have t: "length program = length ?pre + 69 + length ?suf" "take (length ?pre) program = ?pre"
    "drop (length program - length ?suf) program = ?suf"
    by (simp_all add: p ls)
  have gr: "get_range state 1 33 = Some (v_creator st)" using cr ls by (simp add: get_range_def)
  have "v_claimed st \<le> v_total st" "v_duration_score st > 0" using R by simp_all
  then show ?L
    unfolding vesting_decode_state_def Let_def sl t g0 gr nx option.case prod.case
    by (simp add: p ls)
qed

interpretation vesting: state_proof X "\<lambda>(_ :: unit) st. Some (program_for_state X st)"
  "vesting_decode_state X" vesting_fits "\<lambda>_. prove_state X" for X
  by unfold_locales
    (auto simp: vesting_decode_iff vesting_fits_def prove_state_def state_commitment_def
      blake2b_256_def split: option.splits)

section \<open>What a proven lock says\<close>

text \<open>Recovering a continuation returns a state exactly when it is the only candidate the witness
  offers (zero is always one) within the total that reproduces the output's commitment; an
  ambiguous or unproven witness yields nothing.\<close>

theorem recover_continuation_iff:
  "recover_continuation_state X spk creator tot start dur witness = Some st \<longleftrightarrow>
     (let cands = (\<lambda>c. \<lparr>v_creator = creator, v_total = tot, v_start_score = start,
            v_duration_score = dur, v_claimed = c\<rparr>) `
          insert 0 {c. c \<le> tot \<and> (\<exists>i \<in> set (fst (disassemble witness)). witness_value i = Some c)}
      in {s \<in> cands. prove_state X spk s} = {st})"
proof -
  let ?mk = "\<lambda>c. \<lparr>v_creator = creator, v_total = tot, v_start_score = start,
            v_duration_score = dur, v_claimed = c\<rparr>"
  let ?cs = "claim_candidates tot witness"
  let ?ms = "filter (prove_state X spk) (map ?mk ?cs)"
  have "inj_on ?mk (set ?cs)" by (rule inj_onI) simp
  then have d: "distinct ?ms" by (simp add: distinct_map claim_candidates_def)
  have s: "set ?ms = {s \<in> ?mk ` insert 0 {c. c \<le> tot \<and>
      (\<exists>i \<in> set (fst (disassemble witness)). witness_value i = Some c)}. prove_state X spk s}"
    by (force simp: claim_candidates_def map_filter_def)
  have "?ms = [st] \<longleftrightarrow> set ?ms = {st}" using distinct_set_single [OF d] by simp
  moreover have "recover_continuation_state X spk creator tot start dur witness = Some st \<longleftrightarrow> ?ms = [st]"
    unfolding recover_continuation_state_def
    by (auto split: list.splits)
  ultimately show ?thesis unfolding Let_def s by simp
qed

text \<open>The genesis proof accepts exactly the outputs that commit to the audited program with a
  positive duration and nothing claimed; so a proven lock names its creator and full schedule, and
  a revealed program with that digest decodes to them.\<close>

theorem prove_genesis_lock_iff:
  assumes "length creator = 32"
  shows "prove_genesis_lock X spk creator tot start dur \<longleftrightarrow>
    (\<exists>p. p2sh_hash spk = Some (blake2b X p) \<and>
       vesting_decode_state X p = Some \<lparr>v_creator = creator, v_total = tot, v_start_score = start,
         v_duration_score = dur, v_claimed = 0\<rparr>)"
  using assms
  by (auto simp: prove_genesis_lock_def vesting_decode_iff blake2b_256_def Let_def word_neq_0_conv
      split: option.splits)

lemma prove_genesis_lock_iff_witness:
  "vesting_decode_state demo_externals (0x20 # replicate 32 1 @ concat (map (\<lambda>v. 0x08 # u64_le v) [9, 2, 3, 0])) =
     Some \<lparr>v_creator = replicate 32 1, v_total = 9, v_start_score = 2, v_duration_score = 3, v_claimed = 0\<rparr> \<and>
   prove_genesis_lock demo_externals
     (envelope_spk demo_externals (0x20 # replicate 32 1 @ concat (map (\<lambda>v. 0x08 # u64_le v) [9, 2, 3, 0])))
     (replicate 32 1) 9 2 3"
proof -
  let ?p = "0x20 # replicate 32 1 @ concat (map (\<lambda>v. 0x08 # u64_le v) [9, 2, 3, 0])"
  have d: "vesting_decode_state demo_externals ?p =
     Some \<lparr>v_creator = replicate 32 1, v_total = 9, v_start_score = 2, v_duration_score = 3, v_claimed = 0\<rparr>"
    by code_simp
  have h: "p2sh_hash (envelope_spk demo_externals ?p) = Some (blake2b demo_externals ?p)" by code_simp
  have "length (replicate 32 (1::u8)) = 32" by simp
  from prove_genesis_lock_iff [OF this] d h show ?thesis by blast
qed

text \<open>Two different schedules or creators proven against one output exhibit a digest collision
  between two programs that decode to the two states.\<close>

theorem vesting_proof_unique:
  assumes "prove_state X spk st" and "prove_state X spk st'"
    and "vesting_fits st" and "vesting_fits st'"
  shows "st = st' \<or> (\<exists>p p'. p \<noteq> p' \<and> blake2b X p = blake2b X p' \<and>
    vesting_decode_state X p = Some st \<and> vesting_decode_state X p' = Some st')"
  using vesting.unique [OF assms(3,4)] assms(1,2) by blast

lemma vesting_proof_unique_witness:
  "\<exists>p p'. p \<noteq> p' \<and> blake2b demo_externals p = blake2b demo_externals p'"
proof -
  define st where "st = \<lparr>v_creator = replicate 32 1, v_total = 9, v_start_score = 2, v_duration_score = 3, v_claimed = 0\<rparr>"
  define st' where "st' = \<lparr>v_creator = replicate 32 1, v_total = 9, v_start_score = 2, v_duration_score = 3, v_claimed = 4\<rparr>"
  define spk where "spk = envelope_spk demo_externals (replicate 69 0)"
  have "prove_state demo_externals spk st" unfolding st_def spk_def by code_simp
  moreover have "prove_state demo_externals spk st'" unfolding st'_def spk_def by code_simp
  moreover have "vesting_fits st" "vesting_fits st'" by (simp_all add: vesting_fits_def st_def st'_def)
  moreover have "st \<noteq> st'" by (simp add: st_def st'_def)
  ultimately show ?thesis using vesting_proof_unique by blast
qed

end
