(* ===== verification/Chain_Model.thy ===== *)
theory Chain_Model
  imports Push_Codec
begin

text \<open>
  The chain data the indexer handles: \<open>crates/kascov-core/src/model.rs\<close>, \<open>application.rs\<close> and
  \<open>delivery.rs\<close>. Hashes, transaction ids and covenant ids are byte strings; an outpoint is a
  transaction id with an output index. Cursors of the delivery stream print and parse.
\<close>

text \<open>The range of a \<open>u64\<close>, with the comparison on integers so that it evaluates.\<close>

definition fits_u64 :: "nat \<Rightarrow> bool" where
  "fits_u64 n \<longleftrightarrow> int n < 2 ^ 64"

lemma fits_u64_iff: "fits_u64 n \<longleftrightarrow> n < 2 ^ 64"
  by (simp add: fits_u64_def)

section \<open>Transactions and blocks\<close>

type_synonym outpoint = "bytes \<times> nat"

record covenant_binding =
  cb_covenant_id :: bytes
  cb_authorizing_input :: nat

record tx_output =
  o_value :: nat
  o_spk_version :: "16 word"
  o_spk_script :: bytes
  o_covenant :: "covenant_binding option"

record tx_input =
  i_previous_outpoint :: outpoint
  i_signature_script :: bytes
  i_compute_budget :: nat

record transaction =
  x_txid :: bytes
  x_version :: "16 word"
  x_inputs :: "tx_input list"
  x_outputs :: "tx_output list"
  x_payload :: bytes

record block =
  bl_hash :: bytes
  bl_daa_score :: nat
  bl_blue_score :: nat
  bl_timestamp_ms :: nat
  bl_parents :: "bytes list"
  bl_mergeset :: "bytes list"
  bl_transactions :: "transaction list"

record accepted_block =
  ab_accepting_block :: bytes
  ab_accepted_tx_ids :: "bytes list"

section \<open>Applications\<close>

record application_output =
  ao_output_index :: nat
  ao_covenant_id :: bytes
  ao_application_id :: string
  ao_artifact_id :: bytes
  ao_actor_path :: string
  ao_state_json :: string

record decode_failure =
  df_output_index :: "nat option"
  df_application_id :: "string option"
  df_artifact_id :: "bytes option"
  df_code :: string
  df_detail :: string

record application_preprocess =
  ap_raw_envelope :: "bytes option"
  ap_application_payload :: "bytes option"
  ap_outputs :: "application_output list"
  ap_failures :: "decode_failure list"

text \<open>An \<open>ApplicationDecoder\<close> is its \<open>preprocess\<close> function; the default one finds nothing.\<close>

type_synonym application_decoder = "transaction \<Rightarrow> application_preprocess"

definition no_application_decoder :: application_decoder where
  "no_application_decoder tx =
     \<lparr>ap_raw_envelope = None, ap_application_payload = None, ap_outputs = [], ap_failures = []\<rparr>"

section \<open>Covenant sightings\<close>

record covenant_sighting =
  cs_covenant_id :: bytes
  cs_outpoint :: outpoint
  cs_authorizing_input :: nat
  cs_authorizing_outpoint :: "outpoint option"
  cs_value :: nat
  cs_spk_version :: "16 word"
  cs_spk_script :: bytes
  cs_tx_version :: "16 word"
  cs_block_hash :: bytes
  cs_daa_score :: nat

definition sighting :: "block \<Rightarrow> transaction \<Rightarrow> nat \<times> tx_output \<Rightarrow> covenant_sighting option" where
  "sighting blk tx = (\<lambda>(idx, out).
     map_option (\<lambda>binding.
       \<lparr>cs_covenant_id = cb_covenant_id binding, cs_outpoint = (x_txid tx, idx),
        cs_authorizing_input = cb_authorizing_input binding,
        cs_authorizing_outpoint =
          map_option i_previous_outpoint (get_at (x_inputs tx) (cb_authorizing_input binding)),
        cs_value = o_value out, cs_spk_version = o_spk_version out, cs_spk_script = o_spk_script out,
        cs_tx_version = x_version tx, cs_block_hash = bl_hash blk, cs_daa_score = bl_daa_score blk\<rparr>)
     (o_covenant out))"

definition covenant_sightings :: "block \<Rightarrow> covenant_sighting list" where
  "covenant_sightings blk =
     concat (map (\<lambda>tx. List.map_filter (sighting blk tx) (enumerate 0 (x_outputs tx))) (bl_transactions blk))"

section \<open>The delivery stream\<close>

text \<open>An epoch is its sixteen bytes.\<close>

type_synonym stream_epoch = bytes

record stream_cursor =
  sc_epoch :: stream_epoch
  sc_seq :: nat

definition checked_next :: "stream_cursor \<Rightarrow> stream_cursor option" where
  "checked_next c =
     (if fits_u64 (sc_seq c + 1) then Some \<lparr>sc_epoch = sc_epoch c, sc_seq = sc_seq c + 1\<rparr> else None)"

definition epoch_digit :: "char \<Rightarrow> bool" where
  "epoch_digit c \<longleftrightarrow> (let n = of_char c :: nat in 48 \<le> n \<and> n \<le> 57 \<or> 97 \<le> n \<and> n \<le> 102)"

text \<open>\<open>hex::decode_to_slice\<close> into sixteen bytes fails on any other length.\<close>

definition parse_epoch :: "externals \<Rightarrow> string \<Rightarrow> stream_epoch option" where
  "parse_epoch X s =
     (if length s \<noteq> 32 \<or> \<not> list_all epoch_digit s then None
      else Option.bind (hex_decode X s) (\<lambda>bs. if length bs = 16 then Some bs else None))"

definition show_cursor :: "externals \<Rightarrow> stream_cursor \<Rightarrow> string" where
  "show_cursor X c = hex_encode X (sc_epoch c) @ '':'' @ show_nat (sc_seq c)"

text \<open>\<open>split_once\<close> at the first colon.\<close>

fun split_once :: "char \<Rightarrow> string \<Rightarrow> (string \<times> string) option" where
  "split_once sep [] = None"
| "split_once sep (c # cs) =
     (if c = sep then Some ([], cs) else map_option (\<lambda>(a, b). (c # a, b)) (split_once sep cs))"

text \<open>\<open>str::parse::<u64>\<close>: an optional plus sign, then at least one digit, below \<open>2 ^ 64\<close>.\<close>

definition digit_of :: "char \<Rightarrow> nat option" where
  "digit_of c = (let n = of_char c :: nat in if 48 \<le> n \<and> n \<le> 57 then Some (n - 48) else None)"

definition parse_u64 :: "string \<Rightarrow> nat option" where
  "parse_u64 s =
     (let s = (case s of CHR ''+'' # r \<Rightarrow> r | _ \<Rightarrow> s) in
      if s = [] then None
      else (case traverse digit_of s of
              None \<Rightarrow> None
            | Some ds \<Rightarrow>
                let n = foldl (\<lambda>a d. 10 * a + d) 0 ds in if fits_u64 n then Some n else None))"

definition parse_cursor :: "externals \<Rightarrow> string \<Rightarrow> stream_cursor option" where
  "parse_cursor X s =
     (case split_once (CHR '':'') s of
        None \<Rightarrow> None
      | Some (epoch, seq) \<Rightarrow>
          if CHR '':'' \<in> set seq then None
          else (case parse_epoch X epoch of
                  None \<Rightarrow> None
                | Some e \<Rightarrow> map_option (\<lambda>n. \<lparr>sc_epoch = e, sc_seq = n\<rparr>) (parse_u64 seq)))"

datatype delivery_kind = Accepted | Removed | ProjectionRepaired

definition pending_event_id :: "externals \<Rightarrow> bytes \<Rightarrow> bytes \<Rightarrow> nat \<Rightarrow> string" where
  "pending_event_id X txid covenant_id event_ordinal =
     hex_encode X txid @ '':'' @ hex_encode X covenant_id @ '':'' @ show_nat event_ordinal"

record delivery_record =
  dr_cursor :: stream_cursor
  dr_kind :: delivery_kind
  dr_source_cursor :: "stream_cursor option"
  dr_covenant_id :: bytes
  dr_covenant_event_seq :: nat
  dr_txid :: bytes
  dr_accepting_block :: bytes
  dr_accepting_daa :: nat
  dr_tx_index :: "nat option"
  dr_event_index :: "nat option"
  dr_order_complete :: bool
  dr_pending_id :: "string option"
  dr_applications :: "application_output list"

record committed_batch =
  cm_cursor :: bytes
  cm_processed_daa :: nat
  cm_deliveries :: "delivery_record list"

record committed_removal_batch =
  cr_removed_blocks :: "bytes list"
  cr_deliveries :: "delivery_record list"

section \<open>Reading back what was printed\<close>

lemma digit_of_char: "d < 10 \<Longrightarrow> digit_of (digit_char d) = Some d"
  by (simp add: digit_of_def digit_char_def)

lemma traverse_append:
  "traverse f (xs @ ys) =
     (case traverse f xs of None \<Rightarrow> None | Some a \<Rightarrow> map_option ((@) a) (traverse f ys))"
proof (induction xs)
  case Nil
  then show ?case by (cases "traverse f ys") simp_all
qed (auto split: option.splits)

lemma show_nat_digits:
  "\<exists>ds. traverse digit_of (show_nat n) = Some ds \<and> foldl (\<lambda>a d. 10 * a + d) 0 ds = n"
proof (induction n rule: less_induct)
  case (less n)
  show ?case
  proof (cases "n < 10")
    case True
    then show ?thesis by (simp add: show_nat.simps [of n] digit_of_char)
  next
    case False
    with less [of "n div 10"] obtain ds where
      "traverse digit_of (show_nat (n div 10)) = Some ds" "foldl (\<lambda>a d. 10 * a + d) 0 ds = n div 10"
      by auto
    with False show ?thesis by (simp add: show_nat.simps [of n] traverse_append digit_of_char)
  qed
qed

lemma show_nat_chars: "c \<in> set (show_nat n) \<Longrightarrow> \<exists>d < 10. c = digit_char d"
proof (induction n rule: less_induct)
  case (less n)
  show ?case
  proof (cases "n < 10")
    case True
    with less(2) show ?thesis by (auto simp: show_nat.simps [of n])
  next
    case False
    with less(2) consider "c \<in> set (show_nat (n div 10))" | "c = digit_char (n mod 10)"
      by (auto simp: show_nat.simps [of n])
    then show ?thesis
      using less(1) [of "n div 10"] False by cases (auto intro: exI [of _ "n mod 10"])
  qed
qed

lemma show_nat_not_Nil [simp]: "show_nat n \<noteq> []"
  by (simp add: show_nat.simps [of n])

lemma digit_char_sign: "d < 10 \<Longrightarrow> digit_char d \<noteq> CHR ''+'' \<and> digit_char d \<noteq> CHR '':''"
proof
  assume d: "d < 10"
  have of: "of_char (digit_char d) = 48 + d" using d by (simp add: digit_char_def)
  show "digit_char d \<noteq> CHR ''+''"
  proof
    assume "digit_char d = CHR ''+''"
    with of have "of_char (CHR ''+'') = 48 + d" by simp
    then show False by simp
  qed
  show "digit_char d \<noteq> CHR '':''"
  proof
    assume "digit_char d = CHR '':''"
    with of have "of_char (CHR '':'') = 48 + d" by simp
    with d show False by simp
  qed
qed

lemma parse_show_u64: "parse_u64 (show_nat n) = (if fits_u64 n then Some n else None)"
proof -
  obtain ds where ds: "traverse digit_of (show_nat n) = Some ds" "foldl (\<lambda>a d. 10 * a + d) 0 ds = n"
    using show_nat_digits by blast
  obtain c cs where s: "show_nat n = c # cs" by (cases "show_nat n") simp_all
  then obtain d where "d < 10" "c = digit_char d" using show_nat_chars [of c n] by auto
  then have "c \<noteq> CHR ''+''" using digit_char_sign by simp
  then have "(case show_nat n of CHR ''+'' # r \<Rightarrow> r | _ \<Rightarrow> show_nat n) = show_nat n"
    unfolding s by (auto split: list.splits char.splits bool.splits)
  then show ?thesis unfolding parse_u64_def Let_def using ds by simp
qed


lemma split_once_append: "sep \<notin> set a \<Longrightarrow> split_once sep (a @ sep # b) = Some (a, b)"
  by (induction a) auto

lemma split_once_Some: "split_once sep s = Some (a, b) \<Longrightarrow> s = a @ sep # b \<and> sep \<notin> set a"
  by (induction s arbitrary: a) (auto split: if_splits)

lemma epoch_digit_hex: "d < 16 \<Longrightarrow> epoch_digit (hex_digit d)"
  by (auto simp: epoch_digit_def hex_digit_def Let_def)

lemma not_epoch_digit_colon: "\<not> epoch_digit (CHR '':'')"
  by (simp add: epoch_digit_def Let_def)

lemma hex_encode_epoch:
  assumes "hex_documented X"
  shows "list_all epoch_digit (hex_encode X bs)" and "length (hex_encode X bs) = 2 * length bs"
proof -
  have e: "hex_encode X bs = concat (map (\<lambda>b. [hex_digit (unat b div 16), hex_digit (unat b mod 16)]) bs)"
    using assms by (simp add: hex_documented_def)
  have "unat (b :: u8) div 16 < 16" for b
    using unat_lt_256 [of b] by (simp add: div_less_iff_less_mult del: unat_lt_256)
  then show "list_all epoch_digit (hex_encode X bs)"
    unfolding e by (induction bs) (simp_all add: epoch_digit_hex)
  show "length (hex_encode X bs) = 2 * length bs"
    unfolding e by (induction bs) simp_all
qed

lemma parse_epoch_encode:
  "hex_documented X \<Longrightarrow> parse_epoch X (hex_encode X e) = (if length e = 16 then Some e else None)"
proof -
  assume X: "hex_documented X"
  then have "hex_decode X (hex_encode X e) = Some e" unfolding hex_documented_def by blast
  with hex_encode_epoch [OF X, of e] show ?thesis by (simp add: parse_epoch_def)
qed

text \<open>A cursor of the delivery stream survives the wire: parsing its text gives it back, whatever its
  epoch and any 64-bit sequence number.\<close>

theorem cursor_roundtrip:
  assumes "hex_documented X" and "length (sc_epoch c) = 16" and "sc_seq c < 2 ^ 64"
  shows "parse_cursor X (show_cursor X c) = Some c"
proof -
  have "CHR '':'' \<notin> set (hex_encode X (sc_epoch c))"
    using hex_encode_epoch(1) [OF assms(1), of "sc_epoch c"] not_epoch_digit_colon by (auto simp: list_all_iff)
  then have "split_once (CHR '':'') (show_cursor X c) = Some (hex_encode X (sc_epoch c), show_nat (sc_seq c))"
    by (simp add: show_cursor_def split_once_append)
  moreover have "CHR '':'' \<notin> set (show_nat (sc_seq c))"
    using show_nat_chars digit_char_sign by metis
  ultimately show ?thesis
    using assms by (simp add: parse_cursor_def parse_epoch_encode parse_show_u64 fits_u64_iff)
qed


definition hex_pairs :: "bytes \<Rightarrow> string" where
  "hex_pairs bs = concat (map (\<lambda>b. [hex_digit (unat b div 16), hex_digit (unat b mod 16)]) bs)"

definition unhex_digit :: "char \<Rightarrow> nat option" where
  "unhex_digit c =
     (let n = of_char c :: nat in
      if 48 \<le> n \<and> n \<le> 57 then Some (n - 48) else if 97 \<le> n \<and> n \<le> 102 then Some (n - 87) else None)"

fun unhex_pairs :: "string \<Rightarrow> bytes option" where
  "unhex_pairs [] = Some []"
| "unhex_pairs [c] = None"
| "unhex_pairs (h # l # cs) =
     (case (unhex_digit h, unhex_digit l, unhex_pairs cs) of
        (Some a, Some b, Some bs) \<Rightarrow> Some (byte_of (16 * a + b) # bs)
      | _ \<Rightarrow> None)"

lemma unhex_hex_digit: "d < 16 \<Longrightarrow> unhex_digit (hex_digit d) = Some d"
  by (auto simp: unhex_digit_def hex_digit_def Let_def)

lemma unhex_hex_pairs: "unhex_pairs (hex_pairs bs) = Some bs"
proof (induction bs)
  case (Cons b bs)
  have "unat b div 16 < 16"
    using unat_lt_256 [of b] by (simp add: div_less_iff_less_mult del: unat_lt_256)
  with Cons show ?case by (simp add: hex_pairs_def unhex_hex_digit)
qed (simp add: hex_pairs_def)

definition documented_hex :: externals where
  "documented_hex = \<lparr>blake2b = \<lambda>_. replicate 32 0, hex_encode = hex_pairs,
     hex_decode = unhex_pairs, fixture = \<lambda>_. [],
     json_first = \<lambda>_. None\<rparr>"

lemma documented_hex_ok: "hex_documented documented_hex"
  by (simp add: hex_documented_def documented_hex_def unhex_hex_pairs hex_pairs_def [symmetric])

lemma cursor_roundtrip_witness:
  "parse_cursor documented_hex (show_cursor documented_hex \<lparr>sc_epoch = replicate 16 0xAB, sc_seq = 7\<rparr>) =
     Some \<lparr>sc_epoch = replicate 16 0xAB, sc_seq = 7\<rparr>"
  by (rule cursor_roundtrip) (simp_all add: documented_hex_ok)

end
