(* ===== verification/Database.thy ===== *)
theory Database
  imports Kcc20 Chain_Model "HOL-Library.Product_Lexorder"
begin

text \<open>
  The tables of \<open>crates/kascov-core/src/store.rs\<close>, \<open>store_delivery.rs\<close> and \<open>store_application.rs\<close>
  that the modelled code reads and writes, as lists of rows, and the queries as filters and stable
  sorts over them. Blobs are byte strings,
  \<open>INTEGER\<close> columns are \<open>int\<close> where the code reads an \<open>i64\<close> and \<open>nat\<close> where it reads an unsigned
  value. Failures of the database engine itself are not modelled, except the overflow of \<open>SUM\<close>. A
  record has the columns that the modelled code reads or writes; a JSON object is the list of its
  members. Where a query orders rows and leaves ties open, tied rows come in table order.
\<close>

section \<open>Rows\<close>

record utxo_row =
  u_txid :: bytes
  u_output_index :: nat
  u_covenant_id :: bytes
  u_value :: int
  u_spk_version :: "16 word"
  u_spk_script :: bytes
  u_created_block :: bytes
  u_created_daa :: nat
  u_spent_block :: "bytes option"
  u_spent_txid :: "bytes option"
  u_spent_sig :: "bytes option"
  u_spent_budget :: "nat option"
  u_spent_input_index :: "nat option"
  u_template :: "string option"
  u_revealed_template :: "string option"
  u_kcc1_template_hash :: "bytes option"

record event_row =
  e_covenant_id :: bytes
  e_seq :: nat
  e_kind :: string
  e_txid :: bytes
  e_accepting_block :: bytes
  e_accepting_daa :: nat
  e_tx_index :: "nat option"
  e_blue_score :: "int option"
  e_time_ms :: "int option"
  e_payload :: "bytes option"
  e_lane_namespace :: "string option"
  e_payload_tag :: "string option"
  e_inscription_kind :: "string option"
  e_event_index :: "nat option"
  e_delivery_stream_seq :: "nat option"

record covenant_row =
  c_covenant_id :: bytes
  c_genesis_txid :: "bytes option"
  c_genesis_daa :: "nat option"
  c_lineage_complete :: bool
  c_event_count :: int
  c_last_activity_daa :: nat

record token_row =
  t_token_id :: bytes
  t_status :: string
  t_invalid_reason :: "string option"
  t_supply :: "int option"
  t_minted :: "int option"
  t_burned :: "int option"
  t_holders :: nat
  t_held_covenant :: "int option"
  t_held_wallet :: "int option"
  t_held_script :: "int option"
  t_unresolved_cells :: nat
  t_last_activity_daa :: nat
  t_fields_json :: "(string \<times> string) list option"
  t_derived_at_daa :: "nat option"
  t_market_covenant_id :: "bytes option"
  t_trades :: int
  t_co_moved_trades :: int
  t_trades_missing_time :: int

record minter_row =
  m_minter_covenant_id :: bytes
  m_token_id :: bytes

record token_event_row =
  te_token_id :: bytes
  te_covenant_id :: bytes
  te_seq :: nat
  te_delta_idx :: nat
  te_kind :: string
  te_amount :: "int option"
  te_owner_from :: "string option"
  te_owner_to :: "string option"
  te_accepting_daa :: nat
  te_tx_index :: "nat option"

record balance_row =
  b_token_id :: bytes
  b_owner :: string
  b_balance :: int
  b_cells :: nat

record trade_row =
  tr_token_id :: bytes
  tr_seq :: nat
  tr_txid :: bytes
  tr_market :: bytes
  tr_side :: string
  tr_base_amount :: int
  tr_quote_sompi :: int
  tr_kas_before :: int
  tr_kas_after :: int
  tr_base_before :: int
  tr_base_after :: int
  tr_co_covenants :: int
  tr_accepting_daa :: nat
  tr_blue_score :: "int option"
  tr_tx_index :: "nat option"
  tr_time_ms :: "int option"
  tr_counterparty :: "string option"

record market_row =
  mp_covenant_id :: bytes
  mp_program_hash :: bytes
  mp_skeleton :: string
  mp_v_kas_units :: int
  mp_token_reserve :: "int option"
  mp_token_covenant_id :: "bytes option"
  mp_graduation_kas_sompi :: "int option"
  mp_fee_owners_json :: "(string \<times> string) list option"
  mp_kas_reserve_sompi :: "int option"
  mp_lp_token_covenant_id :: "bytes option"
  mp_shares :: "int option"
  mp_checked_through_seq :: int
  mp_invariant_trades :: int
  mp_invariant_ok :: int
  mp_exercised_trades :: int
  mp_program_len :: "int option"
  mp_program_pushes :: "int option"

text \<open>The delivery log (\<open>store_delivery.rs\<close>); the column \<open>data_json\<close> is the record it serialises.\<close>

record delivery_row =
  l_stream_seq :: nat
  l_kind :: string
  l_source_stream_seq :: "nat option"
  l_covenant_id :: bytes
  l_covenant_event_seq :: nat
  l_txid :: bytes
  l_accepting_block :: bytes
  l_accepting_daa :: nat
  l_tx_index :: "nat option"
  l_event_index :: "nat option"
  l_order_complete :: bool
  l_pending_id :: "string option"
  l_data_json :: delivery_record

record delivery_application_row =
  la_stream_seq :: nat
  la_output_index :: nat
  la_application_id :: string
  la_artifact_id :: bytes
  la_actor_path :: string

record batch_row =
  cbr_accepting_block :: bytes
  cbr_accepting_daa :: nat
  cbr_first_stream_seq :: "nat option"
  cbr_last_stream_seq :: "nat option"

text \<open>The application tables and the projection queue (\<open>store_application.rs\<close>).\<close>

record envelope_row =
  ae_txid :: bytes
  ae_accepting_block :: bytes
  ae_accepting_daa :: nat
  ae_raw_envelope :: bytes
  ae_application_payload :: bytes
  ae_transaction_json :: "transaction option"
  ae_status :: string

record app_output_row =
  aw_txid :: bytes
  aw_output_index :: nat
  aw_covenant_id :: bytes
  aw_application_id :: string
  aw_artifact_id :: bytes
  aw_actor_path :: string
  aw_state_json :: string
  aw_created_block :: bytes
  aw_created_daa :: nat
  aw_spent_block :: "bytes option"

record failure_row =
  af_id :: nat
  af_txid :: bytes
  af_accepting_block :: bytes
  af_accepting_daa :: nat
  af_output_index :: "nat option"
  af_application_id :: "string option"
  af_artifact_id :: "bytes option"
  af_code :: string
  af_detail :: string
  af_repaired_stream_seq :: "nat option"

record work_row =
  pw_delivery_stream_seq :: nat
  pw_covenant_ids :: "bytes list"

record reorg_row =
  rl_daa :: nat
  rl_at_ms :: nat
  rl_rolled_back :: nat

text \<open>\<open>d_failure_seq\<close> is the \<open>AUTOINCREMENT\<close> counter of the failures, \<open>d_failure_counts\<close> the single row
  of \<open>application_decode_failure_counts\<close> (total, unrepaired).\<close>

record db =
  d_meta :: "(string \<times> string) list"
  d_covenants :: "covenant_row list"
  d_events :: "event_row list"
  d_utxos :: "utxo_row list"
  d_tokens :: "token_row list"
  d_minters :: "minter_row list"
  d_token_events :: "token_event_row list"
  d_balances :: "balance_row list"
  d_trades :: "trade_row list"
  d_markets :: "market_row list"
  d_delivery_log :: "delivery_row list"
  d_delivery_applications :: "delivery_application_row list"
  d_batches :: "batch_row list"
  d_envelopes :: "envelope_row list"
  d_app_outputs :: "app_output_row list"
  d_failures :: "failure_row list"
  d_failure_seq :: nat
  d_failure_counts :: "int \<times> int"
  d_work :: "work_row list"
  d_reorg_log :: "reorg_row list"

text \<open>A database without rows.\<close>

definition empty_db :: db where
  "empty_db = \<lparr>d_meta = [], d_covenants = [], d_events = [], d_utxos = [], d_tokens = [],
     d_minters = [], d_token_events = [], d_balances = [], d_trades = [], d_markets = [],
     d_delivery_log = [], d_delivery_applications = [], d_batches = [], d_envelopes = [],
     d_app_outputs = [], d_failures = [], d_failure_seq = 0, d_failure_counts = (0, 0),
     d_work = [], d_reorg_log = []\<rparr>"

section \<open>Queries\<close>

text \<open>\<open>SUM\<close> over an integer column: an error as soon as a partial sum leaves the \<open>i64\<close> range.\<close>

fun sql_sum :: "int \<Rightarrow> int list \<Rightarrow> string + int" where
  "sql_sum acc [] = Inr acc"
| "sql_sum acc (v # vs) =
     (if in_i64 (acc + v) then sql_sum (acc + v) vs else Inl ''integer overflow'')"

lemma sql_sum_Inr: "sql_sum acc vs = Inr s \<Longrightarrow> s = acc + sum_list vs \<and> (in_i64 acc \<longrightarrow> in_i64 s)"
  by (induction acc vs rule: sql_sum.induct) (auto split: if_splits)

text \<open>\<open>SELECT ... WHERE key = ?\<close> on a primary key.\<close>

definition row_by :: "('r \<Rightarrow> 'k) \<Rightarrow> 'k \<Rightarrow> 'r list \<Rightarrow> 'r option" where
  "row_by key k rows = find (\<lambda>r. key r = k) rows"

text \<open>\<open>INSERT OR REPLACE\<close> on a primary key: the row with that key is replaced, or the row is added.\<close>

definition upsert :: "('r \<Rightarrow> 'k) \<Rightarrow> 'r \<Rightarrow> 'r list \<Rightarrow> 'r list" where
  "upsert key r rows =
     (if key r \<in> key ` set rows then map (\<lambda>r'. if key r' = key r then r else r') rows else rows @ [r])"

lemma row_by_None: "row_by key k rows = None \<longleftrightarrow> k \<notin> key ` set rows"
  by (auto simp: row_by_def find_None_iff)

lemma row_by_Some: "row_by key k rows = Some r \<Longrightarrow> r \<in> set rows \<and> key r = k"
  by (auto simp: row_by_def find_Some_iff)

lemma row_by_upsert: "row_by key k (upsert key r rows) = (if k = key r then Some r else row_by key k rows)"
proof -
  have "row_by key k (map (\<lambda>r'. if key r' = key r then r else r') rows) =
      (if k = key r \<and> k \<in> key ` set rows then Some r else row_by key k rows)"
    unfolding row_by_def by (induction rows) auto
  moreover have "row_by key k (rows @ [r]) = (if k = key r \<and> k \<notin> key ` set rows then Some r else row_by key k rows)"
    unfolding row_by_def by (induction rows) auto
  ultimately show ?thesis by (auto simp: upsert_def)
qed

lemma keys_upsert: "key ` set (upsert key r rows) = insert (key r) (key ` set rows)"
  by (auto simp: upsert_def image_iff)

lemma distinct_upsert: "distinct (map key rows) \<Longrightarrow> distinct (map key (upsert key r rows))"
proof -
  have "map key (map (\<lambda>r'. if key r' = key r then r else r') rows) = map key rows" by simp
  then show "distinct (map key rows) \<Longrightarrow> distinct (map key (upsert key r rows))"
    unfolding upsert_def by (auto simp del: map_map)
qed

lemma upsert_idem: "upsert key r (upsert key r rows) = upsert key r rows"
proof (cases "key r \<in> key ` set rows")
  case False
  then have "map (\<lambda>r'. if key r' = key r then r else r') rows = rows" by (intro map_idI) (metis image_eqI)
  with False show ?thesis by (simp add: upsert_def)
qed (auto simp: upsert_def image_iff)

lemma upsert_id:
  "distinct (map key rows) \<Longrightarrow> row_by key (key r) rows = Some r \<Longrightarrow> upsert key r rows = rows"
  by (auto simp: upsert_def distinct_map inj_on_def intro!: map_idI dest!: row_by_Some)

definition processed_daa :: "db \<Rightarrow> nat option" where
  "processed_daa d = Option.bind (map_of (d_meta d) ''processed_daa'') parse_u64"

definition has_template_evidence :: "string \<Rightarrow> db \<Rightarrow> bytes \<Rightarrow> bool" where
  "has_template_evidence name d cid \<longleftrightarrow>
     (\<exists>u \<in> set (d_utxos d). u_covenant_id u = cid \<and>
        (u_template u = Some name \<or> u_revealed_template u = Some name))"

definition has_token_evidence :: "db \<Rightarrow> bytes \<Rightarrow> bool" where
  "has_token_evidence d cid = has_template_evidence ''KCC20 token'' d cid"

definition has_minter_evidence :: "db \<Rightarrow> bytes \<Rightarrow> bool" where
  "has_minter_evidence d cid = has_template_evidence ''KCC20 minter'' d cid"

definition pinned_by_minter :: "db \<Rightarrow> bytes \<Rightarrow> bool" where
  "pinned_by_minter d cid \<longleftrightarrow> (\<exists>m \<in> set (d_minters d). m_token_id m = cid)"

definition is_token :: "db \<Rightarrow> bytes \<Rightarrow> bool" where
  "is_token d cid \<longleftrightarrow> (\<exists>t \<in> set (d_tokens d). t_token_id t = cid)"

definition is_minter :: "db \<Rightarrow> bytes \<Rightarrow> bool" where
  "is_minter d cid \<longleftrightarrow> (\<exists>m \<in> set (d_minters d). m_minter_covenant_id m = cid)"

text \<open>The deletes that open every rewrite of a token's derived rows.\<close>

definition clear_token_facts :: "bytes \<Rightarrow> db \<Rightarrow> db" where
  "clear_token_facts cid d =
     d\<lparr>d_token_events := filter (\<lambda>r. te_token_id r \<noteq> cid) (d_token_events d),
       d_balances := filter (\<lambda>r. b_token_id r \<noteq> cid) (d_balances d),
       d_trades := filter (\<lambda>r. tr_token_id r \<noteq> cid) (d_trades d)\<rparr>"

definition delete_token_rows :: "bytes \<Rightarrow> db \<Rightarrow> db" where
  "delete_token_rows cid d =
     (clear_token_facts cid d)\<lparr>d_tokens := filter (\<lambda>r. t_token_id r \<noteq> cid) (d_tokens d)\<rparr>"

lemma upsert_fixed_iff:
  "upsert key r rows = rows \<longleftrightarrow> key r \<in> key ` set rows \<and> (\<forall>r' \<in> set rows. key r' = key r \<longrightarrow> r' = r)"
proof
  assume u: "upsert key r rows = rows"
  then have k: "key r \<in> key ` set rows" by (auto simp: upsert_def split: if_splits)
  then have m: "map (\<lambda>r'. if key r' = key r then r else r') rows = rows" using u by (simp add: upsert_def)
  have "r' = r" if "r' \<in> set rows" "key r' = key r" for r'
    using m that by (auto simp: map_idI map_eq_conv [of _ rows "\<lambda>x. x", simplified])
  with k show "key r \<in> key ` set rows \<and> (\<forall>r' \<in> set rows. key r' = key r \<longrightarrow> r' = r)" by blast
qed (auto simp: upsert_def intro!: map_idI)

lemma upsert_keeps_fixed:
  assumes "upsert key r rows = rows" and "key r' \<noteq> key r"
  shows "upsert key r (upsert key r' rows) = upsert key r' rows"
  using assms(1) assms(2) unfolding upsert_fixed_iff keys_upsert by (auto simp: upsert_def split: if_splits)

end
