(* ===== verification/Tokens_Proof.thy ===== *)
theory Tokens_Proof
  imports Database
begin

text \<open>
  \<open>crates/kascov-core/src/tokens.rs\<close>, the proof passes: loading a token's state cells, proving
  them directly (bare scripts and spend-time reveals) and recovering the others from the witness
  arguments of the transactions that created them. The registry that \<open>registry()\<close> builds once is
  the parameter \<open>reg\<close>.
\<close>

section \<open>Cells\<close>

record cell =
  ce_txid :: bytes
  ce_index :: nat
  ce_spk_version :: "16 word"
  ce_spk_script :: bytes
  ce_spent_txid :: "bytes option"
  ce_spent_sig :: "bytes option"
  ce_proven :: "(token_state \<times> bytes) option"
  ce_unproven :: "string option"

definition live :: "cell \<Rightarrow> bool" where
  "live c \<longleftrightarrow> ce_spent_txid c = None"

definition outpoint_str :: "externals \<Rightarrow> bytes \<Rightarrow> nat \<Rightarrow> string" where
  "outpoint_str X txid index = hex_encode X txid @ '':'' @ show_nat index"

definition cell_of_row :: "utxo_row \<Rightarrow> cell" where
  "cell_of_row u =
     \<lparr>ce_txid = u_txid u, ce_index = u_output_index u, ce_spk_version = u_spk_version u,
      ce_spk_script = u_spk_script u, ce_spent_txid = u_spent_txid u, ce_spent_sig = u_spent_sig u,
      ce_proven = None, ce_unproven = None\<rparr>"

definition load_cells :: "db \<Rightarrow> bytes \<Rightarrow> cell list" where
  "load_cells d token_id =
     map cell_of_row
       (sort_key (\<lambda>u. (u_created_daa u, u_txid u, u_output_index u))
         (filter (\<lambda>u. u_covenant_id u = token_id) (d_utxos d)))"

section \<open>Direct proofs\<close>

definition prove_direct_cell :: "externals \<Rightarrow> state_decoder list \<Rightarrow> cell \<Rightarrow> cell" where
  "prove_direct_cell X reg c =
     (case decode_token_state reg (ce_spk_version c) (ce_spk_script c) of
        Some st \<Rightarrow> c\<lparr>ce_proven := Some (st, ce_spk_script c)\<rparr>
      | None \<Rightarrow>
          (case (ce_spent_txid c, ce_spent_sig c) of
             (Some _, Some sig) \<Rightarrow>
               (case p2sh_reveal X (ce_spk_script c) sig of
                  Some program \<Rightarrow>
                    (case decode_token_state reg (ce_spk_version c) program of
                       Some st \<Rightarrow> c\<lparr>ce_proven := Some (st, program)\<rparr>
                     | None \<Rightarrow>
                         c\<lparr>ce_unproven := Some (''reveal of '' @ outpoint_str X (ce_txid c) (ce_index c) @
                           '' is not a recognized KCC20 build'')\<rparr>)
                | None \<Rightarrow>
                    c\<lparr>ce_unproven := Some (''spend of '' @ outpoint_str X (ce_txid c) (ce_index c) @
                      '' does not reveal its committed program'')\<rparr>)
           | (Some _, None) \<Rightarrow>
               c\<lparr>ce_unproven := Some (''reveal missing for spent output '' @
                 outpoint_str X (ce_txid c) (ce_index c))\<rparr>
           | (None, _) \<Rightarrow> c))"

definition prove_direct :: "externals \<Rightarrow> state_decoder list \<Rightarrow> cell list \<Rightarrow> cell list" where
  "prove_direct X reg cells = map (prove_direct_cell X reg) cells"

section \<open>Witness recovery\<close>

definition TYPE_MINTER_DOMAIN :: "(u8 \<times> u8) list" where
  "TYPE_MINTER_DOMAIN =
     [(0x00, 0x00), (0x00, 0x01), (0x01, 0x00), (0x01, 0x01),
      (0x02, 0x00), (0x02, 0x01), (0x03, 0x00), (0x03, 0x01)]"

definition FIELD_CANDIDATE_CAP :: nat where "FIELD_CANDIDATE_CAP = 64"

text \<open>The value an instruction pushes, as \<open>arg_pushes\<close> reads it.\<close>

definition arg_value :: "instruction \<Rightarrow> bytes option" where
  "arg_value inst =
     (case i_data inst of
        Some d \<Rightarrow> Some d
      | None \<Rightarrow>
          (if i_opcode inst = 0x00 then Some []
           else if 0x51 \<le> i_opcode inst \<and> i_opcode inst \<le> 0x60 then Some [i_opcode inst - 0x50]
           else None))"

definition arg_pushes :: "bytes \<Rightarrow> bytes list" where
  "arg_pushes sig = List.map_filter arg_value (fst (disassemble sig))"

text \<open>\<open>BTreeMap<txid, Vec<usize>>\<close>: positions of the cells by creating or spending transaction.\<close>

definition index_by :: "(cell \<Rightarrow> bytes option) \<Rightarrow> cell list \<Rightarrow> (bytes \<times> nat list) list" where
  "index_by key cells =
     fold (\<lambda>(i, c) m.
         case key c of
           None \<Rightarrow> m
         | Some k \<Rightarrow> bt_update k (\<lambda>prev. (case prev of None \<Rightarrow> [] | Some l \<Rightarrow> l) @ [i]) m)
       (enumerate 0 cells) []"

definition outs_of :: "cell list \<Rightarrow> (bytes \<times> nat list) list" where
  "outs_of = index_by (\<lambda>c. Some (ce_txid c))"

definition ins_of :: "cell list \<Rightarrow> (bytes \<times> nat list) list" where
  "ins_of = index_by ce_spent_txid"

text \<open>Candidate owners and amounts that the pushes of one signature script offer output \<open>k\<close> of
  the \<open>n\<close> token outputs: a slot of an array push, or a push of its own.\<close>

definition owner_cands :: "bytes list \<Rightarrow> nat \<Rightarrow> nat \<Rightarrow> bytes list" where
  "owner_cands pushes n k =
     bs_of_list
       (map (\<lambda>ow. slice ow (k * 32) ((k + 1) * 32)) (filter (\<lambda>p. length p = n * 32) pushes) @
        take FIELD_CANDIDATE_CAP (filter (\<lambda>p. length p = 32) pushes))"

definition amount_cands :: "bytes list \<Rightarrow> nat \<Rightarrow> nat \<Rightarrow> bytes list" where
  "amount_cands pushes n k =
     bs_of_list
       (map (\<lambda>am. slice am (k * 8) ((k + 1) * 8)) (filter (\<lambda>p. length p = n * 8) pushes) @
        map (\<lambda>am. am @ replicate (8 - length am) 0)
          (take FIELD_CANDIDATE_CAP (filter (\<lambda>p. length p \<le> 8) pushes)))"

text \<open>The loop nest labelled \<open>'cell\<close>: the first candidate whose splice hashes to the commitment.\<close>

definition recover_state ::
  "externals \<Rightarrow> bytes \<Rightarrow> bytes list \<Rightarrow> bytes list \<Rightarrow> bytes list \<Rightarrow> (token_state \<times> bytes) option" where
  "recover_state X spk bases owners amounts =
     find_map (\<lambda>base. find_map (\<lambda>owner. find_map (\<lambda>amount. find_map (\<lambda>(id_type, minter).
       case prove_output_state X base spk owner id_type amount minter of
         None \<Rightarrow> None
       | Some st \<Rightarrow>
           map_option (Pair st) (splice_token_state base owner id_type amount minter))
       TYPE_MINTER_DOMAIN) amounts) owners) bases"

text \<open>One output \<open>(k, i)\<close> against the pushes of one script; \<open>changed\<close> is the flag of the loop. The
  positions come from \<open>index_by\<close>, so they are never out of range (where the code would panic).\<close>

definition recover_output ::
  "externals \<Rightarrow> bytes list \<Rightarrow> bytes list \<Rightarrow> nat \<Rightarrow> nat \<times> nat \<Rightarrow> cell list \<times> bool \<Rightarrow> cell list \<times> bool" where
  "recover_output X bases pushes n ki s =
     (let (k, i) = ki; (cells, changed) = s; c = cells ! i in
      if length cells \<le> i \<or> ce_proven c \<noteq> None then s
      else (case recover_state X (ce_spk_script c) bases (owner_cands pushes n k) (amount_cands pushes n k) of
              None \<Rightarrow> s
            | Some found \<Rightarrow>
                (cells[i := c\<lparr>ce_proven := Some found, ce_unproven := None\<rparr>], True)))"

definition splice_bases :: "cell list \<Rightarrow> nat list \<Rightarrow> bytes list" where
  "splice_bases cells idx =
     bs_of_list (filter has_state_block
       (List.map_filter (\<lambda>i. map_option snd (ce_proven (cells ! i))) idx))"

text \<open>The query \<open>foreign_sigs\<close>: scripts of co-spent inputs of other covenants.\<close>

definition foreign_sigs :: "db \<Rightarrow> bytes \<Rightarrow> bytes \<Rightarrow> bytes list" where
  "foreign_sigs d txid token_id =
     List.map_filter u_spent_sig
       (filter (\<lambda>u. u_spent_txid u = Some txid \<and> u_covenant_id u \<noteq> token_id) (d_utxos d))"

definition recover_tx ::
  "externals \<Rightarrow> db \<Rightarrow> bytes \<Rightarrow> (bytes \<times> nat list) list \<Rightarrow> bytes \<times> nat list
    \<Rightarrow> cell list \<times> bool \<Rightarrow> cell list \<times> bool" where
  "recover_tx X d token_id ins_map entry s =
     (let (txid, outs) = entry; cells = fst s in
      if \<forall>i \<in> set outs. ce_proven (cells ! i) \<noteq> None then s
      else
        let ins = (case bt_get ins_map txid of None \<Rightarrow> [] | Some l \<Rightarrow> l);
            n = length outs;
            bases = splice_bases cells (ins @ outs)
        in
        if bases = [] then s
        else
          let sigs = List.map_filter (\<lambda>i. ce_spent_sig (cells ! i)) ins @ foreign_sigs d txid token_id
          in fold (\<lambda>sig s. fold (recover_output X bases (arg_pushes sig) n) (enumerate 0 outs) s) sigs s)"

definition recover_pass ::
  "externals \<Rightarrow> db \<Rightarrow> bytes \<Rightarrow> (bytes \<times> nat list) list \<Rightarrow> (bytes \<times> nat list) list
    \<Rightarrow> cell list \<Rightarrow> cell list \<times> bool" where
  "recover_pass X d token_id outs_map ins_map cells =
     fold (recover_tx X d token_id ins_map) outs_map (cells, False)"

section \<open>What one recovery step may do\<close>

text \<open>
  \<open>recovered_from X c c'\<close>: either the cell is untouched, or it was unproven and is now proven by a
  program whose digest is the one its output commits to and whose block reads as the stored state.
\<close>

definition hash_proven :: "externals \<Rightarrow> bytes \<Rightarrow> token_state \<times> bytes \<Rightarrow> bool" where
  "hash_proven X spk found \<longleftrightarrow>
     p2sh_hash spk = Some (blake2b X (snd found)) \<and> decode_state_block (snd found) = Some (fst found)"

definition recovered_from :: "externals \<Rightarrow> cell \<Rightarrow> cell \<Rightarrow> bool" where
  "recovered_from X c c' \<longleftrightarrow>
     c' = c \<or> (ce_proven c = None \<and>
       (\<exists>found. c' = c\<lparr>ce_proven := Some found, ce_unproven := None\<rparr> \<and> hash_proven X (ce_spk_script c) found))"

definition unproven :: "cell list \<Rightarrow> nat" where
  "unproven cells = length (filter (\<lambda>c. ce_proven c = None) cells)"

definition step_ok :: "externals \<Rightarrow> cell list \<times> bool \<Rightarrow> cell list \<times> bool \<Rightarrow> bool" where
  "step_ok X s s' \<longleftrightarrow>
     list_all2 (recovered_from X) (fst s) (fst s') \<and>
     (snd s' \<longleftrightarrow> snd s \<or> unproven (fst s') < unproven (fst s))"

lemma recovered_from_refl [simp]: "recovered_from X c c"
  by (simp add: recovered_from_def)

lemma recovered_from_trans: "recovered_from X a b \<Longrightarrow> recovered_from X b c \<Longrightarrow> recovered_from X a c"
  by (auto simp: recovered_from_def)

lemma recovered_list_trans:
  "list_all2 (recovered_from X) as bs \<Longrightarrow> list_all2 (recovered_from X) bs cs \<Longrightarrow>
   list_all2 (recovered_from X) as cs"
  by (rule list_all2_trans [of "recovered_from X" "recovered_from X"]) (rule recovered_from_trans)

lemma recovered_unproven: "list_all2 (recovered_from X) cs cs' \<Longrightarrow> unproven cs' \<le> unproven cs"
  by (induction rule: list_all2_induct) (auto simp: unproven_def recovered_from_def)

lemma step_ok_refl [simp]: "step_ok X s s"
  by (auto simp: step_ok_def intro: list_all2_refl)

lemma step_ok_trans:
  assumes "step_ok X a b" and "step_ok X b c"
  shows "step_ok X a c"
proof -
  have l: "list_all2 (recovered_from X) (fst a) (fst b)" "list_all2 (recovered_from X) (fst b) (fst c)"
    using assms by (simp_all add: step_ok_def)
  show ?thesis
    using assms recovered_list_trans [OF l] recovered_unproven [OF l(1)] recovered_unproven [OF l(2)]
    unfolding step_ok_def by linarith
qed

lemma step_ok_fold: "(\<And>x s. x \<in> set xs \<Longrightarrow> step_ok X s (f x s)) \<Longrightarrow> step_ok X s (fold f xs s)"
proof (induction xs arbitrary: s)
  case (Cons x xs)
  have "step_ok X s (f x s)" "step_ok X (f x s) (fold f xs (f x s))" using Cons by auto
  then show ?case by (auto intro: step_ok_trans)
qed simp

lemma cand_lengths:
  assumes "k < n"
  shows "owner \<in> set (owner_cands pushes n k) \<Longrightarrow> length owner = 32"
    and "amount \<in> set (amount_cands pushes n k) \<Longrightarrow> length amount = 8"
proof -
  have "k * 32 + 32 \<le> n * 32" "k * 8 + 8 \<le> n * 8" using assms by simp_all
  then show "owner \<in> set (owner_cands pushes n k) \<Longrightarrow> length owner = 32"
    and "amount \<in> set (amount_cands pushes n k) \<Longrightarrow> length amount = 8"
    by (auto simp: owner_cands_def amount_cands_def dest!: in_set_takeD)
qed

lemma recover_state_sound:
  assumes "recover_state X spk bases owners amounts = Some found"
    and "\<And>owner. owner \<in> set owners \<Longrightarrow> length owner = 32"
    and "\<And>amount. amount \<in> set amounts \<Longrightarrow> length amount = 8"
  shows "hash_proven X spk found"
proof -
  from assms(1) obtain base owner amount t m st where
    c: "owner \<in> set owners" "amount \<in> set amounts"
    and p: "prove_output_state X base spk owner t amount m = Some st"
    and s: "splice_token_state base owner t amount m = Some (snd found)" and st: "fst found = st"
    unfolding recover_state_def
    by (auto dest!: find_map_Some split: option.splits prod.splits)
  from p s have "p2sh_hash spk = Some (blake2b X (snd found))"
    and "st = \<lparr>ts_owner = owner, ts_identifier_type = t, ts_amount_raw = amount, ts_minter_raw = [m]\<rparr>"
    by (auto simp: prove_output_state_def blake2b_256_def split: option.splits if_splits)
  with decode_splice [OF s] assms(2,3) c st show ?thesis by (simp add: hash_proven_def)
qed

lemma unproven_update:
  "i < length cells \<Longrightarrow> ce_proven (cells ! i) = None \<Longrightarrow> ce_proven c \<noteq> None \<Longrightarrow>
   unproven (cells[i := c]) < unproven cells"
proof (induction cells arbitrary: i)
  case (Cons x cells)
  then show ?case by (cases i) (auto simp: unproven_def)
qed simp

lemma step_ok_output:
  assumes "k < n"
  shows "step_ok X s (recover_output X bases pushes n (k, i) s)"
proof -
  obtain cells changed where s: "s = (cells, changed)" by (cases s)
  show ?thesis
  proof (cases "length cells \<le> i \<or> ce_proven (cells ! i) \<noteq> None \<or>
      recover_state X (ce_spk_script (cells ! i)) bases (owner_cands pushes n k) (amount_cands pushes n k) = None")
    case True
    then show ?thesis by (auto simp: s recover_output_def Let_def)
  next
    case False
    then have i: "i < length cells" "ce_proven (cells ! i) = None"
      by (simp, cases "ce_proven (cells ! i)") auto
    from False obtain found where
      f: "recover_state X (ce_spk_script (cells ! i)) bases (owner_cands pushes n k) (amount_cands pushes n k)
        = Some found" by blast
    have "hash_proven X (ce_spk_script (cells ! i)) found"
      by (rule recover_state_sound [OF f]) (use cand_lengths [OF assms] in blast)+
    then have "recovered_from X (cells ! i) ((cells ! i)\<lparr>ce_proven := Some found, ce_unproven := None\<rparr>)"
      using i(2) unfolding recovered_from_def by blast
    then have "list_all2 (recovered_from X) cells
        (cells[i := (cells ! i)\<lparr>ce_proven := Some found, ce_unproven := None\<rparr>])"
      using i(1) by (auto simp: list_all2_conv_all_nth nth_list_update)
    with i f unproven_update [OF i, of "(cells ! i)\<lparr>ce_proven := Some found, ce_unproven := None\<rparr>"] show ?thesis
      by (auto simp: s recover_output_def Let_def step_ok_def)
  qed
qed

lemma step_ok_tx: "step_ok X s (recover_tx X d token_id ins_map entry s)"
proof -
  obtain txid outs where e: "entry = (txid, outs)" by (cases entry)
  have "step_ok X s (recover_output X bases pushes (length outs) ki s)"
    if "ki \<in> set (enumerate 0 outs)" for ki s bases pushes
  proof -
    obtain k i where "ki = (k, i)" by (cases ki)
    with that have "ki = (k, i)" "k < length outs" by (auto simp: in_set_enumerate_eq)
    then show ?thesis using step_ok_output by simp
  qed
  then have "step_ok X s (fold (\<lambda>sig. fold (recover_output X bases (arg_pushes sig) (length outs)) (enumerate 0 outs)) sigs s)"
    for bases sigs
    by (intro step_ok_fold)
  then show ?thesis by (simp add: e recover_tx_def Let_def del: fold_append)
qed

lemma step_ok_pass: "step_ok X (cells, False) (recover_pass X d token_id outs_map ins_map cells)"
  unfolding recover_pass_def by (intro step_ok_fold step_ok_tx)

section \<open>The fixpoint\<close>

function recover_loop ::
  "externals \<Rightarrow> db \<Rightarrow> bytes \<Rightarrow> (bytes \<times> nat list) list \<Rightarrow> (bytes \<times> nat list) list
    \<Rightarrow> cell list \<Rightarrow> cell list" where
  "recover_loop X d token_id outs_map ins_map cells =
     (let (cells', changed) = recover_pass X d token_id outs_map ins_map cells in
      if changed then recover_loop X d token_id outs_map ins_map cells' else cells')"
  by pat_completeness auto
termination
proof (relation "measure (\<lambda>(X, d, token_id, outs_map, ins_map, cells). unproven cells)", goal_cases)
  case (2 X d token_id outs_map ins_map cells p cells' changed)
  then have "recover_pass X d token_id outs_map ins_map cells = (cells', True)" by simp
  with step_ok_pass [of X cells d token_id outs_map ins_map] show ?case by (simp add: step_ok_def)
qed simp

declare recover_loop.simps [simp del]

definition prove_recovered :: "externals \<Rightarrow> db \<Rightarrow> bytes \<Rightarrow> cell list \<Rightarrow> cell list" where
  "prove_recovered X d token_id cells =
     recover_loop X d token_id (outs_of cells) (ins_of cells) cells"

definition proven_cells :: "externals \<Rightarrow> state_decoder list \<Rightarrow> db \<Rightarrow> bytes \<Rightarrow> cell list" where
  "proven_cells X reg d token_id = prove_recovered X d token_id (prove_direct X reg (load_cells d token_id))"

lemma recover_loop_recovers: "list_all2 (recovered_from X) cells (recover_loop X d token_id om im cells)"
proof (induction X d token_id om im cells rule: recover_loop.induct)
  case (1 X d token_id om im cells)
  obtain cells' changed where p: "recover_pass X d token_id om im cells = (cells', changed)" by fastforce
  have s: "list_all2 (recovered_from X) cells cells'"
    using step_ok_pass [of X cells d token_id om im] by (simp add: p step_ok_def)
  show ?case
  proof (cases changed)
    case True
    with 1 p have "list_all2 (recovered_from X) cells' (recover_loop X d token_id om im cells')" by simp
    with recovered_list_trans [OF s this] show ?thesis
      using p True by (subst recover_loop.simps) simp
  next
    case False
    with s p show ?thesis by (subst recover_loop.simps) simp
  qed
qed

lemma recovered_same_count:
  "list_all2 (recovered_from X) cs cs' \<Longrightarrow> unproven cs' = unproven cs \<Longrightarrow> cs' = cs"
proof (induction rule: list_all2_induct)
  case (Cons c cs c' cs')
  note m = recovered_unproven [OF Cons.hyps(2)]
  from Cons.hyps(1) show ?case
  proof (unfold recovered_from_def, elim disjE)
    assume "c' = c"
    with Cons.prems Cons.IH show ?case by (auto simp: unproven_def split: if_splits)
  next
    assume "ce_proven c = None \<and> (\<exists>found. c' = c\<lparr>ce_proven := Some found, ce_unproven := None\<rparr> \<and>
      hash_proven X (ce_spk_script c) found)"
    then have "unproven (c' # cs') < unproven (c # cs)" using m by (auto simp: unproven_def)
    with Cons.prems show ?case by simp
  qed
qed simp

lemma step_ok_unchanged: "step_ok X s s' \<Longrightarrow> \<not> snd s' \<Longrightarrow> s' = s"
  using recovered_same_count [of X "fst s" "fst s'"] recovered_unproven [of X "fst s" "fst s'"]
  by (auto simp: step_ok_def prod_eq_iff)

lemma step_ok_fold_unchanged:
  "(\<And>x s. x \<in> set xs \<Longrightarrow> step_ok X s (f x s)) \<Longrightarrow> \<not> snd (fold f xs s) \<Longrightarrow> x \<in> set xs \<Longrightarrow> f x s = s"
proof (induction xs arbitrary: s)
  case (Cons y ys)
  have a: "step_ok X s (f y s)" and b: "step_ok X (f y s) (fold f ys (f y s))"
    using Cons.prems(1) by (auto intro!: step_ok_fold)
  have "\<not> snd (f y s)" using b Cons.prems(2) by (auto simp: step_ok_def)
  then have eq: "f y s = s" using step_ok_unchanged [OF a] by simp
  show ?case
  proof (cases "x = y")
    case False
    then show ?thesis using Cons.IH [of s] Cons.prems eq by simp
  qed (use eq in simp)
qed simp

lemma recover_loop_fixpoint:
  "recover_pass X d token_id om im (recover_loop X d token_id om im cells) =
     (recover_loop X d token_id om im cells, False)"
proof (induction X d token_id om im cells rule: recover_loop.induct)
  case (1 X d token_id om im cells)
  obtain cells' changed where p: "recover_pass X d token_id om im cells = (cells', changed)" by fastforce
  show ?case
  proof (cases changed)
    case True
    with 1 p show ?thesis by (subst (1 2) recover_loop.simps) simp
  next
    case False
    have "step_ok X (cells, False) (cells', changed)"
      using step_ok_pass [of X cells d token_id om im] by (simp add: p)
    from step_ok_unchanged [OF this] False p show ?thesis
      by (subst (1 2) recover_loop.simps) simp
  qed
qed

section \<open>What the proof passes guarantee\<close>

text \<open>The facts of the chain a cell carries: everything but the two proof fields.\<close>

definition chain_facts :: "cell \<Rightarrow> cell" where
  "chain_facts c = c\<lparr>ce_proven := None, ce_unproven := None\<rparr>"

lemma recovered_facts: "recovered_from X c c' \<Longrightarrow> chain_facts c' = chain_facts c"
  by (auto simp: recovered_from_def chain_facts_def)

lemma direct_facts: "chain_facts (prove_direct_cell X reg c) = chain_facts c"
  by (auto simp: prove_direct_cell_def chain_facts_def split: option.splits)

lemma load_facts: "map chain_facts (load_cells d token_id) = load_cells d token_id"
  by (simp add: load_cells_def cell_of_row_def chain_facts_def)

lemma proven_cells_recovered:
  "list_all2 (\<lambda>c c'. recovered_from X (prove_direct_cell X reg c) c') (load_cells d token_id)
     (proven_cells X reg d token_id)"
  using recover_loop_recovers [of X "prove_direct X reg (load_cells d token_id)"]
  by (simp add: proven_cells_def prove_recovered_def prove_direct_def list_all2_map1)

lemma proven_cells_facts: "map chain_facts (proven_cells X reg d token_id) = load_cells d token_id"
proof -
  have "map chain_facts (proven_cells X reg d token_id) = map chain_facts (load_cells d token_id)"
    using proven_cells_recovered [of X reg d token_id]
    by (auto simp: list_all2_conv_all_nth direct_facts intro!: nth_equalityI dest!: recovered_facts)
  then show ?thesis by (simp add: load_facts)
qed

definition justified :: "externals \<Rightarrow> state_decoder list \<Rightarrow> cell \<Rightarrow> token_state \<Rightarrow> bytes \<Rightarrow> bool" where
  "justified X reg c st program \<longleftrightarrow>
     (program = ce_spk_script c \<and> decode_token_state reg (ce_spk_version c) program = Some st) \<or>
     (p2sh_hash (ce_spk_script c) = Some (blake2b X program) \<and>
        (decode_token_state reg (ce_spk_version c) program = Some st \<or> decode_state_block program = Some st))"

lemma reveal_hash: "p2sh_reveal X spk sig = Some program \<Longrightarrow> p2sh_hash spk = Some (blake2b X program)"
  by (auto simp: p2sh_reveal_def Let_def split: option.splits prod.splits if_splits)

lemma direct_justified:
  assumes "ce_proven c = None" and "ce_proven (prove_direct_cell X reg c) = Some (st, program)"
  shows "justified X reg (prove_direct_cell X reg c) st program"
  using assms
  by (auto simp: prove_direct_cell_def justified_def split: option.splits dest: reveal_hash)

text \<open>C24. Everything the two proof passes accept is proof-grade: a proven cell is backed either by
  its own bare state script, or by a program whose digest is the one its output commits to and
  that reads as the recorded state. The cells are the stored ones, in load order, with their chain
  facts unchanged.\<close>

theorem proven_cells_sound:
  assumes "c \<in> set (proven_cells X reg d token_id)" and "ce_proven c = Some (st, program)"
  shows "justified X reg c st program \<and>
    map chain_facts (proven_cells X reg d token_id) = load_cells d token_id"
proof -
  from assms(1) obtain c0 where l: "c0 \<in> set (load_cells d token_id)"
    and r: "recovered_from X (prove_direct_cell X reg c0) c"
    using proven_cells_recovered [of X reg d token_id]
    by (metis (no_types, lifting) in_set_conv_nth list_all2_conv_all_nth)
  have n: "ce_proven c0 = None" using l by (auto simp: load_cells_def cell_of_row_def)
  show ?thesis
    using r assms(2) direct_justified [OF n] proven_cells_facts
    by (auto simp: recovered_from_def justified_def hash_proven_def)
qed

definition demo_cell :: utxo_row where
  "demo_cell = \<lparr>u_txid = [1], u_output_index = 0, u_covenant_id = [9], u_value = 1000, u_spk_version = 0,
     u_spk_script = demo_program, u_created_block = [3], u_created_daa = 5, u_spent_block = None,
     u_spent_txid = None, u_spent_sig = None, u_spent_budget = None, u_spent_input_index = None,
     u_template = None, u_revealed_template = None, u_kcc1_template_hash = None\<rparr>"

definition demo_db :: db where
  "demo_db = empty_db\<lparr>d_utxos := [demo_cell]\<rparr>"

lemma proven_cells_sound_witness:
  "\<exists>c st. justified demo_externals [] c st demo_program \<and> ts_amount_raw st = i64_le 500"
proof -
  let ?st = "\<lparr>ts_owner = replicate 32 7, ts_identifier_type = 2, ts_amount_raw = i64_le 500, ts_minter_raw = [0]\<rparr>"
  let ?c = "(cell_of_row demo_cell)\<lparr>ce_proven := Some (?st, demo_program)\<rparr>"
  have "decode_token_state [] 0 demo_program = Some ?st" by code_simp
  then have "prove_direct demo_externals [] (load_cells demo_db [9]) = [?c]"
    by (simp add: prove_direct_def load_cells_def demo_db_def empty_db_def prove_direct_cell_def cell_of_row_def
        demo_cell_def)
  then have "recover_loop demo_externals demo_db [9] om im
      (prove_direct demo_externals [] (load_cells demo_db [9])) = [?c]" for om im
    using recover_loop_recovers [of demo_externals "[?c]" demo_db "[9]" om im]
    by (auto simp: list_all2_Cons1 recovered_from_def)
  then have "proven_cells demo_externals [] demo_db [9] = [?c]"
    by (simp add: proven_cells_def prove_recovered_def)
  then have "justified demo_externals [] ?c ?st demo_program"
    using proven_cells_sound [of ?c demo_externals "[]" demo_db "[9]" ?st demo_program] by simp
  then show ?thesis by (intro exI [of _ ?c] exI [of _ ?st]) simp
qed

end
