(* ===== verification/Market_Match.thy ===== *)
theory Market_Match
  imports Tokens_Proof "HOL-Library.Option_ord"
begin

text \<open>
  \<open>crates/kascov-core/src/market.rs\<close>, recognition: the push units of a program, the pinned curve
  builds and their slots, the lockstep comparison with a fixture, the order and pool matchers, and
  the fee and phase tables. Fixture programs are files the build embeds, read through \<open>fixture\<close>.
\<close>

section \<open>Push units\<close>

text \<open>A push unit is the byte range of a push, length prefix included, and the value it pushes.\<close>

type_synonym push_unit = "(nat \<times> nat) \<times> bytes"

text \<open>The arms of the match that have a payload: where it starts and its declared length.\<close>

definition payload_at :: "bytes \<Rightarrow> nat \<Rightarrow> (nat \<times> nat) option" where
  "payload_at program i =
     (let n = length program; op = program ! i in
      if 0x01 \<le> op \<and> op \<le> 0x4b then Some (i + 1, unat op)
      else if op = 0x4c \<and> i + 1 < n then Some (i + 2, unat (program ! (i + 1)))
      else if op = 0x4d \<and> i + 2 < n then
        Some (i + 3, le_nat [program ! (i + 1), program ! (i + 2)])
      else if op = 0x4e \<and> i + 4 < n then
        Some (i + 5, le_nat [program ! (i + 1), program ! (i + 2), program ! (i + 3), program ! (i + 4)])
      else None)"

lemma payload_at_advances: "payload_at program i = Some (s, len) \<Longrightarrow> i < s"
  by (auto simp: payload_at_def Let_def split: if_splits)

function push_units_at :: "bytes \<Rightarrow> nat \<Rightarrow> push_unit list" where
  "push_units_at program i =
     (if i < length program then
        let op = program ! i in
        (case payload_at program i of
           Some (data_start, len) \<Rightarrow>
             if data_start + len > length program then []
             else ((i, data_start + len), slice program data_start (data_start + len)) #
               push_units_at program (data_start + len)
         | None \<Rightarrow>
             if op = 0x00 then ((i, i + 1), []) # push_units_at program (i + 1)
             else if 0x51 \<le> op \<and> op \<le> 0x60 then ((i, i + 1), [op - 0x50]) # push_units_at program (i + 1)
             else push_units_at program (i + 1))
      else [])"
  by pat_completeness auto
termination
  by (relation "measure (\<lambda>(program, i). length program - i)")
    (auto dest!: payload_at_advances)

declare push_units_at.simps [simp del]

definition push_units :: "bytes \<Rightarrow> push_unit list" where
  "push_units program = push_units_at program 0"

definition le_i64 :: "bytes \<Rightarrow> int option" where
  "le_i64 bs =
     (if bs = [] \<or> length bs > 8 then None
      else let v = i64_of_le (bs @ replicate (8 - length bs) 0) in
        if 0 \<le> v then Some v else None)"

section \<open>Pinned curve builds\<close>

definition CURVE_PUSHES :: nat where "CURVE_PUSHES = 2206"

definition SLOT_INDICES :: "nat list" where
  "SLOT_INDICES =
     [1, 2, 19, 81, 141, 143, 185, 187, 311, 313, 326, 328, 391, 457, 459, 579, 582, 595, 597, 665,
      724, 857, 859, 877, 878, 893, 1006, 1015, 1190, 1192, 1237, 1239, 2084, 2087, 2101, 2103, 2167]"

definition IDX_TOKEN_COVENANT :: nat where "IDX_TOKEN_COVENANT = 1"
definition IDX_TOKEN_RESERVE :: nat where "IDX_TOKEN_RESERVE = 2"
definition IDX_CREATOR :: "nat list" where "IDX_CREATOR = [19, 81]"

definition IDX_VKAS :: "nat list" where
  "IDX_VKAS = [185, 187, 311, 313, 457, 459, 579, 582, 1237, 1239, 2084, 2087]"

definition IDX_GRADUATION :: nat where "IDX_GRADUATION = 724"

definition CURVE2_PUSHES :: nat where "CURVE2_PUSHES = 2645"

definition CURVE2_SLOTS :: "nat list" where
  "CURVE2_SLOTS =
     [1, 2, 25, 88, 148, 150, 192, 194, 320, 322, 335, 337, 400, 466, 468, 590, 593, 606, 608, 676,
      735, 870, 872, 890, 891, 906, 1033, 1035, 1899, 1902, 1916, 1918, 2603]"

definition IDX2_TOKEN_COVENANT :: nat where "IDX2_TOKEN_COVENANT = 1"
definition IDX2_TOKEN_RESERVE :: nat where "IDX2_TOKEN_RESERVE = 2"
definition IDX2_CREATOR :: "nat list" where "IDX2_CREATOR = [25, 88, 400, 676, 2603]"

definition IDX2_VKAS :: "nat list" where
  "IDX2_VKAS = [192, 194, 320, 322, 466, 468, 590, 593, 1033, 1035, 1899, 1902]"

definition IDX2_GRADUATION :: nat where "IDX2_GRADUATION = 735"

definition IDX2_SELF_LEN :: "nat list" where
  "IDX2_SELF_LEN = [148, 150, 335, 337, 606, 608, 870, 872, 1916, 1918]"

definition IDX2_POOL_TPL :: "nat list" where "IDX2_POOL_TPL = [890, 906]"

definition KCM_CURVE_PUSHES :: nat where "KCM_CURVE_PUSHES = 1172"

definition KCM_CURVE_SLOTS :: "nat list" where
  "KCM_CURVE_SLOTS =
     [1, 2, 3, 10, 138, 140, 142, 144, 146, 148, 150, 151, 152, 167, 169, 349, 351, 356, 359, 362,
      473, 475, 477, 479, 481, 483, 485, 486, 487, 502, 504, 680, 683, 687, 690, 693, 814, 816, 818,
      820, 822, 824, 826, 827, 828, 831, 832, 833, 897, 900, 911, 917, 922, 954, 956, 958, 959, 1073]"

definition KCM_IDX_TOKEN_COVENANT :: nat where "KCM_IDX_TOKEN_COVENANT = 1"
definition KCM_IDX_TOKEN_RESERVE :: nat where "KCM_IDX_TOKEN_RESERVE = 2"
definition KCM_IDX_VKAS :: "nat list" where "KCM_IDX_VKAS = [167, 169, 349, 351, 502, 504, 680, 683]"
definition KCM_IDX_GRADUATION :: nat where "KCM_IDX_GRADUATION = 959"
definition KCM_IDX_CREATOR :: "nat list" where "KCM_IDX_CREATOR = [10, 911]"
definition KCM_IDX_SEED :: "nat list" where "KCM_IDX_SEED = [954, 956, 958]"

definition KCM_ORDER_PUSHES :: nat where "KCM_ORDER_PUSHES = 413"

definition KCM_ORDER_SLOTS :: "nat list" where
  "KCM_ORDER_SLOTS =
     [0, 4, 6, 112, 118, 122, 123, 126, 133, 135, 242, 248, 252, 255, 259, 265, 294, 298, 403, 409]"

definition KCM_ORD_SIZE :: nat where "KCM_ORD_SIZE = 0"
definition KCM_ORD_PRICE :: "nat list" where "KCM_ORD_PRICE = [4, 6, 122, 123]"
definition KCM_ORD_MAKER :: "nat list" where "KCM_ORD_MAKER = [126, 252, 259, 298]"
definition KCM_ORD_EXPIRY :: "nat list" where "KCM_ORD_EXPIRY = [133, 135]"

definition KCM_ORD_TOKEN :: "nat list" where
  "KCM_ORD_TOKEN = [112, 118, 242, 248, 255, 265, 294, 403, 409]"

definition CURVE3_PUSHES :: nat where "CURVE3_PUSHES = 2654"

definition CURVE3_SLOTS :: "nat list" where
  "CURVE3_SLOTS =
     [1, 2, 25, 88, 148, 150, 192, 194, 320, 322, 335, 337, 403, 469, 471, 593, 596, 609, 611, 682,
      741, 876, 878, 896, 897, 912, 1042, 1044, 1908, 1911, 1925, 1927, 2612]"

definition IDX3_TOKEN_COVENANT :: nat where "IDX3_TOKEN_COVENANT = 1"
definition IDX3_TOKEN_RESERVE :: nat where "IDX3_TOKEN_RESERVE = 2"
definition IDX3_CREATOR :: "nat list" where "IDX3_CREATOR = [25, 88, 403, 682, 2612]"

definition IDX3_VKAS :: "nat list" where
  "IDX3_VKAS = [192, 194, 320, 322, 469, 471, 593, 596, 1042, 1044, 1908, 1911]"

definition IDX3_GRADUATION :: nat where "IDX3_GRADUATION = 741"

definition IDX3_SELF_LEN :: "nat list" where
  "IDX3_SELF_LEN = [148, 150, 335, 337, 609, 611, 876, 878, 1925, 1927]"

definition IDX3_POOL_TPL :: "nat list" where "IDX3_POOL_TPL = [896, 912]"

definition CURVE_FEE_GROWTH_BPS :: int where "CURVE_FEE_GROWTH_BPS = 125"

section \<open>Tables of pinned builds\<close>

record skeleton_pin =
  sp_name :: string
  sp_fixture :: string
  sp_pushes :: nat
  sp_slots :: "nat list"
  sp_token_covenant :: nat
  sp_token_reserve :: nat
  sp_creator :: "nat list"
  sp_vkas :: "nat list"
  sp_graduation :: nat
  sp_self_len :: "nat list"
  sp_pool_tpl :: "nat list"
  sp_seed :: "nat list"
  sp_positive_constants :: bool
  sp_phase :: string
  sp_fees :: "int \<times> int"

definition KRON_CURVE_V1_PIN :: skeleton_pin where
  "KRON_CURVE_V1_PIN =
     \<lparr>sp_name = ''KRON curve v1'', sp_fixture = ''kron_curve_v1'', sp_pushes = CURVE_PUSHES,
      sp_slots = SLOT_INDICES, sp_token_covenant = IDX_TOKEN_COVENANT,
      sp_token_reserve = IDX_TOKEN_RESERVE, sp_creator = IDX_CREATOR, sp_vkas = IDX_VKAS,
      sp_graduation = IDX_GRADUATION, sp_self_len = [], sp_pool_tpl = [], sp_seed = [],
      sp_positive_constants = False, sp_phase = ''bonding'', sp_fees = (0, CURVE_FEE_GROWTH_BPS)\<rparr>"

definition KRON_CURVE_V2_PIN :: skeleton_pin where
  "KRON_CURVE_V2_PIN =
     \<lparr>sp_name = ''KRON curve v2'', sp_fixture = ''kron_curve_v2'', sp_pushes = CURVE2_PUSHES,
      sp_slots = CURVE2_SLOTS, sp_token_covenant = IDX2_TOKEN_COVENANT,
      sp_token_reserve = IDX2_TOKEN_RESERVE, sp_creator = IDX2_CREATOR, sp_vkas = IDX2_VKAS,
      sp_graduation = IDX2_GRADUATION, sp_self_len = IDX2_SELF_LEN, sp_pool_tpl = IDX2_POOL_TPL,
      sp_seed = [], sp_positive_constants = False, sp_phase = ''bonding'',
      sp_fees = (0, CURVE_FEE_GROWTH_BPS)\<rparr>"

definition KCM_CURVE_V1_PIN :: skeleton_pin where
  "KCM_CURVE_V1_PIN =
     \<lparr>sp_name = ''curve tn-b'', sp_fixture = ''kcm_curve_v1'', sp_pushes = KCM_CURVE_PUSHES,
      sp_slots = KCM_CURVE_SLOTS, sp_token_covenant = KCM_IDX_TOKEN_COVENANT,
      sp_token_reserve = KCM_IDX_TOKEN_RESERVE, sp_creator = KCM_IDX_CREATOR, sp_vkas = KCM_IDX_VKAS,
      sp_graduation = KCM_IDX_GRADUATION, sp_self_len = [], sp_pool_tpl = [], sp_seed = KCM_IDX_SEED,
      sp_positive_constants = True, sp_phase = ''bonding'', sp_fees = (0, 125)\<rparr>"

definition SKELETON_PINS :: "skeleton_pin list" where
  "SKELETON_PINS = [KRON_CURVE_V1_PIN, KRON_CURVE_V2_PIN, KCM_CURVE_V1_PIN]"

record curve_params =
  cp_token_covenant_id :: bytes
  cp_v_kas_units :: int
  cp_graduation_kas_sompi :: int
  cp_creator_fee_owner :: bytes
  cp_token_reserve :: int

record pool_params =
  pp_token_covenant_id :: bytes
  pp_kas_reserve_units :: int
  pp_token_reserve :: int
  pp_shares :: int
  pp_lp_token_covenant_id :: bytes
  pp_creator :: bytes

record order_params =
  op_token_covenant_id :: bytes
  op_maker :: bytes
  op_price_sompi :: int
  op_size :: int
  op_expiry_daa :: int

datatype pin_params = PinCurve curve_params | PinPool pool_params

record exact_pin =
  ep_program_hash :: bytes
  ep_skeleton :: string
  ep_params :: pin_params
  ep_phase :: string
  ep_fees :: "int \<times> int"

definition EXACT_PINS :: "exact_pin list" where "EXACT_PINS = []"

definition find_exact_pin :: "exact_pin list \<Rightarrow> bytes \<Rightarrow> exact_pin option" where
  "find_exact_pin pins program_hash = find (\<lambda>p. ep_program_hash p = program_hash) pins"

definition fee_model_in :: "exact_pin list \<Rightarrow> string \<Rightarrow> int \<times> int" where
  "fee_model_in pins sk =
     (case find (\<lambda>p. ep_skeleton p = sk) pins of
        Some pin \<Rightarrow> ep_fees pin
      | None \<Rightarrow>
          (case find (\<lambda>s. sp_name s = sk) SKELETON_PINS of
             Some s \<Rightarrow> sp_fees s
           | None \<Rightarrow>
               if sk \<in> {''KRON pool v1'', ''KRON pool v2'', ''KRON pool v3'', ''KRON pool tn-a''} then (20, 20)
               else if sk = ''KRON curve v3'' then (0, CURVE_FEE_GROWTH_BPS)
               else (0, 0)))"

definition fee_model :: "string \<Rightarrow> int \<times> int" where
  "fee_model sk = fee_model_in EXACT_PINS sk"

definition phase_for_skeleton_in :: "exact_pin list \<Rightarrow> string \<Rightarrow> string" where
  "phase_for_skeleton_in pins sk =
     (case find (\<lambda>p. ep_skeleton p = sk) pins of
        Some pin \<Rightarrow> ep_phase pin
      | None \<Rightarrow>
          (case find (\<lambda>s. sp_name s = sk) SKELETON_PINS of
             Some s \<Rightarrow> sp_phase s
           | None \<Rightarrow>
               if sk \<in> {''KRON pool v1'', ''KRON pool v2'', ''KRON pool v3'', ''KRON pool tn-a''}
               then ''graduated''
               else if sk = ''KRON curve v3'' then ''bonding''
               else ''unknown''))"

definition phase_for_skeleton :: "string \<Rightarrow> string" where
  "phase_for_skeleton sk = phase_for_skeleton_in EXACT_PINS sk"

definition MATCHER_VERSION :: string where "MATCHER_VERSION = ''9''"

definition MATCHED_SKELETONS :: "string list" where
  "MATCHED_SKELETONS =
     [''KRON curve v1'', ''KRON pool v1'', ''KRON curve v2'', ''KRON pool v2'',
      ''KRON curve v3'', ''KRON pool v3'', ''KRON pool tn-a'', ''curve tn-b'']"

definition is_matched_skeleton :: "string \<Rightarrow> bool" where
  "is_matched_skeleton sk \<longleftrightarrow>
     sk \<in> set MATCHED_SKELETONS \<or> (\<exists>p \<in> set EXACT_PINS. ep_skeleton p = sk)"

definition unmatched_tag :: string where "unmatched_tag = ''unmatched:'' @ MATCHER_VERSION"

definition market_stamp :: string where "market_stamp = ''4-logged/'' @ MATCHER_VERSION"

section \<open>The lockstep walk\<close>

text \<open>
  The loop body from unit \<open>i\<close> on, with the two positions reached. The callers have compared the
  unit counts; a missing candidate unit would be an index panic.
\<close>

fun lockstep_at ::
  "bytes \<Rightarrow> push_unit list \<Rightarrow> bytes \<Rightarrow> push_unit list \<Rightarrow> nat list \<Rightarrow> nat \<Rightarrow> nat \<Rightarrow> nat \<Rightarrow> bool" where
  "lockstep_at fx [] program cs slots i fpos cpos = (drop fpos fx = drop cpos program)"
| "lockstep_at fx (fu # fs) program (cu # cs) slots i fpos cpos =
     (let (fr, _) = fu; (cr, _) = cu in
      if slice fx fpos (fst fr) \<noteq> slice program cpos (fst cr) then False
      else if i \<notin> set slots \<and> slice fx (fst fr) (snd fr) \<noteq> slice program (fst cr) (snd cr) then False
      else lockstep_at fx fs program cs slots (i + 1) (snd fr) (snd cr))"
| "lockstep_at fx (fu # fs) program [] slots i fpos cpos = False"

definition lockstep_matches ::
  "bytes \<Rightarrow> push_unit list \<Rightarrow> bytes \<Rightarrow> push_unit list \<Rightarrow> nat list \<Rightarrow> bool" where
  "lockstep_matches fx fixture_units program cand_units slots =
     lockstep_at fx fixture_units program cand_units slots 0 0 0"

definition agreed_i64 :: "push_unit list \<Rightarrow> nat list \<Rightarrow> int option" where
  "agreed_i64 cand idx =
     (case bs_of_list (map (\<lambda>i. le_i64 (snd (cand ! i))) idx) of [Some v] \<Rightarrow> Some v | _ \<Rightarrow> None)"

definition agreed_bytes :: "push_unit list \<Rightarrow> nat list \<Rightarrow> bytes option" where
  "agreed_bytes cand idx =
     (case bs_of_list (map (\<lambda>i. snd (cand ! i)) idx) of [v] \<Rightarrow> Some v | _ \<Rightarrow> None)"

definition match_skeleton :: "externals \<Rightarrow> skeleton_pin \<Rightarrow> bytes \<Rightarrow> curve_params option" where
  "match_skeleton X pin program =
     (let cand = push_units program in
      if length cand \<noteq> sp_pushes pin then None
      else
        let fx = fixture X (sp_fixture pin); fixture_units = push_units fx in
        if \<not> lockstep_matches fx fixture_units program cand (sp_slots pin) then None
        else case agreed_i64 cand (sp_vkas pin) of None \<Rightarrow> None
        | Some v_kas_units \<Rightarrow>
        (case Option.bind (agreed_bytes cand (sp_creator pin)) array32 of None \<Rightarrow> None
        | Some creator_fee_owner \<Rightarrow>
        if sp_seed pin \<noteq> [] \<and> agreed_i64 cand (sp_seed pin) = None then None
        else if sp_self_len pin \<noteq> [] \<and> agreed_i64 cand (sp_self_len pin) \<noteq> Some (int (length program)) then None
        else if (case sp_pool_tpl pin of
                   [] \<Rightarrow> False
                 | first # rest \<Rightarrow> \<exists>i \<in> set rest. snd (cand ! i) \<noteq> snd (cand ! first)) then None
        else case array32 (snd (cand ! sp_token_covenant pin)) of None \<Rightarrow> None
        | Some token_covenant_id \<Rightarrow>
        (case le_i64 (snd (cand ! sp_token_reserve pin)) of None \<Rightarrow> None
        | Some token_reserve \<Rightarrow>
        (case le_i64 (snd (cand ! sp_graduation pin)) of None \<Rightarrow> None
        | Some graduation_kas_sompi \<Rightarrow>
        if sp_positive_constants pin \<and>
           (v_kas_units \<le> 0 \<or> token_reserve < 0 \<or> graduation_kas_sompi \<le> 0) then None
        else Some \<lparr>cp_token_covenant_id = token_covenant_id, cp_v_kas_units = v_kas_units,
          cp_graduation_kas_sompi = graduation_kas_sompi, cp_creator_fee_owner = creator_fee_owner,
          cp_token_reserve = token_reserve\<rparr>))))"

definition match_kron_curve :: "externals \<Rightarrow> bytes \<Rightarrow> curve_params option" where
  "match_kron_curve X program = match_skeleton X KRON_CURVE_V1_PIN program"

definition match_kron_curve_v2 :: "externals \<Rightarrow> bytes \<Rightarrow> curve_params option" where
  "match_kron_curve_v2 X program = match_skeleton X KRON_CURVE_V2_PIN program"

definition match_kcm_curve :: "externals \<Rightarrow> bytes \<Rightarrow> curve_params option" where
  "match_kcm_curve X program = match_skeleton X KCM_CURVE_V1_PIN program"

text \<open>The third generation keeps its own walker, which also compares the pushed values.\<close>

fun walk3_at ::
  "bytes \<Rightarrow> push_unit list \<Rightarrow> bytes \<Rightarrow> push_unit list \<Rightarrow> nat list \<Rightarrow> nat \<Rightarrow> nat \<Rightarrow> nat \<Rightarrow> bool" where
  "walk3_at fx [] program cs slots i fpos cpos = (drop fpos fx = drop cpos program)"
| "walk3_at fx (fu # fs) program (cu # cs) slots i fpos cpos =
     (let (fr, fdata) = fu; (cr, cdata) = cu in
      if slice fx fpos (fst fr) \<noteq> slice program cpos (fst cr) then False
      else if i \<notin> set slots \<and>
          (fdata \<noteq> cdata \<or> slice fx (fst fr) (snd fr) \<noteq> slice program (fst cr) (snd cr)) then False
      else walk3_at fx fs program cs slots (i + 1) (snd fr) (snd cr))"
| "walk3_at fx (fu # fs) program [] slots i fpos cpos = False"

definition match_kron_curve_v3 :: "externals \<Rightarrow> bytes \<Rightarrow> curve_params option" where
  "match_kron_curve_v3 X program =
     (let cand = push_units program in
      if length cand \<noteq> CURVE3_PUSHES then None
      else
        let fx = fixture X ''kron_curve_v3'' in
        if \<not> walk3_at fx (push_units fx) program cand CURVE3_SLOTS 0 0 0 then None
        else case bs_of_list (map (\<lambda>i. le_i64 (snd (cand ! i))) IDX3_VKAS) of
          [Some v_kas_units] \<Rightarrow>
            (case bs_of_list (map (\<lambda>i. snd (cand ! i)) IDX3_CREATOR) of
               [creator] \<Rightarrow>
                 if bs_of_list (map (\<lambda>i. le_i64 (snd (cand ! i))) IDX3_SELF_LEN)
                     \<noteq> [Some (int (length program))] then None
                 else if snd (cand ! (IDX3_POOL_TPL ! 0)) \<noteq> snd (cand ! (IDX3_POOL_TPL ! 1)) then None
                 else case array32 creator of None \<Rightarrow> None
                 | Some creator_fee_owner \<Rightarrow>
                 (case array32 (snd (cand ! IDX3_TOKEN_COVENANT)) of None \<Rightarrow> None
                 | Some token_covenant_id \<Rightarrow>
                 (case le_i64 (snd (cand ! IDX3_GRADUATION)) of None \<Rightarrow> None
                 | Some graduation_kas_sompi \<Rightarrow>
                 (case le_i64 (snd (cand ! IDX3_TOKEN_RESERVE)) of None \<Rightarrow> None
                 | Some token_reserve \<Rightarrow>
                   Some \<lparr>cp_token_covenant_id = token_covenant_id, cp_v_kas_units = v_kas_units,
                     cp_graduation_kas_sompi = graduation_kas_sompi,
                     cp_creator_fee_owner = creator_fee_owner, cp_token_reserve = token_reserve\<rparr>)))
             | _ \<Rightarrow> None)
        | _ \<Rightarrow> None)"

definition match_kcm_order :: "externals \<Rightarrow> bytes \<Rightarrow> order_params option" where
  "match_kcm_order X program =
     (let cand = push_units program in
      if length cand \<noteq> KCM_ORDER_PUSHES then None
      else
        let fx = fixture X ''kcm_order_v1'' in
        if \<not> lockstep_matches fx (push_units fx) program cand KCM_ORDER_SLOTS then None
        else case agreed_i64 cand KCM_ORD_PRICE of None \<Rightarrow> None
        | Some price_sompi \<Rightarrow>
        (case agreed_i64 cand KCM_ORD_EXPIRY of None \<Rightarrow> None
        | Some expiry_daa \<Rightarrow>
        (case Option.bind (agreed_bytes cand KCM_ORD_MAKER) array32 of None \<Rightarrow> None
        | Some maker \<Rightarrow>
        (case Option.bind (agreed_bytes cand KCM_ORD_TOKEN) array32 of None \<Rightarrow> None
        | Some token_covenant_id \<Rightarrow>
        (case le_i64 (snd (cand ! KCM_ORD_SIZE)) of None \<Rightarrow> None
        | Some sz \<Rightarrow>
          if price_sompi \<le> 0 \<or> sz \<le> 0 \<or> expiry_daa \<le> 0 then None
          else Some \<lparr>op_token_covenant_id = token_covenant_id, op_maker = maker,
            op_price_sompi = price_sompi, op_size = sz, op_expiry_daa = expiry_daa\<rparr>)))))"

section \<open>Pool builds\<close>

definition POOL_STATE_LEN :: nat where "POOL_STATE_LEN = 94"
definition POOL_TEMPLATE_CREATOR_SLOTS :: "nat list" where "POOL_TEMPLATE_CREATOR_SLOTS = [159, 345]"
definition POOL2_TEMPLATE_CREATOR_SLOTS :: "nat list" where "POOL2_TEMPLATE_CREATOR_SLOTS = [256, 546]"
definition POOL3_TEMPLATE_CREATOR_SLOTS :: "nat list" where "POOL3_TEMPLATE_CREATOR_SLOTS = [259, 552]"
definition POOL_TN_A_CREATOR_SLOTS :: "nat list" where "POOL_TN_A_CREATOR_SLOTS = [136, 148, 295, 307]"

definition match_pool_build :: "bytes \<Rightarrow> bytes \<Rightarrow> nat list \<Rightarrow> pool_params option" where
  "match_pool_build program pool_fixture creator_slots =
     (if length program \<noteq> POOL_STATE_LEN + length pool_fixture \<or> program ! 0 \<noteq> 0x6b then None
      else if program ! 1 \<noteq> 0x08 \<or> program ! 10 \<noteq> 0x08 \<or> program ! 19 \<noteq> 0x20 \<or>
        program ! 52 \<noteq> 0x08 \<or> program ! 61 \<noteq> 0x20 then None
      else case le_i64 (slice program 2 10) of None \<Rightarrow> None
      | Some kas_reserve_units \<Rightarrow>
      (case le_i64 (slice program 11 19) of None \<Rightarrow> None
      | Some token_reserve \<Rightarrow>
      (case array32 (slice program 20 52) of None \<Rightarrow> None
      | Some token_covenant_id \<Rightarrow>
      (case le_i64 (slice program 53 61) of None \<Rightarrow> None
      | Some shares \<Rightarrow>
      (case array32 (slice program 62 94) of None \<Rightarrow> None
      | Some lp_token_covenant_id \<Rightarrow>
        let tpl = drop POOL_STATE_LEN program;
            fixture_units = push_units pool_fixture;
            cand_units = push_units tpl in
        if length cand_units \<noteq> length fixture_units then None
        else if \<not> lockstep_matches pool_fixture fixture_units tpl cand_units creator_slots then None
        else case Option.bind (agreed_bytes cand_units creator_slots) array32 of None \<Rightarrow> None
        | Some creator \<Rightarrow>
          Some \<lparr>pp_token_covenant_id = token_covenant_id, pp_kas_reserve_units = kas_reserve_units,
            pp_token_reserve = token_reserve, pp_shares = shares,
            pp_lp_token_covenant_id = lp_token_covenant_id, pp_creator = creator\<rparr>)))))"

definition match_kron_pool :: "externals \<Rightarrow> bytes \<Rightarrow> pool_params option" where
  "match_kron_pool X program =
     match_pool_build program (fixture X ''kron_pool_v1'') POOL_TEMPLATE_CREATOR_SLOTS"

definition match_kron_pool_v2 :: "externals \<Rightarrow> bytes \<Rightarrow> pool_params option" where
  "match_kron_pool_v2 X program =
     match_pool_build program (fixture X ''kron_pool_v2'') POOL2_TEMPLATE_CREATOR_SLOTS"

definition match_kron_pool_v3 :: "externals \<Rightarrow> bytes \<Rightarrow> pool_params option" where
  "match_kron_pool_v3 X program =
     match_pool_build program (fixture X ''kron_pool_v3'') POOL3_TEMPLATE_CREATOR_SLOTS"

definition match_kron_pool_tn_a :: "externals \<Rightarrow> bytes \<Rightarrow> pool_params option" where
  "match_kron_pool_tn_a X program =
     match_pool_build program (fixture X ''kron_pool_tn_a'') POOL_TN_A_CREATOR_SLOTS"

section \<open>Push units and disassembly\<close>

lemma payload_at_data_len:
  assumes "i < length program"
  shows "data_len_at program (program ! i) (i + 1) =
    (case payload_at program i of Some (s, len) \<Rightarrow> (Some len, s) | None \<Rightarrow> (None, i + 1))"
proof -
  have two: "slice program (Suc i) (Suc (Suc (Suc i))) = [program ! (i + 1), program ! (i + 2)]" if "i + 2 < length program"
    using that by (intro nth_equalityI) (auto simp: nth_slice less_Suc_eq numeral_2_eq_2 numeral_3_eq_3)
  have four: "slice program (Suc i) (5 + i) =
      [program ! (i + 1), program ! (i + 2), program ! (i + 3), program ! (i + 4)]" if "i + 4 < length program"
    using that by (intro nth_equalityI) (auto simp: nth_slice less_Suc_eq eval_nat_numeral)
  show ?thesis
    using assms two four
    by (auto simp: data_len_at_def payload_at_def get_at_def get_range_def Let_def)
qed

lemma push_units_values: "map snd (push_units_at program i) = List.map_filter arg_value (fst (disasm_at program i))"
proof (induction program i rule: push_units_at.induct)
  case (1 program i)
  show ?case
  proof (cases "i < length program")
    case False
    then show ?thesis by (simp add: push_units_at.simps [of program i] disasm_at.simps [of program i] map_filter_simps)
  next
    case True
    note d = payload_at_data_len [OF True]
    show ?thesis
    proof (cases "payload_at program i")
      case None
      then have nop: "\<not> (0x01 \<le> program ! i \<and> program ! i \<le> 0x4b)" by (auto simp: payload_at_def Let_def)
      with 1 True None d show ?thesis
        by (auto simp: push_units_at.simps [of program i] disasm_at.simps [of program i] Let_def
            split_beta map_filter_simps arg_value_def)
    next
      case (Some p)
      obtain s len where p: "p = (s, len)" by (cases p)
      have op: "program ! i \<noteq> 0 \<and> \<not> (0x51 \<le> program ! i)"
        using Some by (auto simp: payload_at_def Let_def word_le_nat_alt split: if_splits)
      with 1 True Some p d show ?thesis
        by (auto simp: push_units_at.simps [of program i] disasm_at.simps [of program i] Let_def
            split_beta map_filter_simps arg_value_def get_range_def)
    qed
  qed
qed

text \<open>The two parsers of a program agree: the values of its push units are the witness arguments
  that token proving reads, in the same order.\<close>

theorem push_units_arg_pushes: "map snd (push_units program) = arg_pushes program"
  by (simp add: push_units_def arg_pushes_def disassemble_def push_units_values)

section \<open>Segments\<close>

text \<open>A program as its gaps and pushes in turn, and what follows the last push.\<close>

fun split_units :: "bytes \<Rightarrow> nat \<Rightarrow> push_unit list \<Rightarrow> (bytes \<times> bytes) list \<times> bytes" where
  "split_units xs i [] = ([], drop i xs)"
| "split_units xs i (((a, b), v) # us) =
     (let (segs, rest) = split_units xs b us in ((slice xs i a, slice xs a b) # segs, rest))"

definition segments :: "bytes \<Rightarrow> (bytes \<times> bytes) list \<times> bytes" where
  "segments xs = split_units xs 0 (push_units xs)"

fun laid :: "nat \<Rightarrow> nat \<Rightarrow> push_unit list \<Rightarrow> bool" where
  "laid i n [] = True"
| "laid i n (((a, b), v) # us) = (i \<le> a \<and> a < b \<and> b \<le> n \<and> laid b n us)"

lemma laid_mono: "laid j n us \<Longrightarrow> i \<le> j \<Longrightarrow> laid i n us"
  by (cases us rule: list.exhaust) auto

lemma laid_push_units_at: "laid i (length program) (push_units_at program i)"
proof (induction program i rule: push_units_at.induct)
  case (1 program i)
  have "laid i (length program) (push_units_at program (i + 1))" if "laid (i + 1) (length program) (push_units_at program (i + 1))"
    using that by (rule laid_mono) simp
  with 1 show ?case
    by (subst push_units_at.simps) (auto simp: Let_def dest: payload_at_advances split: option.splits)
qed

lemma split_units_concat:
  "laid i (length xs) us \<Longrightarrow> split_units xs i us = (segs, rest) \<Longrightarrow>
   drop i xs = concat (map (\<lambda>(g, r). g @ r) segs) @ rest"
proof (induction xs i us arbitrary: segs rule: split_units.induct)
  case (2 xs i a b v us)
  obtain segs' where s: "split_units xs b us = (segs', rest)" "segs = (slice xs i a, slice xs a b) # segs'"
    using 2(3) by (auto simp: Let_def split: prod.splits)
  have "slice xs i a @ slice xs a b @ drop b xs = drop i xs"
    using 2(2) by (simp add: slice_append_drop)
  with 2 s show ?case by simp
qed simp

lemma segments_concat:
  "segments xs = (segs, rest) \<Longrightarrow> xs = concat (map (\<lambda>(g, r). g @ r) segs) @ rest"
  using split_units_concat [of 0 xs "push_units xs" segs rest] laid_push_units_at [of 0 xs]
  by (simp add: segments_def push_units_def)

text \<open>Two programs of one build: the same gaps and tail, and the same pushes outside the slots.\<close>

definition same_build :: "nat list \<Rightarrow> bytes \<Rightarrow> bytes \<Rightarrow> bool" where
  "same_build slots fx program \<longleftrightarrow>
     map fst (fst (segments program)) = map fst (fst (segments fx)) \<and>
     snd (segments program) = snd (segments fx) \<and>
     (\<forall>i < length (fst (segments fx)). i \<notin> set slots \<longrightarrow>
        snd (fst (segments program) ! i) = snd (fst (segments fx) ! i))"

lemma length_split_units: "length (fst (split_units xs i us)) = length us"
  by (induction xs i us rule: split_units.induct) (auto simp: Let_def split_beta)

lemma lockstep_at_iff:
  "length fs = length cs \<Longrightarrow>
   lockstep_at fx fs program cs slots k i j \<longleftrightarrow>
     map fst (fst (split_units program j cs)) = map fst (fst (split_units fx i fs)) \<and>
     snd (split_units program j cs) = snd (split_units fx i fs) \<and>
     (\<forall>n < length fs. k + n \<notin> set slots \<longrightarrow>
        snd (fst (split_units program j cs) ! n) = snd (fst (split_units fx i fs) ! n))"
proof (induction fs arbitrary: cs k i j)
  case (Cons fu fs)
  then obtain cu cs' where c: "cs = cu # cs'" "length fs = length cs'" by (cases cs) auto
  obtain a b v a' b' v' where u: "fu = ((a, b), v)" "cu = ((a', b'), v')" by (metis surj_pair)
  show ?case
    unfolding length_Cons all_less_Suc c u
    using Cons.IH [OF c(2), of "k + 1" b b'] by (auto simp: Let_def split_beta c(2) [symmetric])
qed auto

lemma lockstep_same_build:
  assumes "length (push_units program) = length (push_units fx)"
  shows "lockstep_matches fx (push_units fx) program (push_units program) slots \<longleftrightarrow> same_build slots fx program"
  unfolding lockstep_matches_def same_build_def segments_def
  by (simp add: lockstep_at_iff [OF assms [symmetric]] length_split_units)

section \<open>Agreement of repeated sites\<close>

lemma agreed_i64_bs: "agreed_i64 cand idx = Some v \<longleftrightarrow> bs_of_list (map (\<lambda>i. le_i64 (snd (cand ! i))) idx) = [Some v]"
  unfolding agreed_i64_def by (auto split: list.splits option.splits)

lemma agreed_i64_Some:
  "agreed_i64 cand idx = Some v \<longleftrightarrow> idx \<noteq> [] \<and> (\<forall>i \<in> set idx. le_i64 (snd (cand ! i)) = Some v)"
  unfolding agreed_i64_bs bs_single by auto

lemma agreed_bytes_bs: "agreed_bytes cand idx = Some v \<longleftrightarrow> bs_of_list (map (\<lambda>i. snd (cand ! i)) idx) = [v]"
  unfolding agreed_bytes_def by (auto split: list.splits)

lemma agreed_bytes_Some:
  "agreed_bytes cand idx = Some v \<longleftrightarrow> idx \<noteq> [] \<and> (\<forall>i \<in> set idx. snd (cand ! i) = v)"
  unfolding agreed_bytes_bs bs_single by auto

lemma pool_tpl_agree:
  "(case idx of [] \<Rightarrow> False | first # rest \<Rightarrow> \<exists>i \<in> set rest. f i \<noteq> f first) \<longleftrightarrow>
     \<not> (\<forall>i \<in> set idx. \<forall>j \<in> set idx. f i = f j)"
  by (cases idx) (auto, metis+)

section \<open>What a curve match means\<close>

text \<open>
  \<open>program\<close> is the pinned build with the constants \<open>c\<close>: the fixture's bytes outside the slots, and
  at every declared site the value the constants state.
\<close>

definition curve_build :: "externals \<Rightarrow> skeleton_pin \<Rightarrow> bytes \<Rightarrow> curve_params \<Rightarrow> bool" where
  "curve_build X pin program c \<longleftrightarrow>
     (let units = push_units program; value_at = (\<lambda>i. snd (units ! i)) in
      length units = sp_pushes pin \<and>
      same_build (sp_slots pin) (fixture X (sp_fixture pin)) program \<and>
      sp_vkas pin \<noteq> [] \<and> (\<forall>i \<in> set (sp_vkas pin). le_i64 (value_at i) = Some (cp_v_kas_units c)) \<and>
      sp_creator pin \<noteq> [] \<and> (\<forall>i \<in> set (sp_creator pin). value_at i = cp_creator_fee_owner c) \<and>
      length (cp_creator_fee_owner c) = 32 \<and>
      (\<exists>v. \<forall>i \<in> set (sp_seed pin). le_i64 (value_at i) = Some v) \<and>
      (\<forall>i \<in> set (sp_self_len pin). le_i64 (value_at i) = Some (int (length program))) \<and>
      (\<forall>i \<in> set (sp_pool_tpl pin). \<forall>j \<in> set (sp_pool_tpl pin). value_at i = value_at j) \<and>
      value_at (sp_token_covenant pin) = cp_token_covenant_id c \<and> length (cp_token_covenant_id c) = 32 \<and>
      le_i64 (value_at (sp_token_reserve pin)) = Some (cp_token_reserve c) \<and>
      le_i64 (value_at (sp_graduation pin)) = Some (cp_graduation_kas_sompi c) \<and>
      (sp_positive_constants pin \<longrightarrow>
         0 < cp_v_kas_units c \<and> 0 \<le> cp_token_reserve c \<and> 0 < cp_graduation_kas_sompi c))"

lemma seed_agrees:
  "(idx \<noteq> [] \<and> agreed_i64 cand idx = None) \<longleftrightarrow> \<not> (\<exists>v. \<forall>i \<in> set idx. le_i64 (snd (cand ! i)) = Some v)"
  using agreed_i64_Some [of cand idx] by (cases "agreed_i64 cand idx") auto

lemma self_len_agrees:
  "(idx \<noteq> [] \<and> agreed_i64 cand idx \<noteq> Some v) \<longleftrightarrow> \<not> (\<forall>i \<in> set idx. le_i64 (snd (cand ! i)) = Some v)"
  using agreed_i64_Some [of cand idx v] by (cases "idx = []") auto

lemma match_skeleton_Some:
  "match_skeleton X pin program = Some c \<longleftrightarrow>
     (let cand = push_units program; value_at = (\<lambda>i. snd (cand ! i)) in
      length cand = sp_pushes pin \<and>
      lockstep_matches (fixture X (sp_fixture pin)) (push_units (fixture X (sp_fixture pin)))
        program cand (sp_slots pin) \<and>
      (\<exists>v. \<forall>i \<in> set (sp_seed pin). le_i64 (value_at i) = Some v) \<and>
      (\<forall>i \<in> set (sp_self_len pin). le_i64 (value_at i) = Some (int (length program))) \<and>
      (\<forall>i \<in> set (sp_pool_tpl pin). \<forall>j \<in> set (sp_pool_tpl pin). value_at i = value_at j) \<and>
      agreed_i64 cand (sp_vkas pin) = Some (cp_v_kas_units c) \<and>
      agreed_bytes cand (sp_creator pin) = Some (cp_creator_fee_owner c) \<and>
      array32 (cp_creator_fee_owner c) = Some (cp_creator_fee_owner c) \<and>
      array32 (value_at (sp_token_covenant pin)) = Some (cp_token_covenant_id c) \<and>
      le_i64 (value_at (sp_token_reserve pin)) = Some (cp_token_reserve c) \<and>
      le_i64 (value_at (sp_graduation pin)) = Some (cp_graduation_kas_sompi c) \<and>
      \<not> (sp_positive_constants pin \<and>
         (cp_v_kas_units c \<le> 0 \<or> cp_token_reserve c < 0 \<or> cp_graduation_kas_sompi c \<le> 0)))" (is "?l \<longleftrightarrow> ?r")
proof -
  let ?cand = "push_units program"
  define lk where "lk \<longleftrightarrow> lockstep_matches (fixture X (sp_fixture pin)) (push_units (fixture X (sp_fixture pin)))
    program ?cand (sp_slots pin)"
  define seed where "seed \<longleftrightarrow> (\<exists>v. \<forall>i \<in> set (sp_seed pin). le_i64 (snd (?cand ! i)) = Some v)"
  define lens where
    "lens \<longleftrightarrow> (\<forall>i \<in> set (sp_self_len pin). le_i64 (snd (?cand ! i)) = Some (int (length program)))"
  define tpl where
    "tpl \<longleftrightarrow> (\<forall>i \<in> set (sp_pool_tpl pin). \<forall>j \<in> set (sp_pool_tpl pin). snd (?cand ! i) = snd (?cand ! j))"
  note opaque = Let_def lk_def [symmetric] seed_def [symmetric] lens_def [symmetric] tpl_def [symmetric]
  show ?thesis
  proof
    assume ?l
    then show ?r
      unfolding match_skeleton_def seed_agrees self_len_agrees pool_tpl_agree opaque
      by (auto dest!: early_return simp: bind_eq_Some_conv array32_Some)
  next
    assume ?r
    then show ?l
      unfolding match_skeleton_def seed_agrees self_len_agrees pool_tpl_agree opaque
      by (cases c) simp
  qed
qed

text \<open>C27. A program matches a pinned build exactly when it is that build: byte for byte the fixture
  outside the declared slots, every repeated site in agreement, every self-length site telling the
  real length, every template copy identical, and the constants read off the declared sites.\<close>

theorem match_skeleton_iff:
  assumes "length (push_units (fixture X (sp_fixture pin))) = sp_pushes pin"
  shows "match_skeleton X pin program = Some c \<longleftrightarrow> curve_build X pin program c"
proof -
  let ?cand = "push_units program"
  define seed where "seed \<longleftrightarrow> (\<exists>v. \<forall>i \<in> set (sp_seed pin). le_i64 (snd (?cand ! i)) = Some v)"
  define lens where
    "lens \<longleftrightarrow> (\<forall>i \<in> set (sp_self_len pin). le_i64 (snd (?cand ! i)) = Some (int (length program)))"
  define tpl where
    "tpl \<longleftrightarrow> (\<forall>i \<in> set (sp_pool_tpl pin). \<forall>j \<in> set (sp_pool_tpl pin). snd (?cand ! i) = snd (?cand ! j))"
  show ?thesis
    using lockstep_same_build [of program "fixture X (sp_fixture pin)" "sp_slots pin"] assms
    unfolding match_skeleton_Some curve_build_def Let_def agreed_i64_Some agreed_bytes_Some array32_Some
      seed_def [symmetric] lens_def [symmetric] tpl_def [symmetric]
    by (auto simp: not_le)
qed

definition demo_pin :: skeleton_pin where
  "demo_pin =
     \<lparr>sp_name = ''demo'', sp_fixture = ''demo'', sp_pushes = 5, sp_slots = [0, 1, 3],
      sp_token_covenant = 0, sp_token_reserve = 1, sp_creator = [2], sp_vkas = [3],
      sp_graduation = 4, sp_self_len = [], sp_pool_tpl = [], sp_seed = [],
      sp_positive_constants = True, sp_phase = ''bonding'', sp_fees = (0, 125)\<rparr>"

definition demo_curve :: "u8 \<Rightarrow> bytes" where
  "demo_curve v = [0x20] @ replicate 32 v @ [0x01, v, 0x6b, 0x20] @ replicate 32 8 @ [0x01, v, 0x52, 0x87]"

definition demo_fixtures :: externals where
  "demo_fixtures = demo_externals\<lparr>fixture := \<lambda>_. demo_curve 3\<rparr>"

lemma match_skeleton_iff_witness:
  "curve_build demo_fixtures demo_pin (demo_curve 20)
     \<lparr>cp_token_covenant_id = replicate 32 20, cp_v_kas_units = 20, cp_graduation_kas_sompi = 2,
      cp_creator_fee_owner = replicate 32 8, cp_token_reserve = 20\<rparr>"
proof -
  have "length (push_units (fixture demo_fixtures (sp_fixture demo_pin))) = sp_pushes demo_pin" by code_simp
  moreover have units: "push_units (demo_curve 20) =
      [((0, 33), replicate 32 20), ((33, 35), [20]), ((36, 69), replicate 32 8), ((69, 71), [20]), ((71, 72), [2])]"
    by code_simp
  have "lockstep_matches (demo_curve 3) (push_units (demo_curve 3)) (demo_curve 20) (push_units (demo_curve 20)) [0, 1, 3]"
    by code_simp
  then have "match_skeleton demo_fixtures demo_pin (demo_curve 20) = Some
     \<lparr>cp_token_covenant_id = replicate 32 20, cp_v_kas_units = 20, cp_graduation_kas_sompi = 2,
      cp_creator_fee_owner = replicate 32 8, cp_token_reserve = 20\<rparr>"
    unfolding match_skeleton_Some Let_def
    by (simp add: units demo_pin_def demo_fixtures_def agreed_i64_Some agreed_bytes_Some array32_def
        le_i64_def i64_of_le_def Let_def)
  ultimately show ?thesis by (subst (asm) match_skeleton_iff)
qed

text \<open>The value a push carries is determined by its bytes.\<close>

definition value_of_raw :: "bytes \<Rightarrow> bytes" where
  "value_of_raw raw =
     (let op = hd raw in
      if 0x51 \<le> op \<and> op \<le> 0x60 then [op - 0x50]
      else if op = 0x4c then drop 2 raw else if op = 0x4d then drop 3 raw
      else if op = 0x4e then drop 5 raw else drop 1 raw)"

lemma payload_raw:
  assumes "payload_at program i = Some (s, len)" and "s + len \<le> length program"
  shows "value_of_raw (slice program i (s + len)) = slice program s (s + len)"
proof -
  from assms have "i < s" and op: "hd (slice program i (s + len)) = program ! i"
    by (auto dest!: payload_at_advances simp: hd_slice)
  consider "0x01 \<le> program ! i \<and> program ! i \<le> 0x4b" "s = i + 1" | "program ! i = 0x4c" "s = i + 2"
    | "program ! i = 0x4d" "s = i + 3" | "program ! i = 0x4e" "s = i + 5"
    using assms(1) by (auto simp: payload_at_def Let_def split: if_splits)
  then show ?thesis
    unfolding value_of_raw_def Let_def op drop_slice by cases (auto simp: word_le_nat_alt)
qed

lemma unit_value:
  "((a, b), v) \<in> set (push_units_at program i) \<Longrightarrow> v = value_of_raw (slice program a b)"
proof (induction program i rule: push_units_at.induct)
  case (1 program i)
  have i: "i < length program" using "1.prems" by (rule contrapos_pp) (simp add: push_units_at.simps [of program i])
  show ?case
  proof (cases "payload_at program i")
    case None
    with 1 i show ?thesis
      by (subst (asm) (5) push_units_at.simps)
        (auto simp: Let_def value_of_raw_def slice_single split: if_splits)
  next
    case (Some p)
    obtain st len where p: "p = (st, len)" by (cases p)
    with "1.IH"(4) [OF i refl Some p [symmetric]] "1.prems" i Some show ?thesis
      by (subst (asm) (2) push_units_at.simps) (auto simp: Let_def payload_raw not_less split: if_splits)
  qed
qed

lemma walk3_lockstep:
  "(\<And>a b v. ((a, b), v) \<in> set fs \<Longrightarrow> v = value_of_raw (slice fx a b)) \<Longrightarrow>
   (\<And>a b v. ((a, b), v) \<in> set cs \<Longrightarrow> v = value_of_raw (slice program a b)) \<Longrightarrow>
   walk3_at fx fs program cs slots k i j = lockstep_at fx fs program cs slots k i j"
proof (induction fs arbitrary: cs k i j)
  case (Cons fu fs)
  show ?case
  proof (cases cs)
    case (Cons cu cs')
    obtain a b v a' b' v' where u: "fu = ((a, b), v)" "cu = ((a', b'), v')" by (metis surj_pair)
    have v: "v = value_of_raw (slice fx a b)" "v' = value_of_raw (slice program a' b')"
      using Cons.prems u Cons by auto
    have "walk3_at fx fs program cs' slots (k + 1) b b' = lockstep_at fx fs program cs' slots (k + 1) b b'"
      using Cons.IH [of cs'] Cons.prems Cons by auto
    then show ?thesis by (auto simp: Cons u v Let_def)
  qed simp
qed simp

text \<open>The table entry that the third generation would have.\<close>

definition KRON_CURVE_V3_PIN :: skeleton_pin where
  "KRON_CURVE_V3_PIN =
     \<lparr>sp_name = ''KRON curve v3'', sp_fixture = ''kron_curve_v3'', sp_pushes = CURVE3_PUSHES,
      sp_slots = CURVE3_SLOTS, sp_token_covenant = IDX3_TOKEN_COVENANT,
      sp_token_reserve = IDX3_TOKEN_RESERVE, sp_creator = IDX3_CREATOR, sp_vkas = IDX3_VKAS,
      sp_graduation = IDX3_GRADUATION, sp_self_len = IDX3_SELF_LEN, sp_pool_tpl = IDX3_POOL_TPL,
      sp_seed = [], sp_positive_constants = False, sp_phase = ''bonding'',
      sp_fees = (0, CURVE_FEE_GROWTH_BPS)\<rparr>"

text \<open>The hand-written walker of the third curve generation is the table-driven matcher: it
  accepts the same programs and reads the same constants as a table entry with its indices would.
  Folding it into the table changes no match.\<close>

theorem match_kron_curve_v3_is_pin:
  "match_kron_curve_v3 X program = match_skeleton X KRON_CURVE_V3_PIN program"
proof (rule option_eqI)
  fix c
  let ?cand = "push_units program" and ?fx = "fixture X ''kron_curve_v3''"
  define lk where "lk \<longleftrightarrow> lockstep_matches ?fx (push_units ?fx) program ?cand CURVE3_SLOTS"
  have walk: "walk3_at ?fx (push_units ?fx) program ?cand CURVE3_SLOTS 0 0 0 = lk"
    unfolding lk_def lockstep_matches_def by (rule walk3_lockstep) (auto simp: push_units_def dest: unit_value)
  have lens_iff: "bs_of_list (map (\<lambda>i. le_i64 (snd (?cand ! i))) IDX3_SELF_LEN) = [Some v] \<longleftrightarrow>
      (\<forall>i \<in> set IDX3_SELF_LEN. le_i64 (snd (?cand ! i)) = Some v)" for v
    unfolding bs_single by (auto simp: IDX3_SELF_LEN_def)
  have tpl_iff: "snd (?cand ! (IDX3_POOL_TPL ! 0)) = snd (?cand ! (IDX3_POOL_TPL ! 1)) \<longleftrightarrow>
      (\<forall>i \<in> set IDX3_POOL_TPL. \<forall>j \<in> set IDX3_POOL_TPL. snd (?cand ! i) = snd (?cand ! j))"
    by (auto simp: IDX3_POOL_TPL_def)
  define lens where "lens \<longleftrightarrow>
    (\<forall>i \<in> set IDX3_SELF_LEN. le_i64 (snd (?cand ! i)) = Some (int (length program)))"
  define tpl where "tpl \<longleftrightarrow> (\<forall>i \<in> set IDX3_POOL_TPL. \<forall>j \<in> set IDX3_POOL_TPL.
    snd (?cand ! i) = snd (?cand ! j))"
  define vs where "vs = bs_of_list (map (\<lambda>i. le_i64 (snd (?cand ! i))) IDX3_VKAS)"
  define cs where "cs = bs_of_list (map (\<lambda>i. snd (?cand ! i)) IDX3_CREATOR)"
  have "match_kron_curve_v3 X program = Some c \<longleftrightarrow>
      length ?cand = CURVE3_PUSHES \<and> lk \<and> vs = [Some (cp_v_kas_units c)] \<and> cs = [cp_creator_fee_owner c] \<and>
      lens \<and> tpl \<and> array32 (cp_creator_fee_owner c) = Some (cp_creator_fee_owner c) \<and>
      array32 (snd (?cand ! IDX3_TOKEN_COVENANT)) = Some (cp_token_covenant_id c) \<and>
      le_i64 (snd (?cand ! IDX3_GRADUATION)) = Some (cp_graduation_kas_sompi c) \<and>
      le_i64 (snd (?cand ! IDX3_TOKEN_RESERVE)) = Some (cp_token_reserve c)" (is "?l \<longleftrightarrow> ?r")
  proof
    assume ?l
    moreover from this obtain v o1 where "vs = [Some v]" "cs = [o1]"
      unfolding match_kron_curve_v3_def Let_def vs_def [symmetric] cs_def [symmetric]
      by (auto split: list.splits option.splits if_splits)
    ultimately show ?r
      unfolding match_kron_curve_v3_def Let_def walk lens_iff tpl_iff lens_def [symmetric] tpl_def [symmetric]
        vs_def [symmetric] cs_def [symmetric]
      by (auto dest!: early_return simp: array32_Some)
  next
    assume ?r
    then show ?l
      unfolding match_kron_curve_v3_def Let_def walk lens_iff tpl_iff lens_def [symmetric] tpl_def [symmetric]
        vs_def [symmetric] cs_def [symmetric]
      by (cases c) simp
  qed
  then show "match_kron_curve_v3 X program = Some c \<longleftrightarrow> match_skeleton X KRON_CURVE_V3_PIN program = Some c"
    unfolding match_skeleton_Some KRON_CURVE_V3_PIN_def skeleton_pin.simps Let_def
      agreed_i64_bs agreed_bytes_bs lk_def lens_def tpl_def vs_def cs_def by auto
qed

section \<open>What a pool match means\<close>

text \<open>The 94-byte state block: guard, reserves, token id, shares and share-token id.\<close>

definition pool_state :: "pool_params \<Rightarrow> bytes" where
  "pool_state p =
     [0x6b] @ [0x08] @ i64_le (pp_kas_reserve_units p) @ [0x08] @ i64_le (pp_token_reserve p) @
     [0x20] @ pp_token_covenant_id p @ [0x08] @ i64_le (pp_shares p) @ [0x20] @ pp_lp_token_covenant_id p"

definition pool_params_wf :: "pool_params \<Rightarrow> bool" where
  "pool_params_wf p \<longleftrightarrow>
     0 \<le> pp_kas_reserve_units p \<and> pp_kas_reserve_units p < 2 ^ 63 \<and>
     0 \<le> pp_token_reserve p \<and> pp_token_reserve p < 2 ^ 63 \<and> 0 \<le> pp_shares p \<and> pp_shares p < 2 ^ 63 \<and>
     length (pp_token_covenant_id p) = 32 \<and> length (pp_lp_token_covenant_id p) = 32 \<and>
     length (pp_creator p) = 32"

definition pool_build :: "bytes \<Rightarrow> nat list \<Rightarrow> bytes \<Rightarrow> pool_params \<Rightarrow> bool" where
  "pool_build pool_fixture creator_slots program p \<longleftrightarrow>
     pool_params_wf p \<and>
     (\<exists>tpl. program = pool_state p @ tpl \<and> length tpl = length pool_fixture \<and>
        same_build creator_slots pool_fixture tpl \<and> creator_slots \<noteq> [] \<and>
        (\<forall>i \<in> set creator_slots. snd (push_units tpl ! i) = pp_creator p))"

lemma le_i64_8:
  assumes "length bs = 8"
  shows "le_i64 bs = Some v \<longleftrightarrow> bs = i64_le v \<and> 0 \<le> v \<and> v < 2 ^ 63"
proof -
  have ne: "bs \<noteq> []" using assms by auto
  have "bs = i64_le (i64_of_le bs)" if "0 \<le> i64_of_le bs"
  proof -
    have e: "i64_of_le bs = int (le_nat bs)" and l: "le_nat bs < 2 ^ 63"
      using i64_of_le_nonneg [OF that assms] by auto
    have "nat (i64_of_le bs mod 2 ^ 64) = le_nat bs" unfolding e using l by simp
    then show ?thesis using nat_le_le_nat [of bs] assms by (simp add: i64_le_def)
  qed
  then show ?thesis
    using assms ne i64_of_le_range [OF assms] i64_of_le_i64_le [of v]
    by (auto simp: le_i64_def Let_def in_i64_def)
qed

lemma length_pool_state: "pool_params_wf p \<Longrightarrow> length (pool_state p) = 94"
  by (simp add: pool_state_def pool_params_wf_def)

lemma same_build_count: "same_build slots fx program \<Longrightarrow> length (push_units program) = length (push_units fx)"
  unfolding same_build_def segments_def by (metis length_map length_split_units)

lemma pool_state_reads:
  assumes "pool_params_wf p" and "program = pool_state p @ tpl"
  shows "program ! 0 = 0x6b" "program ! 1 = 0x08" "program ! 10 = 0x08" "program ! 19 = 0x20"
    "program ! 52 = 0x08" "program ! 61 = 0x20"
    "slice program 2 10 = i64_le (pp_kas_reserve_units p)" "slice program 11 19 = i64_le (pp_token_reserve p)"
    "slice program 20 52 = pp_token_covenant_id p" "slice program 53 61 = i64_le (pp_shares p)"
    "slice program 62 94 = pp_lp_token_covenant_id p" "drop 94 program = tpl"
  using assms length_pool_state [OF assms(1)]
  by (simp_all add: pool_params_wf_def pool_state_def slice_def nth_append nth_Cons')

lemma pool_program_split:
  assumes "94 \<le> length program" and "program ! 0 = 0x6b" "program ! 1 = 0x08" "program ! 10 = 0x08"
    "program ! 19 = 0x20" "program ! 52 = 0x08" "program ! 61 = 0x20"
  shows "program = [0x6b] @ [0x08] @ slice program 2 10 @ [0x08] @ slice program 11 19 @ [0x20] @
    slice program 20 52 @ [0x08] @ slice program 53 61 @ [0x20] @ slice program 62 94 @ drop 94 program"
proof -
  have one: "slice program i j = [program ! i]" if "j = Suc i" "i < 94" for i j
    using that assms(1) by (simp add: slice_single)
  have marks: "slice program 0 1 = [0x6b]" "slice program 1 2 = [0x08]" "slice program 10 11 = [0x08]"
    "slice program 19 20 = [0x20]" "slice program 52 53 = [0x08]" "slice program 61 62 = [0x20]"
    using assms(2-7) by (subst one; simp)+
  have "program = slice program 0 1 @ slice program 1 2 @ slice program 2 10 @ slice program 10 11 @
    slice program 11 19 @ slice program 19 20 @ slice program 20 52 @ slice program 52 53 @
    slice program 53 61 @ slice program 61 62 @ slice program 62 94 @ drop 94 program"
    using slice_append_drop [of 0 1 program] by (simp add: slice_append_drop del: slice_0)
  then show ?thesis unfolding marks .
qed

text \<open>C28. A pool is recognised exactly when its program is the serialised state block followed by the
  pinned template with one creator at every creator slot, and the parameters are the ones the state
  block serialises.\<close>

theorem match_pool_build_iff:
  "match_pool_build program pool_fixture creator_slots = Some p \<longleftrightarrow>
     pool_build pool_fixture creator_slots program p"
proof
  assume m: "match_pool_build program pool_fixture creator_slots = Some p"
  note lk = lockstep_same_build [of "drop 94 program" pool_fixture creator_slots]
  have len: "length program = 94 + length pool_fixture"
    using m by (auto simp: match_pool_build_def POOL_STATE_LEN_def dest!: early_return)
  have marks: "program ! 0 = 0x6b" "program ! 1 = 0x08" "program ! 10 = 0x08" "program ! 19 = 0x20"
      "program ! 52 = 0x08" "program ! 61 = 0x20"
    using m by (auto simp: match_pool_build_def dest!: early_return)
  have vals: "le_i64 (slice program 2 10) = Some (pp_kas_reserve_units p)"
      "le_i64 (slice program 11 19) = Some (pp_token_reserve p)"
      "array32 (slice program 20 52) = Some (pp_token_covenant_id p)"
      "le_i64 (slice program 53 61) = Some (pp_shares p)"
      "array32 (slice program 62 94) = Some (pp_lp_token_covenant_id p)"
      "agreed_bytes (push_units (drop 94 program)) creator_slots = Some (pp_creator p)"
      "array32 (pp_creator p) = Some (pp_creator p)"
      "same_build creator_slots pool_fixture (drop 94 program)"
    using m lk by (auto simp: match_pool_build_def Let_def POOL_STATE_LEN_def bind_eq_Some_conv array32_Some
        dest!: early_return)
  have wf: "pool_params_wf p" using vals len by (auto simp: pool_params_wf_def le_i64_8 array32_Some)
  have "program = pool_state p @ drop 94 program"
    using pool_program_split [OF _ marks] vals len by (simp add: pool_state_def le_i64_8 array32_Some)
  then show "pool_build pool_fixture creator_slots program p"
    unfolding pool_build_def using wf vals(6-8) len by (intro conjI exI [of _ "drop 94 program"])
      (auto simp: agreed_bytes_Some)
next
  assume "pool_build pool_fixture creator_slots program p"
  then obtain tpl where wf: "pool_params_wf p" and s: "program = pool_state p @ tpl"
    and b: "length tpl = length pool_fixture" "same_build creator_slots pool_fixture tpl" "creator_slots \<noteq> []"
      "\<forall>i \<in> set creator_slots. snd (push_units tpl ! i) = pp_creator p"
    unfolding pool_build_def by blast
  note r = pool_state_reads [OF wf s]
  have "agreed_bytes (push_units tpl) creator_slots = Some (pp_creator p)" using b by (simp add: agreed_bytes_Some)
  moreover have "le_i64 (i64_le (pp_kas_reserve_units p)) = Some (pp_kas_reserve_units p)"
    "le_i64 (i64_le (pp_token_reserve p)) = Some (pp_token_reserve p)"
    "le_i64 (i64_le (pp_shares p)) = Some (pp_shares p)"
    using wf by (simp_all add: le_i64_8 pool_params_wf_def)
  ultimately show "match_pool_build program pool_fixture creator_slots = Some p"
    unfolding match_pool_build_def POOL_STATE_LEN_def r Let_def
    using wf b lockstep_same_build [OF same_build_count [OF b(2)], of creator_slots] same_build_count [OF b(2)]
      length_pool_state [OF wf]
    by (simp add: s array32_def pool_params_wf_def)
qed

section \<open>Fees and phases\<close>

lemmas pin_tables = EXACT_PINS_def SKELETON_PINS_def KRON_CURVE_V1_PIN_def KRON_CURVE_V2_PIN_def KCM_CURVE_V1_PIN_def

lemma fee_model_table:
  "fee_model sk =
     (if sk \<in> {''KRON curve v1'', ''KRON curve v2'', ''curve tn-b'', ''KRON curve v3''} then (0, 125)
      else if sk \<in> {''KRON pool v1'', ''KRON pool v2'', ''KRON pool v3'', ''KRON pool tn-a''} then (20, 20)
      else (0, 0))"
  by (simp add: fee_model_def fee_model_in_def pin_tables CURVE_FEE_GROWTH_BPS_def eq_commute [of _ sk])

lemma phase_table:
  "phase_for_skeleton sk =
     (if sk \<in> {''KRON curve v1'', ''KRON curve v2'', ''curve tn-b'', ''KRON curve v3''} then ''bonding''
      else if sk \<in> {''KRON pool v1'', ''KRON pool v2'', ''KRON pool v3'', ''KRON pool tn-a''} then ''graduated''
      else ''unknown'')"
  by (simp add: phase_for_skeleton_def phase_for_skeleton_in_def pin_tables eq_commute [of _ sk])

lemma matched_table:
  "is_matched_skeleton sk \<longleftrightarrow>
     sk \<in> {''KRON curve v1'', ''KRON curve v2'', ''curve tn-b'', ''KRON curve v3''} \<or>
     sk \<in> {''KRON pool v1'', ''KRON pool v2'', ''KRON pool v3'', ''KRON pool tn-a''}"
  by (simp only: is_matched_skeleton_def MATCHED_SKELETONS_def EXACT_PINS_def list.set bex_simps(5) bex_empty
      insert_iff empty_iff simp_thms disj_ac)

text \<open>The tables agree on which tags are recognised: a tag licenses publishing exactly when a market
  phase is known for it, and exactly when it has a fee model.\<close>

theorem matched_iff_phase_known:
  "(is_matched_skeleton sk \<longleftrightarrow> phase_for_skeleton sk \<noteq> ''unknown'') \<and>
   (is_matched_skeleton sk \<longleftrightarrow> fee_model sk \<noteq> (0, 0))"
  unfolding matched_table phase_table fee_model_table by simp

end
