(* ===== verification/Market_Price.thy ===== *)
theory Market_Price
  imports Market_Match Complex_Main
begin

text \<open>
  \<open>crates/kascov-core/src/market.rs\<close>, the publishing gates: the price bracket, the constant-product
  replay, and the verification of one market covenant against its recorded trades.
\<close>

section \<open>The bracket and the invariant\<close>

definition KAS_QUANTUM_SOMPI :: int where "KAS_QUANTUM_SOMPI = 1000000"
definition INVARIANT_MAX_GROWTH_PPM :: int where "INVARIANT_MAX_GROWTH_PPM = 10"
definition MIN_EXERCISED_TRADES :: int where "MIN_EXERCISED_TRADES = 3"

definition v_sompi :: "curve_params \<Rightarrow> int" where
  "v_sompi c = cp_v_kas_units c * KAS_QUANTUM_SOMPI"

definition bracket_holds ::
  "int \<Rightarrow> int \<Rightarrow> int \<Rightarrow> int \<Rightarrow> int \<Rightarrow> int \<Rightarrow> int \<Rightarrow> bool \<Rightarrow> int \<Rightarrow> bool" where
  "bracket_holds v k0 k1 b0 b1 quote base is_buy fee_in_bps =
     (if base \<le> 0 \<or> quote \<le> 0 \<or> b0 \<le> 0 \<or> b1 \<le> 0 then False
      else
        let q = KAS_QUANTUM_SOMPI + rust_div (quote * fee_in_bps) 10000;
            lo_num = (if is_buy then v + k0 - q else v + k1 - q);
            lo_den = (if is_buy then b0 else b1);
            hi_num = (if is_buy then v + k1 + q else v + k0 + q);
            hi_den = (if is_buy then b1 else b0)
        in
        case (checked_mul lo_num base, checked_mul quote lo_den, checked_mul hi_num base) of
          (Some lo, Some px, Some hi) \<Rightarrow>
            if lo > px then False
            else (case checked_mul quote hi_den of None \<Rightarrow> False | Some px_hi \<Rightarrow> px_hi \<le> hi)
        | _ \<Rightarrow> False)"

definition invariant_holds :: "int \<Rightarrow> int \<Rightarrow> int \<Rightarrow> int \<Rightarrow> int \<Rightarrow> int \<Rightarrow> int \<Rightarrow> bool" where
  "invariant_holds v k0 k1 b0 b1 quote fee_in_bps =
     (case (checked_mul (v + k0) b0, checked_mul (v + k1) b1) of
        (Some before, Some after) \<Rightarrow>
          if after < before then False
          else (case checked_sub after before of
            None \<Rightarrow> False
          | Some growth \<Rightarrow>
              if fee_in_bps = 0 then
                (case (checked_mul growth 1000000, checked_mul before INVARIANT_MAX_GROWTH_PPM) of
                   (Some g, Some cap) \<Rightarrow> g \<le> cap
                 | _ \<Rightarrow> False)
              else
                (case checked_mul (rust_div (quote * fee_in_bps) 10000 + KAS_QUANTUM_SOMPI) (max b0 b1) of
                   None \<Rightarrow> False
                 | Some cap \<Rightarrow> growth \<le> cap))
      | _ \<Rightarrow> False)"

section \<open>Matching a revealed program\<close>

record matched_build =
  mb_skeleton :: string
  mb_token_covenant_id :: bytes
  mb_v_kas_units :: int
  mb_token_reserve :: int
  mb_graduation_kas_sompi :: "int option"
  mb_creator :: bytes
  mb_kas_reserve_sompi :: "int option"
  mb_lp_token_covenant_id :: "bytes option"
  mb_shares :: "int option"

definition matched_curve :: "string \<Rightarrow> curve_params \<Rightarrow> matched_build" where
  "matched_curve name c =
     \<lparr>mb_skeleton = name, mb_token_covenant_id = cp_token_covenant_id c,
      mb_v_kas_units = cp_v_kas_units c, mb_token_reserve = cp_token_reserve c,
      mb_graduation_kas_sompi = Some (cp_graduation_kas_sompi c), mb_creator = cp_creator_fee_owner c,
      mb_kas_reserve_sompi = None, mb_lp_token_covenant_id = None, mb_shares = None\<rparr>"

definition matched_pool :: "string \<Rightarrow> pool_params \<Rightarrow> matched_build" where
  "matched_pool name p =
     \<lparr>mb_skeleton = name, mb_token_covenant_id = pp_token_covenant_id p, mb_v_kas_units = 0,
      mb_token_reserve = pp_token_reserve p, mb_graduation_kas_sompi = None, mb_creator = pp_creator p,
      mb_kas_reserve_sompi = i64_try_from (pp_kas_reserve_units p * 1000000),
      mb_lp_token_covenant_id = Some (pp_lp_token_covenant_id p), mb_shares = Some (pp_shares p)\<rparr>"

definition matched_pin :: "exact_pin \<Rightarrow> matched_build" where
  "matched_pin pin =
     (case ep_params pin of
        PinCurve c \<Rightarrow> matched_curve (ep_skeleton pin) c
      | PinPool p \<Rightarrow> matched_pool (ep_skeleton pin) p)"

text \<open>The chain of \<open>or_else\<close>: the first matcher that answers.\<close>

definition match_program :: "externals \<Rightarrow> bytes \<Rightarrow> bytes \<Rightarrow> matched_build option" where
  "match_program X program program_hash =
     find_map (\<lambda>m. m)
       [map_option matched_pin (find_exact_pin EXACT_PINS program_hash),
        find_map (\<lambda>sk. map_option (matched_curve (sp_name sk)) (match_skeleton X sk program)) SKELETON_PINS,
        map_option (matched_curve ''KRON curve v3'') (match_kron_curve_v3 X program),
        map_option (matched_pool ''KRON pool v1'') (match_kron_pool X program),
        map_option (matched_pool ''KRON pool tn-a'') (match_kron_pool_tn_a X program),
        map_option (matched_pool ''KRON pool v2'') (match_kron_pool_v2 X program),
        map_option (matched_pool ''KRON pool v3'') (match_kron_pool_v3 X program)]"

section \<open>Verifying one market covenant\<close>

text \<open>The newest eight spends, and the first that reveals its program.\<close>

definition newest_spends :: "db \<Rightarrow> bytes \<Rightarrow> utxo_row list" where
  "newest_spends d covenant_id =
     take 8 (sort_key (\<lambda>u. - int (u_created_daa u))
       (filter (\<lambda>u. u_covenant_id u = covenant_id \<and> u_spent_sig u \<noteq> None) (d_utxos d)))"

definition revealed_program :: "externals \<Rightarrow> db \<Rightarrow> bytes \<Rightarrow> bytes option" where
  "revealed_program X d covenant_id =
     find_map (\<lambda>u. Option.bind (u_spent_sig u) (p2sh_reveal X (u_spk_script u)))
       (newest_spends d covenant_id)"

text \<open>The trades of the named token on this market, in sequence order.\<close>

definition market_trades :: "db \<Rightarrow> bytes \<Rightarrow> bytes \<Rightarrow> trade_row list" where
  "market_trades d token_id covenant_id =
     sort_key tr_seq (filter (\<lambda>t. tr_token_id t = token_id \<and> tr_market t = covenant_id) (d_trades d))"

definition trade_bracket :: "int \<Rightarrow> int \<Rightarrow> trade_row \<Rightarrow> bool" where
  "trade_bracket v fee t \<longleftrightarrow>
     bracket_holds v (tr_kas_before t) (tr_kas_after t) (tr_base_before t) (tr_base_after t)
       (tr_quote_sompi t) (tr_base_amount t) (tr_side t = ''buy'') fee"

definition trade_invariant :: "int \<Rightarrow> int \<Rightarrow> trade_row \<Rightarrow> bool" where
  "trade_invariant v fee t \<longleftrightarrow>
     invariant_holds v (tr_kas_before t) (tr_kas_after t) (tr_base_before t) (tr_base_after t)
       (tr_quote_sompi t) fee"

text \<open>The replay loop: trades exercised, whether every one satisfied the formula, and the last
  sequence number looked at.\<close>

fun replay :: "int \<Rightarrow> int \<Rightarrow> int \<Rightarrow> trade_row list \<Rightarrow> int \<Rightarrow> int \<Rightarrow> int \<times> bool \<times> int" where
  "replay v bracket_fee growth_fee [] exercised checked = (exercised, True, checked)"
| "replay v bracket_fee growth_fee (t # ts) exercised checked =
     (let checked = int (tr_seq t) in
      if tr_co_covenants t > 0 then replay v bracket_fee growth_fee ts exercised checked
      else if \<not> trade_bracket v bracket_fee t then replay v bracket_fee growth_fee ts exercised checked
      else if \<not> trade_invariant v growth_fee t then (exercised, False, checked)
      else replay v bracket_fee growth_fee ts (exercised + 1) checked)"

definition unmatched_row :: "bytes \<Rightarrow> bytes \<Rightarrow> bytes \<Rightarrow> market_row" where
  "unmatched_row covenant_id program_hash program =
     \<lparr>mp_covenant_id = covenant_id, mp_program_hash = program_hash, mp_skeleton = unmatched_tag,
      mp_v_kas_units = 0, mp_token_reserve = None, mp_token_covenant_id = None,
      mp_graduation_kas_sompi = None, mp_fee_owners_json = None, mp_kas_reserve_sompi = None,
      mp_lp_token_covenant_id = None, mp_shares = None, mp_checked_through_seq = - 1,
      mp_invariant_trades = 0, mp_invariant_ok = 0, mp_exercised_trades = 0,
      mp_program_len = Some (int (length program)),
      mp_program_pushes = Some (int (length (push_units program)))\<rparr>"

definition matched_row ::
  "externals \<Rightarrow> db \<Rightarrow> bytes \<Rightarrow> bytes \<Rightarrow> bytes \<Rightarrow> matched_build \<Rightarrow> market_row" where
  "matched_row X d covenant_id program_hash program p =
     (let v = mb_v_kas_units p * KAS_QUANTUM_SOMPI;
          (bracket_fee, growth_fee) = fee_model (mb_skeleton p);
          (exercised, ok, checked) =
            replay v bracket_fee growth_fee (market_trades d (mb_token_covenant_id p) covenant_id) 0 (- 1)
      in
      \<lparr>mp_covenant_id = covenant_id, mp_program_hash = program_hash, mp_skeleton = mb_skeleton p,
       mp_v_kas_units = mb_v_kas_units p, mp_token_reserve = Some (mb_token_reserve p),
       mp_token_covenant_id = Some (mb_token_covenant_id p),
       mp_graduation_kas_sompi = mb_graduation_kas_sompi p,
       mp_fee_owners_json = Some [(''creator_fee_owner'', hex_encode X (mb_creator p))],
       mp_kas_reserve_sompi = mb_kas_reserve_sompi p,
       mp_lp_token_covenant_id = mb_lp_token_covenant_id p, mp_shares = mb_shares p,
       mp_checked_through_seq = checked, mp_invariant_trades = exercised,
       mp_invariant_ok = (if ok then 1 else 0), mp_exercised_trades = exercised,
       mp_program_len = Some (int (length program)),
       mp_program_pushes = Some (int (length (push_units program)))\<rparr>)"

text \<open>The skip gate: this matcher already gave up on these bytes, and the row is complete.\<close>

definition given_up :: "market_row option \<Rightarrow> bytes \<Rightarrow> bool" where
  "given_up known program_hash =
     (case known of
        Some r \<Rightarrow>
          if mp_program_hash r = program_hash \<and> mp_skeleton r = ''KRON curve v1'' then False
          else mp_program_hash r = program_hash \<and> mp_skeleton r = unmatched_tag \<and> mp_program_len r \<noteq> None
      | None \<Rightarrow> False)"

definition derive_market_program :: "externals \<Rightarrow> bytes \<Rightarrow> db \<Rightarrow> db" where
  "derive_market_program X covenant_id d =
     (case revealed_program X d covenant_id of
        None \<Rightarrow> d
      | Some program \<Rightarrow>
          let program_hash = blake2b_256 X program in
          if given_up (row_by mp_covenant_id covenant_id (d_markets d)) program_hash then d
          else case match_program X program program_hash of
            None \<Rightarrow>
              d\<lparr>d_markets := upsert mp_covenant_id (unmatched_row covenant_id program_hash program) (d_markets d)\<rparr>
          | Some p \<Rightarrow>
              d\<lparr>d_markets := upsert mp_covenant_id (matched_row X d covenant_id program_hash program p)
                (d_markets d)\<rparr>)"

definition rederive_market_programs :: "externals \<Rightarrow> bytes list \<Rightarrow> db \<Rightarrow> db" where
  "rederive_market_programs X covenants d = fold (derive_market_program X) covenants d"

section \<open>What the gates decide\<close>

text \<open>The slack of the bracket: one quantum and the declared fee on the quote.\<close>

definition slack :: "int \<Rightarrow> int \<Rightarrow> int" where
  "slack quote fee_in_bps = KAS_QUANTUM_SOMPI + rust_div (quote * fee_in_bps) 10000"

text \<open>The four products of the bracket fit an \<open>i128\<close>.\<close>

definition bracket_fits :: "int \<Rightarrow> int \<Rightarrow> int \<Rightarrow> int \<Rightarrow> int \<Rightarrow> int \<Rightarrow> int \<Rightarrow> bool \<Rightarrow> int \<Rightarrow> bool" where
  "bracket_fits v k0 k1 b0 b1 quote base is_buy fee_in_bps \<longleftrightarrow>
     in_i128 ((v + (if is_buy then k0 else k1) - slack quote fee_in_bps) * base) \<and>
     in_i128 ((v + (if is_buy then k1 else k0) + slack quote fee_in_bps) * base) \<and>
     in_i128 (quote * b0) \<and> in_i128 (quote * b1)"

lemma bracket_iff:
  "bracket_holds v k0 k1 b0 b1 quote base is_buy fee \<longleftrightarrow>
     0 < base \<and> 0 < quote \<and> 0 < b0 \<and> 0 < b1 \<and> bracket_fits v k0 k1 b0 b1 quote base is_buy fee \<and>
     (v + (if is_buy then k0 else k1) - slack quote fee) * base \<le> quote * (if is_buy then b0 else b1) \<and>
     quote * (if is_buy then b1 else b0) \<le> (v + (if is_buy then k1 else k0) + slack quote fee) * base"
  by (auto simp: bracket_holds_def bracket_fits_def slack_def Let_def checked_mul_def not_le not_less)

text \<open>A trade whose facts balance: what the market gained in KAS it gave in tokens.\<close>

definition balanced :: "int \<Rightarrow> int \<Rightarrow> int \<Rightarrow> int \<Rightarrow> int \<Rightarrow> int \<Rightarrow> bool \<Rightarrow> bool" where
  "balanced k0 k1 b0 b1 quote base is_buy \<longleftrightarrow>
     (if is_buy then k1 = k0 + quote \<and> b1 = b0 - base else k1 = k0 - quote \<and> b1 = b0 + base)"

text \<open>C29. The bracket gate is a bound on the reserve product: for a trade whose facts balance, the
  executed price lies between the two marginal prices, with the slack, exactly when the product of
  the reserves moved by at most the quote and the slack times the tokens traded. It holds for both
  sides of the market.\<close>

theorem bracket_iff_growth:
  assumes "balanced k0 k1 b0 b1 quote base is_buy"
    and "0 < base" and "0 < quote" and "0 < b0" and "0 < b1"
    and "bracket_fits v k0 k1 b0 b1 quote base is_buy fee"
  shows "bracket_holds v k0 k1 b0 b1 quote base is_buy fee \<longleftrightarrow>
    \<bar>(v + k1) * b1 - (v + k0) * b0\<bar> \<le> (quote + slack quote fee) * base"
proof -
  define s where "s = slack quote fee"
  show ?thesis
  proof (cases is_buy)
    case True
    with assms(1) have k: "k1 = k0 + quote" "b1 = b0 - base" by (simp_all add: balanced_def)
    have g: "(v + k1) * b1 - (v + k0) * b0 = quote * b1 - (v + k0) * base" unfolding k by algebra
    have "(v + k0 - s) * base \<le> quote * b0 \<longleftrightarrow> - ((quote + s) * base) \<le> (v + k1) * b1 - (v + k0) * b0"
      unfolding g unfolding k by (simp add: algebra_simps)
    moreover have "quote * b1 \<le> (v + k1 + s) * base \<longleftrightarrow> (v + k1) * b1 - (v + k0) * b0 \<le> (quote + s) * base"
      unfolding g unfolding k by (simp add: algebra_simps)
    ultimately show ?thesis
      using True assms(2-6) unfolding bracket_iff s_def [symmetric] by (auto simp: abs_le_iff)
  next
    case False
    with assms(1) have k: "k1 = k0 - quote" "b1 = b0 + base" by (simp_all add: balanced_def)
    have g: "(v + k1) * b1 - (v + k0) * b0 = (v + k0) * base - quote * b1" unfolding k by algebra
    have "(v + k1 - s) * base \<le> quote * b1 \<longleftrightarrow> (v + k1) * b1 - (v + k0) * b0 \<le> (quote + s) * base"
      unfolding g unfolding k by (simp add: algebra_simps)
    moreover have "quote * b0 \<le> (v + k0 + s) * base \<longleftrightarrow> - ((quote + s) * base) \<le> (v + k1) * b1 - (v + k0) * b0"
      unfolding g unfolding k by (simp add: algebra_simps)
    ultimately show ?thesis
      using False assms(2-6) unfolding bracket_iff s_def [symmetric] by (auto simp: abs_le_iff)
  qed
qed

lemma bracket_iff_growth_witness:
  "bracket_holds 30000000000 0 1000000000 1000000 967742 1000000000 32258 True 0 \<longleftrightarrow>
    \<bar>(30000000000 + 1000000000) * 967742 - (30000000000 + 0) * (1000000::int)\<bar>
      \<le> (1000000000 + slack 1000000000 0) * 32258"
  by (rule bracket_iff_growth)
    (simp_all add: balanced_def bracket_fits_def slack_def KAS_QUANTUM_SOMPI_def rust_div_def in_i128_def)

text \<open>The anti-donation gate: whatever a trade's facts are, a bracket that holds bounds the executed
  price by the marginal prices the program computes before and after the trade, with the slack.\<close>

theorem bracket_price:
  assumes "bracket_holds v k0 k1 b0 b1 quote base is_buy fee"
  shows "(of_int (v + (if is_buy then k0 else k1) - slack quote fee) :: rat) / of_int (if is_buy then b0 else b1)
      \<le> of_int quote / of_int base \<and>
    (of_int quote :: rat) / of_int base
      \<le> of_int (v + (if is_buy then k1 else k0) + slack quote fee) / of_int (if is_buy then b1 else b0)"
proof -
  define lo hi dl dh where "lo = v + (if is_buy then k0 else k1) - slack quote fee"
    and "hi = v + (if is_buy then k1 else k0) + slack quote fee"
    and "dl = (if is_buy then b0 else b1)" and "dh = (if is_buy then b1 else b0)"
  have p: "0 < base" "0 < dl" "0 < dh" and b: "lo * base \<le> quote * dl" "quote * dh \<le> hi * base"
    using assms unfolding bracket_iff lo_def hi_def dl_def dh_def by auto
  have "(of_int (lo * base) :: rat) \<le> of_int (quote * dl)" "(of_int (quote * dh) :: rat) \<le> of_int (hi * base)"
    using b by (simp_all only: of_int_le_iff)
  then show ?thesis
    unfolding lo_def [symmetric] hi_def [symmetric] dl_def [symmetric] dh_def [symmetric]
    using p by (simp add: field_simps)
qed

lemma bracket_price_witness:
  "(of_int (30000000000 + 0 - slack 1000000000 0) :: rat) / of_int 1000000 \<le> of_int 1000000000 / of_int 32258"
proof -
  have "bracket_holds 30000000000 0 1000000000 1000000 967742 1000000000 32258 True 0"
    by (simp add: bracket_holds_def KAS_QUANTUM_SOMPI_def rust_div_def checked_mul_def in_i128_def)
  from bracket_price [OF this] show ?thesis by simp
qed

lemma rust_div_bounds: "0 \<le> fee \<Longrightarrow> fee \<le> 125 \<Longrightarrow> in_i64 quote \<Longrightarrow> \<bar>rust_div (quote * fee) 10000\<bar> < 2 ^ 63"
proof -
  assume f: "0 \<le> fee" "fee \<le> 125" and q: "in_i64 quote"
  have "\<bar>quote * fee\<bar> \<le> 2 ^ 63 * 125"
    unfolding abs_mult using f q by (intro mult_mono) (auto simp: in_i64_def)
  then have "\<bar>quote * fee\<bar> div 10000 \<le> (2 ^ 63 * 125) div 10000" by (intro zdiv_mono1) simp_all
  moreover have "0 \<le> \<bar>quote * fee\<bar> div 10000" by (simp add: pos_imp_zdiv_nonneg_iff)
  ultimately show ?thesis by (auto simp: rust_div_def abs_mult sgn_if)
qed

text \<open>The arithmetic of both gates that is not checked in the code cannot overflow: for the 64-bit
  values of a stored trade and program, and the fees of the fee model, every sum and product the
  code forms without a check fits an \<open>i128\<close>.\<close>

theorem gates_unchecked_in_range:
  assumes "in_i64 units" and "in_i64 k" and "in_i64 quote"
    and "fee = fst (fee_model sk) \<or> fee = snd (fee_model sk)"
  shows "in_i128 (units * KAS_QUANTUM_SOMPI) \<and> in_i128 (quote * fee) \<and> in_i128 (slack quote fee) \<and>
    in_i128 (units * KAS_QUANTUM_SOMPI + k) \<and>
    in_i128 (units * KAS_QUANTUM_SOMPI + k - slack quote fee) \<and>
    in_i128 (units * KAS_QUANTUM_SOMPI + k + slack quote fee)"
proof -
  have fee: "0 \<le> fee" "fee \<le> 125" using assms(4) by (auto simp: fee_model_table split: if_splits)
  have "\<bar>quote * fee\<bar> \<le> 2 ^ 63 * 125"
    unfolding abs_mult using fee assms(3) by (intro mult_mono) (auto simp: in_i64_def)
  moreover note rust_div_bounds [OF fee assms(3)]
  ultimately show ?thesis
    using assms(1,2) unfolding slack_def KAS_QUANTUM_SOMPI_def in_i128_def in_i64_def
    by (simp add: abs_less_iff abs_le_iff)
qed

lemma gates_unchecked_in_range_witness:
  "in_i128 ((2 ^ 63 - 1) * KAS_QUANTUM_SOMPI + (2 ^ 63 - 1) + slack (2 ^ 63 - 1) 20)"
proof -
  have "20 = fst (fee_model ''KRON pool v1'')" by (simp add: fee_model_table)
  then show ?thesis
    using gates_unchecked_in_range [of "2 ^ 63 - 1" "2 ^ 63 - 1" "2 ^ 63 - 1" 20 "''KRON pool v1''"]
    by (simp add: in_i64_def)
qed

section \<open>What verification guarantees\<close>

text \<open>The trades a program is judged by: no other covenant moved, and the price was in the bracket.\<close>

definition judged_trades :: "int \<Rightarrow> int \<Rightarrow> trade_row list \<Rightarrow> trade_row list" where
  "judged_trades v bracket_fee ts = filter (\<lambda>t. tr_co_covenants t \<le> 0 \<and> trade_bracket v bracket_fee t) ts"

lemma replay_judged:
  "replay v bf gf ts ex ck = (ex', ok, ck') \<Longrightarrow>
     ok = list_all (trade_invariant v gf) (judged_trades v bf ts) \<and>
     (ok \<longrightarrow> ex' = ex + int (length (judged_trades v bf ts)))"
proof (induction v bf gf ts ex ck rule: replay.induct)
  case (2 v bf gf t ts ex ck)
  consider "tr_co_covenants t > 0" | "\<not> tr_co_covenants t > 0" "\<not> trade_bracket v bf t"
    | "\<not> tr_co_covenants t > 0" "trade_bracket v bf t" "\<not> trade_invariant v gf t"
    | "\<not> tr_co_covenants t > 0" "trade_bracket v bf t" "trade_invariant v gf t" by blast
  then show ?case
    by cases (use 2 in \<open>auto simp: judged_trades_def Let_def\<close>)
qed (simp add: judged_trades_def)

lemma matched_builds_named: "mb_skeleton (matched_curve n c) = n" "mb_skeleton (matched_pool n p) = n"
  by (simp_all add: matched_curve_def matched_pool_def)

lemma matched_names:
  "is_matched_skeleton ''KRON curve v1''" "is_matched_skeleton ''KRON curve v2''"
  "is_matched_skeleton ''curve tn-b''" "is_matched_skeleton ''KRON curve v3''"
  "is_matched_skeleton ''KRON pool v1''" "is_matched_skeleton ''KRON pool v2''"
  "is_matched_skeleton ''KRON pool v3''" "is_matched_skeleton ''KRON pool tn-a''"
  by (simp_all add: matched_table)

lemma pin_names: "sk \<in> set SKELETON_PINS \<Longrightarrow> is_matched_skeleton (sp_name sk)"
  unfolding SKELETON_PINS_def
  by (auto simp: KRON_CURVE_V1_PIN_def KRON_CURVE_V2_PIN_def KCM_CURVE_V1_PIN_def matched_names)

lemma Some_eq_map: "Some y = map_option f x \<longleftrightarrow> (\<exists>z. x = Some z \<and> y = f z)"
  by (cases x) auto

lemma match_program_named:
  assumes "match_program X program h = Some p"
  shows "is_matched_skeleton (mb_skeleton p)"
proof -
  have "is_matched_skeleton (mb_skeleton q)"
    if "find_map (\<lambda>sk. map_option (matched_curve (sp_name sk)) (match_skeleton X sk program)) SKELETON_PINS = Some q" for q
    using find_map_Some [OF that] pin_names by (auto simp: matched_builds_named)
  then show ?thesis
    using find_map_Some [OF assms [unfolded match_program_def]]
    by (auto simp: EXACT_PINS_def find_exact_pin_def matched_builds_named matched_names Some_eq_map)
qed

lemma unmatched_not_matched: "\<not> is_matched_skeleton unmatched_tag"
  by (simp add: matched_table unmatched_tag_def MATCHER_VERSION_def)

lemma given_up_unmatched: "given_up (Some r) h \<Longrightarrow> mp_skeleton r = unmatched_tag"
  unfolding given_up_def option.case by (metis (full_types))

text \<open>C26. A recognised market row is earned: if verifying a covenant whose newest reveal is
  \<open>program\<close> leaves a row with a recognised tag, the program matched that build, its digest is
  the one stored, the row is marked sound exactly when every judged trade of the token the program
  names obeys the program's own formula, and then the number of exercised trades is the number of
  judged trades.\<close>

theorem derive_market_program_sound:
  assumes "revealed_program X d cid = Some program"
    and "row_by mp_covenant_id cid (d_markets (derive_market_program X cid d)) = Some r"
    and "is_matched_skeleton (mp_skeleton r)"
  shows "\<exists>p. match_program X program (blake2b X program) = Some p \<and> mp_skeleton r = mb_skeleton p \<and>
    mp_program_hash r = blake2b X program \<and> mp_token_covenant_id r = Some (mb_token_covenant_id p) \<and>
    mp_v_kas_units r = mb_v_kas_units p \<and>
    (let v = mb_v_kas_units p * KAS_QUANTUM_SOMPI;
         js = judged_trades v (fst (fee_model (mb_skeleton p))) (market_trades d (mb_token_covenant_id p) cid) in
     (mp_invariant_ok r = 1) = list_all (trade_invariant v (snd (fee_model (mb_skeleton p)))) js \<and>
     (mp_invariant_ok r = 1 \<longrightarrow> mp_exercised_trades r = int (length js)))"
proof -
  have nogive: "\<not> given_up (row_by mp_covenant_id cid (d_markets d)) (blake2b X program)"
  proof
    assume g: "given_up (row_by mp_covenant_id cid (d_markets d)) (blake2b X program)"
    then have "row_by mp_covenant_id cid (d_markets d) = Some r"
      using assms(1,2) by (simp add: derive_market_program_def blake2b_256_def)
    with g have "mp_skeleton r = unmatched_tag" using given_up_unmatched by simp
    with assms(3) unmatched_not_matched show False by simp
  qed
  show ?thesis
  proof (cases "match_program X program (blake2b X program)")
    case None
    with assms nogive have "mp_skeleton r = unmatched_tag"
      by (simp add: derive_market_program_def blake2b_256_def row_by_upsert unmatched_row_def)
         (auto simp: unmatched_row_def)
    with assms(3) unmatched_not_matched show ?thesis by simp
  next
    case (Some p)
    have r: "r = matched_row X d cid (blake2b X program) program p"
      using assms(1,2) nogive Some
      by (simp add: derive_market_program_def blake2b_256_def row_by_upsert matched_row_def Let_def split_beta)
    obtain ex ok ck where rp: "replay (mb_v_kas_units p * KAS_QUANTUM_SOMPI) (fst (fee_model (mb_skeleton p)))
        (snd (fee_model (mb_skeleton p))) (market_trades d (mb_token_covenant_id p) cid) 0 (- 1) = (ex, ok, ck)"
      by (metis surj_pair)
    show ?thesis
      using replay_judged [OF rp] rp unfolding r matched_row_def Let_def split_beta
      by (intro exI [of _ p]) (simp add: Some)
  qed
qed

lemma derive_market_program_settles:
  "derive_market_program X cid (derive_market_program X cid d) = derive_market_program X cid d"
proof -
  have rev: "revealed_program X (d\<lparr>d_markets := m\<rparr>) cid = revealed_program X d cid" for m
    by (simp add: revealed_program_def newest_spends_def)
  have row: "matched_row X (d\<lparr>d_markets := m\<rparr>) cid h program p = matched_row X d cid h program p" for m h program p
    by (simp add: matched_row_def market_trades_def)
  have cid: "mp_covenant_id (unmatched_row cid h program) = cid"
    "mp_covenant_id (matched_row X d cid h program p) = cid" for h program p
    by (simp_all add: unmatched_row_def matched_row_def split_beta Let_def)
  have up: "upsert mp_covenant_id r (upsert mp_covenant_id r m) = upsert mp_covenant_id r m" for r m
    by (rule upsert_idem)
  have fin: "given_up (Some (unmatched_row cid h program)) h" for h program
    by (simp add: given_up_def unmatched_row_def unmatched_tag_def MATCHER_VERSION_def)
  have ne: "\<not> given_up (Some (matched_row X d cid h program p)) h'"
    if "match_program X program h = Some p" for h h' program p
    using given_up_unmatched [of "matched_row X d cid h program p" h'] match_program_named [OF that]
      unmatched_not_matched by (auto simp: matched_row_def split_beta Let_def)
  show ?thesis
    by (auto simp: derive_market_program_def Let_def rev row cid row_by_upsert fin ne up
        split: option.splits)
qed

section \<open>An example pool\<close>

lemma arg_value_push_value:
  assumes "push_value i = Some p" and "well_formed i" and "p \<noteq> [0x81]"
  shows "arg_value i = Some p"
  using assms
  by (auto simp: push_value_def arg_value_def well_formed_def payload_fits_def split: option.splits if_splits)

lemma arg_pushes_encoded:
  "(\<And>p. p \<in> set ps \<Longrightarrow> push_len_ok p \<and> p \<noteq> [0x81]) \<Longrightarrow> arg_pushes (concat (map encode_push ps)) = ps"
proof -
  have "List.map_filter arg_value (fst (dis off (concat (map encode_push ps)))) = ps"
    if "\<forall>p \<in> set ps. push_len_ok p \<and> p \<noteq> [0x81]" for off
    using that
  proof (induction ps arbitrary: off)
    case (Cons p ps)
    then obtain i where i: "i_offset i = off" "well_formed i" "assemble i = encode_push p" "push_value i = Some p"
      using encode_push_inst [of p off] by auto
    then have "arg_value i = Some p" using arg_value_push_value Cons.prems by simp
    with Cons dis_assemble [OF i(2,1), of "concat (map encode_push ps)"] show ?case
      by (simp add: i(3) Let_def split_beta map_filter_simps)
  qed (simp add: map_filter_simps)
  then show "(\<And>p. p \<in> set ps \<Longrightarrow> push_len_ok p \<and> p \<noteq> [0x81]) \<Longrightarrow> arg_pushes (concat (map encode_push ps)) = ps"
    by (simp add: arg_pushes_def disassemble_dis)
qed

lemma laid_length: "laid i n us \<Longrightarrow> i \<le> n \<Longrightarrow> length us \<le> n - i"
  by (induction i n us rule: laid.induct) auto

lemma length_push_units: "length (push_units xs) \<le> length xs"
  using laid_length [OF laid_push_units_at [of 0 xs]] by (simp add: push_units_def)

lemma p2sh_reveal_push:
  assumes "digest32 X" and "2 \<le> length program" and "push_len_ok program"
  shows "p2sh_reveal X (envelope_spk X program) (encode_push program) = Some program"
proof -
  from encode_push_inst [of program 0] assms(3) obtain i where
    i: "i_offset i = 0" "well_formed i" "assemble i = encode_push program" "push_value i = Some program" by auto
  have "dis 0 (encode_push program) = ([i], False)"
    using dis_assemble [OF i(2,1), of "[]"] i(3) by simp
  moreover have "i_data i = Some program"
    using i(4) assms(2) by (auto simp: push_value_def split: option.splits if_splits)
  ultimately show ?thesis
    unfolding p2sh_reveal_iff using assms(1)
    by (auto simp: disassemble_dis envelope_spk_def hash32_def digest32_def)
qed

text \<open>A pool of the first build, as an example.\<close>

definition demo_pool_template :: bytes where
  "demo_pool_template =
     concat (map encode_push (replicate 159 [1] @ [replicate 32 8] @ replicate 185 [1] @ [replicate 32 8]))"

definition demo_pool :: pool_params where
  "demo_pool = \<lparr>pp_token_covenant_id = replicate 32 9, pp_kas_reserve_units = 500, pp_token_reserve = 1000,
     pp_shares = 70, pp_lp_token_covenant_id = replicate 32 6, pp_creator = replicate 32 8\<rparr>"

definition demo_pool_program :: bytes where
  "demo_pool_program = pool_state demo_pool @ demo_pool_template"

definition pool_externals :: externals where
  "pool_externals = demo_externals\<lparr>fixture := \<lambda>name. if name = ''kron_pool_v1'' then demo_pool_template else []\<rparr>"

lemma demo_pool_wf: "pool_params_wf demo_pool"
  by (simp add: pool_params_wf_def demo_pool_def)

lemma demo_pool_template_facts: "arg_pushes demo_pool_template =
    replicate 159 [1] @ [replicate 32 8] @ replicate 185 [1] @ [replicate 32 8]"
  "length demo_pool_template = 410"
  unfolding demo_pool_template_def
  by (subst arg_pushes_encoded)
    (auto simp: length_concat encode_push_def sum_list_replicate dest: arg_cong [of _ _ length])

lemma demo_pool_program_length: "length demo_pool_program = 504"
  by (simp add: demo_pool_program_def demo_pool_template_facts length_pool_state [OF demo_pool_wf])

lemma demo_pool_build:
  "match_kron_pool pool_externals demo_pool_program = Some demo_pool"
proof -
  have n: "length (push_units demo_pool_template) = 346"
    using arg_cong [OF push_units_arg_pushes [of demo_pool_template], of length] by (simp add: demo_pool_template_facts)
  have v: "snd (push_units demo_pool_template ! i) = arg_pushes demo_pool_template ! i" if "i < 346" for i
    using that n by (simp flip: push_units_arg_pushes)
  have "\<forall>i \<in> set POOL_TEMPLATE_CREATOR_SLOTS. snd (push_units demo_pool_template ! i) = replicate 32 8"
    by (auto simp: POOL_TEMPLATE_CREATOR_SLOTS_def v demo_pool_template_facts nth_append)
  moreover have "same_build sl fx fx" for sl fx by (simp add: same_build_def)
  ultimately show ?thesis
    unfolding match_kron_pool_def match_pool_build_iff pool_build_def
    using demo_pool_wf
    by (auto simp: demo_pool_program_def pool_externals_def demo_pool_def POOL_TEMPLATE_CREATOR_SLOTS_def)
qed

lemma demo_pool_matched:
  "match_program pool_externals demo_pool_program h = Some (matched_pool ''KRON pool v1'' demo_pool)"
proof -
  have n: "length (push_units demo_pool_program) \<le> 504"
    using length_push_units [of demo_pool_program] by (simp add: demo_pool_program_length)
  then have "match_skeleton pool_externals sk demo_pool_program = None" if "sk \<in> set SKELETON_PINS" for sk
    using that by (auto simp: match_skeleton_def SKELETON_PINS_def KRON_CURVE_V1_PIN_def
        KRON_CURVE_V2_PIN_def KCM_CURVE_V1_PIN_def CURVE_PUSHES_def CURVE2_PUSHES_def KCM_CURVE_PUSHES_def Let_def)
  then have "find_map (\<lambda>sk. map_option (matched_curve (sp_name sk)) (match_skeleton pool_externals sk demo_pool_program))
      SKELETON_PINS = None"
    by (simp add: find_map_None)
  moreover have "match_kron_curve_v3 pool_externals demo_pool_program = None"
    using n by (simp add: match_kron_curve_v3_def Let_def CURVE3_PUSHES_def)
  ultimately show ?thesis
    by (simp add: match_program_def EXACT_PINS_def find_exact_pin_def demo_pool_build)
qed

definition pool_cell :: utxo_row where
  "pool_cell = demo_cell\<lparr>u_covenant_id := replicate 32 5, u_spent_txid := Some [2], u_spent_block := Some [3],
     u_spk_script := envelope_spk pool_externals demo_pool_program,
     u_spent_sig := Some (encode_push demo_pool_program)\<rparr>"

definition pool_db :: db where
  "pool_db = demo_db\<lparr>d_utxos := [pool_cell]\<rparr>"

lemma pool_revealed: "revealed_program pool_externals pool_db (replicate 32 5) = Some demo_pool_program"
proof -
  have "digest32 pool_externals" by (simp add: digest32_def pool_externals_def demo_externals_def)
  then have "p2sh_reveal pool_externals (envelope_spk pool_externals demo_pool_program)
      (encode_push demo_pool_program) = Some demo_pool_program"
    by (rule p2sh_reveal_push) (simp_all add: demo_pool_program_length)
  then show ?thesis
    by (simp add: revealed_program_def newest_spends_def pool_db_def pool_cell_def)
qed

lemma derive_market_program_sound_witness:
  "\<exists>r. row_by mp_covenant_id (replicate 32 5)
       (d_markets (derive_market_program pool_externals (replicate 32 5) pool_db)) = Some r \<and>
     mp_skeleton r = ''KRON pool v1'' \<and> mp_token_covenant_id r = Some (replicate 32 9)"
proof -
  let ?p = "matched_pool ''KRON pool v1'' demo_pool" and ?cid = "replicate 32 (5 :: u8)"
  let ?r = "matched_row pool_externals pool_db ?cid (blake2b pool_externals demo_pool_program) demo_pool_program ?p"
  have cid: "mp_covenant_id ?r = ?cid" by (simp add: matched_row_def split_beta Let_def)
  have given: "given_up (row_by mp_covenant_id ?cid (d_markets pool_db)) h = False" for h
    by (simp add: pool_db_def demo_db_def empty_db_def row_by_def given_up_def)
  have r: "row_by mp_covenant_id ?cid (d_markets (derive_market_program pool_externals ?cid pool_db)) = Some ?r"
    unfolding derive_market_program_def pool_revealed Let_def option.case given blake2b_256_def demo_pool_matched
    by (simp add: row_by_upsert cid)
  have s: "mp_skeleton ?r = ''KRON pool v1''" by (simp add: matched_row_def split_beta Let_def matched_pool_def)
  with matched_names have "is_matched_skeleton (mp_skeleton ?r)" by simp
  from derive_market_program_sound [OF pool_revealed r this] s r show ?thesis
    by (auto simp: demo_pool_matched matched_pool_def demo_pool_def)
qed

section \<open>Market rows settle\<close>

lemma market_step_cases:
  obtains (unrevealed) "revealed_program X d cid = None" "derive_market_program X cid d = d"
    | (given_up) program where "revealed_program X d cid = Some program"
        "given_up (row_by mp_covenant_id cid (d_markets d)) (blake2b_256 X program)" "derive_market_program X cid d = d"
    | (written) program where "revealed_program X d cid = Some program"
        "\<not> given_up (row_by mp_covenant_id cid (d_markets d)) (blake2b_256 X program)"
        "derive_market_program X cid d = d\<lparr>d_markets := upsert mp_covenant_id
          (case match_program X program (blake2b_256 X program) of
             None \<Rightarrow> unmatched_row cid (blake2b_256 X program) program
           | Some p \<Rightarrow> matched_row X d cid (blake2b_256 X program) program p) (d_markets d)\<rparr>"
  by (cases "revealed_program X d cid")
    (auto simp: derive_market_program_def Let_def split: option.splits if_splits)

lemma market_rows_local:
  "revealed_program X (d\<lparr>d_markets := m\<rparr>) cid = revealed_program X d cid"
  "matched_row X (d\<lparr>d_markets := m\<rparr>) cid h program p = matched_row X d cid h program p"
  "mp_covenant_id (unmatched_row cid h program) = cid"
  "mp_covenant_id (matched_row X d cid h program p) = cid"
  by (simp_all add: revealed_program_def newest_spends_def matched_row_def market_trades_def unmatched_row_def
      split_beta Let_def)

interpretation market: settling "derive_market_program X" for X
proof
  fix k :: bytes and s :: db
  show "derive_market_program X k (derive_market_program X k s) = derive_market_program X k s"
    by (rule derive_market_program_settles)
next
  fix k k' :: bytes and s :: db
  assume fixed: "derive_market_program X k s = s"
  show "derive_market_program X k (derive_market_program X k' s) = derive_market_program X k' s"
  proof (cases "k = k'")
    case True
    then show ?thesis using fixed by simp
  next
    case False
    show ?thesis
    proof (cases rule: market_step_cases [of X s k'])
      case (written program')
      let ?row' = "case match_program X program' (blake2b_256 X program') of
             None \<Rightarrow> unmatched_row k' (blake2b_256 X program') program'
           | Some p \<Rightarrow> matched_row X s k' (blake2b_256 X program') program' p"
      let ?m = "upsert mp_covenant_id ?row' (d_markets s)"
      have k': "mp_covenant_id ?row' = k'" by (simp add: market_rows_local split: option.splits)
      have row: "row_by mp_covenant_id k ?m = row_by mp_covenant_id k (d_markets s)"
        using False k' by (simp add: row_by_upsert)
      show ?thesis
      proof (cases rule: market_step_cases [of X s k])
        case unrevealed
        then show ?thesis unfolding written(3) by (simp add: derive_market_program_def market_rows_local)
      next
        case (given_up program)
        then show ?thesis unfolding written(3) by (simp add: derive_market_program_def market_rows_local row Let_def)
      next
        case (written program)
        let ?row = "case match_program X program (blake2b_256 X program) of
             None \<Rightarrow> unmatched_row k (blake2b_256 X program) program
           | Some p \<Rightarrow> matched_row X s k (blake2b_256 X program) program p"
        have k: "mp_covenant_id ?row = k" by (simp add: market_rows_local split: option.splits)
        have "upsert mp_covenant_id ?row (d_markets s) = d_markets s"
          using arg_cong [OF fixed, of d_markets] written(3) by simp
        then have u: "upsert mp_covenant_id ?row ?m = ?m"
          by (rule upsert_keeps_fixed) (use False k k' in simp)
        show ?thesis
          unfolding \<open>derive_market_program X k' s = s\<lparr>d_markets := ?m\<rparr>\<close>
          using written(1,2) u
          by (simp add: derive_market_program_def market_rows_local row Let_def split: option.splits)
      qed
    qed (use fixed in simp_all)
  qed
qed

text \<open>Re-verifying a set of market covenants is idempotent, and no covenant's verification disturbs
  another's: after a run, running any of them again changes nothing.\<close>

theorem rederive_market_programs_idem:
  "rederive_market_programs X cs (rederive_market_programs X cs d) = rederive_market_programs X cs d"
  unfolding rederive_market_programs_def by (rule market.fold_idem)

end
