(* ===== verification/Tokens_Events.thy ===== *)
theory Tokens_Events
  imports Market_Price
begin

text \<open>
  \<open>crates/kascov-core/src/tokens.rs\<close>, the event walk of \<open>derive_token\<close>: judging the cells on
  either side of a transaction, extracting a trade from them, classifying the event and keeping
  the running supply.
\<close>

section \<open>Judging a cell\<close>

text \<open>The em dash of two reasons, as the UTF-8 bytes it has in the source.\<close>

definition em_dash :: string where "em_dash = [CHR 0xE2, CHR 0x80, CHR 0x94]"

definition STATUS_VERIFIED :: string where "STATUS_VERIFIED = ''verified''"
definition STATUS_INVALID :: string where "STATUS_INVALID = ''invalid''"
definition STATUS_UNVALIDATED :: string where "STATUS_UNVALIDATED = ''unvalidated''"

record judged =
  j_amount :: int
  j_minter :: bool
  j_owner_key :: string

text \<open>\<open>{:02x}\<close> of a byte.\<close>

definition hex2 :: "u8 \<Rightarrow> string" where
  "hex2 b = [hex_digit (unat b div 16), hex_digit (unat b mod 16)]"

definition judge :: "externals \<Rightarrow> cell \<Rightarrow> string + judged" where
  "judge X c =
     (case ce_proven c of
        None \<Rightarrow>
          Inl (case ce_unproven c of
                 Some reason \<Rightarrow> reason
               | None \<Rightarrow>
                   if live c then ''live state unproven for '' @ outpoint_str X (ce_txid c) (ce_index c)
                   else ''state unproven for spent output '' @ outpoint_str X (ce_txid c) (ce_index c))
      | Some (st, _) \<Rightarrow>
          if ts_identifier_type st \<notin> {0x00, 0x01, 0x02, 0x03} then
            Inl (''unknown identifier type 0x'' @ hex2 (ts_identifier_type st) @ '' on '' @
              outpoint_str X (ce_txid c) (ce_index c))
          else (case amount_i64 st of
            None \<Rightarrow> Inl (''amount out of script-int range on '' @ outpoint_str X (ce_txid c) (ce_index c))
          | Some amount \<Rightarrow>
              (case ts_is_minter st of
                 None \<Rightarrow> Inl (''non-boolean isMinter on '' @ outpoint_str X (ce_txid c) (ce_index c))
               | Some minter \<Rightarrow>
                   Inr \<lparr>j_amount = amount, j_minter = minter, j_owner_key = owner_key X st\<rparr>)))"

section \<open>Extracting a trade\<close>

text \<open>\<open>delta\<close>: what each owner gained, in key order.\<close>

definition add_delta :: "(int \<Rightarrow> int) \<Rightarrow> judged \<Rightarrow> (string \<times> int) list \<Rightarrow> (string \<times> int) list" where
  "add_delta sign s m =
     bt_update (j_owner_key s) (\<lambda>prev. (case prev of None \<Rightarrow> 0 | Some v \<Rightarrow> v) + sign (j_amount s)) m"

definition net_deltas :: "judged list \<Rightarrow> judged list \<Rightarrow> (string \<times> int) list" where
  "net_deltas in_states out_states =
     fold (add_delta uminus) in_states (fold (add_delta id) out_states [])"

abbreviation covenant_owned :: "string \<Rightarrow> bool" where
  "covenant_owned k \<equiv> take 2 k = ''02''"

definition movers :: "(string \<times> int) list \<Rightarrow> (string \<times> int) list" where
  "movers delta = filter (\<lambda>(k, v). covenant_owned k \<and> v \<noteq> 0) delta"

definition counterparty_of :: "(string \<times> int) list \<Rightarrow> int \<Rightarrow> string option" where
  "counterparty_of delta d_tok =
     (case filter (\<lambda>(k, v). \<not> covenant_owned k \<and> v \<noteq> 0 \<and> (v > 0) \<noteq> (d_tok > 0)) delta of
        [(k, _)] \<Rightarrow> Some k
      | _ \<Rightarrow> None)"

text \<open>The KAS of the market that a transaction consumed (a \<open>SUM\<close>, which may overflow) and re-created.\<close>

definition kas_consumed :: "db \<Rightarrow> bytes \<Rightarrow> bytes \<Rightarrow> string + int" where
  "kas_consumed d txid market =
     sql_sum 0 (map u_value (filter (\<lambda>u. u_spent_txid u = Some txid \<and> u_covenant_id u = market) (d_utxos d)))"

definition kas_created :: "db \<Rightarrow> bytes \<Rightarrow> bytes \<Rightarrow> int" where
  "kas_created d txid market =
     (\<Sum>u \<leftarrow> filter (\<lambda>u. u_covenant_id u = market) (filter (\<lambda>u. u_txid u = txid) (d_utxos d)). u_value u)"

definition co_covenants :: "db \<Rightarrow> bytes \<Rightarrow> bytes \<Rightarrow> bytes \<Rightarrow> int" where
  "co_covenants d txid token_id market =
     int (card (e_covenant_id ` {e \<in> set (d_events d). e_txid e = txid \<and> e_covenant_id e \<notin> {token_id, market}}))"

definition held_by :: "string \<Rightarrow> judged list \<Rightarrow> int" where
  "held_by k states = (\<Sum>s \<leftarrow> filter (\<lambda>s. j_owner_key s = k) states. j_amount s)"

definition extract_trade_candidate ::
  "externals \<Rightarrow> db \<Rightarrow> bytes \<Rightarrow> event_row \<Rightarrow> judged list \<Rightarrow> judged list \<Rightarrow> string + trade_row option" where
  "extract_trade_candidate X d token_id ev in_states out_states =
     (let delta = net_deltas in_states out_states; txid = e_txid ev in
      case movers delta of
        [(market_key, d_tok)] \<Rightarrow>
          (case Option.bind (hex_decode X (drop 2 market_key)) array32 of
             None \<Rightarrow> Inr None
           | Some market \<Rightarrow>
             (case kas_consumed d txid market of
                Inl e \<Rightarrow> Inl e
              | Inr k0 \<Rightarrow>
                let k1 = kas_created d txid market; d_kas = k1 - k0 in
                if d_kas = 0 \<or> (d_kas > 0) = (d_tok > 0) then Inr None
                else
                  let b0 = held_by market_key in_states; b1 = held_by market_key out_states in
                  if \<not> (in_i64 \<bar>d_kas\<bar> \<and> in_i64 \<bar>d_tok\<bar>) then Inr None
                  else if \<not> (in_i64 k0 \<and> in_i64 k1 \<and> in_i64 b0 \<and> in_i64 b1) then Inr None
                  else Inr (Some
                    \<lparr>tr_token_id = token_id, tr_seq = e_seq ev, tr_txid = txid, tr_market = market,
                     tr_side = (if d_kas > 0 then ''buy'' else ''sell''),
                     tr_base_amount = \<bar>d_tok\<bar>, tr_quote_sompi = \<bar>d_kas\<bar>,
                     tr_kas_before = k0, tr_kas_after = k1, tr_base_before = b0, tr_base_after = b1,
                     tr_co_covenants = co_covenants d txid token_id market,
                     tr_accepting_daa = e_accepting_daa ev, tr_blue_score = e_blue_score ev,
                     tr_tx_index = e_tx_index ev, tr_time_ms = e_time_ms ev,
                     tr_counterparty = counterparty_of delta d_tok\<rparr>)))
      | _ \<Rightarrow> Inr None)"

section \<open>Verdicts and classified events\<close>

record verdict =
  vd_invalid :: "string option"
  vd_unvalidated :: "string option"

definition flag_invalid :: "string \<Rightarrow> verdict \<Rightarrow> verdict" where
  "flag_invalid reason v = (if vd_invalid v = None then v\<lparr>vd_invalid := Some reason\<rparr> else v)"

definition flag_unvalidated :: "string \<Rightarrow> verdict \<Rightarrow> verdict" where
  "flag_unvalidated reason v = (if vd_unvalidated v = None then v\<lparr>vd_unvalidated := Some reason\<rparr> else v)"

definition vd_status :: "verdict \<Rightarrow> string" where
  "vd_status v =
     (if vd_invalid v \<noteq> None then STATUS_INVALID
      else if vd_unvalidated v \<noteq> None then STATUS_UNVALIDATED
      else STATUS_VERIFIED)"

definition vd_reason :: "verdict \<Rightarrow> string option" where
  "vd_reason v = (if vd_invalid v \<noteq> None then vd_invalid v else vd_unvalidated v)"

record delta =
  dl_amount :: "int option"
  dl_owner_from :: "string option"
  dl_owner_to :: "string option"

record classified_event =
  cl_seq :: nat
  cl_kind :: string
  cl_accepting_daa :: nat
  cl_tx_index :: "nat option"
  cl_deltas :: "delta list"

section \<open>The walk\<close>

text \<open>The variables the event loop updates.\<close>

record walk =
  w_verdict :: verdict
  w_classified :: "classified_event list"
  w_clean :: bool
  w_seen :: "bytes list"
  w_supply :: int
  w_minted :: int
  w_burned :: int
  w_trades :: "trade_row list"

definition anchor :: "event_row \<Rightarrow> string \<Rightarrow> string" where
  "anchor ev detail = ''seq '' @ show_nat (e_seq ev) @ '' (daa '' @ show_nat (e_accepting_daa ev) @ ''): '' @ detail"

definition push_event :: "event_row \<Rightarrow> string \<Rightarrow> delta list \<Rightarrow> walk \<Rightarrow> walk" where
  "push_event ev kind deltas w =
     w\<lparr>w_classified := w_classified w @
        [\<lparr>cl_seq = e_seq ev, cl_kind = kind, cl_accepting_daa = e_accepting_daa ev,
          cl_tx_index = e_tx_index ev, cl_deltas = deltas\<rparr>]\<rparr>"

definition unknown_event :: "event_row \<Rightarrow> string \<Rightarrow> walk \<Rightarrow> walk" where
  "unknown_event ev reason w =
     push_event ev ''unknown'' [\<lparr>dl_amount = None, dl_owner_from = None, dl_owner_to = None\<rparr>]
       (w\<lparr>w_verdict := flag_unvalidated reason (w_verdict w), w_clean := False\<rparr>)"

definition total_of :: "judged list \<Rightarrow> int" where
  "total_of states = (\<Sum>s \<leftarrow> states. j_amount s)"

definition genesis_event :: "event_row \<Rightarrow> judged list \<Rightarrow> walk \<Rightarrow> walk" where
  "genesis_event ev out_states w =
     (if e_kind ev \<noteq> ''genesis'' then
        unknown_event ev (anchor ev ''token outputs created without token inputs outside genesis'') w
      else
        push_event ev ''genesis''
          (map (\<lambda>s. \<lparr>dl_amount = Some (j_amount s), dl_owner_from = None, dl_owner_to = Some (j_owner_key s)\<rparr>)
             out_states)
          (w\<lparr>w_supply := w_supply w + total_of out_states\<rparr>))"

definition terminal_burn :: "event_row \<Rightarrow> judged list \<Rightarrow> walk \<Rightarrow> walk" where
  "terminal_burn ev in_states w =
     (let isum = total_of in_states; minter_in = list_ex j_minter in_states;
          w = (if \<not> minter_in \<and> isum > 0
               then w\<lparr>w_verdict := flag_unvalidated
                        (anchor ev (''terminal burn without a minter input '' @ em_dash @ '' shape unobserved on chain'')) (w_verdict w)\<rparr>
               else w)
      in push_event ev ''burn''
           (map (\<lambda>s. \<lparr>dl_amount = Some (j_amount s), dl_owner_from = Some (j_owner_key s), dl_owner_to = None\<rparr>)
              in_states)
           (w\<lparr>w_burned := w_burned w + isum, w_supply := w_supply w - isum\<rparr>))"

definition single_in_owner :: "judged list \<Rightarrow> string option" where
  "single_in_owner in_states =
     (if length (bs_of_list (map j_owner_key in_states)) = 1 then Some (j_owner_key (hd in_states)) else None)"

definition move_event :: "event_row \<Rightarrow> judged list \<Rightarrow> judged list \<Rightarrow> walk \<Rightarrow> walk" where
  "move_event ev in_states out_states w =
     (let isum = total_of in_states; osum = total_of out_states;
          minter_in = list_ex j_minter in_states; minter_out = list_ex j_minter out_states;
          owner = single_in_owner in_states;
          v = w_verdict w;
          v = (if minter_out \<and> \<not> minter_in
               then flag_invalid (anchor ev ''minter state created without a minter input'') v else v);
          v = (if osum > isum \<and> \<not> minter_in
               then flag_invalid (anchor ev (''outputs sum '' @ show_int osum @ '' > inputs '' @ show_int isum @
                 '' with no minter input'')) v
               else if osum < isum \<and> \<not> minter_in
               then flag_invalid (anchor ev (''outputs sum '' @ show_int osum @ '' < inputs '' @ show_int isum @
                 '' with no minter input'')) v
               else v);
          w = w\<lparr>w_verdict := v\<rparr>;
          w = (if osum > isum
               then w\<lparr>w_minted := w_minted w + (osum - isum), w_supply := w_supply w + (osum - isum)\<rparr>
               else if osum < isum
               then w\<lparr>w_burned := w_burned w + (isum - osum), w_supply := w_supply w - (isum - osum)\<rparr>
               else w);
          kind = (if osum > isum then ''mint'' else if osum < isum then ''burn''
                  else if length in_states > 1 then ''merge''
                  else if length out_states > 1 then ''split'' else ''transfer'');
          deltas =
            map (\<lambda>s. \<lparr>dl_amount = Some (j_amount s), dl_owner_from = owner, dl_owner_to = Some (j_owner_key s)\<rparr>)
              out_states @
            (if osum < isum
             then [\<lparr>dl_amount = i64_try_from (isum - osum), dl_owner_from = owner, dl_owner_to = None\<rparr>] else [])
      in push_event ev kind deltas w)"

definition classify :: "event_row \<Rightarrow> judged list \<Rightarrow> judged list \<Rightarrow> walk \<Rightarrow> walk" where
  "classify ev in_states out_states w =
     (if in_states = [] then genesis_event ev out_states w
      else if out_states = [] then terminal_burn ev in_states w
      else move_event ev in_states out_states w)"

definition cells_at :: "(bytes \<times> nat list) list \<Rightarrow> bytes \<Rightarrow> nat list" where
  "cells_at m txid = (case bt_get m txid of None \<Rightarrow> [] | Some l \<Rightarrow> l)"

definition step_event ::
  "externals \<Rightarrow> db \<Rightarrow> bytes \<Rightarrow> cell list \<Rightarrow> event_row \<Rightarrow> walk \<Rightarrow> string + walk" where
  "step_event X d token_id cells ev w =
     (let w = w\<lparr>w_seen := e_txid ev # w_seen w\<rparr>;
          ins = cells_at (ins_of cells) (e_txid ev); outs = cells_at (outs_of cells) (e_txid ev)
      in
      if ins = [] \<and> outs = [] then
        Inr (unknown_event ev (anchor ev ''no state cells recorded for this event's tx'') w)
      else
        (case (collect_result (\<lambda>i. judge X (cells ! i)) ins, collect_result (\<lambda>i. judge X (cells ! i)) outs) of
           (Inr in_states, Inr out_states) \<Rightarrow>
             (case extract_trade_candidate X d token_id ev in_states out_states of
                Inl e \<Rightarrow> Inl e
              | Inr t \<Rightarrow>
                  Inr (classify ev in_states out_states
                    (case t of None \<Rightarrow> w | Some tr \<Rightarrow> w\<lparr>w_trades := w_trades w @ [tr]\<rparr>)))
         | (Inl reason, _) \<Rightarrow> Inr (unknown_event ev (anchor ev reason) w)
         | (Inr _, Inl reason) \<Rightarrow> Inr (unknown_event ev (anchor ev reason) w)))"

fun walk_events ::
  "externals \<Rightarrow> db \<Rightarrow> bytes \<Rightarrow> cell list \<Rightarrow> event_row list \<Rightarrow> walk \<Rightarrow> string + walk" where
  "walk_events X d token_id cells [] w = Inr w"
| "walk_events X d token_id cells (ev # evs) w =
     (case step_event X d token_id cells ev w of
        Inl e \<Rightarrow> Inl e
      | Inr w' \<Rightarrow> walk_events X d token_id cells evs w')"

definition token_events_of :: "db \<Rightarrow> bytes \<Rightarrow> event_row list" where
  "token_events_of d token_id = sort_key e_seq (filter (\<lambda>e. e_covenant_id e = token_id) (d_events d))"

text \<open>Cells whose transaction never produced an event row: the first, creators before spenders.\<close>

definition orphan_check :: "externals \<Rightarrow> cell list \<Rightarrow> walk \<Rightarrow> walk" where
  "orphan_check X cells w =
     (case find (\<lambda>txid. txid \<notin> set (w_seen w)) (bt_keys (outs_of cells) @ bt_keys (ins_of cells)) of
        None \<Rightarrow> w
      | Some txid \<Rightarrow>
          w\<lparr>w_verdict := flag_unvalidated
              (''no event row for tx '' @ hex_encode X txid @ '' despite state cells'') (w_verdict w),
            w_clean := False\<rparr>)"

end
