(* ===== verification/Tokens_Derive.thy ===== *)
theory Tokens_Derive
  imports Tokens_Events
begin

text \<open>
  \<open>crates/kascov-core/src/tokens.rs\<close>, the rest of the derivation: the live frontier and the split
  of the supply by owner type, the final audit, the market link, the rows written, minter links,
  and the re-derivation of everything a block touched.
\<close>

section \<open>The live frontier\<close>

record frontier =
  fr_balances :: "(string \<times> int \<times> nat) list"
  fr_unresolved :: nat
  fr_newest :: "token_state option"

definition frontier_step :: "externals \<Rightarrow> cell \<Rightarrow> frontier \<Rightarrow> frontier" where
  "frontier_step X c f =
     (let f = (case ce_proven c of None \<Rightarrow> f | Some (st, _) \<Rightarrow> f\<lparr>fr_newest := Some st\<rparr>) in
      if \<not> live c then f
      else (case judge X c of
              Inr j \<Rightarrow>
                f\<lparr>fr_balances := bt_update (j_owner_key j)
                    (\<lambda>prev. let (bal, n) = (case prev of None \<Rightarrow> (0, 0) | Some p \<Rightarrow> p) in (bal + j_amount j, n + 1))
                    (fr_balances f)\<rparr>
            | Inl _ \<Rightarrow> f\<lparr>fr_unresolved := fr_unresolved f + 1\<rparr>))"

definition frontier_of :: "externals \<Rightarrow> cell list \<Rightarrow> frontier" where
  "frontier_of X cells =
     fold (frontier_step X) cells \<lparr>fr_balances = [], fr_unresolved = 0, fr_newest = None\<rparr>"

definition frontier_sum :: "frontier \<Rightarrow> int" where
  "frontier_sum f = (\<Sum>(k, bal, n) \<leftarrow> fr_balances f. bal)"

definition held_where :: "(string \<Rightarrow> bool) \<Rightarrow> frontier \<Rightarrow> int" where
  "held_where P f = (\<Sum>(k, bal, n) \<leftarrow> filter (\<lambda>(k, bal, n). P (take 2 k)) (fr_balances f). bal)"

definition held_covenant :: "frontier \<Rightarrow> int" where "held_covenant = held_where (\<lambda>t. t = ''02'')"
definition held_wallet :: "frontier \<Rightarrow> int" where "held_wallet = held_where (\<lambda>t. t = ''00'' \<or> t = ''03'')"
definition held_script :: "frontier \<Rightarrow> int" where "held_script = held_where (\<lambda>t. t = ''01'')"

section \<open>The final audit\<close>

record published =
  pb_verdict :: verdict
  pb_supply :: "int option"
  pb_minted :: "int option"
  pb_burned :: "int option"
  pb_held_covenant :: "int option"
  pb_held_wallet :: "int option"
  pb_held_script :: "int option"

definition unpublished :: "verdict \<Rightarrow> published" where
  "unpublished v =
     \<lparr>pb_verdict = v, pb_supply = None, pb_minted = None, pb_burned = None,
      pb_held_covenant = None, pb_held_wallet = None, pb_held_script = None\<rparr>"

definition final_audit :: "walk \<Rightarrow> frontier \<Rightarrow> published" where
  "final_audit w f =
     (let v = w_verdict w;
          provable = w_clean w \<and> vd_invalid v = None \<and> vd_unvalidated v = None;
          supply = w_supply w; minted = w_minted w; burned = w_burned w; frontier = frontier_sum f
      in
      if \<not> provable then unpublished v
      else if in_i64 supply \<and> in_i64 minted \<and> in_i64 burned \<and> supply \<ge> 0 then
        (if frontier = supply \<and> fr_unresolved f = 0 then
           let p = (unpublished v)\<lparr>pb_supply := Some supply, pb_minted := Some minted, pb_burned := Some burned\<rparr> in
           if held_covenant f + held_wallet f + held_script f = frontier then
             p\<lparr>pb_held_covenant := i64_try_from (held_covenant f), pb_held_wallet := i64_try_from (held_wallet f),
               pb_held_script := i64_try_from (held_script f)\<rparr>
           else p
         else unpublished (flag_unvalidated (''live frontier sums '' @ show_int frontier @
           '' but event history derives supply '' @ show_int supply) v))
      else unpublished (flag_unvalidated (''derived sums out of i64 range (supply '' @ show_int supply @
        '', minted '' @ show_int minted @ '', burned '' @ show_int burned @ '')'') v))"

section \<open>The market link\<close>

definition covenant_holders :: "externals \<Rightarrow> frontier \<Rightarrow> bytes list" where
  "covenant_holders X f =
     List.map_filter (\<lambda>(k, bal, n). Option.bind (hex_decode X (drop 2 k)) array32)
       (filter (\<lambda>(k, bal, n). covenant_owned k \<and> bal \<noteq> 0) (fr_balances f))"

text \<open>Several holders: derive each candidate's program row and collect the matched ones.\<close>

fun matched_holders :: "externals \<Rightarrow> bytes list \<Rightarrow> db \<Rightarrow> bytes list \<times> db" where
  "matched_holders X [] d = ([], d)"
| "matched_holders X (c # cs) d =
     (let d = derive_market_program X c d;
          skel = map_option mp_skeleton (row_by mp_covenant_id c (d_markets d));
          hit = (case skel of None \<Rightarrow> False | Some s \<Rightarrow> s \<in> set MATCHED_SKELETONS);
          (rest, d) = matched_holders X cs d
      in ((if hit then c # rest else rest), d))"

definition market_link :: "externals \<Rightarrow> frontier \<Rightarrow> db \<Rightarrow> bytes option \<times> db" where
  "market_link X f d =
     (case covenant_holders X f of
        [one] \<Rightarrow> (Some one, d)
      | [] \<Rightarrow> (None, d)
      | many \<Rightarrow>
          let (matched, d) = matched_holders X many d in
          ((case matched of [one] \<Rightarrow> Some one | _ \<Rightarrow> None), d))"

section \<open>Writing the rows\<close>

definition state_fields :: "externals \<Rightarrow> token_state \<Rightarrow> (string \<times> string) list" where
  "state_fields X st =
     [(''owner_identifier'', hex_encode X (ts_owner st)),
      (''identifier_type'', hex_encode X [ts_identifier_type st]),
      (''amount'', hex_encode X (ts_amount_raw st)),
      (''is_minter'', hex_encode X (ts_minter_raw st))]"

definition event_rows :: "bytes \<Rightarrow> classified_event list \<Rightarrow> token_event_row list" where
  "event_rows token_id classified =
     concat (map (\<lambda>ev. map (\<lambda>(delta_idx, dl).
         \<lparr>te_token_id = token_id, te_covenant_id = token_id, te_seq = cl_seq ev, te_delta_idx = delta_idx,
          te_kind = cl_kind ev, te_amount = dl_amount dl, te_owner_from = dl_owner_from dl,
          te_owner_to = dl_owner_to dl, te_accepting_daa = cl_accepting_daa ev, te_tx_index = cl_tx_index ev\<rparr>)
       (enumerate 0 (cl_deltas ev))) classified)"

definition balance_rows :: "bytes \<Rightarrow> frontier \<Rightarrow> balance_row list" where
  "balance_rows token_id f =
     map (\<lambda>(k, bal, n). \<lparr>b_token_id = token_id, b_owner = k, b_balance = bal, b_cells = n\<rparr>)
       (filter (\<lambda>(k, bal, n). in_i64 bal) (fr_balances f))"

definition token_row_of ::
  "externals \<Rightarrow> bytes \<Rightarrow> published \<Rightarrow> frontier \<Rightarrow> trade_row list \<Rightarrow> nat \<Rightarrow> nat option \<Rightarrow> bytes option \<Rightarrow> token_row" where
  "token_row_of X token_id p f trades last_activity derived_at market =
     \<lparr>t_token_id = token_id, t_status = vd_status (pb_verdict p), t_invalid_reason = vd_reason (pb_verdict p),
      t_supply = pb_supply p, t_minted = pb_minted p, t_burned = pb_burned p,
      t_holders = length (fr_balances f), t_held_covenant = pb_held_covenant p,
      t_held_wallet = pb_held_wallet p, t_held_script = pb_held_script p,
      t_unresolved_cells = fr_unresolved f, t_last_activity_daa = last_activity,
      t_fields_json = map_option (state_fields X) (fr_newest f), t_derived_at_daa = derived_at,
      t_market_covenant_id = market, t_trades = int (length trades),
      t_co_moved_trades = int (length (filter (\<lambda>t. tr_co_covenants t > 0) trades)),
      t_trades_missing_time = int (length (filter (\<lambda>t. tr_time_ms t = None) trades))\<rparr>"

definition write_token ::
  "externals \<Rightarrow> bytes \<Rightarrow> walk \<Rightarrow> published \<Rightarrow> frontier \<Rightarrow> nat \<Rightarrow> nat option \<Rightarrow> bytes option \<Rightarrow> db \<Rightarrow> db" where
  "write_token X token_id w p f last_activity derived_at market d =
     d\<lparr>d_tokens := upsert t_token_id
         (token_row_of X token_id p f (w_trades w) last_activity derived_at market) (d_tokens d),
       d_trades := d_trades d @ w_trades w,
       d_token_events := d_token_events d @ event_rows token_id (w_classified w),
       d_balances := d_balances d @ balance_rows token_id f\<rparr>"

section \<open>Deriving a token\<close>

text \<open>The row of a token that a minter pins but that no reveal has shown.\<close>

definition placeholder_row :: "bytes \<Rightarrow> nat \<Rightarrow> nat option \<Rightarrow> token_row" where
  "placeholder_row token_id last_activity derived_at =
     \<lparr>t_token_id = token_id, t_status = STATUS_UNVALIDATED,
      t_invalid_reason = Some ''pinned by minter; no KCC20 token reveal decoded'',
      t_supply = None, t_minted = None, t_burned = None, t_holders = 0, t_held_covenant = None,
      t_held_wallet = None, t_held_script = None, t_unresolved_cells = 0,
      t_last_activity_daa = last_activity, t_fields_json = None, t_derived_at_daa = derived_at,
      t_market_covenant_id = None, t_trades = 0, t_co_moved_trades = 0, t_trades_missing_time = 0\<rparr>"

text \<open>The covenant gate: the initial verdict and the activity stamp.\<close>

definition covenant_gate :: "db \<Rightarrow> bytes \<Rightarrow> verdict \<times> nat" where
  "covenant_gate d token_id =
     (let v = \<lparr>vd_invalid = None, vd_unvalidated = None\<rparr> in
      case row_by c_covenant_id token_id (d_covenants d) of
        Some c \<Rightarrow>
          ((if \<not> c_lineage_complete c \<or> c_genesis_txid c = None
            then flag_unvalidated (''incomplete lineage '' @ em_dash @ '' covenant history predates indexing'') v
            else v), c_last_activity_daa c)
      | None \<Rightarrow> (flag_unvalidated ''covenant row missing'' v, 0))"

definition start_walk :: "verdict \<Rightarrow> walk" where
  "start_walk v =
     \<lparr>w_verdict = v, w_classified = [], w_clean = True, w_seen = [], w_supply = 0, w_minted = 0,
      w_burned = 0, w_trades = []\<rparr>"

text \<open>The event loop and the check for orphaned transactions, over the proven cells.\<close>

definition walk_token :: "externals \<Rightarrow> db \<Rightarrow> bytes \<Rightarrow> cell list \<Rightarrow> string + walk" where
  "walk_token X d token_id cells =
     (case walk_events X d token_id cells (token_events_of d token_id)
             (start_walk (fst (covenant_gate d token_id))) of
        Inl e \<Rightarrow> Inl e
      | Inr w \<Rightarrow> Inr (orphan_check X cells w))"

definition derive_token :: "externals \<Rightarrow> state_decoder list \<Rightarrow> bytes \<Rightarrow> db \<Rightarrow> string + db" where
  "derive_token X reg token_id d =
     (if \<not> has_token_evidence d token_id \<and> \<not> pinned_by_minter d token_id then
        Inr (delete_token_rows token_id d)
      else
        let evidence = has_token_evidence d token_id;
            d = clear_token_facts token_id d;
            derived_at = processed_daa d
        in
        if \<not> evidence then
          Inr (d\<lparr>d_tokens := upsert t_token_id
             (placeholder_row token_id
               (case row_by c_covenant_id token_id (d_covenants d) of
                  None \<Rightarrow> 0 | Some c \<Rightarrow> c_last_activity_daa c) derived_at) (d_tokens d)\<rparr>)
        else
          let cells = proven_cells X reg d token_id in
          (case walk_token X d token_id cells of
             Inl e \<Rightarrow> Inl e
           | Inr w \<Rightarrow>
               let f = frontier_of X cells; p = final_audit w f; (market, d) = market_link X f d
               in Inr (write_token X token_id w p f (snd (covenant_gate d token_id)) derived_at market d)))"

section \<open>Minters\<close>

definition minter_program :: "externals \<Rightarrow> state_decoder list \<Rightarrow> cell \<Rightarrow> bytes option" where
  "minter_program X reg c =
     (if d_template (decode_with reg (ce_spk_version c) (ce_spk_script c)) = Some MINTER_TEMPLATE
      then Some (ce_spk_script c)
      else Option.bind (ce_spent_sig c) (p2sh_reveal X (ce_spk_script c)))"

definition minter_pins :: "externals \<Rightarrow> state_decoder list \<Rightarrow> cell \<Rightarrow> bytes list" where
  "minter_pins X reg c =
     (case minter_program X reg c of
        None \<Rightarrow> []
      | Some program \<Rightarrow>
          let dec = decode_with reg (ce_spk_version c) program in
          if d_template dec \<noteq> Some MINTER_TEMPLATE then []
          else List.map_filter
            (\<lambda>fd. if f_name fd \<in> {''kcc20_covenant_a'', ''kcc20_covenant_b''} then array32 (f_value fd) else None)
            (d_fields dec))"

definition derive_minter :: "externals \<Rightarrow> state_decoder list \<Rightarrow> bytes \<Rightarrow> db \<Rightarrow> bytes list \<times> db" where
  "derive_minter X reg minter_id d =
     (let cells = load_cells d minter_id;
          pins = bs_of_list (concat (map (minter_pins X reg) cells));
          old = map m_token_id (filter (\<lambda>m. m_minter_covenant_id m = minter_id) (d_minters d));
          affected = bs_of_list (pins @ old)
      in (affected,
          d\<lparr>d_minters := filter (\<lambda>m. m_minter_covenant_id m \<noteq> minter_id) (d_minters d) @
             map (\<lambda>pin. \<lparr>m_minter_covenant_id = minter_id, m_token_id = pin\<rparr>) pins\<rparr>))"

section \<open>Re-deriving what a block touched\<close>

fun derive_minters :: "externals \<Rightarrow> state_decoder list \<Rightarrow> bytes list \<Rightarrow> db \<Rightarrow> bytes list \<times> db" where
  "derive_minters X reg [] d = ([], d)"
| "derive_minters X reg (m # ms) d =
     (let (affected, d) = derive_minter X reg m d; (rest, d) = derive_minters X reg ms d
      in (affected @ rest, d))"

fun derive_tokens :: "externals \<Rightarrow> state_decoder list \<Rightarrow> bytes list \<Rightarrow> db \<Rightarrow> string + bytes list \<times> db" where
  "derive_tokens X reg [] d = Inr ([], d)"
| "derive_tokens X reg (t # ts) d =
     (case derive_token X reg t d of
        Inl e \<Rightarrow> Inl e
      | Inr d \<Rightarrow>
          let m = Option.bind (row_by t_token_id t (d_tokens d)) t_market_covenant_id in
          (case derive_tokens X reg ts d of
             Inl e \<Rightarrow> Inl e
           | Inr (ms, d) \<Rightarrow> Inr ((case m of None \<Rightarrow> ms | Some m \<Rightarrow> m # ms), d)))"

definition rederive_affected ::
  "externals \<Rightarrow> state_decoder list \<Rightarrow> bytes list \<Rightarrow> bytes list \<Rightarrow> db \<Rightarrow> string + db" where
  "rederive_affected X reg minters tokens d =
     (let (affected, d) = derive_minters X reg (bs_of_list minters) d in
      case derive_tokens X reg (bs_of_list (tokens @ affected)) d of
        Inl e \<Rightarrow> Inl e
      | Inr (markets, d) \<Rightarrow> Inr (rederive_market_programs X (bs_of_list markets) d))"

end
