(* ===== verification/Ledger.thy ===== *)
theory Ledger
  imports Tokens_Derive
begin

text \<open>
  \<open>crates/kascov-core/src/store.rs\<close> (\<open>apply_accepted_block\<close>, \<open>rollback_removed_blocks\<close>),
  \<open>store_delivery.rs\<close>, \<open>store_application.rs\<close> and \<open>projection.rs\<close>: applying an accepted block,
  undoing reorged-out blocks, the append-only delivery stream and the projection queue. A SQLite
  transaction is a function that either returns the new database or an error; constraint violations
  are errors. The clock is the argument \<open>now\<close> and the process-wide registry the argument \<open>reg\<close>.
\<close>

section \<open>Batches\<close>

datatype event_kind = Genesis | Transition | Burn

fun event_kind_str :: "event_kind \<Rightarrow> string" where
  "event_kind_str Genesis = ''genesis''"
| "event_kind_str Transition = ''transition''"
| "event_kind_str Burn = ''burn''"

record new_event =
  ne_covenant_id :: bytes
  ne_kind :: event_kind
  ne_txid :: bytes
  ne_tx_index :: nat
  ne_event_index :: nat
  ne_payload :: "bytes option"
  ne_lane_namespace :: "string option"

record new_utxo =
  nu_outpoint :: outpoint
  nu_covenant_id :: bytes
  nu_value :: nat
  nu_spk_version :: "16 word"
  nu_spk_script :: bytes

text \<open>Outpoint, spending transaction, its signature script, compute budget and input index.\<close>

type_synonym spent_utxo = "outpoint \<times> bytes \<times> bytes \<times> nat \<times> nat"

record accepted_transaction =
  at_txid :: bytes
  at_transaction :: transaction
  at_application :: application_preprocess

record accepted_block_batch =
  bk_accepting_block :: bytes
  bk_accepting_daa :: nat
  bk_accepting_time_ms :: nat
  bk_accepting_blue_score :: nat
  bk_events :: "new_event list"
  bk_created_utxos :: "new_utxo list"
  bk_spent_utxos :: "spent_utxo list"
  bk_transactions :: "accepted_transaction list"

definition empty_batch :: "bytes \<Rightarrow> accepted_block_batch" where
  "empty_batch accepting_block =
     \<lparr>bk_accepting_block = accepting_block, bk_accepting_daa = 0, bk_accepting_time_ms = 0,
      bk_accepting_blue_score = 0, bk_events = [], bk_created_utxos = [], bk_spent_utxos = [],
      bk_transactions = []\<rparr>"

definition prepare_accepted :: "transaction \<Rightarrow> application_decoder \<Rightarrow> accepted_transaction" where
  "prepare_accepted tx preprocess =
     \<lparr>at_txid = x_txid tx, at_transaction = tx, at_application = preprocess tx\<rparr>"

definition application_outputs_by_tx :: "accepted_transaction list \<Rightarrow> (bytes \<times> application_output list) list" where
  "application_outputs_by_tx transactions =
     map (\<lambda>t. (at_txid t, ap_outputs (at_application t))) transactions"

section \<open>Payload classification\<close>

text \<open>A lane payload: a four-byte tag followed by sixteen zero bytes.\<close>

definition lane_namespace :: "externals \<Rightarrow> bytes \<Rightarrow> string option" where
  "lane_namespace X payload =
     (if 20 \<le> length payload \<and> list_all (\<lambda>b. b = 0) (slice payload 4 20)
      then Some (hex_encode X (take 4 payload)) else None)"

definition starts_with :: "bytes \<Rightarrow> string \<Rightarrow> bool" where
  "starts_with bs s \<longleftrightarrow> take (length s) bs = map of_char s"

definition payload_tag :: "externals \<Rightarrow> bytes \<Rightarrow> string" where
  "payload_tag X payload =
     (if length payload < 4 then ''''
      else if starts_with payload ''{\"'' then ''json''
      else if starts_with payload ''7b22'' then ''jsonhex''
      else ''tag:'' @ hex_encode X (take 4 payload))"

definition INSCRIPTION_WINDOW :: nat where "INSCRIPTION_WINDOW = 2048"

definition is_ascii_hexdigit :: "u8 \<Rightarrow> bool" where
  "is_ascii_hexdigit b \<longleftrightarrow>
     (let n = unat b in 48 \<le> n \<and> n \<le> 57 \<or> 65 \<le> n \<and> n \<le> 70 \<or> 97 \<le> n \<and> n \<le> 102)"

definition extract_inscription_json :: "externals \<Rightarrow> bytes \<Rightarrow> json option" where
  "extract_inscription_json X payload =
     (if starts_with payload ''{\"'' then json_first X payload
      else if starts_with payload ''7b22'' then
        let run = takeWhile is_ascii_hexdigit payload; n = 2 * (length run div 2) in
        Option.bind (hex_decode X (map (\<lambda>b. char_of (unat b)) (take n run))) (json_first X)
      else None)"

text \<open>The characters of a UTF-8 string: a byte outside \<open>0x80..0xBF\<close> opens a character.\<close>

definition continues_char :: "char \<Rightarrow> bool" where
  "continues_char c \<longleftrightarrow> (let n = of_char c :: nat in 128 \<le> n \<and> n < 192)"

fun utf8_chars :: "string \<Rightarrow> string list" where
  "utf8_chars [] = []"
| "utf8_chars (c # cs) =
     (case utf8_chars cs of
        [] \<Rightarrow> [[c]]
      | ch # chs \<Rightarrow> if continues_char (hd ch) then (c # ch) # chs else [c] # ch # chs)"

definition clip24 :: "string \<Rightarrow> string" where
  "clip24 s = concat (take 24 (utf8_chars s))"

text \<open>\<open>char::is_control\<close>: \<open>U+0000..U+001F\<close> and \<open>U+007F..U+009F\<close>.\<close>

definition is_control :: "string \<Rightarrow> bool" where
  "is_control ch \<longleftrightarrow>
     (case map of_char ch :: nat list of
        [n] \<Rightarrow> n < 32 \<or> n = 127
      | [a, n] \<Rightarrow> a = 194 \<and> 128 \<le> n \<and> n \<le> 159
      | _ \<Rightarrow> False)"

definition json_str :: "string \<Rightarrow> json \<Rightarrow> string option" where
  "json_str k v =
     (case v of
        JObject ms \<Rightarrow> (case map_of ms k of Some (JString s) \<Rightarrow> Some s | _ \<Rightarrow> None)
      | _ \<Rightarrow> None)"

text \<open>The separator, a middle dot between spaces.\<close>

definition dot_sep :: string where "dot_sep = '' '' @ [CHR 0xC2, CHR 0xB7] @ '' ''"

definition inscription_kind :: "json \<Rightarrow> string" where
  "inscription_kind v =
     (let label =
        (case json_str ''p'' v of
           Some p \<Rightarrow>
             clip24 p @
             (case json_str ''op'' v of None \<Rightarrow> [] | Some op \<Rightarrow> dot_sep @ clip24 op) @
             (case json_str ''tick'' v of None \<Rightarrow> [] | Some tick \<Rightarrow> dot_sep @ clip24 tick)
         | None \<Rightarrow>
             (case json_str ''t'' v of
                Some t \<Rightarrow> clip24 t
              | None \<Rightarrow>
                  (case json_str ''tick'' v of
                     Some tick \<Rightarrow> ''token'' @ dot_sep @ clip24 tick
                   | None \<Rightarrow> (case v of JObject ((k, _) # _) \<Rightarrow> clip24 k | _ \<Rightarrow> ''JSON''))))
      in concat (filter (\<lambda>ch. \<not> is_control ch) (utf8_chars label)))"

definition inscription_kind_of :: "externals \<Rightarrow> bytes \<Rightarrow> string" where
  "inscription_kind_of X payload =
     (case extract_inscription_json X (take INSCRIPTION_WINDOW payload) of
        None \<Rightarrow> ''''
      | Some v \<Rightarrow> inscription_kind v)"

section \<open>Meta values\<close>

definition get_meta :: "db \<Rightarrow> string \<Rightarrow> string option" where
  "get_meta d key = map_of (d_meta d) key"

definition set_meta :: "string \<Rightarrow> string \<Rightarrow> db \<Rightarrow> db" where
  "set_meta key v d = d\<lparr>d_meta := upsert fst (key, v) (d_meta d)\<rparr>"

text \<open>\<open>UPDATE meta\<close>: only where the key exists.\<close>

definition update_meta :: "string \<Rightarrow> string \<Rightarrow> db \<Rightarrow> db" where
  "update_meta key v d = d\<lparr>d_meta := map (\<lambda>(k, w). if k = key then (k, v) else (k, w)) (d_meta d)\<rparr>"

definition parse_meta_u64 :: "db \<Rightarrow> string \<Rightarrow> string + nat" where
  "parse_meta_u64 d key =
     (case get_meta d key of
        None \<Rightarrow> Inl key
      | Some raw \<Rightarrow> (case parse_u64 raw of None \<Rightarrow> Inl key | Some n \<Rightarrow> Inr n))"

definition transaction_stream_epoch :: "externals \<Rightarrow> db \<Rightarrow> string + stream_epoch" where
  "transaction_stream_epoch X d =
     (case get_meta d ''stream_epoch'' of
        None \<Rightarrow> Inl ''stream epoch''
      | Some raw \<Rightarrow> (case parse_epoch X raw of None \<Rightarrow> Inl ''stream epoch'' | Some e \<Rightarrow> Inr e))"

definition transaction_next_stream_seq :: "db \<Rightarrow> string + nat" where
  "transaction_next_stream_seq d = parse_meta_u64 d ''next_stream_seq''"

definition next_seq :: "nat \<Rightarrow> string + nat" where
  "next_seq n = (if fits_u64 (n + 1) then Inr (n + 1) else Inl ''next stream sequence'')"

section \<open>The delivery log\<close>

text \<open>\<open>INSERT\<close> into a table with a primary key.\<close>

definition insert_row :: "('r \<Rightarrow> 'k) \<Rightarrow> 'r \<Rightarrow> 'r list \<Rightarrow> string + 'r list" where
  "insert_row key r rows = (if key r \<in> key ` set rows then Inl ''sqlite'' else Inr (rows @ [r]))"

fun delivery_kind_str :: "delivery_kind \<Rightarrow> string" where
  "delivery_kind_str Accepted = ''accepted''"
| "delivery_kind_str Removed = ''removed''"
| "delivery_kind_str ProjectionRepaired = ''projection_repaired''"

definition delivery_row_of :: "delivery_record \<Rightarrow> delivery_row" where
  "delivery_row_of r =
     \<lparr>l_stream_seq = sc_seq (dr_cursor r), l_kind = delivery_kind_str (dr_kind r),
      l_source_stream_seq = map_option sc_seq (dr_source_cursor r), l_covenant_id = dr_covenant_id r,
      l_covenant_event_seq = dr_covenant_event_seq r, l_txid = dr_txid r,
      l_accepting_block = dr_accepting_block r, l_accepting_daa = dr_accepting_daa r,
      l_tx_index = dr_tx_index r, l_event_index = dr_event_index r,
      l_order_complete = dr_order_complete r, l_pending_id = dr_pending_id r, l_data_json = r\<rparr>"

definition delivery_application_key :: "delivery_application_row \<Rightarrow> nat \<times> nat \<times> string \<times> string" where
  "delivery_application_key a =
     (la_stream_seq a, la_output_index a, la_application_id a, la_actor_path a)"

definition insert_delivery_application ::
  "nat \<Rightarrow> application_output \<Rightarrow> delivery_application_row list \<Rightarrow> string + delivery_application_row list" where
  "insert_delivery_application seq a =
     insert_row delivery_application_key
       \<lparr>la_stream_seq = seq, la_output_index = ao_output_index a, la_application_id = ao_application_id a,
        la_artifact_id = ao_artifact_id a, la_actor_path = ao_actor_path a\<rparr>"

definition insert_delivery :: "delivery_record \<Rightarrow> db \<Rightarrow> string + db" where
  "insert_delivery r d =
     (case insert_row l_stream_seq (delivery_row_of r) (d_delivery_log d) of
        Inl e \<Rightarrow> Inl e
      | Inr rows \<Rightarrow>
          (case fold_result (insert_delivery_application (sc_seq (dr_cursor r))) (dr_applications r)
                  (d_delivery_applications d) of
             Inl e \<Rightarrow> Inl e
           | Inr apps \<Rightarrow> Inr (d\<lparr>d_delivery_log := rows, d_delivery_applications := apps\<rparr>)))"

text \<open>\<open>projection::enqueue\<close>.\<close>

definition enqueue_projection :: "nat \<Rightarrow> bytes list \<Rightarrow> db \<Rightarrow> db" where
  "enqueue_projection stream_seq covenant_ids d =
     d\<lparr>d_work := upsert pw_delivery_stream_seq
         \<lparr>pw_delivery_stream_seq = stream_seq, pw_covenant_ids = covenant_ids\<rparr> (d_work d)\<rparr>"

definition canonical_batch_daa :: "db \<Rightarrow> bytes \<Rightarrow> nat option" where
  "canonical_batch_daa d blk = map_option cbr_accepting_daa (row_by cbr_accepting_block blk (d_batches d))"

text \<open>The accepted records of a block within the bounds of its batch, in stream order.\<close>

definition accepted_between :: "db \<Rightarrow> bytes \<Rightarrow> nat \<Rightarrow> nat \<Rightarrow> delivery_record list" where
  "accepted_between d blk lo hi =
     map l_data_json (sort_key l_stream_seq
       (filter (\<lambda>l. lo \<le> l_stream_seq l \<and> l_stream_seq l \<le> hi \<and>
          l_accepting_block l = blk \<and> l_kind l = ''accepted'') (d_delivery_log d)))"

definition canonical_deliveries_for_block :: "db \<Rightarrow> bytes \<Rightarrow> delivery_record list" where
  "canonical_deliveries_for_block d blk =
     (case row_by cbr_accepting_block blk (d_batches d) of
        None \<Rightarrow> []
      | Some b \<Rightarrow>
          (case (cbr_first_stream_seq b, cbr_last_stream_seq b) of
             (Some lo, Some hi) \<Rightarrow> accepted_between d blk lo hi
           | _ \<Rightarrow> []))"

definition finish_canonical_batch ::
  "bytes \<Rightarrow> nat \<Rightarrow> nat option \<Rightarrow> nat option \<Rightarrow> nat \<Rightarrow> db \<Rightarrow> string + db" where
  "finish_canonical_batch blk daa first_seq last_seq next_stream_seq d =
     (case insert_row cbr_accepting_block
             \<lparr>cbr_accepting_block = blk, cbr_accepting_daa = daa, cbr_first_stream_seq = first_seq,
              cbr_last_stream_seq = last_seq\<rparr> (d_batches d) of
        Inl e \<Rightarrow> Inl e
      | Inr batches \<Rightarrow>
          Inr (update_meta ''next_stream_seq'' (show_nat next_stream_seq) (d\<lparr>d_batches := batches\<rparr>)))"

section \<open>Applying an accepted block\<close>

abbreviation utxo_key :: "utxo_row \<Rightarrow> outpoint" where
  "utxo_key u \<equiv> (u_txid u, u_output_index u)"

definition template_stamp :: "string option \<Rightarrow> string" where
  "template_stamp t = (case t of None \<Rightarrow> '''' | Some name \<Rightarrow> name)"

text \<open>The row of a new cell. Amounts and DAA scores are the \<open>u64\<close> of the source; \<open>rusqlite\<close> stores a \<open>u64\<close> as an
  SQLite integer and refuses one above \<open>i64::MAX\<close> with an error that rolls the transaction back. That refusal of
  the driver is not modelled, here and wherever a \<open>u64\<close> is stored: an amount in sompi and a DAA score stay far
  below the limit on any valid chain, so the definitions are the code's for such values.\<close>

definition created_row :: "state_decoder list \<Rightarrow> bytes \<Rightarrow> nat \<Rightarrow> new_utxo \<Rightarrow> utxo_row" where
  "created_row reg blk daa u =
     \<lparr>u_txid = fst (nu_outpoint u), u_output_index = snd (nu_outpoint u), u_covenant_id = nu_covenant_id u,
      u_value = int (nu_value u), u_spk_version = nu_spk_version u, u_spk_script = nu_spk_script u,
      u_created_block = blk, u_created_daa = daa, u_spent_block = None, u_spent_txid = None,
      u_spent_sig = None, u_spent_budget = None, u_spent_input_index = None,
      u_template = Some (template_stamp (d_template (decode_with reg (nu_spk_version u) (nu_spk_script u)))),
      u_revealed_template = None, u_kcc1_template_hash = None\<rparr>"

definition create_utxo :: "state_decoder list \<Rightarrow> bytes \<Rightarrow> nat \<Rightarrow> new_utxo \<Rightarrow> utxo_row list \<Rightarrow> utxo_row list" where
  "create_utxo reg blk daa u = upsert utxo_key (created_row reg blk daa u)"

text \<open>What a spend reveals about the row it consumes: the program's template and its KCC-1 hash.\<close>

definition revealed_stamp :: "externals \<Rightarrow> state_decoder list \<Rightarrow> utxo_row \<Rightarrow> bytes \<Rightarrow> string" where
  "revealed_stamp X reg u sig =
     template_stamp (Option.bind (p2sh_reveal X (u_spk_script u) sig) (revealed_template reg (u_spk_version u)))"

definition kcc1_stamp :: "externals \<Rightarrow> utxo_row \<Rightarrow> bytes \<Rightarrow> bytes" where
  "kcc1_stamp X u sig =
     (case Option.bind (p2sh_reveal X (u_spk_script u) sig) (kcc1_template_hash X) of
        None \<Rightarrow> []
      | Some h \<Rightarrow> h)"

definition mark_row :: "externals \<Rightarrow> state_decoder list \<Rightarrow> bytes \<Rightarrow> bytes \<Rightarrow> bytes \<Rightarrow> nat \<Rightarrow> nat \<Rightarrow> utxo_row \<Rightarrow> utxo_row" where
  "mark_row X reg blk spending_txid sig budget input_index u =
     u\<lparr>u_spent_block := Some blk, u_spent_txid := Some spending_txid, u_spent_sig := Some sig,
       u_spent_budget := Some budget, u_revealed_template := Some (revealed_stamp X reg u sig),
       u_kcc1_template_hash := Some (kcc1_stamp X u sig), u_spent_input_index := Some input_index\<rparr>"

definition mark_spent ::
  "externals \<Rightarrow> state_decoder list \<Rightarrow> bytes \<Rightarrow> spent_utxo \<Rightarrow> utxo_row list \<Rightarrow> utxo_row list" where
  "mark_spent X reg blk s us =
     (let (outpoint, spending_txid, sig, budget, input_index) = s in
      map (\<lambda>u. if utxo_key u = outpoint then mark_row X reg blk spending_txid sig budget input_index u else u) us)"

text \<open>One event: the covenant row, the event row, the summary columns, the delivery and its queue entry.\<close>

definition new_covenant_row :: "new_event \<Rightarrow> nat \<Rightarrow> covenant_row" where
  "new_covenant_row ev daa =
     (let is_genesis = (ne_kind ev = Genesis) in
      \<lparr>c_covenant_id = ne_covenant_id ev,
       c_genesis_txid = (if is_genesis then Some (ne_txid ev) else None),
       c_genesis_daa = (if is_genesis then Some daa else None),
       c_lineage_complete = is_genesis, c_event_count = 0, c_last_activity_daa = 0\<rparr>)"

definition ensure_covenant :: "covenant_row \<Rightarrow> covenant_row list \<Rightarrow> covenant_row list" where
  "ensure_covenant c rows =
     (if c_covenant_id c \<in> c_covenant_id ` set rows then rows else rows @ [c])"

definition next_event_seq :: "db \<Rightarrow> bytes \<Rightarrow> nat" where
  "next_event_seq d cid =
     (let seqs = map e_seq (filter (\<lambda>e. e_covenant_id e = cid) (d_events d)) in
      if seqs = [] then 0 else Max (set seqs) + 1)"

definition new_event_row :: "externals \<Rightarrow> accepted_block_batch \<Rightarrow> new_event \<Rightarrow> nat \<Rightarrow> nat \<Rightarrow> event_row" where
  "new_event_row X blk ev seq stream_seq =
     \<lparr>e_covenant_id = ne_covenant_id ev, e_seq = seq, e_kind = event_kind_str (ne_kind ev), e_txid = ne_txid ev,
      e_accepting_block = bk_accepting_block blk, e_accepting_daa = bk_accepting_daa blk,
      e_tx_index = Some (ne_tx_index ev), e_blue_score = Some (int (bk_accepting_blue_score blk)),
      e_time_ms = Some (int (bk_accepting_time_ms blk)), e_payload = ne_payload ev,
      e_lane_namespace = ne_lane_namespace ev,
      e_payload_tag = map_option (payload_tag X) (ne_payload ev),
      e_inscription_kind = map_option (inscription_kind_of X) (ne_payload ev),
      e_event_index = Some (ne_event_index ev), e_delivery_stream_seq = Some stream_seq\<rparr>"

text \<open>The primary key of the event table and its unique index on the stream sequence.\<close>

definition insert_event :: "event_row \<Rightarrow> event_row list \<Rightarrow> string + event_row list" where
  "insert_event e rows =
     (if e_delivery_stream_seq e \<noteq> None \<and> e_delivery_stream_seq e \<in> e_delivery_stream_seq ` set rows
      then Inl ''sqlite''
      else insert_row (\<lambda>e. (e_covenant_id e, e_seq e)) e rows)"

definition touch_covenant :: "bytes \<Rightarrow> nat \<Rightarrow> covenant_row list \<Rightarrow> covenant_row list" where
  "touch_covenant cid daa =
     map (\<lambda>c. if c_covenant_id c = cid
              then c\<lparr>c_event_count := c_event_count c + 1, c_last_activity_daa := daa\<rparr> else c)"

definition accepted_record ::
  "externals \<Rightarrow> stream_epoch \<Rightarrow> accepted_block_batch \<Rightarrow> new_event \<Rightarrow> nat \<Rightarrow> nat \<Rightarrow> delivery_record" where
  "accepted_record X epoch blk ev seq stream_seq =
     \<lparr>dr_cursor = \<lparr>sc_epoch = epoch, sc_seq = stream_seq\<rparr>, dr_kind = Accepted, dr_source_cursor = None,
      dr_covenant_id = ne_covenant_id ev, dr_covenant_event_seq = seq, dr_txid = ne_txid ev,
      dr_accepting_block = bk_accepting_block blk, dr_accepting_daa = bk_accepting_daa blk,
      dr_tx_index = Some (ne_tx_index ev), dr_event_index = Some (ne_event_index ev),
      dr_order_complete = True,
      dr_pending_id = Some (pending_event_id X (ne_txid ev) (ne_covenant_id ev) (ne_event_index ev)),
      dr_applications =
        filter (\<lambda>a. ao_covenant_id a = ne_covenant_id ev)
          (case map_of (application_outputs_by_tx (bk_transactions blk)) (ne_txid ev) of
             None \<Rightarrow> [] | Some outs \<Rightarrow> outs)\<rparr>"

definition apply_event ::
  "externals \<Rightarrow> stream_epoch \<Rightarrow> accepted_block_batch \<Rightarrow> new_event \<Rightarrow> db \<times> nat \<Rightarrow> string + db \<times> nat" where
  "apply_event X epoch blk ev s =
     (let (d, stream_seq) = s;
          seq = next_event_seq d (ne_covenant_id ev);
          covs = ensure_covenant (new_covenant_row ev (bk_accepting_daa blk)) (d_covenants d)
      in
      case insert_event (new_event_row X blk ev seq stream_seq) (d_events d) of
        Inl e \<Rightarrow> Inl e
      | Inr events \<Rightarrow>
         (case insert_delivery (accepted_record X epoch blk ev seq stream_seq)
                 (d\<lparr>d_covenants := touch_covenant (ne_covenant_id ev) (bk_accepting_daa blk) covs,
                    d_events := events\<rparr>) of
            Inl e \<Rightarrow> Inl e
          | Inr d \<Rightarrow>
             (case next_seq stream_seq of
                Inl e \<Rightarrow> Inl e
              | Inr next \<Rightarrow> Inr (enqueue_projection stream_seq [ne_covenant_id ev] d, next))))"

section \<open>Application tables\<close>

definition envelope_status :: "application_preprocess \<Rightarrow> string" where
  "envelope_status a =
     (if ap_failures a = [] then ''valid'' else if ap_outputs a = [] then ''failed'' else ''partial'')"

definition insert_envelope :: "accepted_block_batch \<Rightarrow> accepted_transaction \<Rightarrow> db \<Rightarrow> string + db" where
  "insert_envelope blk t d =
     (case ap_raw_envelope (at_application t) of
        None \<Rightarrow> Inr d
      | Some raw \<Rightarrow>
          (case insert_row ae_txid
                  \<lparr>ae_txid = at_txid t, ae_accepting_block = bk_accepting_block blk,
                   ae_accepting_daa = bk_accepting_daa blk, ae_raw_envelope = raw,
                   ae_application_payload =
                     (case ap_application_payload (at_application t) of None \<Rightarrow> [] | Some p \<Rightarrow> p),
                   ae_transaction_json = Some (at_transaction t),
                   ae_status = envelope_status (at_application t)\<rparr> (d_envelopes d) of
             Inl e \<Rightarrow> Inl e
           | Inr rows \<Rightarrow> Inr (d\<lparr>d_envelopes := rows\<rparr>)))"

abbreviation app_output_key :: "app_output_row \<Rightarrow> bytes \<times> nat" where
  "app_output_key r \<equiv> (aw_txid r, aw_output_index r)"

definition app_output_row_of :: "bytes \<Rightarrow> bytes \<Rightarrow> nat \<Rightarrow> bytes option \<Rightarrow> application_output \<Rightarrow> app_output_row" where
  "app_output_row_of txid blk daa spent a =
     \<lparr>aw_txid = txid, aw_output_index = ao_output_index a, aw_covenant_id = ao_covenant_id a,
      aw_application_id = ao_application_id a, aw_artifact_id = ao_artifact_id a,
      aw_actor_path = ao_actor_path a, aw_state_json = ao_state_json a, aw_created_block = blk,
      aw_created_daa = daa, aw_spent_block = spent\<rparr>"

definition insert_app_output ::
  "accepted_block_batch \<Rightarrow> accepted_transaction \<Rightarrow> application_output \<Rightarrow> db \<Rightarrow> string + db" where
  "insert_app_output blk t a d =
     (case insert_row app_output_key
             (app_output_row_of (at_txid t) (bk_accepting_block blk) (bk_accepting_daa blk) None a)
             (d_app_outputs d) of
        Inl e \<Rightarrow> Inl e
      | Inr rows \<Rightarrow> Inr (d\<lparr>d_app_outputs := rows\<rparr>))"

text \<open>The three triggers that keep \<open>application_decode_failure_counts\<close>.\<close>

abbreviation unrepaired :: "failure_row \<Rightarrow> bool" where
  "unrepaired f \<equiv> af_repaired_stream_seq f = None"

definition count_insert :: "failure_row \<Rightarrow> int \<times> int \<Rightarrow> int \<times> int" where
  "count_insert f n = (fst n + 1, snd n + (if unrepaired f then 1 else 0))"

definition count_delete :: "failure_row \<Rightarrow> int \<times> int \<Rightarrow> int \<times> int" where
  "count_delete f n = (fst n - 1, snd n - (if unrepaired f then 1 else 0))"

definition count_repair :: "failure_row \<Rightarrow> failure_row \<Rightarrow> int \<times> int \<Rightarrow> int \<times> int" where
  "count_repair old new n =
     (if unrepaired old \<noteq> unrepaired new then (fst n, snd n + (if unrepaired new then 1 else - 1)) else n)"

definition insert_failure :: "accepted_block_batch \<Rightarrow> accepted_transaction \<Rightarrow> decode_failure \<Rightarrow> db \<Rightarrow> db" where
  "insert_failure blk t f d =
     (let row = \<lparr>af_id = d_failure_seq d + 1, af_txid = at_txid t, af_accepting_block = bk_accepting_block blk,
            af_accepting_daa = bk_accepting_daa blk, af_output_index = df_output_index f,
            af_application_id = df_application_id f, af_artifact_id = df_artifact_id f,
            af_code = df_code f, af_detail = df_detail f, af_repaired_stream_seq = None\<rparr>
      in d\<lparr>d_failures := d_failures d @ [row], d_failure_seq := d_failure_seq d + 1,
           d_failure_counts := count_insert row (d_failure_counts d)\<rparr>)"

definition delete_failures :: "(failure_row \<Rightarrow> bool) \<Rightarrow> db \<Rightarrow> db" where
  "delete_failures P d =
     d\<lparr>d_failures := filter (\<lambda>f. \<not> P f) (d_failures d),
       d_failure_counts := fold count_delete (filter P (d_failures d)) (d_failure_counts d)\<rparr>"

definition apply_application :: "accepted_block_batch \<Rightarrow> accepted_transaction \<Rightarrow> db \<Rightarrow> string + db" where
  "apply_application blk t d =
     (case insert_envelope blk t d of
        Inl e \<Rightarrow> Inl e
      | Inr d \<Rightarrow>
          (case fold_result (insert_app_output blk t) (ap_outputs (at_application t)) d of
             Inl e \<Rightarrow> Inl e
           | Inr d \<Rightarrow> Inr (fold (insert_failure blk t) (ap_failures (at_application t)) d)))"

definition spend_app_output :: "bytes \<Rightarrow> spent_utxo \<Rightarrow> db \<Rightarrow> db" where
  "spend_app_output blk s d =
     d\<lparr>d_app_outputs := map (\<lambda>r. if app_output_key r = fst s \<and> aw_spent_block r = None
                              then r\<lparr>aw_spent_block := Some blk\<rparr> else r) (d_app_outputs d)\<rparr>"

definition application_apply_accepted :: "accepted_block_batch \<Rightarrow> db \<Rightarrow> string + db" where
  "application_apply_accepted blk d =
     (case fold_result (apply_application blk) (bk_transactions blk) d of
        Inl e \<Rightarrow> Inl e
      | Inr d \<Rightarrow> Inr (fold (spend_app_output (bk_accepting_block blk)) (bk_spent_utxos blk) d))"

definition application_rollback_block :: "bytes \<Rightarrow> db \<Rightarrow> db" where
  "application_rollback_block blk d =
     (let d = d\<lparr>d_app_outputs :=
                  filter (\<lambda>r. aw_created_block r \<noteq> blk)
                    (map (\<lambda>r. if aw_spent_block r = Some blk then r\<lparr>aw_spent_block := None\<rparr> else r)
                      (d_app_outputs d))\<rparr>;
          d = delete_failures (\<lambda>f. af_accepting_block f = blk) d
      in d\<lparr>d_envelopes := filter (\<lambda>e. ae_accepting_block e \<noteq> blk) (d_envelopes d)\<rparr>)"

definition application_rollback_removed :: "bytes list \<Rightarrow> db \<Rightarrow> db" where
  "application_rollback_removed removed d = fold application_rollback_block removed d"

section \<open>\<open>apply_accepted_block\<close>\<close>

definition apply_utxos :: "externals \<Rightarrow> state_decoder list \<Rightarrow> accepted_block_batch \<Rightarrow> utxo_row list \<Rightarrow> utxo_row list" where
  "apply_utxos X reg blk us =
     fold (mark_spent X reg (bk_accepting_block blk)) (bk_spent_utxos blk)
       (fold (create_utxo reg (bk_accepting_block blk) (bk_accepting_daa blk)) (bk_created_utxos blk) us)"

text \<open>The transaction of a block that was not applied before.\<close>

definition apply_fresh_block ::
  "externals \<Rightarrow> state_decoder list \<Rightarrow> accepted_block_batch \<Rightarrow> db \<Rightarrow> string + db" where
  "apply_fresh_block X reg blk d =
     (case transaction_stream_epoch X d of Inl e \<Rightarrow> Inl e
      | Inr epoch \<Rightarrow>
     (case transaction_next_stream_seq d of Inl e \<Rightarrow> Inl e
      | Inr start \<Rightarrow>
     (case fold_result (apply_event X epoch blk) (bk_events blk)
             (d\<lparr>d_utxos := apply_utxos X reg blk (d_utxos d)\<rparr>, start) of Inl e \<Rightarrow> Inl e
      | Inr (d, next) \<Rightarrow>
     (case application_apply_accepted blk d of Inl e \<Rightarrow> Inl e
      | Inr d \<Rightarrow>
          let d = set_meta ''cursor'' (hex_encode X (bk_accepting_block blk)) d in
          if bk_accepting_daa blk > 0 then
            finish_canonical_batch (bk_accepting_block blk) (bk_accepting_daa blk)
              (if bk_events blk = [] then None else Some start)
              (if bk_events blk = [] \<or> next = 0 then None else Some (next - 1)) next
              (set_meta ''processed_daa'' (show_nat (bk_accepting_daa blk)) d)
          else Inr d))))"

definition apply_accepted_block ::
  "externals \<Rightarrow> state_decoder list \<Rightarrow> accepted_block_batch \<Rightarrow> db \<Rightarrow> string + committed_batch \<times> db" where
  "apply_accepted_block X reg blk d =
     (if bk_accepting_daa blk = 0 \<and> bk_events blk \<noteq> [] then Inl ''accepted block DAA''
      else case canonical_batch_daa d (bk_accepting_block blk) of
        Some daa \<Rightarrow>
          Inr (\<lparr>cm_cursor = bk_accepting_block blk, cm_processed_daa = daa,
                cm_deliveries = canonical_deliveries_for_block d (bk_accepting_block blk)\<rparr>, d)
      | None \<Rightarrow>
          (case apply_fresh_block X reg blk d of
             Inl e \<Rightarrow> Inl e
           | Inr d \<Rightarrow>
               Inr (\<lparr>cm_cursor = bk_accepting_block blk, cm_processed_daa = bk_accepting_daa blk,
                     cm_deliveries = canonical_deliveries_for_block d (bk_accepting_block blk)\<rparr>, d)))"

section \<open>\<open>rollback_removed_blocks\<close>\<close>

definition removal_record :: "stream_epoch \<Rightarrow> delivery_record \<Rightarrow> nat \<Rightarrow> delivery_record" where
  "removal_record epoch source stream_seq =
     source\<lparr>dr_cursor := \<lparr>sc_epoch = epoch, sc_seq = stream_seq\<rparr>, dr_kind := Removed,
            dr_source_cursor := Some (dr_cursor source)\<rparr>"

definition append_removal ::
  "stream_epoch \<Rightarrow> delivery_record \<Rightarrow> db \<times> nat \<times> delivery_record list \<Rightarrow> string + db \<times> nat \<times> delivery_record list" where
  "append_removal epoch source s =
     (let (d, stream_seq, removals) = s; removal = removal_record epoch source stream_seq in
      case insert_delivery removal d of
        Inl e \<Rightarrow> Inl e
      | Inr d \<Rightarrow>
         (case next_seq stream_seq of
            Inl e \<Rightarrow> Inl e
          | Inr next \<Rightarrow> Inr (d, next, removals @ [removal])))"

definition append_block_removals ::
  "stream_epoch \<Rightarrow> bytes \<Rightarrow> db \<times> nat \<times> delivery_record list \<Rightarrow> string + db \<times> nat \<times> delivery_record list" where
  "append_block_removals epoch blk s =
     fold_result (append_removal epoch) (canonical_deliveries_for_block (fst s) blk) s"

definition append_removed_deliveries ::
  "externals \<Rightarrow> bytes list \<Rightarrow> db \<Rightarrow> string + delivery_record list \<times> db" where
  "append_removed_deliveries X removed d =
     (case transaction_stream_epoch X d of Inl e \<Rightarrow> Inl e
      | Inr epoch \<Rightarrow>
     (case transaction_next_stream_seq d of Inl e \<Rightarrow> Inl e
      | Inr start \<Rightarrow>
     (case fold_result (append_block_removals epoch) removed (d, start, []) of Inl e \<Rightarrow> Inl e
      | Inr (d, next, removals) \<Rightarrow>
          Inr (removals, update_meta ''next_stream_seq'' (show_nat next) d))))"

definition clear_spend :: "utxo_row \<Rightarrow> utxo_row" where
  "clear_spend u =
     u\<lparr>u_spent_block := None, u_spent_txid := None, u_spent_sig := None, u_spent_budget := None,
       u_revealed_template := None\<rparr>"

definition rollback_block :: "bytes \<Rightarrow> db \<Rightarrow> db" where
  "rollback_block blk d =
     d\<lparr>d_utxos := filter (\<lambda>u. u_created_block u \<noteq> blk)
         (map (\<lambda>u. if u_spent_block u = Some blk then clear_spend u else u) (d_utxos d)),
       d_covenants := map (\<lambda>c. c\<lparr>c_event_count := c_event_count c -
           int (length (filter (\<lambda>e. e_accepting_block e = blk \<and> e_covenant_id e = c_covenant_id c) (d_events d)))\<rparr>)
         (d_covenants d),
       d_events := filter (\<lambda>e. e_accepting_block e \<noteq> blk) (d_events d),
       d_batches := filter (\<lambda>b. cbr_accepting_block b \<noteq> blk) (d_batches d)\<rparr>"

definition log_reorg :: "nat \<Rightarrow> nat \<Rightarrow> db \<Rightarrow> db" where
  "log_reorg now n d =
     d\<lparr>d_reorg_log := d_reorg_log d @
        [\<lparr>rl_daa = (case processed_daa d of None \<Rightarrow> 0 | Some daa \<Rightarrow> daa), rl_at_ms = now, rl_rolled_back = n\<rparr>]\<rparr>"

text \<open>The removed blocks that were applied, each once, in the order given.\<close>

definition canonical_removed :: "db \<Rightarrow> bytes list \<Rightarrow> bytes list" where
  "canonical_removed d removed =
     filter (\<lambda>b. b \<in> cbr_accepting_block ` set (d_batches d)) (rev (remdups (rev removed)))"

definition rollback_removed_blocks ::
  "externals \<Rightarrow> nat \<Rightarrow> bytes list \<Rightarrow> db \<Rightarrow> string + committed_removal_batch \<times> db" where
  "rollback_removed_blocks X now removed d =
     (let blocks = canonical_removed d removed in
      if blocks = [] then Inr (\<lparr>cr_removed_blocks = [], cr_deliveries = []\<rparr>, d)
      else case append_removed_deliveries X blocks d of
        Inl e \<Rightarrow> Inl e
      | Inr (deliveries, d) \<Rightarrow>
          let d = fold (\<lambda>r. enqueue_projection (sc_seq (dr_cursor r)) [dr_covenant_id r]) deliveries d;
              d = application_rollback_removed blocks d;
              d = fold rollback_block blocks d;
              d = d\<lparr>d_covenants := filter (\<lambda>c. c_event_count c > 0) (d_covenants d)\<rparr>
          in Inr (\<lparr>cr_removed_blocks = blocks, cr_deliveries = deliveries\<rparr>, log_reorg now (length blocks) d))"

end
