(* ===== verification/Reorg.thy ===== *)
theory Reorg
  imports Ledger
begin

text \<open>
  Undoing a reorg: what applying a block adds to the chain tables (cells, events, covenants) is what
  rolling it back takes away. The chain tables are seen through the blocks of a set \<open>S\<close> that are to
  be forgotten; applying a block of \<open>S\<close> does not change that view, and rolling \<open>S\<close> back makes the view
  the tables. Two columns of a cell (\<open>kcc1_template_hash\<close>, \<open>spent_input_index\<close>) and the activity
  stamp of a covenant are not restored by the code; \<open>forget\<close> and \<open>quiet\<close> leave them out.
\<close>

section \<open>The chain tables without some blocks\<close>

definition forget :: "utxo_row \<Rightarrow> utxo_row" where
  "forget u = u\<lparr>u_kcc1_template_hash := None, u_spent_input_index := None\<rparr>"

definition quiet :: "covenant_row \<Rightarrow> covenant_row" where
  "quiet c = c\<lparr>c_last_activity_daa := 0\<rparr>"

definition unspend :: "bytes set \<Rightarrow> utxo_row \<Rightarrow> utxo_row" where
  "unspend S u = (if u_spent_block u \<in> Some ` S then clear_spend u else u)"

definition utxos_without :: "bytes set \<Rightarrow> utxo_row list \<Rightarrow> utxo_row list" where
  "utxos_without S us = map (\<lambda>u. forget (unspend S u)) (filter (\<lambda>u. u_created_block u \<notin> S) us)"

definition events_without :: "bytes set \<Rightarrow> event_row list \<Rightarrow> event_row list" where
  "events_without S es = filter (\<lambda>e. e_accepting_block e \<notin> S) es"

definition events_of :: "bytes \<Rightarrow> event_row list \<Rightarrow> event_row list" where
  "events_of cid es = filter (\<lambda>e. e_covenant_id e = cid) es"

definition recount :: "event_row list \<Rightarrow> covenant_row \<Rightarrow> covenant_row" where
  "recount es c = c\<lparr>c_event_count := int (length (events_of (c_covenant_id c) es))\<rparr>"

definition covenants_without :: "bytes set \<Rightarrow> event_row list \<Rightarrow> covenant_row list \<Rightarrow> covenant_row list" where
  "covenants_without S es cs =
     filter (\<lambda>c. c_event_count c > 0) (map (recount (events_without S es)) cs)"

text \<open>The invariant of the chain tables: spend columns are set together, event counts are exact and
  positive, and every event has its covenant.\<close>

definition spend_columns_ok :: "utxo_row \<Rightarrow> bool" where
  "spend_columns_ok u \<longleftrightarrow> (u_spent_block u = None \<longrightarrow> clear_spend u = u)"

definition ledger_ok :: "db \<Rightarrow> bool" where
  "ledger_ok d \<longleftrightarrow>
     (\<forall>u \<in> set (d_utxos d). spend_columns_ok u) \<and>
     (\<forall>c \<in> set (d_covenants d). recount (d_events d) c = c \<and> c_event_count c > 0) \<and>
     e_covenant_id ` set (d_events d) \<subseteq> c_covenant_id ` set (d_covenants d)"

section \<open>What the operations leave alone\<close>

lemma insert_delivery_shape:
  "insert_delivery r d = Inr d' \<Longrightarrow>
     \<exists>apps. d' = d\<lparr>d_delivery_log := d_delivery_log d @ [delivery_row_of r], d_delivery_applications := apps\<rparr> \<and>
       sc_seq (dr_cursor r) \<notin> l_stream_seq ` set (d_delivery_log d)"
  by (auto simp: insert_delivery_def insert_row_def delivery_row_of_def split: sum.splits if_splits)

lemma enqueue_projection_shape: "\<exists>w. enqueue_projection n cs d = d\<lparr>d_work := w\<rparr>"
  by (auto simp: enqueue_projection_def)

text \<open>The database without its application tables.\<close>

definition sans_apps :: "db \<Rightarrow> db" where
  "sans_apps d = d\<lparr>d_envelopes := [], d_app_outputs := [], d_failures := [], d_failure_seq := 0,
     d_failure_counts := (0, 0)\<rparr>"

lemma sans_apps_eqs:
  assumes "sans_apps d' = sans_apps d"
  shows "d_utxos d' = d_utxos d" "d_events d' = d_events d" "d_covenants d' = d_covenants d"
    "d_batches d' = d_batches d" "d_delivery_log d' = d_delivery_log d" "d_meta d' = d_meta d"
    "d_work d' = d_work d" "d_delivery_applications d' = d_delivery_applications d"
  using arg_cong [OF assms, of d_utxos] arg_cong [OF assms, of d_events] arg_cong [OF assms, of d_covenants]
    arg_cong [OF assms, of d_batches] arg_cong [OF assms, of d_delivery_log] arg_cong [OF assms, of d_meta]
    arg_cong [OF assms, of d_work] arg_cong [OF assms, of d_delivery_applications]
  by (simp_all add: sans_apps_def)

lemma fold_sans_apps:
  "(\<And>x d. sans_apps (f x d) = sans_apps d) \<Longrightarrow> sans_apps (fold f xs d) = sans_apps d"
  by (induction xs arbitrary: d) simp_all

lemma fold_result_sans_apps:
  assumes "fold_result f xs d = Inr d'" and "\<And>x d d'. f x d = Inr d' \<Longrightarrow> sans_apps d' = sans_apps d"
  shows "sans_apps d' = sans_apps d"
  by (rule fold_result_inv [OF assms(1), where P = "\<lambda>t. sans_apps t = sans_apps d"]) (auto dest: assms(2))

lemma application_apply_frame:
  assumes "application_apply_accepted blk d = Inr d'"
  shows "sans_apps d' = sans_apps d"
proof -
  have o: "insert_app_output blk t a d1 = Inr d2 \<Longrightarrow> sans_apps d2 = sans_apps d1" for t a d1 d2
    by (auto simp: insert_app_output_def sans_apps_def split: sum.splits)
  have en: "insert_envelope blk t d1 = Inr d2 \<Longrightarrow> sans_apps d2 = sans_apps d1" for t d1 d2
    by (auto simp: insert_envelope_def sans_apps_def split: sum.splits option.splits)
  have fs: "sans_apps (fold (insert_failure blk t) fs d1) = sans_apps d1" for t fs d1
    by (rule fold_sans_apps) (simp add: insert_failure_def sans_apps_def Let_def)
  have ap: "apply_application blk t d1 = Inr d2 \<Longrightarrow> sans_apps d2 = sans_apps d1" for t d1 d2
    by (auto simp: apply_application_def fs dest!: early_return en fold_result_sans_apps [OF _ o])
  from assms obtain d1 where d1: "fold_result (apply_application blk) (bk_transactions blk) d = Inr d1"
    and d': "d' = fold (spend_app_output (bk_accepting_block blk)) (bk_spent_utxos blk) d1"
    by (auto simp: application_apply_accepted_def split: sum.splits)
  have "sans_apps d' = sans_apps d1"
    unfolding d' by (rule fold_sans_apps) (simp add: spend_app_output_def sans_apps_def)
  also have "\<dots> = sans_apps d" by (rule fold_result_sans_apps [OF d1 ap])
  finally show ?thesis .
qed

lemma application_rollback_frame: "sans_apps (application_rollback_removed bs d) = sans_apps d"
  unfolding application_rollback_removed_def
  by (rule fold_sans_apps)
    (simp add: application_rollback_block_def delete_failures_def sans_apps_def Let_def)

section \<open>Applying a block\<close>

lemma forget_unspend_mark:
  assumes "B \<in> S" and "spend_columns_ok u" and "u_spent_block u \<in> insert None (Some ` S)"
  shows "forget (unspend S (mark_row X reg B txid sig budget idx u)) = forget (unspend S u)"
proof (cases "u_spent_block u")
  case None
  with assms(2) have "clear_spend u = u" by (simp add: spend_columns_ok_def)
  moreover have "forget (clear_spend (mark_row X reg B txid sig budget idx u)) = forget (clear_spend u)"
    by (simp add: forget_def clear_spend_def mark_row_def)
  ultimately show ?thesis using None assms(1) by (simp add: unspend_def mark_row_def)
next
  case (Some b)
  with assms(1,3) show ?thesis by (auto simp: unspend_def forget_def clear_spend_def mark_row_def)
qed

lemma mark_row_simps [simp]:
  "utxo_key (mark_row X reg B txid sig budget idx u) = utxo_key u"
  "u_created_block (mark_row X reg B txid sig budget idx u) = u_created_block u"
  "u_spent_block (mark_row X reg B txid sig budget idx u) = Some B"
  by (simp_all add: mark_row_def)

lemma utxos_without_mark:
  assumes "B \<in> S"
    and "\<And>u. u \<in> set us \<Longrightarrow> utxo_key u = fst s \<Longrightarrow> spend_columns_ok u \<and> u_spent_block u \<in> insert None (Some ` S)"
  shows "utxos_without S (mark_spent X reg B s us) = utxos_without S us"
proof -
  obtain op txid sig budget idx where s: "s = (op, txid, sig, budget, idx)" by (cases s)
  show ?thesis
    using assms(2) by (induction us) (auto simp: s mark_spent_def utxos_without_def forget_unspend_mark [OF assms(1)])
qed

lemma utxos_without_create:
  assumes "B \<in> S" and "\<And>u. u \<in> set us \<Longrightarrow> utxo_key u = nu_outpoint n \<Longrightarrow> u_created_block u \<in> S"
  shows "utxos_without S (create_utxo reg B daa n us) = utxos_without S us"
proof -
  let ?r = "created_row reg B daa n"
  have r: "utxo_key ?r = nu_outpoint n" "u_created_block ?r = B" by (simp_all add: created_row_def)
  have "utxos_without S (map (\<lambda>u. if utxo_key u = utxo_key ?r then ?r else u) us) = utxos_without S us"
    using assms by (induction us) (auto simp: utxos_without_def r)
  then show ?thesis
    using assms(1) by (auto simp: create_utxo_def upsert_def) (simp add: utxos_without_def r)
qed

text \<open>What a batch may create and spend: new outpoints, and cells that nothing outside \<open>S\<close> has spent.\<close>

definition fits :: "bytes set \<Rightarrow> accepted_block_batch \<Rightarrow> utxo_row list \<Rightarrow> bool" where
  "fits S blk us \<longleftrightarrow>
     (\<forall>u \<in> set us. (utxo_key u \<in> nu_outpoint ` set (bk_created_utxos blk) \<longrightarrow> u_created_block u \<in> S) \<and>
        (utxo_key u \<in> fst ` set (bk_spent_utxos blk) \<longrightarrow> u_spent_block u \<in> insert None (Some ` S)))"

lemma set_create_utxo: "u \<in> set (create_utxo reg B daa n us) \<Longrightarrow> u \<in> set us \<or> u = created_row reg B daa n"
  by (auto simp: create_utxo_def upsert_def split: if_splits)

lemma create_all:
  assumes "B \<in> S" and "\<forall>u \<in> set us. utxo_key u \<in> nu_outpoint ` set ns \<longrightarrow> u_created_block u \<in> S"
  shows "utxos_without S (fold (create_utxo reg B daa) ns us) = utxos_without S us \<and>
    (\<forall>u \<in> set (fold (create_utxo reg B daa) ns us). u \<in> set us \<or> u \<in> created_row reg B daa ` set ns)"
  using assms(2)
proof (induction ns arbitrary: us)
  case (Cons n ns)
  have c: "u_created_block u \<in> S" if "u \<in> set (create_utxo reg B daa n us)" "utxo_key u \<in> nu_outpoint ` set ns" for u
    using set_create_utxo [OF that(1)] that(2) Cons.prems assms(1) by (auto simp: created_row_def)
  have "utxos_without S (create_utxo reg B daa n us) = utxos_without S us"
    by (rule utxos_without_create [OF assms(1)]) (use Cons.prems in auto)
  moreover note Cons.IH [of "create_utxo reg B daa n us"] c set_create_utxo
  ultimately show ?case by fastforce
qed simp

lemma mark_all:
  assumes "B \<in> S"
    and "\<forall>u \<in> set us. spend_columns_ok u \<and> (utxo_key u \<in> fst ` set ss \<longrightarrow> u_spent_block u \<in> insert None (Some ` S))"
  shows "utxos_without S (fold (mark_spent X reg B) ss us) = utxos_without S us \<and>
    (\<forall>u \<in> set (fold (mark_spent X reg B) ss us). spend_columns_ok u)"
  using assms(2)
proof (induction ss arbitrary: us)
  case (Cons s ss)
  obtain op txid sig budget idx where s: "s = (op, txid, sig, budget, idx)" by (cases s)
  have "utxos_without S (mark_spent X reg B s us) = utxos_without S us"
    by (rule utxos_without_mark [OF assms(1)]) (use Cons.prems in \<open>auto simp: image_iff\<close>)
  moreover have "\<forall>u \<in> set (mark_spent X reg B s us). spend_columns_ok u \<and>
      (utxo_key u \<in> fst ` set ss \<longrightarrow> u_spent_block u \<in> insert None (Some ` S))"
    using Cons.prems assms(1) by (auto simp: s mark_spent_def spend_columns_ok_def)
  ultimately show ?case using Cons.IH [of "mark_spent X reg B s us"] by simp
qed simp

lemma apply_utxos_view:
  assumes "bk_accepting_block blk \<in> S" and "fits S blk us" and "\<forall>u \<in> set us. spend_columns_ok u"
  shows "utxos_without S (apply_utxos X reg blk us) = utxos_without S us \<and>
    (\<forall>u \<in> set (apply_utxos X reg blk us). spend_columns_ok u)"
proof -
  let ?us = "fold (create_utxo reg (bk_accepting_block blk) (bk_accepting_daa blk)) (bk_created_utxos blk) us"
  have c: "utxos_without S ?us = utxos_without S us \<and>
      (\<forall>u \<in> set ?us. u \<in> set us \<or> u \<in> created_row reg (bk_accepting_block blk) (bk_accepting_daa blk) ` set (bk_created_utxos blk))"
    by (rule create_all) (use assms in \<open>auto simp: fits_def\<close>)
  have "\<forall>u \<in> set ?us. spend_columns_ok u \<and>
      (utxo_key u \<in> fst ` set (bk_spent_utxos blk) \<longrightarrow> u_spent_block u \<in> insert None (Some ` S))"
  proof
    fix u assume "u \<in> set ?us"
    with c consider "u \<in> set us" | n where "u = created_row reg (bk_accepting_block blk) (bk_accepting_daa blk) n"
      by blast
    then show "spend_columns_ok u \<and>
      (utxo_key u \<in> fst ` set (bk_spent_utxos blk) \<longrightarrow> u_spent_block u \<in> insert None (Some ` S))"
      by cases (use assms in \<open>auto simp: fits_def spend_columns_ok_def created_row_def clear_spend_def\<close>)
  qed
  from mark_all [OF assms(1) this] c show ?thesis by (simp add: apply_utxos_def)
qed

lemma events_of_append: "events_of cid (es @ es') = events_of cid es @ events_of cid es'"
  by (simp add: events_of_def)

lemma events_of_without: "events_of cid (events_without S es) = events_without S (events_of cid es)"
  by (simp add: events_of_def events_without_def conj_commute)

text \<open>Recording one event of a block of \<open>S\<close> in the covenant rows.\<close>

lemma covenants_without_event:
  assumes "e_covenant_id ` set es \<subseteq> c_covenant_id ` set cs" and "c_covenant_id c0 = cid"
  shows "map quiet (covenants_without S es (touch_covenant cid daa (ensure_covenant c0 cs))) =
    map quiet (covenants_without S es cs)"
proof -
  have touch: "map quiet (covenants_without S es (touch_covenant cid daa cs)) = map quiet (covenants_without S es cs)" for cs
    by (induction cs) (auto simp: covenants_without_def touch_covenant_def recount_def quiet_def)
  have "covenants_without S es (ensure_covenant c0 cs) = covenants_without S es cs"
  proof (cases "cid \<in> c_covenant_id ` set cs")
    case False
    with assms(1) have "events_of cid es = []" by (auto simp: events_of_def filter_empty_conv)
    then have "events_of cid (events_without S es) = []" by (simp add: events_of_without) (simp add: events_without_def)
    then show ?thesis by (simp add: ensure_covenant_def covenants_without_def recount_def assms(2))
  qed (simp add: ensure_covenant_def assms(2))
  then show ?thesis using touch by simp
qed

lemma touch_covenant_ids: "c_covenant_id ` set (touch_covenant cid daa cs) = c_covenant_id ` set cs"
  by (induction cs) (auto simp: touch_covenant_def)

lemma recount_fixed_iff: "recount es c = c \<longleftrightarrow> c_event_count c = int (length (events_of (c_covenant_id c) es))"
proof
  show "recount es c = c \<Longrightarrow> c_event_count c = int (length (events_of (c_covenant_id c) es))"
    by (drule arg_cong [where f = c_event_count]) (simp add: recount_def)
qed (simp add: recount_def)

lemma counted_event:
  assumes "\<forall>c \<in> set cs. recount es c = c \<and> c_event_count c > 0"
    and "e_covenant_id ` set es \<subseteq> c_covenant_id ` set cs"
    and "e_covenant_id e = cid" and "c_covenant_id c0 = cid" and "c_event_count c0 = 0"
  shows "\<forall>c \<in> set (touch_covenant cid daa (ensure_covenant c0 cs)). recount (es @ [e]) c = c \<and> c_event_count c > 0"
    and "e_covenant_id ` set (es @ [e]) \<subseteq> c_covenant_id ` set (touch_covenant cid daa (ensure_covenant c0 cs))"
proof -
  have ids: "c_covenant_id ` set (touch_covenant cid daa (ensure_covenant c0 cs)) = insert cid (c_covenant_id ` set cs)"
    using assms(4) by (auto simp: touch_covenant_ids ensure_covenant_def)
  show "e_covenant_id ` set (es @ [e]) \<subseteq> c_covenant_id ` set (touch_covenant cid daa (ensure_covenant c0 cs))"
    unfolding ids using assms(2,3) by auto
  note rec = recount_fixed_iff
  have one: "events_of k [e] = (if k = cid then [e] else [])" for k
    using assms(3) by (simp add: events_of_def)
  have c0: "c0 \<in> set (ensure_covenant c0 cs) - set cs \<Longrightarrow> events_of cid es = []"
    using assms(2,4)
    by (auto simp: ensure_covenant_def events_of_def filter_empty_conv split: if_splits) (metis image_eqI subsetD)
  have "c_event_count c = int (length (events_of (c_covenant_id c) es))" if "c \<in> set (ensure_covenant c0 cs)" for c
  proof (cases "c \<in> set cs")
    case True
    with assms(1) show ?thesis by (simp add: rec)
  next
    case False
    with that have "c = c0" by (auto simp: ensure_covenant_def split: if_splits)
    with c0 that False show ?thesis using assms(4,5) by simp
  qed
  moreover have "c_event_count c > 0" if "c \<in> set (ensure_covenant c0 cs)" "c_covenant_id c \<noteq> cid" for c
    using that assms(1,4) by (auto simp: ensure_covenant_def split: if_splits)
  moreover have "c_event_count c \<ge> 0" if "c \<in> set (ensure_covenant c0 cs)" for c
    using that assms(1,5) by (fastforce simp: ensure_covenant_def split: if_splits)
  ultimately show "\<forall>c \<in> set (touch_covenant cid daa (ensure_covenant c0 cs)). recount (es @ [e]) c = c \<and> c_event_count c > 0"
    by (auto simp: touch_covenant_def rec events_of_append one)
qed

lemma apply_event_chain:
  assumes "apply_event X epoch blk ev (d, n) = Inr (d', n')"
  shows "n' = n + 1"
    and "d_utxos d' = d_utxos d" and "d_batches d' = d_batches d" and "d_meta d' = d_meta d"
    and "d_events d' = d_events d @ [new_event_row X blk ev (next_event_seq d (ne_covenant_id ev)) n]"
    and "d_covenants d' = touch_covenant (ne_covenant_id ev) (bk_accepting_daa blk)
      (ensure_covenant (new_covenant_row ev (bk_accepting_daa blk)) (d_covenants d))"
    and "d_delivery_log d' = d_delivery_log d @
      [delivery_row_of (accepted_record X epoch blk ev (next_event_seq d (ne_covenant_id ev)) n)]"
    and "n \<notin> l_stream_seq ` set (d_delivery_log d)"
    and "d_work d' = upsert pw_delivery_stream_seq
      \<lparr>pw_delivery_stream_seq = n, pw_covenant_ids = [ne_covenant_id ev]\<rparr> (d_work d)"
proof -
  let ?seq = "next_event_seq d (ne_covenant_id ev)"
  let ?c = "touch_covenant (ne_covenant_id ev) (bk_accepting_daa blk)
      (ensure_covenant (new_covenant_row ev (bk_accepting_daa blk)) (d_covenants d))"
  let ?r = "accepted_record X epoch blk ev ?seq n"
  from assms obtain events d1 where e: "insert_event (new_event_row X blk ev ?seq n) (d_events d) = Inr events"
    and i: "insert_delivery ?r (d\<lparr>d_covenants := ?c, d_events := events\<rparr>) = Inr d1"
    and n: "next_seq n = Inr n'" and d': "d' = enqueue_projection n [ne_covenant_id ev] d1"
    by (auto simp: apply_event_def Let_def dest!: early_return)
  have ev: "events = d_events d @ [new_event_row X blk ev ?seq n]"
    using e by (auto simp: insert_event_def insert_row_def split: if_splits)
  from insert_delivery_shape [OF i] obtain apps where
    d1: "d1 = d\<lparr>d_covenants := ?c, d_events := events, d_delivery_log := d_delivery_log d @ [delivery_row_of ?r],
      d_delivery_applications := apps\<rparr>"
    and fresh: "sc_seq (dr_cursor ?r) \<notin> l_stream_seq ` set (d_delivery_log d)" by auto
  show "n' = n + 1" using n by (auto simp: next_seq_def split: if_splits)
  show "n \<notin> l_stream_seq ` set (d_delivery_log d)" using fresh by (simp add: accepted_record_def)
  show "d_utxos d' = d_utxos d" "d_batches d' = d_batches d" "d_meta d' = d_meta d"
    "d_events d' = d_events d @ [new_event_row X blk ev ?seq n]" "d_covenants d' = ?c"
    "d_delivery_log d' = d_delivery_log d @ [delivery_row_of ?r]"
    "d_work d' = upsert pw_delivery_stream_seq
      \<lparr>pw_delivery_stream_seq = n, pw_covenant_ids = [ne_covenant_id ev]\<rparr> (d_work d)"
    by (simp_all add: d' d1 ev enqueue_projection_def)
qed

text \<open>The view of the chain tables, and the chain part of the invariant.\<close>

definition view :: "bytes set \<Rightarrow> db \<Rightarrow> utxo_row list \<times> event_row list \<times> covenant_row list" where
  "view S d = (utxos_without S (d_utxos d), events_without S (d_events d),
     map quiet (covenants_without S (d_events d) (d_covenants d)))"

lemma apply_event_view:
  assumes "apply_event X epoch blk ev (d, n) = Inr (d', n')" and "ledger_ok d" and "bk_accepting_block blk \<in> S"
  shows "ledger_ok d' \<and> view S d' = view S d"
proof -
  note ch = apply_event_chain [OF assms(1)]
  have inv: "\<forall>c \<in> set (d_covenants d). recount (d_events d) c = c \<and> c_event_count c > 0"
    "e_covenant_id ` set (d_events d) \<subseteq> c_covenant_id ` set (d_covenants d)"
    using assms(2) by (simp_all add: ledger_ok_def)
  let ?e = "new_event_row X blk ev (next_event_seq d (ne_covenant_id ev)) n"
  let ?c0 = "new_covenant_row ev (bk_accepting_daa blk)"
  have e: "e_covenant_id ?e = ne_covenant_id ev" "e_accepting_block ?e = bk_accepting_block blk"
    and c0: "c_covenant_id ?c0 = ne_covenant_id ev" "c_event_count ?c0 = 0"
    by (simp_all add: new_event_row_def new_covenant_row_def Let_def)
  have without: "events_without S (d_events d') = events_without S (d_events d)"
    using assms(3) by (simp add: ch(5) events_without_def e)
  then have "covenants_without S (d_events d') cs = covenants_without S (d_events d) cs" for cs
    by (simp add: covenants_without_def)
  moreover have "map quiet (covenants_without S (d_events d) (d_covenants d')) =
      map quiet (covenants_without S (d_events d) (d_covenants d))"
    unfolding ch(6) by (rule covenants_without_event [OF inv(2) c0(1)])
  moreover have "ledger_ok d'"
    unfolding ledger_ok_def ch(2,5,6)
  proof (intro conjI)
    show "\<forall>u \<in> set (d_utxos d). spend_columns_ok u" using assms(2) by (simp add: ledger_ok_def)
  qed (rule counted_event [OF inv e(1) c0])+
  ultimately show ?thesis using without ch(2) by (simp add: view_def)
qed

lemma apply_events_view:
  assumes "fold_result (apply_event X epoch blk) evs (d, n) = Inr (d', n')"
    and "ledger_ok d" and "bk_accepting_block blk \<in> S"
  shows "ledger_ok d' \<and> view S d' = view S d \<and> d_batches d' = d_batches d \<and> d_meta d' = d_meta d"
proof -
  let ?P = "\<lambda>s. ledger_ok (fst s) \<and> view S (fst s) = view S d \<and> d_batches (fst s) = d_batches d \<and>
    d_meta (fst s) = d_meta d"
  have "?P (d', n')"
  proof (rule fold_result_inv [OF assms(1), where P = ?P])
    fix ev s s' assume P: "?P s" and a: "apply_event X epoch blk ev s = Inr s'"
    obtain d1 n1 d2 n2 where s: "s = (d1, n1)" "s' = (d2, n2)" by fastforce
    from a have a: "apply_event X epoch blk ev (d1, n1) = Inr (d2, n2)" by (simp only: s)
    from P have "ledger_ok d1" by (simp add: s)
    from apply_event_view [OF a this assms(3)] apply_event_chain(3,4) [OF a] P show "?P s'"
      by (simp only: s fst_conv snd_conv)
  qed (use assms(2) in simp)
  then show ?thesis by simp
qed

lemma ledger_ok_cong:
  "d_utxos d' = d_utxos d \<Longrightarrow> d_events d' = d_events d \<Longrightarrow> d_covenants d' = d_covenants d \<Longrightarrow>
    ledger_ok d' = ledger_ok d \<and> view S d' = view S d"
  by (simp add: ledger_ok_def view_def)

lemma set_meta_frame [simp]:
  "d_utxos (set_meta k v d) = d_utxos d" "d_events (set_meta k v d) = d_events d"
  "d_covenants (set_meta k v d) = d_covenants d" "d_batches (set_meta k v d) = d_batches d"
  "d_delivery_log (set_meta k v d) = d_delivery_log d" "d_work (set_meta k v d) = d_work d"
  by (simp_all add: set_meta_def)

lemma update_meta_frame [simp]:
  "d_utxos (update_meta k v d) = d_utxos d" "d_events (update_meta k v d) = d_events d"
  "d_covenants (update_meta k v d) = d_covenants d" "d_batches (update_meta k v d) = d_batches d"
  "d_delivery_log (update_meta k v d) = d_delivery_log d" "d_work (update_meta k v d) = d_work d"
  by (simp_all add: update_meta_def)

text \<open>The stages of a fresh block, with what each leaves alone.\<close>

lemma apply_fresh_block_stages:
  assumes "apply_fresh_block X reg blk d = Inr d'"
  obtains epoch start d1 n1 where "transaction_stream_epoch X d = Inr epoch"
    and "transaction_next_stream_seq d = Inr start"
    and "fold_result (apply_event X epoch blk) (bk_events blk)
        (d\<lparr>d_utxos := apply_utxos X reg blk (d_utxos d)\<rparr>, start) = Inr (d1, n1)"
    and "d_utxos d' = d_utxos d1" "d_events d' = d_events d1" "d_covenants d' = d_covenants d1"
      "d_delivery_log d' = d_delivery_log d1" "d_work d' = d_work d1"
    and "d_batches d' = d_batches d1 @ (if bk_accepting_daa blk > 0 then
        [\<lparr>cbr_accepting_block = bk_accepting_block blk, cbr_accepting_daa = bk_accepting_daa blk,
          cbr_first_stream_seq = (if bk_events blk = [] then None else Some start),
          cbr_last_stream_seq = (if bk_events blk = [] \<or> n1 = 0 then None else Some (n1 - 1))\<rparr>] else [])"
    and "d_meta d' = (let m = upsert fst (''cursor'', hex_encode X (bk_accepting_block blk)) (d_meta d1) in
        if bk_accepting_daa blk > 0 then
          map (\<lambda>(k, w). if k = ''next_stream_seq'' then (k, show_nat n1) else (k, w))
            (upsert fst (''processed_daa'', show_nat (bk_accepting_daa blk)) m)
        else m)"
proof -
  from assms obtain epoch start d1 n1 d2 where e: "transaction_stream_epoch X d = Inr epoch"
    "transaction_next_stream_seq d = Inr start"
    "fold_result (apply_event X epoch blk) (bk_events blk)
        (d\<lparr>d_utxos := apply_utxos X reg blk (d_utxos d)\<rparr>, start) = Inr (d1, n1)"
    and d2: "application_apply_accepted blk d1 = Inr d2"
    and d': "(if bk_accepting_daa blk > 0 then
            finish_canonical_batch (bk_accepting_block blk) (bk_accepting_daa blk)
              (if bk_events blk = [] then None else Some start)
              (if bk_events blk = [] \<or> n1 = 0 then None else Some (n1 - 1)) n1
              (set_meta ''processed_daa'' (show_nat (bk_accepting_daa blk))
                (set_meta ''cursor'' (hex_encode X (bk_accepting_block blk)) d2))
          else Inr (set_meta ''cursor'' (hex_encode X (bk_accepting_block blk)) d2)) = Inr d'"
    unfolding apply_fresh_block_def Let_def by (auto dest!: early_return)
  note f = sans_apps_eqs [OF application_apply_frame [OF d2]]
  show ?thesis
    by (rule that [OF e])
      (use d' f in \<open>auto simp: finish_canonical_batch_def insert_row_def set_meta_def update_meta_def Let_def
        split: if_splits sum.splits\<close>)
qed

lemma apply_fresh_block_view:
  assumes "apply_fresh_block X reg blk d = Inr d'" and "ledger_ok d"
    and "bk_accepting_block blk \<in> S" and "fits S blk (d_utxos d)"
  shows "ledger_ok d' \<and> view S d' = view S d"
proof -
  from assms(1) obtain epoch start d1 n1 where ev: "fold_result (apply_event X epoch blk) (bk_events blk)
        (d\<lparr>d_utxos := apply_utxos X reg blk (d_utxos d)\<rparr>, start) = Inr (d1, n1)"
    and eqs: "d_utxos d' = d_utxos d1" "d_events d' = d_events d1" "d_covenants d' = d_covenants d1"
    by (rule apply_fresh_block_stages) blast
  have "utxos_without S (apply_utxos X reg blk (d_utxos d)) = utxos_without S (d_utxos d) \<and>
      (\<forall>u \<in> set (apply_utxos X reg blk (d_utxos d)). spend_columns_ok u)"
    by (rule apply_utxos_view [OF assms(3,4)]) (use assms(2) in \<open>simp add: ledger_ok_def\<close>)
  then have "ledger_ok (d\<lparr>d_utxos := apply_utxos X reg blk (d_utxos d)\<rparr>) \<and>
      view S (d\<lparr>d_utxos := apply_utxos X reg blk (d_utxos d)\<rparr>) = view S d"
    using assms(2) by (simp add: ledger_ok_def view_def)
  with apply_events_view [OF ev _ assms(3)] ledger_ok_cong [OF eqs] show ?thesis by simp
qed

section \<open>Rolling blocks back\<close>

lemma clear_spend_simps [simp]:
  "u_created_block (clear_spend u) = u_created_block u" "u_spent_block (clear_spend u) = None"
  "clear_spend (clear_spend u) = clear_spend u"
  by (simp_all add: clear_spend_def)

lemma unspend_created [simp]: "u_created_block (unspend S u) = u_created_block u"
  by (simp add: unspend_def)

lemma unspend_unspend: "unspend T (unspend S u) = unspend (S \<union> T) u"
  by (auto simp: unspend_def)

lemma recount_recount [simp]: "recount es (recount es' c) = recount es c"
  by (simp add: recount_def)

lemma recount_id [simp]: "c_covenant_id (recount es c) = c_covenant_id c"
  by (simp add: recount_def)

lemma events_without_union: "events_without T (events_without S es) = events_without (S \<union> T) es"
  by (auto simp: events_without_def intro: filter_cong)

lemma recount_rollback:
  assumes "recount es c = c"
  shows "c\<lparr>c_event_count := c_event_count c -
      int (length (filter (\<lambda>e. e_accepting_block e = b \<and> e_covenant_id e = c_covenant_id c) es))\<rparr> =
    recount (events_without {b} es) c"
proof -
  have "length (filter (\<lambda>e. e_accepting_block e = b \<and> e_covenant_id e = k) es) + length (events_of k (events_without {b} es)) =
      length (events_of k es)" for k
    by (induction es) (auto simp: events_of_def events_without_def)
  from this [of "c_covenant_id c"]
  have "c_event_count c - int (length (filter (\<lambda>e. e_accepting_block e = b \<and> e_covenant_id e = c_covenant_id c) es)) =
      int (length (events_of (c_covenant_id c) (events_without {b} es)))"
    using assms unfolding recount_fixed_iff by linarith
  then show ?thesis by (simp add: recount_def)
qed

lemma rollback_block_chain:
  assumes "\<forall>c \<in> set (d_covenants d). recount (d_events d) c = c"
  shows "d_events (rollback_block b d) = events_without {b} (d_events d)"
    and "d_covenants (rollback_block b d) = map (recount (events_without {b} (d_events d))) (d_covenants d)"
    and "d_utxos (rollback_block b d) = map (unspend {b}) (filter (\<lambda>u. u_created_block u \<notin> {b}) (d_utxos d))"
proof -
  show "d_events (rollback_block b d) = events_without {b} (d_events d)"
    by (simp add: rollback_block_def events_without_def)
  show "d_covenants (rollback_block b d) = map (recount (events_without {b} (d_events d))) (d_covenants d)"
    using assms by (auto simp: rollback_block_def recount_rollback)
  have "filter (\<lambda>u. u_created_block u \<noteq> b) (map (\<lambda>u. if u_spent_block u = Some b then clear_spend u else u) us) =
      map (unspend {b}) (filter (\<lambda>u. u_created_block u \<notin> {b}) us)" for us
    by (induction us) (auto simp: unspend_def)
  then show "d_utxos (rollback_block b d) = map (unspend {b}) (filter (\<lambda>u. u_created_block u \<notin> {b}) (d_utxos d))"
    by (simp add: rollback_block_def)
qed

lemma rollback_blocks_chain:
  assumes "\<forall>c \<in> set (d_covenants d). recount (d_events d) c = c"
  shows "d_events (fold rollback_block bs d) = events_without (set bs) (d_events d) \<and>
    d_covenants (fold rollback_block bs d) = map (recount (events_without (set bs) (d_events d))) (d_covenants d) \<and>
    d_utxos (fold rollback_block bs d) = map (unspend (set bs)) (filter (\<lambda>u. u_created_block u \<notin> set bs) (d_utxos d))"
  using assms
proof (induction bs arbitrary: d)
  case Nil
  then show ?case by (auto simp: events_without_def unspend_def map_idI)
next
  case (Cons b bs)
  note one = rollback_block_chain [OF Cons.prems, of b]
  have "\<forall>c \<in> set (d_covenants (rollback_block b d)). recount (d_events (rollback_block b d)) c = c"
    by (auto simp: one)
  note rest = Cons.IH [OF this]
  have "filter (\<lambda>u. u_created_block u \<notin> set bs) (map (unspend {b}) (filter (\<lambda>u. u_created_block u \<notin> {b}) us)) =
      map (unspend {b}) (filter (\<lambda>u. u_created_block u \<notin> set (b # bs)) us)" for us
    by (induction us) auto
  with rest one show ?case by (auto simp: events_without_union unspend_unspend)
qed

lemma append_removal_frame:
  assumes "append_removal epoch source (d, n, rs) = Inr (d', n', rs')"
  shows "d_utxos d' = d_utxos d" "d_events d' = d_events d" "d_covenants d' = d_covenants d"
    "d_batches d' = d_batches d" "d_meta d' = d_meta d" "d_work d' = d_work d"
    and "n' = n + 1" and "rs' = rs @ [removal_record epoch source n]"
    and "d_delivery_log d' = d_delivery_log d @ [delivery_row_of (removal_record epoch source n)]"
proof -
  from assms obtain d1 where i: "insert_delivery (removal_record epoch source n) d = Inr d1"
    and n: "next_seq n = Inr n'" and eq: "d' = d1" "rs' = rs @ [removal_record epoch source n]"
    by (auto simp: append_removal_def Let_def dest!: early_return)
  show "n' = n + 1" using n by (auto simp: next_seq_def split: if_splits)
  show "rs' = rs @ [removal_record epoch source n]" by (fact eq(2))
  show "d_utxos d' = d_utxos d" "d_events d' = d_events d" "d_covenants d' = d_covenants d"
    "d_batches d' = d_batches d" "d_meta d' = d_meta d" "d_work d' = d_work d"
    "d_delivery_log d' = d_delivery_log d @ [delivery_row_of (removal_record epoch source n)]"
    using insert_delivery_shape [OF i] eq by auto
qed

text \<open>The chain tables, the batches and the queue of a database.\<close>

definition chain_part :: "db \<Rightarrow> utxo_row list \<times> event_row list \<times> covenant_row list \<times> batch_row list \<times> work_row list" where
  "chain_part d = (d_utxos d, d_events d, d_covenants d, d_batches d, d_work d)"

lemma append_removed_frame:
  assumes "append_removed_deliveries X bs d = Inr (rs, d')"
  shows "chain_part d' = chain_part d"
proof -
  have one: "chain_part (fst s') = chain_part (fst s)" if "append_removal epoch src s = Inr s'" for epoch src s s'
    using append_removal_frame [of epoch src "fst s" "fst (snd s)" "snd (snd s)" "fst s'" "fst (snd s')" "snd (snd s')"] that
    by (simp add: chain_part_def)
  have blk: "chain_part (fst s') = chain_part (fst s)" if "append_block_removals epoch b s = Inr s'" for epoch b s s'
    using that unfolding append_block_removals_def
    by (rule fold_result_inv [where P = "\<lambda>t. chain_part (fst t) = chain_part (fst s)"]) (auto dest: one)
  from assms obtain epoch start d1 n1 where
    f: "fold_result (append_block_removals epoch) bs (d, start, []) = Inr (d1, n1, rs)"
    and d': "d' = update_meta ''next_stream_seq'' (show_nat n1) d1"
    by (auto simp: append_removed_deliveries_def dest!: early_return)
  have "chain_part (fst (d1, n1, rs)) = chain_part d"
    by (rule fold_result_inv [OF f, where P = "\<lambda>t. chain_part (fst t) = chain_part d"]) (auto dest: blk)
  then show ?thesis by (simp add: d' chain_part_def)
qed

lemma enqueue_fold_frame:
  "chain_part (fold (\<lambda>r. enqueue_projection (f r) (g r)) rs d) =
     (case chain_part d of (u, e, c, b, _) \<Rightarrow>
        (u, e, c, b, d_work (fold (\<lambda>r. enqueue_projection (f r) (g r)) rs d)))"
  by (induction rs arbitrary: d) (auto simp: chain_part_def enqueue_projection_def)

lemma enqueue_fold_log:
  "d_delivery_log (fold (\<lambda>r. enqueue_projection (f r) (g r)) rs d) = d_delivery_log d"
  "d_meta (fold (\<lambda>r. enqueue_projection (f r) (g r)) rs d) = d_meta d"
  by (induction rs arbitrary: d) (simp_all add: enqueue_projection_def)

lemma rollback_stages:
  assumes "rollback_removed_blocks X now removed d = Inr (res, d')"
    and "canonical_removed d removed \<noteq> []"
  obtains rs d1 where "append_removed_deliveries X (canonical_removed d removed) d = Inr (rs, d1)"
    and "res = \<lparr>cr_removed_blocks = canonical_removed d removed, cr_deliveries = rs\<rparr>"
    and "d_events d' = d_events (fold rollback_block (canonical_removed d removed) d)"
    and "d_utxos d' = d_utxos (fold rollback_block (canonical_removed d removed) d)"
    and "d_covenants d' = filter (\<lambda>c. c_event_count c > 0)
      (d_covenants (fold rollback_block (canonical_removed d removed) d))"
    and "d_batches d' = d_batches (fold rollback_block (canonical_removed d removed) d)"
    and "d_delivery_log d' = d_delivery_log d1" and "d_meta d' = d_meta d1"
    and "d_work d' = d_work (fold (\<lambda>r. enqueue_projection (sc_seq (dr_cursor r)) [dr_covenant_id r]) rs d1)"
proof -
  let ?bs = "canonical_removed d removed"
  from assms obtain rs d1 where a: "append_removed_deliveries X ?bs d = Inr (rs, d1)"
    by (auto simp: rollback_removed_blocks_def Let_def split: sum.splits)
  let ?q = "fold (\<lambda>r. enqueue_projection (sc_seq (dr_cursor r)) [dr_covenant_id r]) rs d1"
  let ?d2 = "application_rollback_removed ?bs ?q"
  from assms a have eq: "res = \<lparr>cr_removed_blocks = ?bs, cr_deliveries = rs\<rparr>"
    "d' = log_reorg now (length ?bs) ((fold rollback_block ?bs ?d2)
      \<lparr>d_covenants := filter (\<lambda>c. c_event_count c > 0) (d_covenants (fold rollback_block ?bs ?d2))\<rparr>)"
    by (auto simp: rollback_removed_blocks_def Let_def)
  note q = enqueue_fold_log [of "\<lambda>r. sc_seq (dr_cursor r)" "\<lambda>r. [dr_covenant_id r]" rs d1]
  note f = sans_apps_eqs [OF application_rollback_frame, of ?bs ?q]
  have same: "d_utxos ?d2 = d_utxos d" "d_events ?d2 = d_events d" "d_covenants ?d2 = d_covenants d"
    "d_batches ?d2 = d_batches d"
    using f append_removed_frame [OF a]
      enqueue_fold_frame [of "\<lambda>r. sc_seq (dr_cursor r)" "\<lambda>r. [dr_covenant_id r]" rs d1]
    by (simp_all add: chain_part_def)
  have rest: "d_delivery_log (fold rollback_block bs e) = d_delivery_log e \<and> d_meta (fold rollback_block bs e) = d_meta e \<and>
      d_work (fold rollback_block bs e) = d_work e" for bs e
    by (induction bs arbitrary: e) (simp_all add: rollback_block_def)
  have cong: "d_utxos e = d_utxos e' \<Longrightarrow> d_events e = d_events e' \<Longrightarrow> d_covenants e = d_covenants e' \<Longrightarrow>
      d_batches e = d_batches e' \<Longrightarrow>
      d_utxos (fold rollback_block bs e) = d_utxos (fold rollback_block bs e') \<and>
      d_events (fold rollback_block bs e) = d_events (fold rollback_block bs e') \<and>
      d_covenants (fold rollback_block bs e) = d_covenants (fold rollback_block bs e') \<and>
      d_batches (fold rollback_block bs e) = d_batches (fold rollback_block bs e')" for bs e e'
    by (induction bs arbitrary: e e') (simp_all add: rollback_block_def)
  from cong [OF same, of ?bs] show ?thesis
    by (intro that [OF a eq(1)]) (simp_all add: eq(2) log_reorg_def rest f q)
qed

lemma set_canonical_removed:
  "set (canonical_removed d removed) = set removed \<inter> cbr_accepting_block ` set (d_batches d)"
  by (auto simp: canonical_removed_def)

lemma rollback_view:
  assumes "rollback_removed_blocks X now removed d = Inr (res, d')" and "ledger_ok d"
    and "S = set removed \<inter> cbr_accepting_block ` set (d_batches d)"
  shows "ledger_ok d' \<and> set (cr_removed_blocks res) = S \<and>
    (map forget (d_utxos d'), d_events d', map quiet (d_covenants d')) = view S d"
proof (cases "canonical_removed d removed = []")
  case True
  then have "S = {}" using assms(3) set_canonical_removed [of d removed] by simp
  moreover have "recount (d_events d) c = c" if "c \<in> set (d_covenants d)" for c
    using assms(2) that by (simp add: ledger_ok_def)
  moreover have "c_event_count c > 0" if "c \<in> set (d_covenants d)" for c
    using assms(2) that by (simp add: ledger_ok_def)
  ultimately show ?thesis
    using assms(1,2) True
    by (auto simp: rollback_removed_blocks_def view_def utxos_without_def events_without_def covenants_without_def
        unspend_def map_idI filter_id_conv)
next
  case False
  from rollback_stages [OF assms(1) False] have st:
    "set (cr_removed_blocks res) = S"
    "d_events d' = d_events (fold rollback_block (canonical_removed d removed) d)"
    "d_utxos d' = d_utxos (fold rollback_block (canonical_removed d removed) d)"
    "d_covenants d' = filter (\<lambda>c. c_event_count c > 0) (d_covenants (fold rollback_block (canonical_removed d removed) d))"
    using assms(3) set_canonical_removed [of d removed] by (metis committed_removal_batch.select_convs(1))+
  have cnt: "\<forall>c \<in> set (d_covenants d). recount (d_events d) c = c"
    using assms(2) by (simp add: ledger_ok_def)
  have S: "set (canonical_removed d removed) = S" using assms(3) set_canonical_removed by simp
  note ch = rollback_blocks_chain [OF cnt, of "canonical_removed d removed", unfolded S]
  have e: "d_events d' = events_without S (d_events d)" and u: "d_utxos d' = map (unspend S) (filter (\<lambda>u. u_created_block u \<notin> S) (d_utxos d))"
    and c: "d_covenants d' = covenants_without S (d_events d) (d_covenants d)"
    using st(2-4) ch by (simp_all add: covenants_without_def)
  have v: "(map forget (d_utxos d'), d_events d', map quiet (d_covenants d')) = view S d"
    by (simp add: e u c view_def utxos_without_def)
  have "spend_columns_ok (unspend S x)" if "spend_columns_ok x" for x
    using that by (simp add: unspend_def spend_columns_ok_def)
  then have "\<forall>x \<in> set (d_utxos d'). spend_columns_ok x"
    using assms(2) by (auto simp: u ledger_ok_def)
  moreover have "recount (d_events d') x = x \<and> c_event_count x > 0" if "x \<in> set (d_covenants d')" for x
    using that by (auto simp: c e covenants_without_def)
  moreover have "e_covenant_id x \<in> c_covenant_id ` set (d_covenants d')" if "x \<in> set (d_events d')" for x
  proof -
    from that assms(2) obtain y where y: "y \<in> set (d_covenants d)" "c_covenant_id y = e_covenant_id x"
      by (auto simp: e events_without_def ledger_ok_def)
    from that have "events_of (e_covenant_id x) (d_events d') \<noteq> []" by (auto simp: events_of_def filter_empty_conv)
    then have "c_event_count (recount (events_without S (d_events d)) y) > 0"
      by (simp add: recount_def y(2) e)
    with y have "recount (events_without S (d_events d)) y \<in> set (d_covenants d')"
      by (auto simp: c covenants_without_def)
    with y(2) show ?thesis by (metis image_eqI recount_id)
  qed
  ultimately have "ledger_ok d'" by (auto simp: ledger_ok_def)
  with v st(1) show ?thesis by simp
qed

section \<open>Growing and undoing a chain\<close>

text \<open>A chain of new blocks, each of which creates new outpoints and spends live cells only.\<close>

inductive chain_grows :: "externals \<Rightarrow> state_decoder list \<Rightarrow> accepted_block_batch list \<Rightarrow> db \<Rightarrow> db \<Rightarrow> bool"
  for X reg where
  stay: "chain_grows X reg [] d d"
| grow: "apply_accepted_block X reg blk d = Inr (res, d1) \<Longrightarrow> 0 < bk_accepting_daa blk \<Longrightarrow>
    canonical_batch_daa d (bk_accepting_block blk) = None \<Longrightarrow> fits {} blk (d_utxos d) \<Longrightarrow>
    chain_grows X reg blks d1 d2 \<Longrightarrow> chain_grows X reg (blk # blks) d d2"

inductive_cases grows_NilE: "chain_grows X reg [] d d'"
inductive_cases grows_ConsE: "chain_grows X reg (blk # blks) d d'"

text \<open>No row of the database is attributed to a block of \<open>S\<close>.\<close>

definition untouched :: "bytes set \<Rightarrow> db \<Rightarrow> bool" where
  "untouched S d \<longleftrightarrow>
     (\<forall>u \<in> set (d_utxos d). u_created_block u \<notin> S \<and> u_spent_block u \<notin> Some ` S) \<and>
     (\<forall>e \<in> set (d_events d). e_accepting_block e \<notin> S)"

lemma fits_mono: "fits {} blk us \<Longrightarrow> fits S blk us"
  by (auto simp: fits_def)

lemma apply_fresh:
  assumes "apply_accepted_block X reg blk d = Inr (res, d')" and "canonical_batch_daa d (bk_accepting_block blk) = None"
  shows "apply_fresh_block X reg blk d = Inr d'"
  using assms by (auto simp: apply_accepted_block_def split: if_splits sum.splits)

lemma apply_fresh_batches:
  assumes "apply_fresh_block X reg blk d = Inr d'"
  shows "cbr_accepting_block ` set (d_batches d') =
    cbr_accepting_block ` set (d_batches d) \<union> (if 0 < bk_accepting_daa blk then {bk_accepting_block blk} else {})"
proof -
  from assms obtain epoch start d1 n1 b where
    ev: "fold_result (apply_event X epoch blk) (bk_events blk)
        (d\<lparr>d_utxos := apply_utxos X reg blk (d_utxos d)\<rparr>, start) = Inr (d1, n1)"
    and b: "d_batches d' = d_batches d1 @ (if 0 < bk_accepting_daa blk then [b] else [])"
    "cbr_accepting_block b = bk_accepting_block blk"
    by (rule apply_fresh_block_stages) fastforce
  have "d_batches (fst (d1, n1)) = d_batches d"
  proof (rule fold_result_inv [OF ev, where P = "\<lambda>s. d_batches (fst s) = d_batches d"])
    show "d_batches (fst s') = d_batches d"
      if "d_batches (fst s) = d_batches d" "apply_event X epoch blk e s = Inr s'" for e s s'
      using that apply_event_chain(3) [of X epoch blk e "fst s" "snd s" "fst s'" "snd s'"] by simp
  qed simp
  with b show ?thesis by auto
qed

lemma grows_view:
  assumes "chain_grows X reg blks d d'" and "ledger_ok d" and "bk_accepting_block ` set blks \<subseteq> S"
  shows "ledger_ok d' \<and> view S d' = view S d \<and>
    bk_accepting_block ` set blks \<subseteq> cbr_accepting_block ` set (d_batches d') \<and>
    cbr_accepting_block ` set (d_batches d) \<subseteq> cbr_accepting_block ` set (d_batches d')"
  using assms
proof (induction rule: chain_grows.induct)
  case (grow blk d res d1 blks d2)
  note fresh = apply_fresh [OF grow.hyps(1,3)]
  have "ledger_ok d1 \<and> view S d1 = view S d"
    by (rule apply_fresh_block_view [OF fresh grow.prems(1) _ fits_mono [OF grow.hyps(4)]])
      (use grow.prems(2) in simp)
  with grow.IH grow.prems(2) apply_fresh_batches [OF fresh] grow.hyps(2) show ?case by auto
qed simp

lemma view_untouched:
  assumes "ledger_ok d" and "untouched S d"
  shows "view S d = (map forget (d_utxos d), d_events d, map quiet (d_covenants d))"
proof -
  have "events_without S (d_events d) = d_events d"
    using assms(2) by (auto simp: untouched_def events_without_def filter_id_conv)
  moreover have "utxos_without S us = map forget us" if "set us \<subseteq> set (d_utxos d)" for us
    using that assms(2) by (induction us) (auto simp: untouched_def utxos_without_def unspend_def)
  moreover have "covenants_without S (d_events d) cs = cs"
    if "events_without S (d_events d) = d_events d" "set cs \<subseteq> set (d_covenants d)" for cs
    using that(2) assms(1) by (induction cs) (auto simp: covenants_without_def that(1) ledger_ok_def)
  ultimately show ?thesis by (simp add: view_def)
qed

text \<open>C2. A reorg is undone exactly: after any chain of new blocks has been applied, rolling back those
  blocks, in any order and with repetitions, restores every cell, event and covenant row of the ledger
  as it was, up to two columns of reverted spends and the covenants' activity stamp, and the ledger is
  well-formed again.\<close>

theorem reorg_undone:
  assumes "ledger_ok d" and "chain_grows X reg blks d d1" and "untouched (bk_accepting_block ` set blks) d"
    and "rollback_removed_blocks X now removed d1 = Inr (res, d2)"
    and "set removed = bk_accepting_block ` set blks"
  shows "d_events d2 = d_events d \<and> map forget (d_utxos d2) = map forget (d_utxos d) \<and>
    map quiet (d_covenants d2) = map quiet (d_covenants d) \<and> ledger_ok d2"
proof -
  let ?S = "bk_accepting_block ` set blks"
  have g: "ledger_ok d1 \<and> view ?S d1 = view ?S d \<and> ?S \<subseteq> cbr_accepting_block ` set (d_batches d1)"
    using grows_view [OF assms(2,1) subset_refl] by blast
  then have "?S = set removed \<inter> cbr_accepting_block ` set (d_batches d1)" using assms(5) by blast
  from rollback_view [OF assms(4) _ this] g view_untouched [OF assms(1,3)] show ?thesis by simp
qed

section \<open>An example\<close>

definition ledger_db :: db where
  "ledger_db = empty_db\<lparr>d_meta :=
     [(''stream_epoch'', ''abababababababababababababababab''), (''next_stream_seq'', ''1'')]\<rparr>"

definition demo_batch :: accepted_block_batch where
  "demo_batch = (empty_batch [7])\<lparr>bk_accepting_daa := 100,
     bk_events := [\<lparr>ne_covenant_id = [9], ne_kind = Genesis, ne_txid = [1], ne_tx_index = 0, ne_event_index = 0,
       ne_payload = None, ne_lane_namespace = None\<rparr>],
     bk_created_utxos := [\<lparr>nu_outpoint = ([1], 0), nu_covenant_id = [9], nu_value = 7, nu_spk_version = 0,
       nu_spk_script = [0x51]\<rparr>]\<rparr>"

definition demo_block2 :: accepted_block_batch where
  "demo_block2 = (empty_batch [8])\<lparr>bk_accepting_daa := 101,
     bk_events := [\<lparr>ne_covenant_id = [9], ne_kind = Burn, ne_txid = [2], ne_tx_index = 0, ne_event_index = 0,
       ne_payload = None, ne_lane_namespace = None\<rparr>],
     bk_spent_utxos := [(([1], 0), [2], [0x51], 10, 0)]\<rparr>"

definition demo_ext :: externals where
  "demo_ext = demo_externals\<lparr>hex_decode := \<lambda>_. Some (replicate 16 0xAB)\<rparr>"

text \<open>The database after \<open>demo_batch\<close>, after \<open>demo_block2\<close>, which spends the cell of the first block, and after
  the second block is reorged out.\<close>

definition base_db :: db where
  "base_db = snd (projr (apply_accepted_block demo_ext [] demo_batch ledger_db))"

definition grown_db :: db where
  "grown_db = snd (projr (apply_accepted_block demo_ext [] demo_block2 base_db))"

definition undone_db :: db where
  "undone_db = snd (projr (rollback_removed_blocks demo_ext 0 [[8], [8]] grown_db))"

lemma projr_pair: "\<not> isl s \<Longrightarrow> s = Inr (fst (projr s), snd (projr s))"
  by (cases s) simp_all

lemma base_step: "chain_grows demo_ext [] [demo_batch] ledger_db base_db"
proof (rule chain_grows.grow [OF _ _ _ _ chain_grows.stay])
  have "\<not> isl (apply_accepted_block demo_ext [] demo_batch ledger_db)" by code_simp
  from projr_pair [OF this] show "apply_accepted_block demo_ext [] demo_batch ledger_db =
      Inr (fst (projr (apply_accepted_block demo_ext [] demo_batch ledger_db)), base_db)"
    by (simp add: base_db_def)
  show "fits {} demo_batch (d_utxos ledger_db)" by code_simp
  show "canonical_batch_daa ledger_db (bk_accepting_block demo_batch) = None" by code_simp
qed (simp add: demo_batch_def)

lemma grown_step: "chain_grows demo_ext [] [demo_block2] base_db grown_db"
proof (rule chain_grows.grow [OF _ _ _ _ chain_grows.stay])
  have "\<not> isl (apply_accepted_block demo_ext [] demo_block2 base_db)" by code_simp
  from projr_pair [OF this] show "apply_accepted_block demo_ext [] demo_block2 base_db =
      Inr (fst (projr (apply_accepted_block demo_ext [] demo_block2 base_db)), grown_db)"
    by (simp add: grown_db_def)
  show "fits {} demo_block2 (d_utxos base_db)" by code_simp
  show "canonical_batch_daa base_db (bk_accepting_block demo_block2) = None" by code_simp
qed (simp add: demo_block2_def)

lemma undone_step:
  "rollback_removed_blocks demo_ext 0 [[8], [8]] grown_db =
     Inr (fst (projr (rollback_removed_blocks demo_ext 0 [[8], [8]] grown_db)), undone_db)"
proof -
  have "\<not> isl (rollback_removed_blocks demo_ext 0 [[8], [8]] grown_db)" by code_simp
  from projr_pair [OF this] show ?thesis by (simp add: undone_db_def)
qed

theorem reorg_undone_witness:
  "d_events undone_db = d_events base_db \<and> map forget (d_utxos undone_db) = map forget (d_utxos base_db) \<and>
    map quiet (d_covenants undone_db) = map quiet (d_covenants base_db) \<and> ledger_ok undone_db"
proof (rule reorg_undone [OF _ grown_step _ undone_step])
  have "ledger_ok ledger_db" by (simp add: ledger_ok_def ledger_db_def empty_db_def)
  with grows_view [OF base_step] show "ledger_ok base_db" by blast
  show "untouched (bk_accepting_block ` set [demo_block2]) base_db" by code_simp
  show "set [[8], [8]] = bk_accepting_block ` set [demo_block2]" by (simp add: demo_block2_def empty_batch_def)
qed

end
