(* ===== verification/Delivery.thy ===== *)
theory Delivery
  imports Ledger "HOL-Library.Option_ord"
begin

text \<open>
  \<open>crates/kascov-core/src/store_delivery.rs\<close>, the read side of the delivery stream and the offline
  backfill, and \<open>projection.rs\<close>, the queue of the derived token tables. A page is the part of the
  log after a cursor that passes a filter; the backfill gives stream numbers to events recorded
  before the stream existed; a drain re-derives what the oldest queued deliveries touched.
\<close>

section \<open>The state of the stream\<close>

definition delivery_high_water :: "externals \<Rightarrow> db \<Rightarrow> string + stream_cursor" where
  "delivery_high_water X d =
     (case transaction_stream_epoch X d of Inl e \<Rightarrow> Inl e
      | Inr epoch \<Rightarrow>
     (case transaction_next_stream_seq d of Inl e \<Rightarrow> Inl e
      | Inr next \<Rightarrow>
          if next = 0 then Inl ''next stream sequence'' else Inr \<lparr>sc_epoch = epoch, sc_seq = next - 1\<rparr>))"

definition min_stream_seq :: "db \<Rightarrow> nat option" where
  "min_stream_seq d =
     (if d_delivery_log d = [] then None else Some (Min (set (map l_stream_seq (d_delivery_log d)))))"

definition earliest_delivery_cursor :: "externals \<Rightarrow> db \<Rightarrow> string + stream_cursor option" where
  "earliest_delivery_cursor X d =
     (case transaction_stream_epoch X d of Inl e \<Rightarrow> Inl e
      | Inr epoch \<Rightarrow> Inr (map_option (\<lambda>s. \<lparr>sc_epoch = epoch, sc_seq = s\<rparr>) (min_stream_seq d)))"

definition delivery_backfill_complete :: "db \<Rightarrow> bool" where
  "delivery_backfill_complete d \<longleftrightarrow> get_meta d ''delivery_backfill_complete'' = Some ''1''"

definition delivery_history_start_daa :: "db \<Rightarrow> string + nat" where
  "delivery_history_start_daa d = parse_meta_u64 d ''delivery_history_start_daa''"

definition delivery_history_order_complete :: "db \<Rightarrow> bool" where
  "delivery_history_order_complete d \<longleftrightarrow> get_meta d ''delivery_history_order_complete'' = Some ''1''"

record delivery_stream_info =
  si_earliest :: "stream_cursor option"
  si_current :: stream_cursor
  si_history_start_daa :: nat
  si_order_complete :: bool

definition delivery_stream_info :: "externals \<Rightarrow> db \<Rightarrow> string + delivery_stream_info" where
  "delivery_stream_info X d =
     (case (get_meta d ''stream_epoch'', get_meta d ''next_stream_seq'',
            get_meta d ''delivery_history_start_daa'', get_meta d ''delivery_history_order_complete'') of
        (Some epoch, Some next, Some start, Some order) \<Rightarrow>
          (case parse_epoch X epoch of None \<Rightarrow> Inl ''stream epoch''
           | Some epoch \<Rightarrow>
          (case parse_u64 next of None \<Rightarrow> Inl ''next_stream_seq''
           | Some next \<Rightarrow>
          if next = 0 then Inl ''next stream sequence''
          else (case parse_u64 start of None \<Rightarrow> Inl ''delivery_history_start_daa''
           | Some start \<Rightarrow>
          if order \<noteq> ''0'' \<and> order \<noteq> ''1'' then Inl ''delivery_history_order_complete''
          else Inr \<lparr>si_earliest = map_option (\<lambda>s. \<lparr>sc_epoch = epoch, sc_seq = s\<rparr>) (min_stream_seq d),
                    si_current = \<lparr>sc_epoch = epoch, sc_seq = next - 1\<rparr>,
                    si_history_start_daa = start, si_order_complete = (order = ''1'')\<rparr>)))
      | _ \<Rightarrow> Inl ''sqlite'')"

datatype delivery_cursor_position = Valid | ForeignEpoch | Ahead

definition classify_cursor :: "delivery_stream_info \<Rightarrow> stream_cursor \<Rightarrow> delivery_cursor_position" where
  "classify_cursor info cursor =
     (if sc_epoch cursor \<noteq> sc_epoch (si_current info) then ForeignEpoch
      else if sc_seq cursor > sc_seq (si_current info) then Ahead
      else Valid)"

section \<open>Pages\<close>

record delivery_filter =
  fl_covenant_id :: "bytes option"
  fl_application_id :: "string option"
  fl_artifact_id :: "bytes option"
  fl_actor_path :: "string option"

definition no_filter :: delivery_filter where
  "no_filter = \<lparr>fl_covenant_id = None, fl_application_id = None, fl_artifact_id = None, fl_actor_path = None\<rparr>"

text \<open>\<open>?n IS NULL OR column = ?n\<close>.\<close>

definition wanted :: "'a option \<Rightarrow> 'a \<Rightarrow> bool" where
  "wanted v x \<longleftrightarrow> (case v of None \<Rightarrow> True | Some y \<Rightarrow> x = y)"

definition application_wanted :: "delivery_filter \<Rightarrow> delivery_application_row \<Rightarrow> bool" where
  "application_wanted fl a \<longleftrightarrow>
     wanted (fl_application_id fl) (la_application_id a) \<and> wanted (fl_artifact_id fl) (la_artifact_id a) \<and>
     wanted (fl_actor_path fl) (la_actor_path a)"

definition row_wanted :: "db \<Rightarrow> delivery_filter \<Rightarrow> delivery_row \<Rightarrow> bool" where
  "row_wanted d fl l \<longleftrightarrow>
     wanted (fl_covenant_id fl) (l_covenant_id l) \<and>
     (fl_application_id fl = None \<and> fl_artifact_id fl = None \<and> fl_actor_path fl = None \<or>
      (\<exists>a \<in> set (d_delivery_applications d). la_stream_seq a = l_stream_seq l \<and> application_wanted fl a))"

definition MAX_PUBLIC_DELIVERY_PAGE :: nat where "MAX_PUBLIC_DELIVERY_PAGE = 1001"

definition MAX_DELIVERY_REPLAY_PAGE :: nat where "MAX_DELIVERY_REPLAY_PAGE = 1024"

text \<open>\<open>limit.clamp(lo, hi)\<close>.\<close>

definition clamp :: "nat \<Rightarrow> nat \<Rightarrow> nat \<Rightarrow> nat" where
  "clamp lo hi limit = (if limit < lo then lo else if limit > hi then hi else limit)"

definition page_rows :: "db \<Rightarrow> delivery_filter \<Rightarrow> nat \<Rightarrow> nat \<Rightarrow> delivery_row list" where
  "page_rows d fl after_seq n =
     take n (sort_key l_stream_seq (filter (\<lambda>l. l_stream_seq l > after_seq \<and> row_wanted d fl l) (d_delivery_log d)))"

definition delivery_page_filtered_with_cap ::
  "externals \<Rightarrow> stream_cursor option \<Rightarrow> nat \<Rightarrow> delivery_filter \<Rightarrow> nat \<Rightarrow> db \<Rightarrow> string + delivery_record list" where
  "delivery_page_filtered_with_cap X after limit fl max_limit d =
     (case transaction_stream_epoch X d of Inl e \<Rightarrow> Inl e
      | Inr epoch \<Rightarrow>
          if (case after of None \<Rightarrow> False | Some c \<Rightarrow> sc_epoch c \<noteq> epoch) then Inl ''stream cursor epoch''
          else Inr (map l_data_json (page_rows d fl (case after of None \<Rightarrow> 0 | Some c \<Rightarrow> sc_seq c)
                      (clamp 1 max_limit limit))))"

definition delivery_page_filtered ::
  "externals \<Rightarrow> stream_cursor option \<Rightarrow> nat \<Rightarrow> delivery_filter \<Rightarrow> db \<Rightarrow> string + delivery_record list" where
  "delivery_page_filtered X after limit fl d =
     delivery_page_filtered_with_cap X after limit fl MAX_PUBLIC_DELIVERY_PAGE d"

definition delivery_page :: "externals \<Rightarrow> stream_cursor option \<Rightarrow> nat \<Rightarrow> db \<Rightarrow> string + delivery_record list" where
  "delivery_page X after limit d = delivery_page_filtered X after limit no_filter d"

definition delivery_replay_page :: "externals \<Rightarrow> stream_cursor option \<Rightarrow> nat \<Rightarrow> db \<Rightarrow> string + delivery_record list" where
  "delivery_replay_page X after limit d =
     delivery_page_filtered_with_cap X after limit no_filter MAX_DELIVERY_REPLAY_PAGE d"

section \<open>The offline backfill\<close>

record migration_progress =
  mg_migrated :: nat
  mg_remaining :: nat
  mg_complete :: bool
  mg_history_start_daa :: nat
  mg_order_complete :: bool

definition unnumbered :: "event_row \<Rightarrow> bool" where
  "unnumbered e \<longleftrightarrow> e_delivery_stream_seq e = None"

definition backfill_rows :: "db \<Rightarrow> nat \<Rightarrow> event_row list" where
  "backfill_rows d limit =
     take limit (sort_key (\<lambda>e. (e_blue_score e, e_accepting_daa e, e_tx_index e, e_covenant_id e, e_seq e))
       (filter unnumbered (d_events d)))"

definition backfill_record :: "stream_epoch \<Rightarrow> event_row \<Rightarrow> nat \<Rightarrow> delivery_record" where
  "backfill_record epoch e stream_seq =
     \<lparr>dr_cursor = \<lparr>sc_epoch = epoch, sc_seq = stream_seq\<rparr>, dr_kind = Accepted, dr_source_cursor = None,
      dr_covenant_id = e_covenant_id e, dr_covenant_event_seq = e_seq e, dr_txid = e_txid e,
      dr_accepting_block = e_accepting_block e, dr_accepting_daa = e_accepting_daa e,
      dr_tx_index = e_tx_index e, dr_event_index = e_event_index e,
      dr_order_complete = (e_blue_score e \<noteq> None \<and> e_tx_index e \<noteq> None \<and> e_event_index e \<noteq> None),
      dr_pending_id = None, dr_applications = []\<rparr>"

definition number_event :: "bytes \<Rightarrow> nat \<Rightarrow> nat \<Rightarrow> event_row list \<Rightarrow> event_row list" where
  "number_event cid seq stream_seq =
     map (\<lambda>e. if e_covenant_id e = cid \<and> e_seq e = seq \<and> unnumbered e
              then e\<lparr>e_delivery_stream_seq := Some stream_seq\<rparr> else e)"

text \<open>\<open>INSERT ... ON CONFLICT DO UPDATE\<close>: the bounds of the block's batch widen to the number.\<close>

definition widen_batch :: "bytes \<Rightarrow> nat \<Rightarrow> nat \<Rightarrow> batch_row list \<Rightarrow> batch_row list" where
  "widen_batch blk daa n rows =
     (if blk \<in> cbr_accepting_block ` set rows
      then map (\<lambda>b. if cbr_accepting_block b = blk
             then b\<lparr>cbr_first_stream_seq := (case cbr_first_stream_seq b of
                        None \<Rightarrow> Some n | Some lo \<Rightarrow> Some (if n < lo then n else lo)),
                    cbr_last_stream_seq := (case cbr_last_stream_seq b of
                        None \<Rightarrow> Some n | Some hi \<Rightarrow> Some (if n > hi then n else hi))\<rparr> else b) rows
      else rows @ [\<lparr>cbr_accepting_block = blk, cbr_accepting_daa = daa, cbr_first_stream_seq = Some n,
                    cbr_last_stream_seq = Some n\<rparr>])"

definition backfill_event :: "stream_epoch \<Rightarrow> event_row \<Rightarrow> db \<times> nat \<Rightarrow> string + db \<times> nat" where
  "backfill_event epoch e s =
     (let (d, stream_seq) = s in
      case insert_delivery (backfill_record epoch e stream_seq) d of
        Inl err \<Rightarrow> Inl err
      | Inr d \<Rightarrow>
         let d = d\<lparr>d_events := number_event (e_covenant_id e) (e_seq e) stream_seq (d_events d),
                   d_batches := widen_batch (e_accepting_block e) (e_accepting_daa e) stream_seq (d_batches d)\<rparr>
         in (case next_seq stream_seq of
               Inl err \<Rightarrow> Inl err
             | Inr next \<Rightarrow> Inr (d, next)))"

definition history_start :: "db \<Rightarrow> nat" where
  "history_start d = (if d_events d = [] then 0 else Min (set (map e_accepting_daa (d_events d))))"

definition order_complete :: "db \<Rightarrow> bool" where
  "order_complete d \<longleftrightarrow>
     \<not> (\<exists>e \<in> set (d_events d). e_blue_score e = None \<or> e_tx_index e = None \<or> e_event_index e = None)"

definition finish_backfill :: "db \<Rightarrow> db" where
  "finish_backfill d =
     update_meta ''delivery_history_order_complete'' (if order_complete d then ''1'' else ''0'')
       (update_meta ''delivery_history_start_daa'' (show_nat (history_start d))
         (update_meta ''delivery_backfill_complete'' ''1'' d))"

definition backfill_delivery_batch :: "externals \<Rightarrow> nat \<Rightarrow> db \<Rightarrow> string + migration_progress \<times> db" where
  "backfill_delivery_batch X batch_size d =
     (if delivery_backfill_complete d then
        (case delivery_history_start_daa d of
           Inl e \<Rightarrow> Inl e
         | Inr start \<Rightarrow>
             Inr (\<lparr>mg_migrated = 0, mg_remaining = 0, mg_complete = True, mg_history_start_daa = start,
                   mg_order_complete = delivery_history_order_complete d\<rparr>, d))
      else
        let rows = backfill_rows d (clamp 1 10000 batch_size) in
        (case transaction_stream_epoch X d of Inl e \<Rightarrow> Inl e
         | Inr epoch \<Rightarrow>
        (case transaction_next_stream_seq d of Inl e \<Rightarrow> Inl e
         | Inr start \<Rightarrow>
        (case fold_result (backfill_event epoch) rows (d, start) of Inl e \<Rightarrow> Inl e
         | Inr (d, next) \<Rightarrow>
             let d = update_meta ''next_stream_seq'' (show_nat next) d;
                 remaining = length (filter unnumbered (d_events d))
             in Inr (\<lparr>mg_migrated = length rows, mg_remaining = remaining, mg_complete = (remaining = 0),
                      mg_history_start_daa = history_start d,
                      mg_order_complete = (remaining = 0 \<and> order_complete d)\<rparr>,
                     if remaining = 0 then finish_backfill d else d)))))"

section \<open>The projection queue\<close>

record projection_status =
  ps_cursor :: stream_cursor
  ps_high_water :: stream_cursor
  ps_lag :: nat
  ps_queued :: nat

record projection_drain =
  pd_processed :: nat
  pd_deferred :: bool
  pd_status :: projection_status

definition CURSOR_META :: string where "CURSOR_META = ''optional_projection_cursor''"

definition INITIALIZED_META :: string where "INITIALIZED_META = ''optional_projection_initialized''"

definition projection_cursor :: "db \<Rightarrow> string + nat" where
  "projection_cursor d = parse_meta_u64 d CURSOR_META"

definition initialize :: "db \<Rightarrow> string + db" where
  "initialize d =
     (if get_meta d INITIALIZED_META \<noteq> None then Inr d
      else if d_work d = [] then
        (case transaction_next_stream_seq d of
           Inl e \<Rightarrow> Inl e
         | Inr next \<Rightarrow> Inr (set_meta INITIALIZED_META ''1'' (update_meta CURSOR_META (show_nat (next - 1)) d)))
      else Inr (set_meta INITIALIZED_META ''1'' d))"

definition queued_after :: "nat \<Rightarrow> db \<Rightarrow> work_row list" where
  "queued_after cursor d = filter (\<lambda>w. pw_delivery_stream_seq w > cursor) (d_work d)"

definition optional_projection_status :: "externals \<Rightarrow> db \<Rightarrow> string + projection_status" where
  "optional_projection_status X d =
     (case transaction_stream_epoch X d of Inl e \<Rightarrow> Inl e
      | Inr epoch \<Rightarrow>
     (case projection_cursor d of Inl e \<Rightarrow> Inl e
      | Inr cursor \<Rightarrow>
     (case transaction_next_stream_seq d of Inl e \<Rightarrow> Inl e
      | Inr next \<Rightarrow>
          Inr \<lparr>ps_cursor = \<lparr>sc_epoch = epoch, sc_seq = cursor\<rparr>,
               ps_high_water = \<lparr>sc_epoch = epoch, sc_seq = next - 1\<rparr>,
               ps_lag = next - 1 - cursor, ps_queued = length (queued_after cursor d)\<rparr>)))"

definition drain_rows :: "nat \<Rightarrow> nat \<Rightarrow> db \<Rightarrow> work_row list" where
  "drain_rows cursor limit d =
     take (clamp 1 256 limit) (sort_key pw_delivery_stream_seq (queued_after cursor d))"

text \<open>The covenants of a chunk that are, or have evidence of being, tokens and minters.\<close>

definition project_rows :: "externals \<Rightarrow> state_decoder list \<Rightarrow> work_row list \<Rightarrow> db \<Rightarrow> string + db" where
  "project_rows X reg rows d =
     (let touched = bs_of_list (concat (map pw_covenant_ids rows)) in
      rederive_affected X reg (filter (\<lambda>i. has_minter_evidence d i \<or> is_minter d i) touched)
        (filter (\<lambda>i. has_token_evidence d i \<or> is_token d i) touched) d)"

definition finish_chunk :: "nat \<Rightarrow> db \<Rightarrow> db" where
  "finish_chunk last_seq d =
     (let d = update_meta CURSOR_META (show_nat last_seq) d
      in d\<lparr>d_work := filter (\<lambda>w. \<not> pw_delivery_stream_seq w \<le> last_seq) (d_work d)\<rparr>)"

text \<open>A drain returns its report or an error, and the database: the status is read after the commit.\<close>

definition drain_optional_projection_chunk ::
  "externals \<Rightarrow> state_decoder list \<Rightarrow> bool \<Rightarrow> nat \<Rightarrow> db \<Rightarrow> (string + projection_drain) \<times> db" where
  "drain_optional_projection_chunk X reg accepted_pending limit d =
     (if accepted_pending then
        (map_sum id (\<lambda>st. \<lparr>pd_processed = 0, pd_deferred = True, pd_status = st\<rparr>)
           (optional_projection_status X d), d)
      else
        (case projection_cursor d of Inl e \<Rightarrow> (Inl e, d)
         | Inr cursor \<Rightarrow>
        let rows = drain_rows cursor limit d in
        (case (if rows = [] then Inr d
               else map_sum id (finish_chunk (pw_delivery_stream_seq (last rows))) (project_rows X reg rows d)) of
           Inl e \<Rightarrow> (Inl e, d)
         | Inr d \<Rightarrow>
             (map_sum id (\<lambda>st. \<lparr>pd_processed = length rows, pd_deferred = False, pd_status = st\<rparr>)
                (optional_projection_status X d), d))))"

section \<open>Opening a store\<close>

text \<open>\<open>INSERT OR IGNORE\<close> of a meta row.\<close>

definition default_meta :: "string \<times> string \<Rightarrow> db \<Rightarrow> db" where
  "default_meta kv d = (if get_meta d (fst kv) = None then set_meta (fst kv) (snd kv) d else d)"

text \<open>The meta rows of \<open>store_delivery::migrate\<close>; \<open>legacy\<close> says that the event table existed before.\<close>

definition migrate_delivery :: "bool \<Rightarrow> db \<Rightarrow> db" where
  "migrate_delivery legacy d =
     fold default_meta
       [(''next_stream_seq'', ''1''), (''delivery_backfill_complete'', if legacy then ''0'' else ''1''),
        (''delivery_history_start_daa'', ''0''),
        (''delivery_history_order_complete'', if legacy then ''0'' else ''1''), (CURSOR_META, ''0'')] d"

text \<open>The part of \<open>open_writer\<close> that decides about the stream: the owner's network, the epoch drawn for a
  new database, and the refusal of a legacy database before its backfill. The re-classification of old
  rows after it is not modelled.\<close>

definition open_writer :: "string \<Rightarrow> string \<Rightarrow> bool \<Rightarrow> db \<Rightarrow> string + db" where
  "open_writer network drawn_epoch legacy d =
     (let d = migrate_delivery legacy d in
      if get_meta d ''network'' \<noteq> None \<and> get_meta d ''network'' \<noteq> Some network then Inl ''node mismatch''
      else
        let d = default_meta (''stream_epoch'', drawn_epoch) (default_meta (''network'', network) d) in
        if \<not> delivery_backfill_complete d then Inl ''delivery migration'' else initialize d)"

end
