(* ===== verification/Tokens_Laws.thy ===== *)
theory Tokens_Laws
  imports Tokens_Derive
begin

text \<open>
  What the token derivation guarantees: extracted trades balance, a token is verified exactly when
  its whole history obeys the abstract token rules, a published supply is the supply of the history
  and of the live frontier, and deriving again changes nothing.
\<close>

section \<open>Extracted trades balance\<close>

definition delta_at :: "(string \<times> int) list \<Rightarrow> string \<Rightarrow> int" where
  "delta_at m k = (case bt_get m k of None \<Rightarrow> 0 | Some v \<Rightarrow> v)"

lemma bt_wf_add_delta [simp]: "bt_wf m \<Longrightarrow> bt_wf (add_delta sign s m)"
  by (simp add: add_delta_def)

lemma delta_at_add:
  "bt_wf m \<Longrightarrow> delta_at (add_delta sign s m) k =
     delta_at m k + (if j_owner_key s = k then sign (j_amount s) else 0)"
  by (auto simp: delta_at_def add_delta_def bt_get_update split: option.splits)

lemma fold_add_delta:
  assumes "bt_wf m" and "\<And>v. sign v = c * v"
  shows "bt_wf (fold (add_delta sign) states m) \<and>
    delta_at (fold (add_delta sign) states m) k = delta_at m k + c * held_by k states"
  using assms(1)
proof (induction states arbitrary: m)
  case (Cons s states)
  from Cons.IH [of "add_delta sign s m"] Cons.prems show ?case
    by (auto simp: delta_at_add held_by_def assms(2) [of "j_amount s"] algebra_simps)
qed (simp add: held_by_def)

lemma net_deltas_at:
  "bt_wf (net_deltas ins outs) \<and> delta_at (net_deltas ins outs) k = held_by k outs - held_by k ins"
proof -
  have o: "bt_wf (fold (add_delta id) outs [])" "delta_at (fold (add_delta id) outs []) k = held_by k outs"
    using fold_add_delta [of "[]" id 1 outs k] by (simp_all add: delta_at_def bt_get_def)
  show ?thesis
    unfolding net_deltas_def using fold_add_delta [OF o(1), of uminus "- 1" ins k] o(2) by simp
qed

lemma mover_delta:
  assumes "movers (net_deltas ins outs) = [(k, v)]"
  shows "v = held_by k outs - held_by k ins \<and> v \<noteq> 0 \<and> covenant_owned k"
proof -
  have "(k, v) \<in> set (movers (net_deltas ins outs))" using assms by simp
  then have "(k, v) \<in> set (net_deltas ins outs)" "v \<noteq> 0" "covenant_owned k" by (auto simp: movers_def)
  moreover from this(1) have "bt_get (net_deltas ins outs) k = Some v" using net_deltas_at by (simp add: bt_get_Some)
  ultimately show ?thesis using net_deltas_at [of ins outs k] by (auto simp: delta_at_def)
qed

text \<open>The keys that do not move hold as much after as before, and the KAS sums are over the market's cells.\<close>

lemma others_still:
  assumes "movers (net_deltas ins outs) = [(k, v)]" and "covenant_owned k'" and "k' \<noteq> k"
  shows "held_by k' ins = held_by k' outs"
proof (rule ccontr)
  assume "held_by k' ins \<noteq> held_by k' outs"
  then have "delta_at (net_deltas ins outs) k' \<noteq> 0" using net_deltas_at [of ins outs k'] by simp
  then obtain v' where "bt_get (net_deltas ins outs) k' = Some v'" "v' \<noteq> 0"
    by (auto simp: delta_at_def split: option.splits)
  with net_deltas_at [of ins outs k'] assms(2) have "(k', v') \<in> set (movers (net_deltas ins outs))"
    by (simp add: movers_def bt_get_Some)
  with assms(1,3) show False by simp
qed

lemma sum_list_filter: "(\<Sum>x \<leftarrow> filter P xs. f x) = (\<Sum>x \<leftarrow> xs. if P x then f x else (0 :: int))"
  by (induction xs) auto

lemma kas_of_market:
  "kas_consumed d txid market = Inr k \<Longrightarrow>
     k = (\<Sum>u \<leftarrow> d_utxos d. if u_spent_txid u = Some txid \<and> u_covenant_id u = market then u_value u else 0)"
  by (simp add: kas_consumed_def sum_list_filter [symmetric]) (auto dest: sql_sum_Inr)

lemma kas_created_sum:
  "kas_created d txid market = (\<Sum>u \<leftarrow> d_utxos d. if u_txid u = txid \<and> u_covenant_id u = market then u_value u else 0)"
  by (simp add: kas_created_def filter_filter sum_list_filter conj_commute)

text \<open>C25. Every extracted trade is the market's: exactly one covenant-owned token balance changed in the
  transaction, its owner key names the market, and no other covenant-owned key gained or lost; the KAS
  balances are the values of the market's own cells that the transaction spent and created, the token
  balances what that key held before and after. KAS and tokens moved in opposite directions, by exactly the
  recorded quote and base amounts, both positive, and all six are 64-bit values. A trade thus always has the
  shape for which the bracket is a bound on the reserve product.\<close>

theorem extracted_trade_balanced:
  assumes "extract_trade_candidate X d token_id ev ins outs = Inr (Some t)"
  shows "(\<exists>key. covenant_owned key \<and> Option.bind (hex_decode X (drop 2 key)) array32 = Some (tr_market t) \<and>
      tr_base_before t = held_by key ins \<and> tr_base_after t = held_by key outs \<and>
      (\<forall>k. covenant_owned k \<and> k \<noteq> key \<longrightarrow> held_by k ins = held_by k outs)) \<and>
    tr_kas_before t = (\<Sum>u \<leftarrow> d_utxos d. if u_spent_txid u = Some (e_txid ev) \<and> u_covenant_id u = tr_market t then u_value u else 0) \<and>
    tr_kas_after t = (\<Sum>u \<leftarrow> d_utxos d. if u_txid u = e_txid ev \<and> u_covenant_id u = tr_market t then u_value u else 0) \<and>
    balanced (tr_kas_before t) (tr_kas_after t) (tr_base_before t) (tr_base_after t)
      (tr_quote_sompi t) (tr_base_amount t) (tr_side t = ''buy'') \<and>
    0 < tr_base_amount t \<and> 0 < tr_quote_sompi t \<and>
    list_all in_i64 [tr_kas_before t, tr_kas_after t, tr_base_before t, tr_base_after t, tr_quote_sompi t, tr_base_amount t] \<and>
    tr_token_id t = token_id \<and> tr_seq t = e_seq ev \<and> tr_txid t = e_txid ev"
proof -
  obtain k v where mv: "movers (net_deltas ins outs) = [(k, v)]"
    using assms by (auto simp: extract_trade_candidate_def Let_def split: list.splits)
  note dl = mover_delta [OF mv]
  obtain market k0 where m: "Option.bind (hex_decode X (drop 2 k)) array32 = Some market"
    and k0: "kas_consumed d (e_txid ev) market = Inr k0"
    using assms mv by (auto simp: extract_trade_candidate_def Let_def split: option.splits sum.splits)
  define k1 where "k1 = kas_created d (e_txid ev) market"
  have dir: "k1 - k0 \<noteq> 0" "(k1 - k0 > 0) \<noteq> (v > 0)"
    and rng: "in_i64 \<bar>k1 - k0\<bar>" "in_i64 \<bar>v\<bar>" "in_i64 k0" "in_i64 k1" "in_i64 (held_by k ins)" "in_i64 (held_by k outs)"
    and t: "tr_side t = (if k1 - k0 > 0 then ''buy'' else ''sell'')" "tr_base_amount t = \<bar>v\<bar>"
      "tr_quote_sompi t = \<bar>k1 - k0\<bar>" "tr_kas_before t = k0" "tr_kas_after t = k1"
      "tr_base_before t = held_by k ins" "tr_base_after t = held_by k outs"
      "tr_token_id t = token_id" "tr_seq t = e_seq ev" "tr_market t = market" "tr_txid t = e_txid ev"
    using assms by (auto simp: extract_trade_candidate_def Let_def mv m k0 k1_def [symmetric] split: if_split_asm)
  have "tr_side t = ''buy'' \<longleftrightarrow> k1 > k0" unfolding t(1) by simp
  moreover have "\<forall>k'. covenant_owned k' \<and> k' \<noteq> k \<longrightarrow> held_by k' ins = held_by k' outs" using others_still [OF mv] by blast
  moreover note kas_of_market [OF k0] k1_def [unfolded kas_created_sum]
  ultimately show ?thesis
    unfolding t using dir rng dl m by (auto simp: balanced_def t intro!: exI [of _ k])
qed

definition trade_externals :: externals where
  "trade_externals = demo_externals\<lparr>hex_decode := \<lambda>_. Some (replicate 32 5)\<rparr>"

definition trade_db :: db where
  "trade_db = demo_db\<lparr>d_utxos :=
     [demo_cell\<lparr>u_covenant_id := replicate 32 5, u_txid := [1], u_value := 1000, u_spent_txid := Some [7]\<rparr>,
      demo_cell\<lparr>u_covenant_id := replicate 32 5, u_txid := [7], u_value := 1500\<rparr>]\<rparr>"

definition trade_event :: event_row where
  "trade_event = \<lparr>e_covenant_id = [9], e_seq = 3, e_kind = ''transition'', e_txid = [7], e_accepting_block = [4], e_accepting_daa = 5,
     e_tx_index = None, e_blue_score = None, e_time_ms = None, e_payload = None, e_lane_namespace = None,
     e_payload_tag = None, e_inscription_kind = None, e_event_index = None, e_delivery_stream_seq = None\<rparr>"

lemma extracted_trade_balanced_witness:
  "\<exists>t. extract_trade_candidate trade_externals trade_db [9] trade_event
      [\<lparr>j_amount = 100, j_minter = False, j_owner_key = ''02aa''\<rparr>]
      [\<lparr>j_amount = 60, j_minter = False, j_owner_key = ''02aa''\<rparr>,
       \<lparr>j_amount = 40, j_minter = False, j_owner_key = ''00bb''\<rparr>] = Inr (Some t) \<and>
    balanced (tr_kas_before t) (tr_kas_after t) (tr_base_before t) (tr_base_after t)
      (tr_quote_sompi t) (tr_base_amount t) (tr_side t = ''buy'') \<and> tr_seq t = 3"
proof -
  let ?ins = "[\<lparr>j_amount = 100, j_minter = False, j_owner_key = ''02aa''\<rparr>]"
  let ?outs = "[\<lparr>j_amount = 60, j_minter = False, j_owner_key = ''02aa''\<rparr>,
       \<lparr>j_amount = 40, j_minter = False, j_owner_key = ''00bb''\<rparr>]"
  have "movers (net_deltas ?ins ?outs) = [(''02aa'', - 40)]" by code_simp
  then obtain t where t: "extract_trade_candidate trade_externals trade_db [9] trade_event ?ins ?outs = Inr (Some t)"
    by (auto simp: extract_trade_candidate_def trade_externals_def demo_externals_def trade_db_def demo_db_def empty_db_def
        trade_event_def kas_consumed_def kas_created_def demo_cell_def held_by_def in_i64_def array32_def Let_def)
  with extracted_trade_balanced [OF t] show ?thesis by (auto simp: trade_event_def)
qed

section \<open>The token rules\<close>

text \<open>
  The abstract rules of a token: which sets of consumed and created states a transaction may relate.
  Outputs without inputs are legal only at the genesis; a terminal burn of a positive amount and any
  change of the supply need a minter among the inputs; a minter output needs a minter input.
\<close>

inductive legal_event :: "bool \<Rightarrow> judged list \<Rightarrow> judged list \<Rightarrow> bool" for at_genesis where
  issue: "at_genesis \<Longrightarrow> legal_event at_genesis [] outs"
| retire: "ins \<noteq> [] \<Longrightarrow> list_ex j_minter ins \<or> total_of ins \<le> 0 \<Longrightarrow> legal_event at_genesis ins []"
| governed: "outs \<noteq> [] \<Longrightarrow> list_ex j_minter ins \<Longrightarrow> legal_event at_genesis ins outs"
| conserve: "ins \<noteq> [] \<Longrightarrow> outs \<noteq> [] \<Longrightarrow> \<not> list_ex j_minter outs \<Longrightarrow> total_of ins = total_of outs \<Longrightarrow>
    legal_event at_genesis ins outs"

inductive_simps legal_no_inputs: "legal_event g [] outs"
inductive_simps legal_no_outputs: "legal_event g (i # ins) []"
inductive_simps legal_both: "legal_event g (i # ins) (out # outs)"

text \<open>Both sides of an event as the walk judges them.\<close>

definition judge_at :: "externals \<Rightarrow> cell list \<Rightarrow> nat list \<Rightarrow> string + judged list" where
  "judge_at X cells idx = collect_result (\<lambda>i. judge X (cells ! i)) idx"

definition sides :: "externals \<Rightarrow> cell list \<Rightarrow> event_row \<Rightarrow> (judged list \<times> judged list) option" where
  "sides X cells ev =
     (let ins = cells_at (ins_of cells) (e_txid ev); outs = cells_at (outs_of cells) (e_txid ev) in
      if ins = [] \<and> outs = [] then None
      else (case (judge_at X cells ins, judge_at X cells outs) of
              (Inr i, Inr out) \<Rightarrow> Some (i, out)
            | _ \<Rightarrow> None))"

definition lawful :: "externals \<Rightarrow> cell list \<Rightarrow> event_row \<Rightarrow> bool" where
  "lawful X cells ev \<longleftrightarrow>
     (case sides X cells ev of
        None \<Rightarrow> False
      | Some (ins, outs) \<Rightarrow> legal_event (e_kind ev = ''genesis'') ins outs)"

definition no_flags :: "verdict \<Rightarrow> bool" where
  "no_flags v \<longleftrightarrow> vd_invalid v = None \<and> vd_unvalidated v = None"

lemma no_flags_flag [simp]: "\<not> no_flags (flag_invalid r v)" "\<not> no_flags (flag_unvalidated r v)"
  by (simp_all add: no_flags_def flag_invalid_def flag_unvalidated_def)

lemma flag_keeps [simp]:
  "vd_unvalidated v \<noteq> None \<Longrightarrow> vd_unvalidated (flag_unvalidated r v) \<noteq> None"
  "vd_unvalidated (flag_invalid r v) = vd_unvalidated v"
  "vd_unvalidated (flag_unvalidated r v) \<noteq> None"
  by (auto simp: flag_unvalidated_def flag_invalid_def)

text \<open>What an event adds to the supply, the minted and the burned totals.\<close>

definition minted_by :: "judged list \<Rightarrow> judged list \<Rightarrow> int" where
  "minted_by ins outs = (if ins = [] \<or> outs = [] then 0 else max 0 (total_of outs - total_of ins))"

definition burned_by :: "judged list \<Rightarrow> judged list \<Rightarrow> int" where
  "burned_by ins outs = (if ins = [] then 0 else max 0 (total_of ins - total_of outs))"

text \<open>The running state after an event that raises no flag.\<close>

definition advanced :: "judged list \<Rightarrow> judged list \<Rightarrow> walk \<Rightarrow> walk \<Rightarrow> bool" where
  "advanced ins outs w w' \<longleftrightarrow>
     w_verdict w' = w_verdict w \<and> w_clean w' = w_clean w \<and>
     w_supply w' = w_supply w + (total_of outs - total_of ins) \<and>
     w_minted w' = w_minted w + minted_by ins outs \<and>
     w_burned w' = w_burned w + burned_by ins outs"

lemma total_of_Nil [simp]: "total_of [] = 0"
  by (simp add: total_of_def)

lemma push_event_simps [simp]:
  "w_verdict (push_event ev k ds w) = w_verdict w" "w_clean (push_event ev k ds w) = w_clean w"
  "w_supply (push_event ev k ds w) = w_supply w" "w_minted (push_event ev k ds w) = w_minted w"
  "w_burned (push_event ev k ds w) = w_burned w" "w_seen (push_event ev k ds w) = w_seen w"
  "w_trades (push_event ev k ds w) = w_trades w"
  by (simp_all add: push_event_def)

definition non_negative :: "judged list \<Rightarrow> bool" where
  "non_negative states \<longleftrightarrow> (\<forall>s \<in> set states. 0 \<le> j_amount s)"

lemma total_nonneg: "non_negative states \<Longrightarrow> 0 \<le> total_of states"
  by (induction states) (auto simp: non_negative_def total_of_def)

lemma classify_legal:
  assumes "legal_event (e_kind ev = ''genesis'') ins outs" and "non_negative ins"
  shows "advanced ins outs w (classify ev ins outs w)"
proof (cases ins)
  case Nil
  then show ?thesis
    using assms by (auto simp: classify_def genesis_event_def advanced_def minted_by_def burned_by_def legal_no_inputs)
next
  case (Cons i ins')
  show ?thesis
  proof (cases outs)
    case Nil
    then show ?thesis
      using assms total_nonneg [OF assms(2)]
      by (auto simp: Cons classify_def terminal_burn_def advanced_def minted_by_def burned_by_def Let_def legal_no_outputs)
  next
    fix out outs'
    assume o: "outs = out # outs'"
    have "list_ex j_minter ins \<or> (\<not> list_ex j_minter outs \<and> total_of ins = total_of outs)"
      using assms(1) unfolding Cons o legal_both by auto
    then show ?thesis
      unfolding classify_def move_event_def Let_def advanced_def minted_by_def burned_by_def
      by (auto simp: Cons o)
  qed
qed

lemma classify_illegal:
  assumes "\<not> legal_event (e_kind ev = ''genesis'') ins outs"
  shows "\<not> no_flags (w_verdict (classify ev ins outs w))"
proof (cases ins)
  case Nil
  then show ?thesis
    using assms by (auto simp: classify_def genesis_event_def unknown_event_def legal_no_inputs)
next
  case (Cons i ins')
  show ?thesis
  proof (cases outs)
    case Nil
    then show ?thesis
      using assms by (auto simp: Cons classify_def terminal_burn_def Let_def legal_no_outputs)
  next
    fix out outs'
    assume o: "outs = out # outs'"
    have "\<not> list_ex j_minter ins" "list_ex j_minter outs \<or> total_of ins \<noteq> total_of outs"
      using assms unfolding Cons o legal_both by auto
    then show ?thesis
      unfolding classify_def move_event_def Let_def by (auto simp: Cons o)
  qed
qed

lemma judge_nonneg: "judge X c = Inr j \<Longrightarrow> 0 \<le> j_amount j \<and> j_amount j < 2 ^ 63"
  using i64_of_le_range
  by (auto simp: judge_def amount_i64_def in_i64_def Let_def split: option.splits if_splits)

lemma judge_at_nonneg: "judge_at X cells idx = Inr states \<Longrightarrow> non_negative states"
proof -
  assume "judge_at X cells idx = Inr states"
  then have m: "map (\<lambda>i. judge X (cells ! i)) idx = map Inr states"
    by (simp add: judge_at_def collect_result_Inr)
  have "\<exists>i. judge X (cells ! i) = Inr s" if "s \<in> set states" for s
  proof -
    have "Inr s \<in> set (map (\<lambda>i. judge X (cells ! i)) idx)" using that unfolding m by simp
    then show ?thesis by auto
  qed
  then show ?thesis using judge_nonneg by (fastforce simp: non_negative_def)
qed

definition clean_or_flagged :: "walk \<Rightarrow> bool" where
  "clean_or_flagged w \<longleftrightarrow> w_clean w \<or> vd_unvalidated (w_verdict w) \<noteq> None"

lemma clean_classify: "clean_or_flagged w \<Longrightarrow> clean_or_flagged (classify ev ins outs w)"
  unfolding clean_or_flagged_def classify_def genesis_event_def terminal_burn_def move_event_def
    unknown_event_def Let_def
  by (simp del: not_None_eq)

text \<open>One step: the judged case continues with \<open>classify\<close>, every other one is unknown.\<close>

lemma step_sides:
  assumes "step_event X d t cells ev w = Inr w'"
  obtains (unproven) reason where "sides X cells ev = None"
      "w' = unknown_event ev reason (w\<lparr>w_seen := e_txid ev # w_seen w\<rparr>)"
    | (judged) ins outs tr where "sides X cells ev = Some (ins, outs)" "non_negative ins" "non_negative outs"
      "extract_trade_candidate X d t ev ins outs = Inr tr"
      "w' = classify ev ins outs (w\<lparr>w_seen := e_txid ev # w_seen w,
         w_trades := w_trades w @ (case tr of None \<Rightarrow> [] | Some x \<Rightarrow> [x])\<rparr>)"
proof -
  let ?ins = "cells_at (ins_of cells) (e_txid ev)" and ?outs = "cells_at (outs_of cells) (e_txid ev)"
  show thesis
  proof (cases "?ins = [] \<and> ?outs = []")
    case True
    then show thesis using assms by (intro unproven) (auto simp: step_event_def sides_def Let_def)
  next
    case False
    show thesis
    proof (cases "\<exists>i out. judge_at X cells ?ins = Inr i \<and> judge_at X cells ?outs = Inr out")
      case True
      then obtain i out where j: "judge_at X cells ?ins = Inr i" "judge_at X cells ?outs = Inr out" by blast
      then obtain tr where tr: "extract_trade_candidate X d t ev i out = Inr tr"
        using assms False by (auto simp: step_event_def judge_at_def Let_def split: sum.splits)
      show thesis
      proof (rule judged)
        show "sides X cells ev = Some (i, out)" using False j by (auto simp: sides_def Let_def)
        show "w' = classify ev i out (w\<lparr>w_seen := e_txid ev # w_seen w,
            w_trades := w_trades w @ (case tr of None \<Rightarrow> [] | Some x \<Rightarrow> [x])\<rparr>)"
          using assms False j tr by (cases tr) (auto simp: step_event_def judge_at_def Let_def)
      qed (use j tr judge_at_nonneg in auto)
    next
      case f: False
      then obtain reason where "w' = unknown_event ev reason (w\<lparr>w_seen := e_txid ev # w_seen w\<rparr>)"
        using assms False by (auto simp: step_event_def judge_at_def Let_def split: sum.splits)
      moreover have "sides X cells ev = None"
        using f False by (auto simp: sides_def Let_def split: sum.splits)
      ultimately show thesis by (rule unproven [rotated])
    qed
  qed
qed

lemma unknown_event_simps [simp]:
  "\<not> no_flags (w_verdict (unknown_event ev r w))" "vd_unvalidated (w_verdict (unknown_event ev r w)) \<noteq> None"
  "w_seen (unknown_event ev r w) = w_seen w" "w_trades (unknown_event ev r w) = w_trades w"
  by (simp_all add: unknown_event_def)

lemma classify_seen [simp]: "w_seen (classify ev ins outs w) = w_seen w" "w_trades (classify ev ins outs w) = w_trades w"
  by (auto simp: classify_def genesis_event_def terminal_burn_def move_event_def Let_def)

lemma step_verdict:
  assumes "step_event X d t cells ev w = Inr w'"
  shows "no_flags (w_verdict w') \<longleftrightarrow> no_flags (w_verdict w) \<and> lawful X cells ev"
    and "clean_or_flagged w \<Longrightarrow> clean_or_flagged w'"
    and "w_seen w' = e_txid ev # w_seen w"
    and "sides X cells ev = Some (ins, outs) \<Longrightarrow> lawful X cells ev \<Longrightarrow> advanced ins outs w w'"
proof -
  show "no_flags (w_verdict w') \<longleftrightarrow> no_flags (w_verdict w) \<and> lawful X cells ev"
    using assms
  proof (cases rule: step_sides)
    case (judged ins outs tr)
    let ?w = "w\<lparr>w_seen := e_txid ev # w_seen w, w_trades := w_trades w @ (case tr of None \<Rightarrow> [] | Some x \<Rightarrow> [x])\<rparr>"
    show ?thesis
    proof (cases "legal_event (e_kind ev = ''genesis'') ins outs")
      case True
      from classify_legal [OF True judged(2), of ?w] show ?thesis
        using judged True by (simp add: lawful_def advanced_def)
    next
      case False
      with judged classify_illegal [OF False] show ?thesis by (simp add: lawful_def)
    qed
  qed (simp add: lawful_def)
  show "clean_or_flagged w \<Longrightarrow> clean_or_flagged w'"
    using assms
  proof (cases rule: step_sides)
    case (judged ins outs tr)
    assume "clean_or_flagged w"
    then show ?thesis unfolding judged(5) by (intro clean_classify) (simp add: clean_or_flagged_def)
  qed (simp add: clean_or_flagged_def unknown_event_def)
  show "w_seen w' = e_txid ev # w_seen w"
    using assms by (cases rule: step_sides) auto
  show "sides X cells ev = Some (ins, outs) \<Longrightarrow> lawful X cells ev \<Longrightarrow> advanced ins outs w w'"
    using assms
  proof (cases rule: step_sides)
    case (judged ins' outs' tr)
    assume "sides X cells ev = Some (ins, outs)" "lawful X cells ev"
    with judged classify_legal [of ev ins outs "w\<lparr>w_seen := e_txid ev # w_seen w,
        w_trades := w_trades w @ (case tr of None \<Rightarrow> [] | Some x \<Rightarrow> [x])\<rparr>"]
    show ?thesis by (simp add: lawful_def advanced_def)
  qed simp
qed

text \<open>The totals of a history, over the judged sides of its events.\<close>

definition over_sides ::
  "externals \<Rightarrow> cell list \<Rightarrow> (judged list \<Rightarrow> judged list \<Rightarrow> int) \<Rightarrow> event_row list \<Rightarrow> int" where
  "over_sides X cells g evs =
     (\<Sum>ev \<leftarrow> evs. case sides X cells ev of None \<Rightarrow> 0 | Some (ins, outs) \<Rightarrow> g ins outs)"

definition history_supply where
  "history_supply X cells = over_sides X cells (\<lambda>ins outs. total_of outs - total_of ins)"

definition history_minted where "history_minted X cells = over_sides X cells minted_by"

definition history_burned where "history_burned X cells = over_sides X cells burned_by"

lemmas history_defs = history_supply_def history_minted_def history_burned_def over_sides_def

lemma walk_events_verdict:
  "walk_events X d t cells evs w = Inr w' \<Longrightarrow>
     (no_flags (w_verdict w') \<longleftrightarrow> no_flags (w_verdict w) \<and> list_all (lawful X cells) evs) \<and>
     (clean_or_flagged w \<longrightarrow> clean_or_flagged w') \<and>
     set (w_seen w') = set (w_seen w) \<union> e_txid ` set evs \<and>
     (list_all (lawful X cells) evs \<longrightarrow>
        w_supply w' = w_supply w + history_supply X cells evs \<and>
        w_minted w' = w_minted w + history_minted X cells evs \<and>
        w_burned w' = w_burned w + history_burned X cells evs \<and> w_clean w' = w_clean w)"
proof (induction evs arbitrary: w)
  case (Cons ev evs)
  then obtain w1 where w1: "step_event X d t cells ev w = Inr w1" "walk_events X d t cells evs w1 = Inr w'"
    by (auto split: sum.splits)
  note st = step_verdict [OF w1(1)]
  have adv: "\<exists>ins outs. sides X cells ev = Some (ins, outs) \<and> advanced ins outs w w1" if "lawful X cells ev"
    using st(4) that by (auto simp: lawful_def split: option.splits)
  from Cons.IH [OF w1(2)] st(1-3) adv show ?case
    by (auto simp: history_defs advanced_def)
qed (simp add: history_defs)

section \<open>Proven cells only depend on the cell table\<close>

lemma recover_tx_cong: "d_utxos d = d_utxos d' \<Longrightarrow> recover_tx X d t = recover_tx X d' t"
  by (intro ext) (simp add: recover_tx_def foreign_sigs_def cong: if_cong)

lemma recover_loop_cong:
  "d_utxos d = d_utxos d' \<Longrightarrow> recover_loop X d t om im cells = recover_loop X d' t om im cells"
proof (induction X d t om im cells rule: recover_loop.induct)
  case (1 X d t om im cells)
  have p: "recover_pass X d t om im cells = recover_pass X d' t om im cells"
    using recover_tx_cong [OF 1(2)] by (simp add: recover_pass_def)
  obtain cells' changed where q: "recover_pass X d' t om im cells = (cells', changed)" by fastforce
  have pd: "recover_pass X d t om im cells = (cells', changed)" using p q by simp
  have "recover_loop X d t om im cells' = recover_loop X d' t om im cells'" if changed
    using 1(1) [OF pd [symmetric] refl that] 1(2) by blast
  then show ?case
    using recover_loop.simps [of X d t om im cells] recover_loop.simps [of X d' t om im cells] pd q by simp
qed

lemma proven_cells_cong: "d_utxos d = d_utxos d' \<Longrightarrow> proven_cells X reg d t = proven_cells X reg d' t"
  unfolding proven_cells_def prove_recovered_def
  using recover_loop_cong [of d d'] by (simp add: load_cells_def)

lemma clear_token_facts_simps [simp]:
  "d_utxos (clear_token_facts t d) = d_utxos d" "d_events (clear_token_facts t d) = d_events d"
  "d_covenants (clear_token_facts t d) = d_covenants d" "d_meta (clear_token_facts t d) = d_meta d"
  "d_tokens (clear_token_facts t d) = d_tokens d" "d_minters (clear_token_facts t d) = d_minters d"
  "d_markets (clear_token_facts t d) = d_markets d"
  by (simp_all add: clear_token_facts_def)

lemma same_markets: "\<exists>m. d = d\<lparr>d_markets := m\<rparr>"
  by (rule exI [of _ "d_markets d"]) simp

lemma derive_market_only_markets: "\<exists>m. derive_market_program X c d = d\<lparr>d_markets := m\<rparr>"
  unfolding derive_market_program_def Let_def by (auto split: option.splits intro: same_markets)

lemma matched_holders_only_markets: "\<exists>m. snd (matched_holders X cs d) = d\<lparr>d_markets := m\<rparr>"
proof (induction cs arbitrary: d)
  case Nil
  show ?case by (simp add: same_markets)
next
  case (Cons c cs)
  obtain m where m: "derive_market_program X c d = d\<lparr>d_markets := m\<rparr>" using derive_market_only_markets by blast
  obtain m' where "snd (matched_holders X cs (d\<lparr>d_markets := m\<rparr>)) = d\<lparr>d_markets := m'\<rparr>"
    using Cons.IH [of "d\<lparr>d_markets := m\<rparr>"] by auto
  then show ?case by (auto simp: m Let_def split_beta)
qed

lemma market_link_only_markets: "\<exists>m. snd (market_link X f d) = d\<lparr>d_markets := m\<rparr>"
  using matched_holders_only_markets [of X "covenant_holders X f" d]
  by (auto simp: market_link_def Let_def split_beta same_markets simp del: matched_holders.simps split: list.splits)

section \<open>Orphans and the audit\<close>

lemma keys_index_by_fold:
  "fst ` set (fold (\<lambda>(i, c) m. case key c of None \<Rightarrow> m
       | Some k \<Rightarrow> bt_update k (\<lambda>prev. (case prev of None \<Rightarrow> [] | Some l \<Rightarrow> l) @ [i]) m) ics m) =
     fst ` set m \<union> {k. \<exists>c \<in> snd ` set ics. key c = Some k}"
proof (induction ics arbitrary: m)
  case (Cons ic ics)
  obtain i c where "ic = (i, c)" by (cases ic)
  with Cons show ?case by (cases "key c") (simp_all add: keys_bt_update, blast+)
qed simp

lemma keys_index_by: "set (bt_keys (index_by key cells)) = {k. \<exists>c \<in> set cells. key c = Some k}"
proof -
  have "snd ` set (enumerate 0 cells) = set cells"
    by (metis list.set_map map_snd_enumerate)
  then show ?thesis by (simp add: index_by_def bt_keys_def keys_index_by_fold)
qed

definition all_recorded :: "cell list \<Rightarrow> bytes set \<Rightarrow> bool" where
  "all_recorded cells txids \<longleftrightarrow>
     (\<forall>c \<in> set cells. ce_txid c \<in> txids \<and> (case ce_spent_txid c of None \<Rightarrow> True | Some tx \<Rightarrow> tx \<in> txids))"

lemma orphan_check_simps:
  "no_flags (w_verdict (orphan_check X cells w)) \<longleftrightarrow> no_flags (w_verdict w) \<and> all_recorded cells (set (w_seen w))"
  "clean_or_flagged w \<Longrightarrow> clean_or_flagged (orphan_check X cells w)"
  "w_supply (orphan_check X cells w) = w_supply w" "w_minted (orphan_check X cells w) = w_minted w"
  "w_burned (orphan_check X cells w) = w_burned w" "w_trades (orphan_check X cells w) = w_trades w"
proof -
  let ?keys = "bt_keys (outs_of cells) @ bt_keys (ins_of cells)"
  have "all_recorded cells (set (w_seen w)) \<longleftrightarrow> find (\<lambda>txid. txid \<notin> set (w_seen w)) ?keys = None"
    unfolding find_None_iff set_append outs_of_def ins_of_def keys_index_by all_recorded_def
    by (auto split: option.splits)
  then show "no_flags (w_verdict (orphan_check X cells w)) \<longleftrightarrow> no_flags (w_verdict w) \<and> all_recorded cells (set (w_seen w))"
    by (cases "find (\<lambda>txid. txid \<notin> set (w_seen w)) ?keys") (auto simp: orphan_check_def)
qed (simp_all add: orphan_check_def clean_or_flagged_def del: not_None_eq split: option.splits)

definition audit_passes :: "walk \<Rightarrow> frontier \<Rightarrow> bool" where
  "audit_passes w f \<longleftrightarrow>
     no_flags (w_verdict w) \<and> in_i64 (w_supply w) \<and> in_i64 (w_minted w) \<and> in_i64 (w_burned w) \<and>
     0 \<le> w_supply w \<and> frontier_sum f = w_supply w \<and> fr_unresolved f = 0"

lemma clean_no_flags: "clean_or_flagged w \<Longrightarrow> no_flags (w_verdict w) \<Longrightarrow> w_clean w"
  by (simp add: clean_or_flagged_def no_flags_def)

lemma final_audit_passes:
  assumes "clean_or_flagged w"
  shows "no_flags (pb_verdict (final_audit w f)) \<longleftrightarrow> audit_passes w f"
    and "pb_supply (final_audit w f) = (if audit_passes w f then Some (w_supply w) else None)"
    and "pb_minted (final_audit w f) = (if audit_passes w f then Some (w_minted w) else None)"
    and "pb_burned (final_audit w f) = (if audit_passes w f then Some (w_burned w) else None)"
proof -
  have p: "(w_clean w \<and> vd_invalid (w_verdict w) = None \<and> vd_unvalidated (w_verdict w) = None) \<longleftrightarrow>
      no_flags (w_verdict w)"
    using clean_no_flags [OF assms] by (auto simp: no_flags_def)
  note d = final_audit_def audit_passes_def Let_def p unpublished_def
  show "no_flags (pb_verdict (final_audit w f)) \<longleftrightarrow> audit_passes w f"
    and "pb_supply (final_audit w f) = (if audit_passes w f then Some (w_supply w) else None)"
    and "pb_minted (final_audit w f) = (if audit_passes w f then Some (w_minted w) else None)"
    and "pb_burned (final_audit w f) = (if audit_passes w f then Some (w_burned w) else None)"
    unfolding d by auto
qed

lemma verified_no_flags: "vd_status v = STATUS_VERIFIED \<longleftrightarrow> no_flags v"
  by (simp add: vd_status_def no_flags_def STATUS_VERIFIED_def STATUS_INVALID_def STATUS_UNVALIDATED_def)

section \<open>When a token is verified\<close>

definition known_lineage :: "db \<Rightarrow> bytes \<Rightarrow> bool" where
  "known_lineage d t \<longleftrightarrow>
     (case row_by c_covenant_id t (d_covenants d) of
        None \<Rightarrow> False | Some c \<Rightarrow> c_lineage_complete c \<and> c_genesis_txid c \<noteq> None)"

text \<open>
  The specification of a verified token: a known lineage, every event lawful, every cell explained
  by an event, and a supply in range that is exactly the live frontier with nothing unresolved.
\<close>

definition token_verifies :: "externals \<Rightarrow> db \<Rightarrow> bytes \<Rightarrow> cell list \<Rightarrow> bool" where
  "token_verifies X d t cells \<longleftrightarrow>
     (let evs = token_events_of d t; f = frontier_of X cells in
      known_lineage d t \<and> list_all (lawful X cells) evs \<and> all_recorded cells (e_txid ` set evs) \<and>
      in_i64 (history_supply X cells evs) \<and> in_i64 (history_minted X cells evs) \<and>
      in_i64 (history_burned X cells evs) \<and> 0 \<le> history_supply X cells evs \<and>
      frontier_sum f = history_supply X cells evs \<and> fr_unresolved f = 0)"

lemma covenant_gate_flags: "no_flags (fst (covenant_gate d t)) \<longleftrightarrow> known_lineage d t"
  by (auto simp: covenant_gate_def known_lineage_def no_flags_def [of "\<lparr>vd_invalid = None, vd_unvalidated = None\<rparr>"]
      Let_def split: option.splits)

lemma walk_token_verifies:
  assumes "walk_token X d t cells = Inr w"
  shows "clean_or_flagged w" and "audit_passes w (frontier_of X cells) \<longleftrightarrow> token_verifies X d t cells"
    and "audit_passes w (frontier_of X cells) \<Longrightarrow>
      w_supply w = history_supply X cells (token_events_of d t) \<and>
      w_minted w = history_minted X cells (token_events_of d t) \<and>
      w_burned w = history_burned X cells (token_events_of d t)"
proof -
  let ?w0 = "start_walk (fst (covenant_gate d t))" and ?evs = "token_events_of d t"
  obtain w1 where w1: "walk_events X d t cells ?evs ?w0 = Inr w1" and w: "w = orphan_check X cells w1"
    using assms by (auto simp: walk_token_def split: sum.splits)
  note we = walk_events_verdict [OF w1]
  have c1: "clean_or_flagged w1" using we by (simp add: start_walk_def clean_or_flagged_def)
  then show "clean_or_flagged w" unfolding w by (rule orphan_check_simps(2))
  have nf: "no_flags (w_verdict w) \<longleftrightarrow>
      known_lineage d t \<and> list_all (lawful X cells) ?evs \<and> all_recorded cells (e_txid ` set ?evs)"
    unfolding w orphan_check_simps(1) using we covenant_gate_flags [of d t] by (auto simp: start_walk_def)
  have tot: "w_supply w = history_supply X cells ?evs \<and> w_minted w = history_minted X cells ?evs \<and>
      w_burned w = history_burned X cells ?evs" if "list_all (lawful X cells) ?evs"
    using we that by (simp add: w orphan_check_simps start_walk_def)
  show "audit_passes w (frontier_of X cells) \<longleftrightarrow> token_verifies X d t cells"
    unfolding audit_passes_def token_verifies_def Let_def nf using tot by auto
  show "audit_passes w (frontier_of X cells) \<Longrightarrow>
      w_supply w = history_supply X cells ?evs \<and> w_minted w = history_minted X cells ?evs \<and>
      w_burned w = history_burned X cells ?evs"
    using tot nf by (simp add: audit_passes_def)
qed

text \<open>The derivation reads the source tables only.\<close>

definition same_sources :: "db \<Rightarrow> db \<Rightarrow> bool" where
  "same_sources d d' \<longleftrightarrow>
     d_utxos d = d_utxos d' \<and> d_events d = d_events d' \<and> d_covenants d = d_covenants d' \<and> d_meta d = d_meta d'"

lemma step_event_cong:
  assumes "same_sources d d'"
  shows "step_event X d t cells ev w = step_event X d' t cells ev w"
proof -
  have "kas_consumed d = kas_consumed d'" "kas_created d = kas_created d'" "co_covenants d = co_covenants d'"
    using assms by (intro ext; simp add: same_sources_def kas_consumed_def kas_created_def co_covenants_def)+
  then have "extract_trade_candidate X d = extract_trade_candidate X d'"
    by (intro ext) (simp only: extract_trade_candidate_def)
  then show ?thesis by (simp only: step_event_def)
qed

lemma walk_token_cong:
  assumes "same_sources d d'"
  shows "walk_token X d t cells = walk_token X d' t cells"
proof -
  have "walk_events X d t cells evs w = walk_events X d' t cells evs w" for evs w
    by (induction evs arbitrary: w) (simp_all add: step_event_cong [OF assms] split: sum.splits)
  then show ?thesis
    using assms by (simp add: walk_token_def token_events_of_def covenant_gate_def same_sources_def)
qed

lemma same_sources_clear: "same_sources (clear_token_facts t d) d"
  by (simp add: same_sources_def)

lemma derive_token_evidence:
  assumes "derive_token X reg t d = Inr d'" and "has_token_evidence d t"
  obtains w m where "walk_token X d t (proven_cells X reg d t) = Inr w"
    and "d' = write_token X t w (final_audit w (frontier_of X (proven_cells X reg d t)))
      (frontier_of X (proven_cells X reg d t)) (snd (covenant_gate d t)) (processed_daa d)
      (fst (market_link X (frontier_of X (proven_cells X reg d t)) (clear_token_facts t d)))
      ((clear_token_facts t d)\<lparr>d_markets := m\<rparr>)"
proof -
  let ?c = "clear_token_facts t d" and ?cells = "proven_cells X reg d t"
  have pc: "proven_cells X reg ?c t = ?cells" by (rule proven_cells_cong) simp
  have wt: "walk_token X ?c t ?cells = walk_token X d t ?cells" by (rule walk_token_cong) (rule same_sources_clear)
  have sm: "covenant_gate ?c t = covenant_gate d t" "processed_daa ?c = processed_daa d"
    "covenant_gate (?c\<lparr>d_markets := m\<rparr>) t = covenant_gate d t" for m
    by (simp_all add: covenant_gate_def processed_daa_def)
  obtain m where m: "snd (market_link X (frontier_of X ?cells) ?c) = ?c\<lparr>d_markets := m\<rparr>"
    using market_link_only_markets by blast
  obtain w where w: "walk_token X d t ?cells = Inr w"
    using assms by (auto simp: derive_token_def Let_def pc wt split: sum.splits)
  show thesis
    by (rule that [OF w, of m])
      (use assms w m in \<open>simp add: derive_token_def Let_def pc wt sm split_beta\<close>)
qed

text \<open>C22. A token is verified exactly when its whole history obeys the token rules: its lineage is known,
  every event is lawful over fully proven sides, no cell lacks an event, and the supply of the
  history is in range and equals the live frontier with nothing unresolved. A supply is published
  exactly when the token is verified.\<close>

theorem derive_token_verified_iff:
  assumes "derive_token X reg t d = Inr d'" and "has_token_evidence d t"
  shows "\<exists>r. row_by t_token_id t (d_tokens d') = Some r \<and>
    (t_status r = STATUS_VERIFIED \<longleftrightarrow> token_verifies X d t (proven_cells X reg d t)) \<and>
    (t_supply r \<noteq> None \<longleftrightarrow> t_status r = STATUS_VERIFIED)"
proof -
  let ?cells = "proven_cells X reg d t" and ?f = "frontier_of X (proven_cells X reg d t)"
  from derive_token_evidence [OF assms] obtain w m where w: "walk_token X d t ?cells = Inr w"
    and d': "d' = write_token X t w (final_audit w ?f) ?f (snd (covenant_gate d t)) (processed_daa d)
      (fst (market_link X ?f (clear_token_facts t d))) ((clear_token_facts t d)\<lparr>d_markets := m\<rparr>)" .
  let ?r = "token_row_of X t (final_audit w ?f) ?f (w_trades w) (snd (covenant_gate d t)) (processed_daa d)
    (fst (market_link X ?f (clear_token_facts t d)))"
  have k: "t_token_id ?r = t" and st: "t_status ?r = vd_status (pb_verdict (final_audit w ?f))"
    and su: "t_supply ?r = pb_supply (final_audit w ?f)"
    by (simp_all add: token_row_of_def)
  have "row_by t_token_id t (d_tokens d') = Some ?r"
    unfolding d' write_token_def by (simp add: row_by_upsert k)
  moreover have "t_status ?r = STATUS_VERIFIED \<longleftrightarrow> token_verifies X d t ?cells"
    unfolding st verified_no_flags
    using final_audit_passes(1) [OF walk_token_verifies(1) [OF w]] walk_token_verifies(2) [OF w] by simp
  moreover have "t_supply ?r \<noteq> None \<longleftrightarrow> t_status ?r = STATUS_VERIFIED"
    unfolding st su verified_no_flags using final_audit_passes(1,2) [OF walk_token_verifies(1) [OF w]] by simp
  ultimately show ?thesis by blast
qed

text \<open>What the history issued at its genesis.\<close>

definition issued_by :: "judged list \<Rightarrow> judged list \<Rightarrow> int" where
  "issued_by ins outs = (if ins = [] then total_of outs else 0)"

definition history_issued where "history_issued X cells = over_sides X cells issued_by"

lemma sides_nonneg: "sides X cells ev = Some (ins, outs) \<Longrightarrow> non_negative ins \<and> non_negative outs"
  by (auto simp: sides_def Let_def judge_at_nonneg split: if_splits sum.splits)

lemma history_balance:
  "history_supply X cells evs = history_issued X cells evs + history_minted X cells evs - history_burned X cells evs"
proof (induction evs)
  case (Cons ev evs)
  have "total_of outs - total_of ins = issued_by ins outs + minted_by ins outs - burned_by ins outs"
    if "sides X cells ev = Some (ins, outs)" for ins outs
    using total_nonneg sides_nonneg [OF that] by (auto simp: issued_by_def minted_by_def burned_by_def max_def)
  with Cons show ?case
    by (auto simp: history_defs history_issued_def split: option.splits)
qed (simp add: history_defs history_issued_def)

lemma frontier_fold:
  assumes "bt_wf (fr_balances f)" and "\<forall>(k, bal, n) \<in> set (fr_balances f). 0 \<le> bal"
  shows "bt_wf (fr_balances (fold (frontier_step X) cells f)) \<and>
    (\<forall>(k, bal, n) \<in> set (fr_balances (fold (frontier_step X) cells f)). 0 \<le> bal)"
  using assms
proof (induction cells arbitrary: f)
  case (Cons c cells)
  have nn: "\<forall>(k, bal, n) \<in> set (bt_update key g m). 0 \<le> bal"
    if "bt_wf m" "\<forall>(k, bal, n) \<in> set m. 0 \<le> bal" "0 \<le> fst (g (bt_get m key))" for key g and m :: "(string \<times> int \<times> nat) list"
  proof -
    have "0 \<le> fst v" if v: "(k, v) \<in> set (bt_update key g m)" for k v
    proof -
      have "bt_get (bt_update key g m) k = Some v" using v that \<open>bt_wf m\<close> by (simp add: bt_get_Some)
      then have "k = key \<and> v = g (bt_get m key) \<or> bt_get m k = Some v"
        using \<open>bt_wf m\<close> by (auto simp: bt_get_update split: if_splits)
      moreover have "0 \<le> fst v" if "bt_get m k = Some v"
      proof -
        have "(k, v) \<in> set m" using that \<open>bt_wf m\<close> by (simp add: bt_get_Some)
        then show ?thesis using \<open>\<forall>(k, bal, n) \<in> set m. 0 \<le> bal\<close> by auto
      qed
      ultimately show ?thesis using \<open>0 \<le> fst (g (bt_get m key))\<close> by blast
    qed
    then show ?thesis by auto
  qed
  have "bt_wf (fr_balances (frontier_step X c f)) \<and> (\<forall>(k, bal, n) \<in> set (fr_balances (frontier_step X c f)). 0 \<le> bal)"
  proof (cases "judge X c")
    case (Inr j)
    have g: "0 \<le> (case bt_get (fr_balances f) key of None \<Rightarrow> 0 | Some p \<Rightarrow> fst p)" for key
    proof (cases "bt_get (fr_balances f) key")
      case (Some p)
      then have "(key, p) \<in> set (fr_balances f)" using Cons.prems(1) by (simp add: bt_get_Some)
      then show ?thesis using Cons.prems(2) Some by (cases p) auto
    qed simp
    have "0 \<le> fst (let (bal, n) = (case bt_get (fr_balances f) (j_owner_key j) of None \<Rightarrow> (0, 0) | Some p \<Rightarrow> p)
        in (bal + j_amount j, n + 1))"
      using g [of "j_owner_key j"] judge_nonneg [OF Inr] by (auto simp: Let_def split: option.splits prod.splits)
    from nn [where g = "\<lambda>prev. let (bal, n) = (case prev of None \<Rightarrow> (0, 0) | Some p \<Rightarrow> p) in (bal + j_amount j, n + 1)",
        OF Cons.prems this] Cons.prems Inr show ?thesis
      by (auto simp: frontier_step_def Let_def split: option.splits prod.splits)
  qed (use Cons.prems in \<open>auto simp: frontier_step_def Let_def split: option.splits\<close>)
  then show ?case using Cons.IH [of "frontier_step X c f"] by auto
qed simp

lemma frontier_balances:
  "bt_wf (fr_balances (frontier_of X cells))"
  "(k, bal, n) \<in> set (fr_balances (frontier_of X cells)) \<Longrightarrow> 0 \<le> bal"
  using frontier_fold [of "\<lparr>fr_balances = [], fr_unresolved = 0, fr_newest = None\<rparr>" X cells]
  by (auto simp: frontier_of_def)

lemma sum_list_part_le:
  fixes g :: "'a \<Rightarrow> int"
  assumes "\<And>x. x \<in> set xs \<Longrightarrow> 0 \<le> g x" and "x \<in> set xs"
  shows "g x \<le> (\<Sum>x \<leftarrow> xs. g x)"
  using assms
proof (induction xs)
  case (Cons y ys)
  have "0 \<le> (\<Sum>x \<leftarrow> ys. g x)" using Cons.prems(1) by (intro sum_list_nonneg) auto
  moreover have "0 \<le> g y" using Cons.prems(1) by simp
  ultimately show ?case using Cons by fastforce
qed simp

lemma frontier_sum_fst: "frontier_sum f = (\<Sum>e \<leftarrow> fr_balances f. fst (snd e))"
  by (simp add: frontier_sum_def case_prod_unfold)

lemma balance_rows_sum:
  assumes "in_i64 (frontier_sum (frontier_of X cells))"
  shows "(\<Sum>b \<leftarrow> balance_rows t (frontier_of X cells). b_balance b) = frontier_sum (frontier_of X cells)"
proof -
  let ?bs = "fr_balances (frontier_of X cells)"
  have nn: "0 \<le> fst (snd e)" if "e \<in> set ?bs" for e
    using frontier_balances(2) [of "fst e" "fst (snd e)" "snd (snd e)"] that by simp
  have "in_i64 (fst (snd e))" if "e \<in> set ?bs" for e
    using sum_list_part_le [of ?bs "\<lambda>e. fst (snd e)", OF nn that] nn [OF that] assms
    by (auto simp: frontier_sum_fst in_i64_def)
  then have "filter (\<lambda>(k, bal, n). in_i64 bal) ?bs = ?bs" by (auto intro: filter_True)
  then show ?thesis by (simp add: balance_rows_def frontier_sum_fst case_prod_unfold comp_def)
qed

text \<open>C23. A published supply is exact: it is what the history issued plus what it minted less what it
  burned, with the published minted and burned totals being those of the history; it is the sum of
  the balances stored for the token; and when the split by owner type is published, its three parts
  add up to it.\<close>

theorem published_supply_exact:
  assumes "derive_token X reg t d = Inr d'"
    and "row_by t_token_id t (d_tokens d') = Some r" and "t_supply r = Some s"
  shows "t_minted r = Some (history_minted X (proven_cells X reg d t) (token_events_of d t)) \<and>
    t_burned r = Some (history_burned X (proven_cells X reg d t) (token_events_of d t)) \<and>
    s = history_issued X (proven_cells X reg d t) (token_events_of d t) + the (t_minted r) - the (t_burned r) \<and>
    s = (\<Sum>b \<leftarrow> filter (\<lambda>b. b_token_id b = t) (d_balances d'). b_balance b) \<and>
    (case (t_held_covenant r, t_held_wallet r, t_held_script r) of
       (Some c, Some w, Some h) \<Rightarrow> c + w + h = s
     | _ \<Rightarrow> True)"
proof -
  let ?cells = "proven_cells X reg d t" and ?f = "frontier_of X (proven_cells X reg d t)"
  have ev: "has_token_evidence d t"
  proof (rule ccontr)
    assume no: "\<not> has_token_evidence d t"
    show False
    proof (cases "pinned_by_minter d t")
      case True
      with no assms show False
        by (auto simp: derive_token_def Let_def row_by_upsert placeholder_row_def)
    next
      case False
      with no assms(1) have "d' = delete_token_rows t d" by (simp add: derive_token_def)
      with row_by_Some [OF assms(2)] show False by (auto simp: delete_token_rows_def)
    qed
  qed
  from derive_token_evidence [OF assms(1) ev] obtain w m where w: "walk_token X d t ?cells = Inr w"
    and d': "d' = write_token X t w (final_audit w ?f) ?f (snd (covenant_gate d t)) (processed_daa d)
      (fst (market_link X ?f (clear_token_facts t d))) ((clear_token_facts t d)\<lparr>d_markets := m\<rparr>)" .
  let ?r = "token_row_of X t (final_audit w ?f) ?f (w_trades w) (snd (covenant_gate d t)) (processed_daa d)
    (fst (market_link X ?f (clear_token_facts t d)))"
  have r: "r = ?r"
    using assms(2) unfolding d' write_token_def by (simp add: row_by_upsert token_row_of_def)
  note fa = final_audit_passes [OF walk_token_verifies(1) [OF w]]
  have ap: "audit_passes w ?f" and s: "s = w_supply w"
    using assms(3) unfolding r token_row_of_def by (auto simp: fa(2) split: if_splits)
  note tot = walk_token_verifies(3) [OF w ap]
  have mb: "t_minted r = Some (w_minted w)" "t_burned r = Some (w_burned w)"
    using ap unfolding r token_row_of_def by (simp_all add: fa(3,4))
  have fr: "frontier_sum ?f = s" "in_i64 s" using ap by (auto simp: audit_passes_def s)
  have bal: "filter (\<lambda>b. b_token_id b = t) (d_balances d') = balance_rows t ?f"
    unfolding d' write_token_def by (auto simp: clear_token_facts_def balance_rows_def filter_map comp_def case_prod_unfold)
  have held: "case (t_held_covenant r, t_held_wallet r, t_held_script r) of
      (Some c, Some w, Some h) \<Rightarrow> c + w + h = s | _ \<Rightarrow> True"
    using fr unfolding r token_row_of_def final_audit_def Let_def unpublished_def
    by (auto simp: i64_try_from_def split: option.splits)
  show ?thesis
    using tot mb history_balance [of X ?cells "token_events_of d t"] balance_rows_sum [of X ?cells t] fr held
    by (simp add: s bal)
qed

section \<open>An example token\<close>

definition hex_externals :: externals where
  "hex_externals = demo_externals\<lparr>
     hex_encode := \<lambda>bs. if bs = 2 # replicate 32 7 then ''02x'' else '''',
     hex_decode := \<lambda>_. Some (replicate 32 7)\<rparr>"

definition token_cell :: utxo_row where
  "token_cell = demo_cell\<lparr>u_template := Some ''KCC20 token''\<rparr>"

definition genesis_ev :: event_row where
  "genesis_ev = \<lparr>e_covenant_id = [9], e_seq = 0, e_kind = ''genesis'', e_txid = [1], e_accepting_block = [4], e_accepting_daa = 5,
     e_tx_index = None, e_blue_score = None, e_time_ms = None, e_payload = None, e_lane_namespace = None,
     e_payload_tag = None, e_inscription_kind = None, e_event_index = None, e_delivery_stream_seq = None\<rparr>"

definition token_db :: db where
  "token_db = demo_db\<lparr>d_utxos := [token_cell], d_events := [genesis_ev],
     d_covenants := [\<lparr>c_covenant_id = [9], c_genesis_txid = Some [1], c_genesis_daa = Some 5,
       c_lineage_complete = True, c_event_count = 1, c_last_activity_daa = 5\<rparr>]\<rparr>"

definition token_st :: token_state where
  "token_st = \<lparr>ts_owner = replicate 32 7, ts_identifier_type = 2, ts_amount_raw = i64_le 500, ts_minter_raw = [0]\<rparr>"

definition token_proven :: cell where
  "token_proven = (cell_of_row token_cell)\<lparr>ce_proven := Some (token_st, demo_program)\<rparr>"

lemma token_proven_simps:
  "ce_txid token_proven = [1]" "ce_spent_txid token_proven = None" "ce_proven token_proven = Some (token_st, demo_program)"
  by (simp_all add: token_proven_def cell_of_row_def token_cell_def demo_cell_def)

lemma token_proven_cells: "proven_cells hex_externals [] token_db [9] = [token_proven]"
proof -
  have "decode_token_state [] 0 demo_program = Some token_st" by code_simp
  then have "prove_direct hex_externals [] (load_cells token_db [9]) = [token_proven]"
    by (simp add: prove_direct_def load_cells_def token_db_def demo_db_def empty_db_def prove_direct_cell_def cell_of_row_def
        token_cell_def demo_cell_def token_proven_def)
  then show ?thesis
    using recover_loop_recovers [of hex_externals "[token_proven]"]
    by (auto simp: proven_cells_def prove_recovered_def list_all2_Cons1 recovered_from_def token_proven_simps)
qed

definition token_judged :: judged where
  "token_judged = \<lparr>j_amount = 500, j_minter = False, j_owner_key = ''02x''\<rparr>"

lemma token_judge: "judge hex_externals token_proven = Inr token_judged"
  using i64_of_le_i64_le [of 500]
  by (simp add: judge_def token_proven_simps token_st_def amount_i64_def ts_is_minter_def owner_key_def
      hex_externals_def token_judged_def in_i64_def)

lemma token_index: "cells_at (outs_of [token_proven]) [1] = [0]" "cells_at (ins_of [token_proven]) txid = []"
  "bt_keys (outs_of [token_proven]) = [[1]]" "bt_keys (ins_of [token_proven]) = []"
  by (simp_all add: cells_at_def outs_of_def ins_of_def index_by_def token_proven_simps bt_get_def bt_keys_def)

definition token_walk :: walk where
  "token_walk = push_event genesis_ev ''genesis''
     [\<lparr>dl_amount = Some 500, dl_owner_from = None, dl_owner_to = Some ''02x''\<rparr>]
     (start_walk \<lparr>vd_invalid = None, vd_unvalidated = None\<rparr>)\<lparr>w_seen := [[1]], w_supply := 500\<rparr>"

lemma token_walks: "walk_token hex_externals token_db [9] [token_proven] = Inr token_walk"
proof -
  have gate: "fst (covenant_gate token_db [9]) = \<lparr>vd_invalid = None, vd_unvalidated = None\<rparr>"
    by (simp add: covenant_gate_def token_db_def row_by_def)
  have evs: "token_events_of token_db [9] = [genesis_ev]"
    by (simp add: token_events_of_def token_db_def genesis_ev_def)
  have mv: "movers (net_deltas [] [token_judged]) = [(''02x'', 500)]"
    by (simp add: movers_def net_deltas_def add_delta_def token_judged_def)
  have ext: "extract_trade_candidate hex_externals token_db [9] genesis_ev [] [token_judged] = Inr None"
    by (simp add: extract_trade_candidate_def mv hex_externals_def array32_def kas_consumed_def kas_created_def
        token_db_def token_cell_def demo_cell_def Let_def)
  have "step_event hex_externals token_db [9] [token_proven] genesis_ev (start_walk \<lparr>vd_invalid = None, vd_unvalidated = None\<rparr>)
      = Inr token_walk"
    by (simp add: step_event_def token_index token_judge ext genesis_ev_def [THEN arg_cong [of _ _ e_txid]]
        classify_def genesis_event_def token_walk_def)
       (simp add: genesis_ev_def token_judged_def total_of_def start_walk_def push_event_def)
  then show ?thesis
    by (simp add: walk_token_def gate evs orphan_check_def token_index token_walk_def)
qed

lemma token_frontier: "frontier_of hex_externals [token_proven] =
    \<lparr>fr_balances = [(''02x'', 500, Suc 0)], fr_unresolved = 0, fr_newest = Some token_st\<rparr>"
  by (simp add: frontier_of_def frontier_step_def token_proven_simps live_def token_judge Let_def)
     (simp add: token_judged_def)

lemma token_derived:
  "\<exists>d'. derive_token hex_externals [] [9] token_db = Inr d' \<and>
     (\<exists>r. row_by t_token_id [9] (d_tokens d') = Some r \<and> t_status r = STATUS_VERIFIED \<and>
        t_supply r = Some 500 \<and> t_held_covenant r = Some 500 \<and> t_market_covenant_id r = Some (replicate 32 7))"
proof -
  have ev: "has_token_evidence token_db [9]"
    by (simp add: has_token_evidence_def has_template_evidence_def token_db_def token_cell_def demo_cell_def)
  have pc: "proven_cells hex_externals [] (clear_token_facts [9] token_db) [9] = [token_proven]"
    using proven_cells_cong [of "clear_token_facts [9] token_db" token_db] token_proven_cells by simp
  have wt: "walk_token hex_externals (clear_token_facts [9] token_db) [9] [token_proven] = Inr token_walk"
    using walk_token_cong [OF same_sources_clear] token_walks by simp
  let ?f = "\<lparr>fr_balances = [(''02x'', 500, Suc 0)], fr_unresolved = 0, fr_newest = Some token_st\<rparr>"
  have link: "market_link hex_externals ?f d = (Some (replicate 32 7), d)" for d
    by (simp add: market_link_def covenant_holders_def hex_externals_def array32_def map_filter_simps)
  have audit: "final_audit token_walk ?f =
     \<lparr>pb_verdict = \<lparr>vd_invalid = None, vd_unvalidated = None\<rparr>, pb_supply = Some 500, pb_minted = Some 0,
      pb_burned = Some 0, pb_held_covenant = Some 500, pb_held_wallet = Some 0, pb_held_script = Some 0\<rparr>"
    by (simp add: final_audit_def token_walk_def push_event_def start_walk_def unpublished_def frontier_sum_def
        held_covenant_def held_wallet_def held_script_def held_where_def in_i64_def i64_try_from_def Let_def)
  obtain d' where d': "derive_token hex_externals [] [9] token_db = Inr d'"
    using ev by (simp add: derive_token_def Let_def pc wt split_beta)
  with ev have "d_tokens d' = upsert t_token_id
      (token_row_of hex_externals [9] (final_audit token_walk ?f) ?f (w_trades token_walk)
        (snd (covenant_gate (clear_token_facts [9] token_db) [9])) (processed_daa (clear_token_facts [9] token_db))
        (Some (replicate 32 7))) (d_tokens token_db)"
    by (auto simp: derive_token_def Let_def pc wt token_frontier link write_token_def)
  then have "row_by t_token_id [9] (d_tokens d') = Some
      (token_row_of hex_externals [9] (final_audit token_walk ?f) ?f (w_trades token_walk)
        (snd (covenant_gate (clear_token_facts [9] token_db) [9])) (processed_daa (clear_token_facts [9] token_db))
        (Some (replicate 32 7)))"
    by (simp add: row_by_upsert token_row_of_def)
  then show ?thesis
    using d' by (auto simp: token_row_of_def audit vd_status_def STATUS_VERIFIED_def)
qed

lemma derive_token_verified_iff_witness:
  "token_verifies hex_externals token_db [9] (proven_cells hex_externals [] token_db [9])"
proof -
  from token_derived obtain d' r where d: "derive_token hex_externals [] [9] token_db = Inr d'"
    and r: "row_by t_token_id [9] (d_tokens d') = Some r" "t_status r = STATUS_VERIFIED" by blast
  have "has_token_evidence token_db [9]"
    by (simp add: has_token_evidence_def has_template_evidence_def token_db_def token_cell_def demo_cell_def)
  from derive_token_verified_iff [OF d this] r show ?thesis by auto
qed

lemma published_supply_exact_witness:
  "\<exists>d'. derive_token hex_externals [] [9] token_db = Inr d' \<and>
     500 = (\<Sum>b \<leftarrow> filter (\<lambda>b. b_token_id b = [9]) (d_balances d'). b_balance b)"
proof -
  from token_derived obtain d' r where d: "derive_token hex_externals [] [9] token_db = Inr d'"
    and r: "row_by t_token_id [9] (d_tokens d') = Some r" "t_supply r = Some 500" by blast
  from published_supply_exact [OF d r] d show ?thesis by blast
qed

end
