(* ===== verification/Stream_Laws.thy ===== *)
theory Stream_Laws
  imports Reorg Delivery Tokens_Laws
begin

text \<open>
  The invariants of the delivery stream and of the projection queue, and that applying a block, rolling
  blocks back and draining the queue keep them: the stream numbers are \<open>1, 2, 3, ...\<close> without gaps, a
  replay of the log holds the event table, and the queue holds the deliveries after its cursor.
\<close>

section \<open>Replaying the stream\<close>

definition records :: "db \<Rightarrow> delivery_record list" where
  "records d = map l_data_json (d_delivery_log d)"

definition replay_step :: "delivery_record \<Rightarrow> delivery_record list \<Rightarrow> delivery_record list" where
  "replay_step r held =
     (case dr_kind r of
        Accepted \<Rightarrow> held @ [r]
      | Removed \<Rightarrow> filter (\<lambda>a. Some (dr_cursor a) \<noteq> dr_source_cursor r) held
      | ProjectionRepaired \<Rightarrow> held)"

definition replay_log :: "delivery_record list \<Rightarrow> delivery_record list" where
  "replay_log rs = fold replay_step rs []"

text \<open>What a delivery says of its event, and what the event row says.\<close>

definition delivery_facts ::
  "delivery_record \<Rightarrow> bytes \<times> nat \<times> bytes \<times> bytes \<times> nat \<times> nat option \<times> nat option \<times> nat option" where
  "delivery_facts r =
     (dr_covenant_id r, dr_covenant_event_seq r, dr_txid r, dr_accepting_block r, dr_accepting_daa r,
      dr_tx_index r, dr_event_index r, Some (sc_seq (dr_cursor r)))"

definition event_facts ::
  "event_row \<Rightarrow> bytes \<times> nat \<times> bytes \<times> bytes \<times> nat \<times> nat option \<times> nat option \<times> nat option" where
  "event_facts e =
     (e_covenant_id e, e_seq e, e_txid e, e_accepting_block e, e_accepting_daa e,
      e_tx_index e, e_event_index e, e_delivery_stream_seq e)"

text \<open>A record within the bounds of its block's batch.\<close>

definition listed :: "db \<Rightarrow> delivery_record \<Rightarrow> bool" where
  "listed d r \<longleftrightarrow>
     (\<exists>b \<in> set (d_batches d). cbr_accepting_block b = dr_accepting_block r \<and>
        (case (cbr_first_stream_seq b, cbr_last_stream_seq b) of
           (Some lo, Some hi) \<Rightarrow> lo \<le> sc_seq (dr_cursor r) \<and> sc_seq (dr_cursor r) \<le> hi
         | _ \<Rightarrow> False))"

abbreviation seq_of :: "delivery_record \<Rightarrow> nat" where
  "seq_of r \<equiv> sc_seq (dr_cursor r)"

text \<open>The invariant: the log is numbered from one without gaps and its rows are the records they
  serialise; the records still held by a replay are the event table, and they are the accepted
  records that the batches list.\<close>

definition stream_ok :: "db \<Rightarrow> bool" where
  "stream_ok d \<longleftrightarrow>
     (\<exists>n. transaction_next_stream_seq d = Inr n \<and> 1 \<le> n \<and> map l_stream_seq (d_delivery_log d) = [1..<n]) \<and>
     (\<forall>l \<in> set (d_delivery_log d). delivery_row_of (l_data_json l) = l) \<and>
     map delivery_facts (replay_log (records d)) = map event_facts (d_events d) \<and>
     distinct (map cbr_accepting_block (d_batches d)) \<and>
     (\<forall>r \<in> set (records d). dr_kind r = Accepted \<longrightarrow> (r \<in> set (replay_log (records d)) \<longleftrightarrow> listed d r))"

text \<open>Every cursor of the log is of the database's epoch.\<close>

definition epoch_ok :: "externals \<Rightarrow> db \<Rightarrow> bool" where
  "epoch_ok X d \<longleftrightarrow> (\<forall>r \<in> set (records d). transaction_stream_epoch X d = Inr (sc_epoch (dr_cursor r)))"

lemma replay_append: "replay_log (rs @ rs') = fold replay_step rs' (replay_log rs)"
  by (simp add: replay_log_def)

lemma fold_accepted:
  "(\<And>r. r \<in> set rs \<Longrightarrow> dr_kind r = Accepted) \<Longrightarrow> fold replay_step rs held = held @ rs"
  by (induction rs arbitrary: held) (simp_all add: replay_step_def)

lemma fold_removed:
  "(\<And>r. r \<in> set rs \<Longrightarrow> dr_kind r = Removed) \<Longrightarrow>
     fold replay_step rs held = filter (\<lambda>a. Some (dr_cursor a) \<notin> dr_source_cursor ` set rs) held"
proof (induction rs arbitrary: held)
  case (Cons r rs)
  then show ?case by (auto simp: replay_step_def intro!: filter_cong)
qed simp

lemma replay_set: "set (replay_log rs) \<subseteq> {r \<in> set rs. dr_kind r = Accepted}"
proof -
  have "set (fold replay_step rs held) \<subseteq> set held \<union> {r \<in> set rs. dr_kind r = Accepted}" for held
  proof (induction rs arbitrary: held)
    case (Cons r rs)
    show ?case using Cons [of "replay_step r held"]
      by (fastforce simp: replay_step_def split: delivery_kind.splits)
  qed simp
  then show ?thesis unfolding replay_log_def by fastforce
qed

lemma delivery_row_of_simps [simp]:
  "l_stream_seq (delivery_row_of r) = seq_of r" "l_data_json (delivery_row_of r) = r"
  "l_accepting_block (delivery_row_of r) = dr_accepting_block r" "l_kind (delivery_row_of r) = delivery_kind_str (dr_kind r)"
  "l_covenant_id (delivery_row_of r) = dr_covenant_id r"
  by (simp_all add: delivery_row_of_def)

lemma kind_str_accepted [simp]: "delivery_kind_str k = ''accepted'' \<longleftrightarrow> k = Accepted"
  by (cases k) simp_all

text \<open>The rows of a log that serialises its records.\<close>

lemma log_of_records:
  assumes "\<forall>l \<in> set (d_delivery_log d). delivery_row_of (l_data_json l) = l"
  shows "d_delivery_log d = map delivery_row_of (records d)"
  using assms by (simp add: records_def map_idI)

lemma seqs_of_records:
  assumes "\<forall>l \<in> set (d_delivery_log d). delivery_row_of (l_data_json l) = l"
  shows "map l_stream_seq (d_delivery_log d) = map seq_of (records d)"
  by (subst log_of_records [OF assms]) simp

lemma sorted_filter_upt: "map f xs = [a..<b] \<Longrightarrow> sort_key f (filter P xs) = filter P xs"
proof -
  assume "map f xs = [a..<b]"
  then have "sorted (map f xs)" by simp
  then have "sorted (map f (filter P xs))" by (rule sorted_filter)
  then show "sort_key f (filter P xs) = filter P xs" by (rule sort_key_id_if_sorted)
qed

lemma canonical_listed:
  assumes "stream_ok d"
  shows "canonical_deliveries_for_block d blk =
    filter (\<lambda>r. dr_kind r = Accepted \<and> dr_accepting_block r = blk \<and> listed d r) (records d)"
proof -
  let ?log = "d_delivery_log d"
  from assms obtain n where seqs: "map l_stream_seq ?log = [1..<n]"
    and rows: "\<forall>l \<in> set ?log. delivery_row_of (l_data_json l) = l"
    and dist: "distinct (map cbr_accepting_block (d_batches d))"
    by (auto simp: stream_ok_def)
  have log: "?log = map delivery_row_of (records d)" by (rule log_of_records [OF rows])
  have between: "accepted_between d blk lo hi =
      filter (\<lambda>r. lo \<le> seq_of r \<and> seq_of r \<le> hi \<and> dr_accepting_block r = blk \<and> dr_kind r = Accepted) (records d)" for lo hi
  proof -
    have "accepted_between d blk lo hi = map l_data_json
        (filter (\<lambda>l. lo \<le> l_stream_seq l \<and> l_stream_seq l \<le> hi \<and> l_accepting_block l = blk \<and> l_kind l = ''accepted'') ?log)"
      unfolding accepted_between_def by (subst sorted_filter_upt [OF seqs]) rule
    also have "\<dots> = filter (\<lambda>r. lo \<le> seq_of r \<and> seq_of r \<le> hi \<and> dr_accepting_block r = blk \<and> dr_kind r = Accepted) (records d)"
      by (subst log) (simp add: filter_map comp_def)
    finally show ?thesis .
  qed
  show ?thesis
  proof (cases "row_by cbr_accepting_block blk (d_batches d)")
    case None
    then have "\<forall>b \<in> set (d_batches d). cbr_accepting_block b \<noteq> blk" by (auto simp: row_by_None)
    then have "filter (\<lambda>r. dr_kind r = Accepted \<and> dr_accepting_block r = blk \<and> listed d r) (records d) = []"
      by (auto simp: listed_def filter_empty_conv)
    then show ?thesis by (simp add: canonical_deliveries_for_block_def None)
  next
    case (Some b)
    then have b: "b \<in> set (d_batches d)" "cbr_accepting_block b = blk" using row_by_Some by fast+
    have "b' = b" if "b' \<in> set (d_batches d)" "cbr_accepting_block b' = blk" for b'
      using that b dist by (metis distinct_map inj_on_def)
    then have "listed d r \<longleftrightarrow> (case (cbr_first_stream_seq b, cbr_last_stream_seq b) of
           (Some lo, Some hi) \<Rightarrow> lo \<le> seq_of r \<and> seq_of r \<le> hi | _ \<Rightarrow> False)" if "dr_accepting_block r = blk" for r
      using that b unfolding listed_def by blast
    then show ?thesis
      by (auto simp: canonical_deliveries_for_block_def Some between split: option.splits intro!: filter_cong)
  qed
qed

section \<open>Meta values\<close>

lemma map_of_row_by: "map_of m k = map_option snd (row_by fst k m)"
  unfolding row_by_def by (induction m) auto

lemma map_of_upsert: "map_of (upsert fst (k, v) m) k' = (if k' = k then Some v else map_of m k')"
  by (simp add: map_of_row_by row_by_upsert)

lemma get_meta_set: "get_meta (set_meta k v d) k' = (if k' = k then Some v else get_meta d k')"
  by (simp add: get_meta_def set_meta_def map_of_upsert)

lemma map_of_update:
  "map_of (map (\<lambda>(k', w). if k' = k then (k', v) else (k', w)) m) key =
     (if key = k \<and> map_of m k \<noteq> None then Some v else map_of m key)"
  by (induction m) auto

lemma get_meta_update:
  "get_meta (update_meta k v d) k' = (if k' = k \<and> get_meta d k \<noteq> None then Some v else get_meta d k')"
  by (simp add: get_meta_def update_meta_def map_of_update)

lemma stream_epoch_cong:
  "get_meta d' ''stream_epoch'' = get_meta d ''stream_epoch'' \<Longrightarrow> transaction_stream_epoch X d' = transaction_stream_epoch X d"
  by (simp add: transaction_stream_epoch_def)

lemma parse_u64_fits: "parse_u64 s = Some n \<Longrightarrow> fits_u64 n"
  by (auto simp: parse_u64_def Let_def split: if_splits option.splits)

lemma next_stream_seq_meta:
  "d_meta d' = d_meta d \<Longrightarrow> transaction_next_stream_seq d' = transaction_next_stream_seq d"
  by (simp add: transaction_next_stream_seq_def parse_meta_u64_def get_meta_def)

lemma parse_meta_update:
  assumes "parse_meta_u64 d k = Inr m" and "fits_u64 n"
  shows "parse_meta_u64 (update_meta k (show_nat n) d) k = Inr n"
  using assms by (auto simp: parse_meta_u64_def get_meta_update parse_show_u64 split: option.splits)

lemma parse_meta_other: "k \<noteq> k' \<Longrightarrow> parse_meta_u64 (update_meta k v d) k' = parse_meta_u64 d k'"
  by (simp add: parse_meta_u64_def get_meta_update)

lemma parse_meta_set: "k \<noteq> k' \<Longrightarrow> parse_meta_u64 (set_meta k v d) k' = parse_meta_u64 d k'"
  by (simp add: parse_meta_u64_def get_meta_set)

section \<open>Applying a block\<close>

lemma upsert_new: "key r \<notin> key ` set rows \<Longrightarrow> upsert key r rows = rows @ [r]"
  by (simp add: upsert_def)

definition work_of :: "delivery_record \<Rightarrow> work_row" where
  "work_of r = \<lparr>pw_delivery_stream_seq = seq_of r, pw_covenant_ids = [dr_covenant_id r]\<rparr>"

text \<open>What the event loop of a block adds: one record and one event row per event, numbered in order,
  and the record's entry in the queue.\<close>

lemma apply_events_stream:
  assumes "fold_result (apply_event X epoch blk) evs (d, n) = Inr (d', n')"
    and "\<forall>w \<in> set (d_work d). pw_delivery_stream_seq w < n"
  obtains new es where "d_delivery_log d' = d_delivery_log d @ map delivery_row_of new"
    and "d_events d' = d_events d @ es" and "map event_facts es = map delivery_facts new"
    and "\<forall>r \<in> set new. dr_kind r = Accepted \<and> dr_accepting_block r = bk_accepting_block blk"
    and "map seq_of new = [n..<n']" and "n \<le> n'" and "length new = length evs"
    and "d_work d' = d_work d @ map work_of new" and "d_meta d' = d_meta d" and "d_batches d' = d_batches d"
    and "\<forall>r \<in> set new. sc_epoch (dr_cursor r) = epoch"
    and "map (\<lambda>r. (dr_covenant_id r, dr_txid r)) new = map (\<lambda>ev. (ne_covenant_id ev, ne_txid ev)) evs"
  using assms
proof (induction evs arbitrary: d n thesis)
  case Nil
  then show ?case by (auto intro: Nil.prems(1) [of "[]" "[]"])
next
  case (Cons ev evs)
  from Cons.prems(2) obtain d1 n1 where a: "apply_event X epoch blk ev (d, n) = Inr (d1, n1)"
    and r: "fold_result (apply_event X epoch blk) evs (d1, n1) = Inr (d', n')"
    unfolding fold_result_Inr_Cons by fast
  let ?r = "accepted_record X epoch blk ev (next_event_seq d (ne_covenant_id ev)) n"
  let ?e = "new_event_row X blk ev (next_event_seq d (ne_covenant_id ev)) n"
  note one = apply_event_chain [OF a]
  have w: "d_work d1 = d_work d @ [work_of ?r]"
    unfolding one(9) using Cons.prems(3)
    by (subst upsert_new) (auto simp: work_of_def accepted_record_def)
  have "\<forall>w \<in> set (d_work d1). pw_delivery_stream_seq w < n1"
    using Cons.prems(3) by (auto simp: w one(1) work_of_def accepted_record_def)
  from Cons.IH [OF _ r this] obtain new es where
    rest: "d_delivery_log d' = d_delivery_log d1 @ map delivery_row_of new" "d_events d' = d_events d1 @ es"
      "map event_facts es = map delivery_facts new"
      "\<forall>r \<in> set new. dr_kind r = Accepted \<and> dr_accepting_block r = bk_accepting_block blk"
      "map seq_of new = [n1..<n']" "n1 \<le> n'" "length new = length evs" "d_work d' = d_work d1 @ map work_of new"
      "d_meta d' = d_meta d1" "d_batches d' = d_batches d1" "\<forall>r \<in> set new. sc_epoch (dr_cursor r) = epoch"
      "map (\<lambda>r. (dr_covenant_id r, dr_txid r)) new = map (\<lambda>ev. (ne_covenant_id ev, ne_txid ev)) evs"
    by blast
  show ?case
  proof (rule Cons.prems(1) [of "?r # new" "?e # es"])
    show "map event_facts (?e # es) = map delivery_facts (?r # new)"
      using rest(3) by (simp add: event_facts_def delivery_facts_def new_event_row_def accepted_record_def)
    show "map seq_of (?r # new) = [n..<n']"
      using rest(5,6) one(1) by (simp add: upt_rec [of n n'] accepted_record_def)
  qed (use rest one w in \<open>auto simp: accepted_record_def\<close>)
qed

lemma records_append:
  "d_delivery_log d' = d_delivery_log d @ map delivery_row_of new \<Longrightarrow> records d' = records d @ new"
  by (simp add: records_def comp_def)

lemma seq_bounds:
  assumes "stream_ok d" and "transaction_next_stream_seq d = Inr n" and "r \<in> set (records d)"
  shows "seq_of r < n"
proof -
  from assms(1) have rows: "\<forall>l \<in> set (d_delivery_log d). delivery_row_of (l_data_json l) = l" by (simp add: stream_ok_def)
  from assms(1,2) have "map l_stream_seq (d_delivery_log d) = [1..<n]" by (auto simp: stream_ok_def)
  then have "set (map seq_of (records d)) = {1..<n}" by (simp add: seqs_of_records [OF rows] del: set_map)
  with assms(3) show ?thesis by fastforce
qed

lemma fold_result_fits:
  assumes "fold_result (apply_event X epoch blk) evs (d, n) = Inr (d', n')" and "fits_u64 n"
  shows "fits_u64 n'"
proof -
  have "fits_u64 (snd (d', n'))"
    by (rule fold_result_inv [OF assms(1), where P = "\<lambda>s. fits_u64 (snd s)"])
      (use assms(2) in \<open>auto simp: apply_event_def next_seq_def Let_def dest!: early_return split: if_splits prod.splits\<close>)
  then show ?thesis by simp
qed

text \<open>A fresh block extends the log, the events and the queue by its own records.\<close>

lemma apply_fresh_stream:
  assumes "apply_fresh_block X reg blk d = Inr d'" and "transaction_next_stream_seq d = Inr n"
    and "\<forall>w \<in> set (d_work d). pw_delivery_stream_seq w < n"
    and "bk_accepting_daa blk = 0 \<longrightarrow> bk_events blk = []"
  obtains new es n' where "d_delivery_log d' = d_delivery_log d @ map delivery_row_of new"
    and "d_events d' = d_events d @ es" and "map event_facts es = map delivery_facts new"
    and "\<forall>r \<in> set new. dr_kind r = Accepted \<and> dr_accepting_block r = bk_accepting_block blk"
    and "map seq_of new = [n..<n']" and "n \<le> n'" and "length new = length (bk_events blk)"
    and "d_work d' = d_work d @ map work_of new" and "transaction_next_stream_seq d' = Inr n'"
    and "d_batches d' = d_batches d @ (if bk_accepting_daa blk > 0 then
        [\<lparr>cbr_accepting_block = bk_accepting_block blk, cbr_accepting_daa = bk_accepting_daa blk,
          cbr_first_stream_seq = (if new = [] then None else Some n),
          cbr_last_stream_seq = (if new = [] then None else Some (n' - 1))\<rparr>] else [])"
    and "\<forall>k. k \<notin> {''cursor'', ''processed_daa'', ''next_stream_seq''} \<longrightarrow> get_meta d' k = get_meta d k"
    and "\<forall>r \<in> set new. transaction_stream_epoch X d = Inr (sc_epoch (dr_cursor r))"
    and "map (\<lambda>r. (dr_covenant_id r, dr_txid r)) new = map (\<lambda>ev. (ne_covenant_id ev, ne_txid ev)) (bk_events blk)"
proof -
  from assms(1) obtain epoch start d1 n1 where epoch: "transaction_stream_epoch X d = Inr epoch"
    and start: "transaction_next_stream_seq d = Inr start"
    and ev: "fold_result (apply_event X epoch blk) (bk_events blk)
        (d\<lparr>d_utxos := apply_utxos X reg blk (d_utxos d)\<rparr>, start) = Inr (d1, n1)"
    and eqs: "d_events d' = d_events d1" "d_delivery_log d' = d_delivery_log d1" "d_work d' = d_work d1"
    and b: "d_batches d' = d_batches d1 @ (if bk_accepting_daa blk > 0 then
        [\<lparr>cbr_accepting_block = bk_accepting_block blk, cbr_accepting_daa = bk_accepting_daa blk,
          cbr_first_stream_seq = (if bk_events blk = [] then None else Some start),
          cbr_last_stream_seq = (if bk_events blk = [] \<or> n1 = 0 then None else Some (n1 - 1))\<rparr>] else [])"
    and m: "d_meta d' = (let m = upsert fst (''cursor'', hex_encode X (bk_accepting_block blk)) (d_meta d1) in
        if bk_accepting_daa blk > 0 then
          map (\<lambda>(k, w). if k = ''next_stream_seq'' then (k, show_nat n1) else (k, w))
            (upsert fst (''processed_daa'', show_nat (bk_accepting_daa blk)) m)
        else m)"
    by (rule apply_fresh_block_stages) blast
  have n: "start = n" using start assms(2) by simp
  let ?d0 = "d\<lparr>d_utxos := apply_utxos X reg blk (d_utxos d)\<rparr>"
  from ev have ev': "fold_result (apply_event X epoch blk) (bk_events blk) (?d0, n) = Inr (d1, n1)" by (simp only: n)
  have w: "\<forall>w \<in> set (d_work ?d0). pw_delivery_stream_seq w < n" using assms(3) by simp
  obtain new es where st0: "d_delivery_log d1 = d_delivery_log ?d0 @ map delivery_row_of new"
    "d_events d1 = d_events ?d0 @ es" "map event_facts es = map delivery_facts new"
    "\<forall>r \<in> set new. dr_kind r = Accepted \<and> dr_accepting_block r = bk_accepting_block blk"
    "map seq_of new = [n..<n1]" "n \<le> n1" "length new = length (bk_events blk)"
    "d_work d1 = d_work ?d0 @ map work_of new" "d_meta d1 = d_meta ?d0" "d_batches d1 = d_batches ?d0"
    "\<forall>r \<in> set new. sc_epoch (dr_cursor r) = epoch"
    "map (\<lambda>r. (dr_covenant_id r, dr_txid r)) new = map (\<lambda>ev. (ne_covenant_id ev, ne_txid ev)) (bk_events blk)"
    by (rule apply_events_stream [OF ev' w])
  have st: "d_delivery_log d1 = d_delivery_log d @ map delivery_row_of new" "d_events d1 = d_events d @ es"
    "d_work d1 = d_work d @ map work_of new" "d_meta d1 = d_meta d" "d_batches d1 = d_batches d"
    using st0(1,2,8,9,10) by simp_all
  note st' = st0(3-7)
  have meta: "get_meta d' k = (if k = ''cursor'' then Some (hex_encode X (bk_accepting_block blk))
      else if bk_accepting_daa blk > 0 \<and> k = ''processed_daa'' then Some (show_nat (bk_accepting_daa blk))
      else if bk_accepting_daa blk > 0 \<and> k = ''next_stream_seq'' \<and> get_meta d k \<noteq> None then Some (show_nat n1)
      else get_meta d k)" for k
    by (simp add: get_meta_def m st(4) Let_def map_of_update map_of_upsert)
  have "fits_u64 n" using assms(2)
    by (auto simp: transaction_next_stream_seq_def parse_meta_u64_def dest: parse_u64_fits split: option.splits)
  then have fits: "fits_u64 n1" using fold_result_fits [OF ev] n by simp
  have z: "n1 = n" if "bk_accepting_daa blk = 0" using arg_cong [OF st'(3), of length] st'(4,5) assms(4) that by simp
  have nxt: "transaction_next_stream_seq d' = Inr n1"
    using assms(2) z
    by (auto simp: transaction_next_stream_seq_def parse_meta_u64_def meta parse_show_u64 fits split: option.splits)
  have empty: "new = [] \<longleftrightarrow> bk_events blk = []" using st'(5) by (metis length_0_conv)
  have "n1 \<noteq> 0" if "new \<noteq> []"
    using st'(3) that by (cases n1) auto
  then have "d_batches d' = d_batches d @ (if bk_accepting_daa blk > 0 then
        [\<lparr>cbr_accepting_block = bk_accepting_block blk, cbr_accepting_daa = bk_accepting_daa blk,
          cbr_first_stream_seq = (if new = [] then None else Some n),
          cbr_last_stream_seq = (if new = [] then None else Some (n1 - 1))\<rparr>] else [])"
    using empty by (auto simp: b st(5) n)
  then show ?thesis
    by (intro that [OF _ _ st' _ nxt]) (simp_all add: eqs st meta st0(11,12) epoch)
qed

text \<open>The invariant of the queue: it holds exactly the deliveries after the cursor, in order.\<close>

definition queue_ok :: "db \<Rightarrow> bool" where
  "queue_ok d \<longleftrightarrow>
     (\<exists>c n. projection_cursor d = Inr c \<and> transaction_next_stream_seq d = Inr n \<and> c < n \<and>
        map pw_delivery_stream_seq (d_work d) = [Suc c..<n])"

lemma queue_bound:
  assumes "queue_ok d" and "transaction_next_stream_seq d = Inr n"
  shows "\<forall>w \<in> set (d_work d). pw_delivery_stream_seq w < n"
proof -
  from assms obtain c where "map pw_delivery_stream_seq (d_work d) = [Suc c..<n]" by (auto simp: queue_ok_def)
  then have "pw_delivery_stream_seq ` set (d_work d) = {Suc c..<n}" by (metis set_map set_upt)
  then show ?thesis by fastforce
qed

lemma upt_append: "a \<le> b \<Longrightarrow> b \<le> c \<Longrightarrow> [a..<b] @ [b..<c] = [a..<c]"
  by (metis le_add_diff_inverse upt_add_eq_append)

lemma work_of_seq [simp]: "pw_delivery_stream_seq (work_of r) = seq_of r"
  by (simp add: work_of_def)

text \<open>The new batch lists its own records and no other.\<close>

lemma listed_fresh:
  assumes "stream_ok d" and "transaction_next_stream_seq d = Inr n"
    and "d_batches d' = d_batches d @ (if bk_accepting_daa blk > 0 then
        [\<lparr>cbr_accepting_block = bk_accepting_block blk, cbr_accepting_daa = bk_accepting_daa blk,
          cbr_first_stream_seq = (if new = [] then None else Some n),
          cbr_last_stream_seq = (if new = [] then None else Some (n' - 1))\<rparr>] else [])"
    and "\<forall>r \<in> set new. dr_kind r = Accepted \<and> dr_accepting_block r = bk_accepting_block blk"
    and "map seq_of new = [n..<n']"
  shows "r \<in> set (records d) \<Longrightarrow> listed d' r \<longleftrightarrow> listed d r"
    and "r \<in> set new \<Longrightarrow> 0 < bk_accepting_daa blk \<Longrightarrow> listed d' r"
proof -
  show "listed d' r \<longleftrightarrow> listed d r" if "r \<in> set (records d)"
  proof -
    have "seq_of r < n" by (rule seq_bounds [OF assms(1,2) that])
    then show ?thesis by (auto simp: listed_def assms(3) split: if_splits)
  qed
  show "listed d' r" if "r \<in> set new" "0 < bk_accepting_daa blk"
  proof -
    have "seq_of r \<in> {n..<n'}" using that assms(5) by (metis image_eqI set_map set_upt)
    with that assms(4) show ?thesis by (auto simp: listed_def assms(3))
  qed
qed

lemma apply_fresh_ok:
  assumes "apply_fresh_block X reg blk d = Inr d'" and "stream_ok d" and "queue_ok d"
    and "canonical_batch_daa d (bk_accepting_block blk) = None"
    and "bk_accepting_daa blk = 0 \<longrightarrow> bk_events blk = []"
  shows "stream_ok d' \<and> queue_ok d' \<and> (epoch_ok X d \<longrightarrow> epoch_ok X d')"
proof -
  let ?B = "bk_accepting_block blk"
  from assms(2) obtain n where n: "transaction_next_stream_seq d = Inr n" "1 \<le> n"
    and seqs: "map l_stream_seq (d_delivery_log d) = [1..<n]"
    and rows: "\<forall>l \<in> set (d_delivery_log d). delivery_row_of (l_data_json l) = l"
    and facts: "map delivery_facts (replay_log (records d)) = map event_facts (d_events d)"
    and dist: "distinct (map cbr_accepting_block (d_batches d))"
    and held: "\<forall>r \<in> set (records d). dr_kind r = Accepted \<longrightarrow> (r \<in> set (replay_log (records d)) \<longleftrightarrow> listed d r)"
    by (auto simp: stream_ok_def)
  from assms(3) n(1) obtain c where c: "projection_cursor d = Inr c" "c < n"
    "map pw_delivery_stream_seq (d_work d) = [Suc c..<n]" by (auto simp: queue_ok_def)
  obtain new es n' where st: "d_delivery_log d' = d_delivery_log d @ map delivery_row_of new"
    "d_events d' = d_events d @ es" "map event_facts es = map delivery_facts new"
    "\<forall>r \<in> set new. dr_kind r = Accepted \<and> dr_accepting_block r = ?B"
    "map seq_of new = [n..<n']" "n \<le> n'" "length new = length (bk_events blk)"
    "d_work d' = d_work d @ map work_of new" "transaction_next_stream_seq d' = Inr n'"
    "d_batches d' = d_batches d @ (if bk_accepting_daa blk > 0 then
        [\<lparr>cbr_accepting_block = ?B, cbr_accepting_daa = bk_accepting_daa blk,
          cbr_first_stream_seq = (if new = [] then None else Some n),
          cbr_last_stream_seq = (if new = [] then None else Some (n' - 1))\<rparr>] else [])"
    "\<forall>k. k \<notin> {''cursor'', ''processed_daa'', ''next_stream_seq''} \<longrightarrow> get_meta d' k = get_meta d k"
    "\<forall>r \<in> set new. transaction_stream_epoch X d = Inr (sc_epoch (dr_cursor r))"
    "map (\<lambda>r. (dr_covenant_id r, dr_txid r)) new = map (\<lambda>ev. (ne_covenant_id ev, ne_txid ev)) (bk_events blk)"
    by (rule apply_fresh_stream [OF assms(1) n(1) queue_bound [OF assms(3) n(1)] assms(5)])
  have rec: "records d' = records d @ new" by (rule records_append [OF st(1)])
  have rep: "replay_log (records d') = replay_log (records d) @ new"
    unfolding rec replay_append by (rule fold_accepted) (use st(4) in blast)
  have no: "?B \<notin> cbr_accepting_block ` set (d_batches d)"
    using assms(4) by (simp add: canonical_batch_daa_def row_by_None)
  have seqs': "map l_stream_seq (d_delivery_log d') = [1..<n']"
    using seqs st(5) upt_append [OF n(2) st(6)] by (simp add: st(1) comp_def)
  note l = listed_fresh [OF assms(2) n(1) st(10,4,5)]
  have old: "listed d' r \<longleftrightarrow> listed d r" if "r \<in> set (records d)" for r using l(1) that .
  have fresh: "listed d' r" if "r \<in> set new" for r
    using l(2) that st(7) assms(5) by (cases "bk_accepting_daa blk") auto
  have disjoint: "r \<notin> set (records d)" if "r \<in> set new" for r
  proof -
    have "seq_of r \<in> {n..<n'}" using that st(5) by (metis image_eqI set_map set_upt)
    with seq_bounds [OF assms(2) n(1), of r] show ?thesis by auto
  qed
  have "stream_ok d'"
    unfolding stream_ok_def
  proof (intro conjI)
    show "\<exists>n. transaction_next_stream_seq d' = Inr n \<and> 1 \<le> n \<and> map l_stream_seq (d_delivery_log d') = [1..<n]"
      using st(6,9) n(2) seqs' by auto
    show "\<forall>l \<in> set (d_delivery_log d'). delivery_row_of (l_data_json l) = l" using rows by (auto simp: st(1))
    show "map delivery_facts (replay_log (records d')) = map event_facts (d_events d')" using facts st(2,3) by (simp add: rep)
    show "distinct (map cbr_accepting_block (d_batches d'))" using dist no by (auto simp: st(10))
    show "\<forall>r \<in> set (records d'). dr_kind r = Accepted \<longrightarrow> (r \<in> set (replay_log (records d')) \<longleftrightarrow> listed d' r)"
      unfolding rep using held old fresh disjoint by (auto simp: rec)
  qed
  moreover have "projection_cursor d' = Inr c"
    using c(1) st(11) by (simp add: projection_cursor_def parse_meta_u64_def CURSOR_META_def)
  then have "queue_ok d'"
    using c(2,3) st(5,6,9) upt_append [of "Suc c" n n'] unfolding queue_ok_def
    by (intro exI [of _ c] exI [of _ n']) (simp add: st(8) comp_def)
  moreover have "epoch_ok X d \<longrightarrow> epoch_ok X d'"
    using st(11,12) stream_epoch_cong [of d' d X] by (auto simp: epoch_ok_def rec)
  ultimately show ?thesis by simp
qed

section \<open>Rolling blocks back\<close>

text \<open>What the removal loop appends: one removal per listed record of each block, numbered in order.\<close>

lemma append_block_removals_stream:
  assumes "append_block_removals epoch blk (d, n, rs) = Inr (d', n', rs')"
  obtains new where "new = map (\<lambda>(r, k). removal_record epoch r k)
      (zip (canonical_deliveries_for_block d blk) [n..<n'])"
    and "length (canonical_deliveries_for_block d blk) = n' - n" and "n \<le> n'"
    and "d_delivery_log d' = d_delivery_log d @ map delivery_row_of new" and "rs' = rs @ new"
    and "d_meta d' = d_meta d" and "d_batches d' = d_batches d"
proof -
  have "\<exists>new. new = map (\<lambda>(r, k). removal_record epoch r k) (zip sources [n..<n']) \<and> length sources = n' - n \<and> n \<le> n' \<and>
      d_delivery_log d' = d_delivery_log d @ map delivery_row_of new \<and> rs' = rs @ new \<and>
      d_meta d' = d_meta d \<and> d_batches d' = d_batches d"
    if "fold_result (append_removal epoch) sources (d, n, rs) = Inr (d', n', rs')" for sources
    using that
  proof (induction sources arbitrary: d n rs)
    case (Cons r sources)
    from Cons.prems obtain d1 n1 rs1 where a: "append_removal epoch r (d, n, rs) = Inr (d1, n1, rs1)"
      and f: "fold_result (append_removal epoch) sources (d1, n1, rs1) = Inr (d', n', rs')"
      unfolding fold_result_Inr_Cons by (metis prod.exhaust)
    note one = append_removal_frame [OF a]
    from Cons.IH [OF f] one(7) have len: "length sources = n' - Suc n" "Suc n \<le> n'" by auto
    then have "[n..<n'] = n # [Suc n..<n']" by (simp add: upt_rec)
    with Cons.IH [OF f] one len show ?case by auto
  qed simp
  from this [OF assms [unfolded append_block_removals_def fst_conv]] that show ?thesis by blast
qed

lemma removal_record_simps [simp]:
  "seq_of (removal_record epoch r k) = k" "dr_kind (removal_record epoch r k) = Removed"
  "dr_source_cursor (removal_record epoch r k) = Some (dr_cursor r)"
  "dr_covenant_id (removal_record epoch r k) = dr_covenant_id r"
  by (simp_all add: removal_record_def)

definition removals :: "stream_epoch \<Rightarrow> delivery_record list \<Rightarrow> nat \<Rightarrow> nat \<Rightarrow> delivery_record list" where
  "removals epoch sources n n' = map (\<lambda>(r, k). removal_record epoch r k) (zip sources [n..<n'])"

lemma removals_kind: "r \<in> set (removals epoch sources n n') \<Longrightarrow> dr_kind r = Removed"
  by (auto simp: removals_def)

lemma removals_epoch: "r \<in> set (removals epoch sources n n') \<Longrightarrow> sc_epoch (dr_cursor r) = epoch"
  by (auto simp: removals_def removal_record_def)

lemma removals_seqs: "length sources = n' - n \<Longrightarrow> map seq_of (removals epoch sources n n') = [n..<n']"
  by (simp add: removals_def comp_def split_beta)

lemma removals_sources:
  "length sources = n' - n \<Longrightarrow> map dr_source_cursor (removals epoch sources n n') = map (Some \<circ> dr_cursor) sources"
proof -
  assume len: "length sources = n' - n"
  have "map dr_source_cursor (removals epoch sources n n') = map (Some \<circ> dr_cursor \<circ> fst) (zip sources [n..<n'])"
    by (auto simp: removals_def)
  also have "\<dots> = map (Some \<circ> dr_cursor) (map fst (zip sources [n..<n']))" by simp
  also have "map fst (zip sources [n..<n']) = sources" using len by simp
  finally show ?thesis .
qed

lemma canonical_grown:
  assumes "d_delivery_log d' = d_delivery_log d @ map delivery_row_of new" and "d_batches d' = d_batches d"
    and "\<And>r. r \<in> set new \<Longrightarrow> dr_kind r = Removed"
  shows "canonical_deliveries_for_block d' blk = canonical_deliveries_for_block d blk"
proof -
  have "filter (\<lambda>l. P l \<and> l_kind l = ''accepted'') (map delivery_row_of new) = []" for P
    using assms(3) by (auto simp: filter_empty_conv)
  from this [of "\<lambda>l. lo \<le> l_stream_seq l \<and> l_stream_seq l \<le> hi \<and> l_accepting_block l = blk" for lo hi]
  have "accepted_between d' blk lo hi = accepted_between d blk lo hi" for lo hi
    by (simp add: accepted_between_def assms(1) conj_assoc)
  then show ?thesis by (simp add: canonical_deliveries_for_block_def assms(2) split: option.splits)
qed

lemma append_blocks_stream:
  assumes "fold_result (append_block_removals epoch) bs (d, n, rs) = Inr (d', n', rs')"
    and "sources = concat (map (canonical_deliveries_for_block d) bs)"
  shows "length sources = n' - n \<and> n \<le> n' \<and> rs' = rs @ removals epoch sources n n' \<and>
    d_delivery_log d' = d_delivery_log d @ map delivery_row_of (removals epoch sources n n') \<and>
    d_meta d' = d_meta d \<and> d_batches d' = d_batches d"
  using assms
proof (induction bs arbitrary: d n rs sources)
  case Nil
  then show ?case by (simp add: removals_def)
next
  case (Cons b bs)
  from Cons.prems(1) obtain d1 n1 rs1 where a: "append_block_removals epoch b (d, n, rs) = Inr (d1, n1, rs1)"
    and f: "fold_result (append_block_removals epoch) bs (d1, n1, rs1) = Inr (d', n', rs')"
    unfolding fold_result_Inr_Cons by (metis prod.exhaust)
  let ?s = "canonical_deliveries_for_block d b" and ?ss = "concat (map (canonical_deliveries_for_block d) bs)"
  have one: "length ?s = n1 - n" "n \<le> n1" "rs1 = rs @ removals epoch ?s n n1"
      "d_delivery_log d1 = d_delivery_log d @ map delivery_row_of (removals epoch ?s n n1)"
      "d_meta d1 = d_meta d" "d_batches d1 = d_batches d"
    by (rule append_block_removals_stream [OF a], simp add: removals_def)+
  have "canonical_deliveries_for_block d1 = canonical_deliveries_for_block d"
    by (rule ext) (rule canonical_grown [OF one(4,6) removals_kind])
  then have rest: "length ?ss = n' - n1 \<and> n1 \<le> n' \<and> rs' = rs1 @ removals epoch ?ss n1 n' \<and>
      d_delivery_log d' = d_delivery_log d1 @ map delivery_row_of (removals epoch ?ss n1 n') \<and>
      d_meta d' = d_meta d1 \<and> d_batches d' = d_batches d1"
    using Cons.IH [OF f] by simp
  have "removals epoch (?s @ ?ss) n n' = removals epoch ?s n n1 @ removals epoch ?ss n1 n'"
    using one(1,2) rest by (simp add: removals_def zip_append1 upt_append [of n n1 n', symmetric] flip: map_append)
  with one rest Cons.prems(2) show ?case by simp
qed

lemma removed_fits:
  assumes "fold_result (append_block_removals epoch) bs (d, n, rs) = Inr (d', n', rs')" and "fits_u64 n"
  shows "fits_u64 n'"
proof -
  have one: "fits_u64 (fst (snd s'))" if "append_removal epoch r s = Inr s'" for r s s'
    using that by (auto simp: append_removal_def next_seq_def Let_def dest!: early_return split: if_splits prod.splits)
  have blk: "fits_u64 (fst (snd s'))" if "fits_u64 (fst (snd s))" "append_block_removals epoch b s = Inr s'" for b s s'
    by (rule fold_result_inv [OF that(2) [unfolded append_block_removals_def], where P = "\<lambda>s. fits_u64 (fst (snd s))"])
      (use that(1) one in auto)
  have "fits_u64 (fst (snd (d', n', rs')))"
    by (rule fold_result_inv [OF assms(1), where P = "\<lambda>s. fits_u64 (fst (snd s))"]) (use assms(2) blk in auto)
  then show ?thesis by simp
qed

lemma append_removed_stream:
  assumes "append_removed_deliveries X bs d = Inr (rs, d')" and "transaction_next_stream_seq d = Inr n"
  obtains epoch n' where "rs = removals epoch (concat (map (canonical_deliveries_for_block d) bs)) n n'"
    and "length (concat (map (canonical_deliveries_for_block d) bs)) = n' - n" and "n \<le> n'"
    and "d_delivery_log d' = d_delivery_log d @ map delivery_row_of rs"
    and "transaction_next_stream_seq d' = Inr n'"
    and "\<forall>k. k \<noteq> ''next_stream_seq'' \<longrightarrow> get_meta d' k = get_meta d k"
    and "transaction_stream_epoch X d = Inr epoch"
proof -
  from assms obtain epoch d1 n' where e: "transaction_stream_epoch X d = Inr epoch" and
    f: "fold_result (append_block_removals epoch) bs (d, n, []) = Inr (d1, n', rs)"
    and d': "d' = update_meta ''next_stream_seq'' (show_nat n') d1"
    by (auto simp: append_removed_deliveries_def dest!: early_return)
  note st = append_blocks_stream [OF f refl]
  have "fits_u64 n" using assms(2)
    by (auto simp: transaction_next_stream_seq_def parse_meta_u64_def dest: parse_u64_fits split: option.splits)
  then have "fits_u64 n'" by (rule removed_fits [OF f])
  moreover have "parse_meta_u64 d1 ''next_stream_seq'' = Inr n"
    using assms(2) st next_stream_seq_meta [of d1 d] by (simp add: transaction_next_stream_seq_def)
  ultimately have "transaction_next_stream_seq d' = Inr n'"
    unfolding transaction_next_stream_seq_def d' by (rule parse_meta_update [rotated])
  moreover have "get_meta d' k = get_meta d k" if "k \<noteq> ''next_stream_seq''" for k
    using st that by (simp add: d' get_meta_update) (simp add: get_meta_def)
  ultimately show ?thesis using st using e by (intro that [of epoch n']) (simp_all add: d')
qed

lemma rollback_blocks_events:
  "d_events (fold rollback_block bs d) = filter (\<lambda>e. e_accepting_block e \<notin> set bs) (d_events d)"
  "d_batches (fold rollback_block bs d) = filter (\<lambda>b. cbr_accepting_block b \<notin> set bs) (d_batches d)"
  by (induction bs arbitrary: d) (auto simp: rollback_block_def intro: filter_cong)

lemma enqueue_fold_work:
  assumes "map seq_of rs = [n..<n']" and "\<forall>w \<in> set (d_work d). pw_delivery_stream_seq w < n"
  shows "d_work (fold (\<lambda>r. enqueue_projection (seq_of r) [dr_covenant_id r]) rs d) = d_work d @ map work_of rs"
  using assms
proof (induction rs arbitrary: n d)
  case (Cons r rs)
  from Cons.prems(1) have r: "seq_of r = n" "map seq_of rs = [Suc n..<n']"
    by (auto simp: upt_rec [of n] split: if_splits)
  have "d_work (enqueue_projection (seq_of r) [dr_covenant_id r] d) = d_work d @ [work_of r]"
    using Cons.prems(2) r by (auto simp: enqueue_projection_def work_of_def intro!: upsert_new)
  moreover from this have "\<forall>w \<in> set (d_work (enqueue_projection (seq_of r) [dr_covenant_id r] d)). pw_delivery_stream_seq w < Suc n"
    using Cons.prems(2) r(1) by (auto simp: less_Suc_eq)
  ultimately show ?case using Cons.IH [OF r(2)] by simp
qed simp

text \<open>The removals of a rollback drop exactly the held records of its blocks.\<close>

lemma replay_rollback:
  assumes "stream_ok d" and "sources = concat (map (canonical_deliveries_for_block d) bs)"
    and "length sources = n' - n"
  shows "replay_log (records d @ removals epoch sources n n') =
    filter (\<lambda>r. dr_accepting_block r \<notin> set bs) (replay_log (records d))"
proof -
  from assms(1) obtain m where rows: "\<forall>l \<in> set (d_delivery_log d). delivery_row_of (l_data_json l) = l"
    and seqs: "map l_stream_seq (d_delivery_log d) = [1..<m]"
    and held: "\<forall>r \<in> set (records d). dr_kind r = Accepted \<longrightarrow> (r \<in> set (replay_log (records d)) \<longleftrightarrow> listed d r)"
    by (auto simp: stream_ok_def)
  have "distinct (map seq_of (records d))" using seqs seqs_of_records [OF rows] by (metis distinct_upt)
  then have inj: "r = r'" if "r \<in> set (records d)" "r' \<in> set (records d)" "dr_cursor r = dr_cursor r'" for r r'
    using that by (metis distinct_map inj_on_def)
  have src: "set sources = {r \<in> set (records d). dr_kind r = Accepted \<and> dr_accepting_block r \<in> set bs \<and> listed d r}"
    unfolding assms(2) by (auto simp: canonical_listed [OF assms(1)])
  have cur: "dr_source_cursor ` set (removals epoch sources n n') = Some ` dr_cursor ` set sources"
    using removals_sources [OF assms(3), of epoch] by (metis image_comp set_map)
  have "replay_log (records d @ removals epoch sources n n') =
      filter (\<lambda>a. Some (dr_cursor a) \<notin> dr_source_cursor ` set (removals epoch sources n n')) (replay_log (records d))"
    unfolding replay_append by (rule fold_removed) (rule removals_kind)
  also have "\<dots> = filter (\<lambda>r. dr_accepting_block r \<notin> set bs) (replay_log (records d))"
  proof (rule filter_cong [OF refl])
    fix r assume r: "r \<in> set (replay_log (records d))"
    with replay_set have a: "r \<in> set (records d)" "dr_kind r = Accepted" by fast+
    with held r have "listed d r" by blast
    with a have "r \<in> set sources \<longleftrightarrow> dr_accepting_block r \<in> set bs" by (simp add: src)
    moreover have "Some (dr_cursor r) \<in> Some ` dr_cursor ` set sources \<longleftrightarrow> r \<in> set sources"
      using inj a(1) src by auto
    ultimately show "(Some (dr_cursor r) \<notin> dr_source_cursor ` set (removals epoch sources n n')) =
        (dr_accepting_block r \<notin> set bs)" by (simp add: cur)
  qed
  finally show ?thesis .
qed

lemma rollback_ok:
  assumes "rollback_removed_blocks X now removed d = Inr (res, d')" and "stream_ok d" and "queue_ok d"
  shows "stream_ok d' \<and> queue_ok d' \<and> (epoch_ok X d \<longrightarrow> epoch_ok X d')"
proof (cases "canonical_removed d removed = []")
  case True
  with assms show ?thesis by (auto simp: rollback_removed_blocks_def)
next
  case False
  let ?bs = "canonical_removed d removed"
  obtain rs d1 where a: "append_removed_deliveries X ?bs d = Inr (rs, d1)"
    and res: "res = \<lparr>cr_removed_blocks = ?bs, cr_deliveries = rs\<rparr>"
    and raw: "d_events d' = d_events (fold rollback_block ?bs d)"
    "d_batches d' = d_batches (fold rollback_block ?bs d)"
    "d_delivery_log d' = d_delivery_log d1" "d_meta d' = d_meta d1"
    "d_work d' = d_work (fold (\<lambda>r. enqueue_projection (seq_of r) [dr_covenant_id r]) rs d1)"
    by (rule rollback_stages [OF assms(1) False])
  from assms(2) obtain n where n: "transaction_next_stream_seq d = Inr n" "1 \<le> n"
    and seqs: "map l_stream_seq (d_delivery_log d) = [1..<n]"
    and rows: "\<forall>l \<in> set (d_delivery_log d). delivery_row_of (l_data_json l) = l"
    and facts: "map delivery_facts (replay_log (records d)) = map event_facts (d_events d)"
    and dist: "distinct (map cbr_accepting_block (d_batches d))"
    and held: "\<forall>r \<in> set (records d). dr_kind r = Accepted \<longrightarrow> (r \<in> set (replay_log (records d)) \<longleftrightarrow> listed d r)"
    by (auto simp: stream_ok_def)
  from assms(3) n(1) obtain c where c: "projection_cursor d = Inr c" "c < n"
    "map pw_delivery_stream_seq (d_work d) = [Suc c..<n]" by (auto simp: queue_ok_def)
  let ?src = "concat (map (canonical_deliveries_for_block d) ?bs)"
  obtain epoch n' where rs: "rs = removals epoch ?src n n'" and len: "length ?src = n' - n" "n \<le> n'"
    and log: "d_delivery_log d1 = d_delivery_log d @ map delivery_row_of rs"
    and nxt: "transaction_next_stream_seq d1 = Inr n'"
    and cur: "\<forall>k. k \<noteq> ''next_stream_seq'' \<longrightarrow> get_meta d1 k = get_meta d k"
    and ep: "transaction_stream_epoch X d = Inr epoch"
    by (rule append_removed_stream [OF a n(1)])
  have meta: "transaction_next_stream_seq d' = Inr n'" "projection_cursor d' = Inr c"
    using nxt cur [rule_format, of CURSOR_META] c(1) raw(4)
    by (simp_all add: transaction_next_stream_seq_def projection_cursor_def parse_meta_u64_def get_meta_def CURSOR_META_def)
  have rec: "records d' = records d @ rs" by (rule records_append) (simp add: raw(3) log)
  have rep: "replay_log (records d') = filter (\<lambda>r. dr_accepting_block r \<notin> set ?bs) (replay_log (records d))"
    unfolding rec rs by (rule replay_rollback [OF assms(2) refl len(1)])
  have seqs_rs: "map seq_of rs = [n..<n']" unfolding rs by (rule removals_seqs [OF len(1)])
  have listed: "listed d' r \<longleftrightarrow> listed d r \<and> dr_accepting_block r \<notin> set ?bs" for r
    by (auto simp: listed_def raw(2) rollback_blocks_events)
  have facts': "map delivery_facts (replay_log (records d')) = map event_facts (d_events d')"
  proof -
    have "filter (\<lambda>(_, _, _, b, _). b \<notin> S) (map delivery_facts rs) =
        map delivery_facts (filter (\<lambda>r. dr_accepting_block r \<notin> S) rs)" for S rs
      by (simp add: filter_map comp_def delivery_facts_def)
    moreover have "filter (\<lambda>(_, _, _, b, _). b \<notin> S) (map event_facts es) =
        map event_facts (filter (\<lambda>e. e_accepting_block e \<notin> S) es)" for S es
      by (simp add: filter_map comp_def event_facts_def)
    ultimately show ?thesis
      unfolding rep raw(1) rollback_blocks_events(1) using facts by metis
  qed
  have "stream_ok d'"
    unfolding stream_ok_def
  proof (intro conjI)
    show "\<exists>n. transaction_next_stream_seq d' = Inr n \<and> 1 \<le> n \<and> map l_stream_seq (d_delivery_log d') = [1..<n]"
      using meta(1) n(2) len(2) seqs seqs_rs upt_append [OF n(2) len(2)] by (simp add: raw(3) log comp_def)
    show "\<forall>l \<in> set (d_delivery_log d'). delivery_row_of (l_data_json l) = l" using rows by (auto simp: raw(3) log)
    show "map delivery_facts (replay_log (records d')) = map event_facts (d_events d')" by (rule facts')
    show "distinct (map cbr_accepting_block (d_batches d'))"
      using dist by (simp add: raw(2) rollback_blocks_events distinct_map_filter)
    have "dr_kind r = Removed" if "r \<in> set rs" for r using that unfolding rs by (rule removals_kind)
    with held show "\<forall>r \<in> set (records d'). dr_kind r = Accepted \<longrightarrow> (r \<in> set (replay_log (records d')) \<longleftrightarrow> listed d' r)"
      unfolding rep by (auto simp: rec listed)
  qed
  moreover have "queue_ok d'"
  proof -
    have "d_work d1 = d_work d" using append_removed_frame [OF a] by (simp add: chain_part_def)
    then have "d_work d' = d_work d @ map work_of rs"
      unfolding raw(5) using enqueue_fold_work [OF seqs_rs, of d1] queue_bound [OF assms(3) n(1)] by simp
    then show ?thesis
      using c(2,3) seqs_rs len(2) upt_append [of "Suc c" n n'] meta unfolding queue_ok_def
      by (intro exI [of _ c] exI [of _ n']) (simp add: comp_def)
  qed
  moreover have "epoch_ok X d \<longrightarrow> epoch_ok X d'"
  proof -
    have "get_meta d' ''stream_epoch'' = get_meta d ''stream_epoch''" using cur raw(4) by (simp add: get_meta_def)
    from stream_epoch_cong [OF this] have t: "transaction_stream_epoch X d' = Inr epoch" using ep by simp
    have "sc_epoch (dr_cursor r) = epoch" if "r \<in> set rs" for r
      using that unfolding rs by (rule removals_epoch)
    then show ?thesis unfolding epoch_ok_def rec t ep set_append ball_Un sum.inject by metis
  qed
  ultimately show ?thesis by simp
qed

section \<open>Draining the queue\<close>

text \<open>The database without the derived token and market tables, which is what a re-derivation leaves alone.\<close>

definition sans_tokens :: "db \<Rightarrow> db" where
  "sans_tokens d = d\<lparr>d_tokens := [], d_minters := [], d_token_events := [], d_balances := [], d_trades := [],
     d_markets := []\<rparr>"

lemma sans_tokens_eqs:
  assumes "sans_tokens d' = sans_tokens d"
  shows "d_utxos d' = d_utxos d" "d_events d' = d_events d" "d_covenants d' = d_covenants d"
    "d_batches d' = d_batches d" "d_delivery_log d' = d_delivery_log d" "d_meta d' = d_meta d"
    "d_work d' = d_work d" "d_delivery_applications d' = d_delivery_applications d"
  using arg_cong [OF assms, of d_utxos] arg_cong [OF assms, of d_events] arg_cong [OF assms, of d_covenants]
    arg_cong [OF assms, of d_batches] arg_cong [OF assms, of d_delivery_log] arg_cong [OF assms, of d_meta]
    arg_cong [OF assms, of d_work] arg_cong [OF assms, of d_delivery_applications]
  by (simp_all add: sans_tokens_def)

lemma sans_tokens_markets:
  "sans_tokens (derive_market_program X c d) = sans_tokens d"
  "sans_tokens (snd (market_link X f d)) = sans_tokens d"
proof -
  obtain m m' where "derive_market_program X c d = d\<lparr>d_markets := m\<rparr>" "snd (market_link X f d) = d\<lparr>d_markets := m'\<rparr>"
    using derive_market_only_markets market_link_only_markets by blast
  then show "sans_tokens (derive_market_program X c d) = sans_tokens d"
    "sans_tokens (snd (market_link X f d)) = sans_tokens d" by (simp_all add: sans_tokens_def)
qed

lemma derive_token_frame:
  assumes "derive_token X reg t d = Inr d'"
  shows "sans_tokens d' = sans_tokens d"
proof -
  have clear: "sans_tokens (clear_token_facts t d) = sans_tokens d" for d
    by (simp add: sans_tokens_def clear_token_facts_def)
  have del: "sans_tokens (delete_token_rows t d) = sans_tokens d"
    by (simp add: sans_tokens_def clear_token_facts_def delete_token_rows_def)
  have wr: "sans_tokens (write_token X t w p f l a m d) = sans_tokens d" for w p f l a m d
    by (simp add: sans_tokens_def write_token_def)
  have place: "sans_tokens (d\<lparr>d_tokens := ts\<rparr>) = sans_tokens d" for d ts by (simp add: sans_tokens_def)
  from assms show ?thesis
    by (auto simp: derive_token_def Let_def clear del wr place sans_tokens_markets split_beta dest!: early_return
        split: if_splits)
qed

lemma derive_tokens_frame: "derive_tokens X reg ts d = Inr (ms, d') \<Longrightarrow> sans_tokens d' = sans_tokens d"
proof (induction ts arbitrary: d ms)
  case (Cons t ts)
  from Cons.prems obtain d1 ms1 where "derive_token X reg t d = Inr d1" "derive_tokens X reg ts d1 = Inr (ms1, d')"
    by (auto simp: Let_def dest!: early_return)
  with Cons.IH show ?case by (simp add: derive_token_frame)
qed simp

lemma derive_minters_frame: "sans_tokens (snd (derive_minters X reg ms d)) = sans_tokens d"
proof (induction ms arbitrary: d)
  case (Cons m ms)
  have "sans_tokens (snd (derive_minter X reg m d)) = sans_tokens d"
    by (simp add: derive_minter_def sans_tokens_def Let_def)
  with Cons [of "snd (derive_minter X reg m d)"] show ?case by (simp add: Let_def split_beta)
qed simp

lemma rederive_affected_frame:
  assumes "rederive_affected X reg minters tokens d = Inr d'"
  shows "sans_tokens d' = sans_tokens d"
proof -
  have "sans_tokens (fold (derive_market_program X) ms d) = sans_tokens d" for ms d
    by (induction ms arbitrary: d) (simp_all add: sans_tokens_markets)
  then have m: "sans_tokens (rederive_market_programs X ms d) = sans_tokens d" for ms d
    by (simp add: rederive_market_programs_def)
  obtain aff d1 where a: "derive_minters X reg (bs_of_list minters) d = (aff, d1)" by fastforce
  then have "sans_tokens d1 = sans_tokens d" using derive_minters_frame [of X reg "bs_of_list minters" d] by simp
  with assms a m show ?thesis
    by (auto simp: rederive_affected_def dest!: early_return derive_tokens_frame)
qed

lemma map_sum_Inr: "map_sum f g s = Inr y \<longleftrightarrow> (\<exists>x. s = Inr x \<and> y = g x)"
  by (cases s) auto

lemma upt_nth: "map f xs = [a..<b] \<Longrightarrow> i < length xs \<Longrightarrow> f (xs ! i) = a + i"
  by (metis length_map length_upt less_diff_conv add.commute nth_map nth_upt)

lemma upt_drop: "map f xs = [a..<b] \<Longrightarrow> filter (\<lambda>x. \<not> f x < a + m) xs = drop m xs"
proof (induction xs arbitrary: a m)
  case (Cons x xs)
  then have x: "f x = a" "map f xs = [Suc a..<b]" by (auto simp: upt_rec [of a b] split: if_splits)
  then have "filter (\<lambda>x. \<not> f x < a) xs = xs" by (intro filter_True) (metis Suc_leD atLeastLessThan_iff image_eqI
      linorder_not_le set_map set_upt)
  with x Cons.IH [OF x(2)] show ?case by (cases m) auto
qed simp

lemma sorted_work:
  assumes "map pw_delivery_stream_seq (d_work d) = [Suc c..<n]"
  shows "drain_rows c limit d = take (clamp 1 256 limit) (d_work d)" and "queued_after c d = d_work d"
proof -
  have "pw_delivery_stream_seq ` set (d_work d) = {Suc c..<n}" using assms by (metis set_map set_upt)
  then have "pw_delivery_stream_seq w \<in> {Suc c..<n}" if "w \<in> set (d_work d)" for w using that by (metis imageI)
  then show q: "queued_after c d = d_work d"
    unfolding queued_after_def by (intro filter_True) fastforce
  show "drain_rows c limit d = take (clamp 1 256 limit) (d_work d)"
    using sort_key_id_if_sorted [of pw_delivery_stream_seq "d_work d"] assms by (simp add: drain_rows_def q)
qed

lemma stream_ok_cong:
  assumes "sans_tokens d' = sans_tokens d"
  shows "stream_ok d' = stream_ok d"
  using sans_tokens_eqs [OF assms]
  by (simp add: stream_ok_def records_def listed_def transaction_next_stream_seq_def parse_meta_u64_def get_meta_def)

text \<open>One drain of a well-formed queue: unless the re-derivation fails, and then nothing happens, it takes
  the oldest deliveries, at most the limit, and moves the cursor behind them.\<close>

lemma drain_step:
  assumes "drain_optional_projection_chunk X reg False limit d = (r, d')"
    and "projection_cursor d = Inr c" and "transaction_next_stream_seq d = Inr n" and "c < n"
    and "map pw_delivery_stream_seq (d_work d) = [Suc c..<n]"
    and "m = min (clamp 1 256 limit) (n - 1 - c)"
  shows "isl r \<and> d' = d \<or>
    projection_cursor d' = Inr (c + m) \<and> transaction_next_stream_seq d' = Inr n \<and>
    d_work d' = drop m (d_work d) \<and> (stream_ok d' \<longleftrightarrow> stream_ok d) \<and> d_delivery_log d' = d_delivery_log d \<and>
    (\<forall>k. k \<noteq> CURSOR_META \<longrightarrow> get_meta d' k = get_meta d k) \<and>
    r = map_sum id (\<lambda>st. \<lparr>pd_processed = m, pd_deferred = False, pd_status = st\<rparr>) (optional_projection_status X d')"
proof -
  note sw = sorted_work [OF assms(5)]
  let ?rows = "take (clamp 1 256 limit) (d_work d)"
  have len: "length (d_work d) = n - 1 - c" using arg_cong [OF assms(5), of length] by simp
  then have m: "length ?rows = m" unfolding assms(6) by simp
  consider (none) "?rows = []" | (fails) e where "?rows \<noteq> []" "project_rows X reg ?rows d = Inl e"
    | (ok) d1 where "?rows \<noteq> []" "project_rows X reg ?rows d = Inr d1"
    by (cases "project_rows X reg ?rows d") blast+
  then show ?thesis
  proof cases
    case none
    with m have "m = 0" by (metis list.size(3))
    with none assms(1-3) m show ?thesis by (auto simp: drain_optional_projection_chunk_def sw(1) Let_def simp del: take_eq_Nil)
  next
    case fails
    with assms(1,2) show ?thesis by (auto simp: drain_optional_projection_chunk_def sw(1) Let_def simp del: take_eq_Nil)
  next
    case ok
    let ?d' = "finish_chunk (pw_delivery_stream_seq (last ?rows)) d1"
    from ok assms(1,2) m have r: "d' = ?d'"
      "r = map_sum id (\<lambda>st. \<lparr>pd_processed = m, pd_deferred = False, pd_status = st\<rparr>) (optional_projection_status X d')"
      by (auto simp: drain_optional_projection_chunk_def sw(1) Let_def simp del: take_eq_Nil)
    have fr: "sans_tokens d1 = sans_tokens d"
      using ok(2) unfolding project_rows_def Let_def by (rule rederive_affected_frame)
    note eqs = sans_tokens_eqs [OF fr]
    have m0: "0 < m" using ok(1) m length_greater_0_conv by blast
    have mlen: "m \<le> length (d_work d)" unfolding assms(6) len by (rule min.cobounded2)
    have "m \<le> clamp 1 256 limit" unfolding assms(6) by (rule min.cobounded1)
    then have "m - 1 < clamp 1 256 limit" using m0 by linarith
    then have "last ?rows = d_work d ! (m - 1)" using ok(1) m by (simp add: last_conv_nth del: take_eq_Nil length_take)
    then have final: "pw_delivery_stream_seq (last ?rows) = c + m"
      using upt_nth [OF assms(5), of "m - 1"] m0 mlen by simp
    have d': "d' = finish_chunk (c + m) d1" using r(1) final by (simp only:)
    have "d_work d' = filter (\<lambda>w. \<not> pw_delivery_stream_seq w < Suc c + m) (d_work d)"
      by (simp add: d' finish_chunk_def eqs less_Suc_eq_le)
    then have work: "d_work d' = drop m (d_work d)" using upt_drop [OF assms(5)] by simp
    have "fits_u64 n" using assms(3)
      by (auto simp: transaction_next_stream_seq_def parse_meta_u64_def dest: parse_u64_fits split: option.splits)
    then have fits: "fits_u64 (c + m)" using assms(4,6) by (simp add: fits_u64_iff)
    have "parse_meta_u64 d1 k = parse_meta_u64 d k" for k by (simp add: parse_meta_u64_def get_meta_def eqs)
    moreover have "parse_meta_u64 d' k = parse_meta_u64 (update_meta CURSOR_META (show_nat (c + m)) d1) k" for k
      by (simp add: d' finish_chunk_def parse_meta_u64_def get_meta_def)
    ultimately have meta: "projection_cursor d' = Inr (c + m)" "transaction_next_stream_seq d' = Inr n"
      using assms(2,3) fits parse_meta_update [of d1 CURSOR_META c "c + m"]
        parse_meta_other [of CURSOR_META "''next_stream_seq''" "show_nat (c + m)" d1]
      by (simp_all add: projection_cursor_def transaction_next_stream_seq_def CURSOR_META_def)
    have log: "d_delivery_log d' = d_delivery_log d" and "d_events d' = d_events d" "d_batches d' = d_batches d"
      by (simp_all add: d' finish_chunk_def eqs)
    with meta(2) assms(3) have "stream_ok d' \<longleftrightarrow> stream_ok d"
      by (simp add: stream_ok_def records_def listed_def)
    moreover have "get_meta d' k = get_meta d k" if "k \<noteq> CURSOR_META" for k
      using that by (simp add: d' finish_chunk_def get_meta_def update_meta_def map_of_update eqs)
    ultimately show ?thesis using meta work log r(2) by simp
  qed
qed

end
