(* ===== verification/Repair.thy ===== *)
theory Repair
  imports Stream_Laws
begin

text \<open>
  \<open>repair_application_failures\<close> of \<open>crates/kascov-core/src/store_application.rs\<close>: transactions with a
  failure that was never repaired are decoded again, each output that now decodes and that the index still
  holds as it was accepted gets its row and a \<open>ProjectionRepaired\<close> delivery, and the failures are marked.
  Then: a repair keeps the invariants of the stream and of the queue, and the counters of the failures.
\<close>

section \<open>The repair\<close>

record repair_result =
  rr_transactions_scanned :: nat
  rr_outputs_repaired :: nat
  rr_failures_repaired :: nat
  rr_deliveries_appended :: nat
  rr_failures_remaining :: int

text \<open>The envelopes with a stored transaction and a failure still open, oldest first.\<close>

definition repair_candidates :: "nat \<Rightarrow> db \<Rightarrow> envelope_row list" where
  "repair_candidates limit d =
     take (clamp 1 10000 limit) (sort_key (\<lambda>e. (ae_accepting_daa e, ae_txid e))
       (filter (\<lambda>e. ae_transaction_json e \<noteq> None \<and>
          (\<exists>f \<in> set (d_failures d). af_txid f = ae_txid e \<and> unrepaired f)) (d_envelopes d)))"

definition decode_again :: "application_decoder \<Rightarrow> envelope_row \<Rightarrow> string + transaction \<times> application_preprocess" where
  "decode_again prep e =
     (case ae_transaction_json e of
        None \<Rightarrow> Inl ''stored application transaction''
      | Some tx \<Rightarrow> if x_txid tx \<noteq> ae_txid e then Inl ''stored application transaction ID'' else Inr (tx, prep tx))"

text \<open>The \<open>UPDATE\<close> of the failures with its trigger, and how many rows it changed.\<close>

definition mark_repaired :: "(failure_row \<Rightarrow> bool) \<Rightarrow> nat \<Rightarrow> db \<Rightarrow> nat \<times> db" where
  "mark_repaired P seq d =
     (let hit = (\<lambda>f. P f \<and> unrepaired f); mark = (\<lambda>f. if hit f then f\<lparr>af_repaired_stream_seq := Some seq\<rparr> else f)
      in (length (filter hit (d_failures d)),
          d\<lparr>d_failures := map mark (d_failures d),
            d_failure_counts := fold (\<lambda>f. count_repair f (mark f)) (filter hit (d_failures d)) (d_failure_counts d)\<rparr>))"

text \<open>The stored cell of an output, when it is still the accepted output, and the newest event of its covenant
  in the transaction.\<close>

definition same_cell :: "application_output \<Rightarrow> tx_output \<Rightarrow> utxo_row \<Rightarrow> bool" where
  "same_cell a accepted u \<longleftrightarrow>
     u_covenant_id u = ao_covenant_id a \<and> u_value u = int (o_value accepted) \<and>
     u_spk_version u = o_spk_version accepted \<and> u_spk_script u = o_spk_script accepted"

definition newest_event :: "db \<Rightarrow> bytes \<Rightarrow> bytes \<Rightarrow> event_row option" where
  "newest_event d txid cid =
     (case sort_key e_seq (filter (\<lambda>e. e_txid e = txid \<and> e_covenant_id e = cid) (d_events d)) of
        [] \<Rightarrow> None | es \<Rightarrow> Some (last es))"

definition repairable :: "db \<Rightarrow> transaction \<Rightarrow> application_output \<Rightarrow> (utxo_row \<times> event_row) option" where
  "repairable d tx a =
     (case get_at (x_outputs tx) (ao_output_index a) of None \<Rightarrow> None
      | Some accepted \<Rightarrow>
     (case o_covenant accepted of None \<Rightarrow> None
      | Some binding \<Rightarrow>
          if cb_covenant_id binding \<noteq> ao_covenant_id a then None
          else (case row_by utxo_key (x_txid tx, ao_output_index a) (d_utxos d) of None \<Rightarrow> None
      | Some u \<Rightarrow>
          if \<not> same_cell a accepted u then None
          else map_option (Pair u) (newest_event d (x_txid tx) (ao_covenant_id a)))))"

definition repair_record :: "externals \<Rightarrow> stream_epoch \<Rightarrow> transaction \<Rightarrow> application_output \<Rightarrow> event_row \<Rightarrow> nat \<Rightarrow> delivery_record" where
  "repair_record X epoch tx a e seq =
     \<lparr>dr_cursor = \<lparr>sc_epoch = epoch, sc_seq = seq\<rparr>, dr_kind = ProjectionRepaired,
      dr_source_cursor = map_option (\<lambda>s. \<lparr>sc_epoch = epoch, sc_seq = s\<rparr>) (e_delivery_stream_seq e),
      dr_covenant_id = ao_covenant_id a, dr_covenant_event_seq = e_seq e, dr_txid = x_txid tx,
      dr_accepting_block = e_accepting_block e, dr_accepting_daa = e_accepting_daa e,
      dr_tx_index = e_tx_index e, dr_event_index = e_event_index e,
      dr_order_complete = (e_tx_index e \<noteq> None \<and> e_event_index e \<noteq> None),
      dr_pending_id = map_option (pending_event_id X (x_txid tx) (ao_covenant_id a)) (e_event_index e),
      dr_applications = [a]\<rparr>"

record repairing =
  rg_db :: db
  rg_next :: nat
  rg_repaired :: "nat list"
  rg_result :: repair_result

definition repair_output ::
  "externals \<Rightarrow> stream_epoch \<Rightarrow> transaction \<Rightarrow> application_output \<Rightarrow> repairing \<Rightarrow> string + repairing" where
  "repair_output X epoch tx a s =
     (let d = rg_db s; n = rg_next s in
      case repairable d tx a of None \<Rightarrow> Inr s
      | Some (u, e) \<Rightarrow>
          if (x_txid tx, ao_output_index a) \<in> app_output_key ` set (d_app_outputs d) then Inr s
          else
            let d = d\<lparr>d_app_outputs := d_app_outputs d @
                   [app_output_row_of (x_txid tx) (u_created_block u) (u_created_daa u) (u_spent_block u) a]\<rparr>
            in (case insert_delivery (repair_record X epoch tx a e n) d of Inl err \<Rightarrow> Inl err
      | Inr d \<Rightarrow>
            let d = enqueue_projection n [ao_covenant_id a] d;
                (marked, d) = mark_repaired (\<lambda>f. af_txid f = x_txid tx \<and> af_output_index f = Some (ao_output_index a)) n d;
                r = rg_result s
            in (case next_seq n of Inl err \<Rightarrow> Inl err
      | Inr n' \<Rightarrow>
                Inr \<lparr>rg_db = d, rg_next = n', rg_repaired = rg_repaired s @ [n],
                     rg_result = r\<lparr>rr_failures_repaired := rr_failures_repaired r + marked,
                       rr_outputs_repaired := rr_outputs_repaired r + 1,
                       rr_deliveries_appended := rr_deliveries_appended r + 1\<rparr>\<rparr>)))"

definition set_envelope_status :: "bytes \<Rightarrow> string \<Rightarrow> db \<Rightarrow> db" where
  "set_envelope_status txid st d =
     d\<lparr>d_envelopes := map (\<lambda>e. if ae_txid e = txid then e\<lparr>ae_status := st\<rparr> else e) (d_envelopes d)\<rparr>"

definition repair_transaction ::
  "externals \<Rightarrow> stream_epoch \<Rightarrow> transaction \<times> application_preprocess \<Rightarrow> repairing \<Rightarrow> string + repairing" where
  "repair_transaction X epoch = (\<lambda>(tx, app) s.
     (case fold_result (repair_output X epoch tx) (ap_outputs app) (s\<lparr>rg_repaired := []\<rparr>) of Inl err \<Rightarrow> Inl err
      | Inr s \<Rightarrow>
          let (marked, d) = (case (ap_failures app, rg_repaired s) of
                 ([], seq # _) \<Rightarrow> mark_repaired (\<lambda>f. af_txid f = x_txid tx) seq (rg_db s)
               | _ \<Rightarrow> (0, rg_db s));
              r = rg_result s
          in Inr (s\<lparr>rg_db := set_envelope_status (x_txid tx) (envelope_status app) d,
                    rg_result := r\<lparr>rr_failures_repaired := rr_failures_repaired r + marked\<rparr>\<rparr>)))"

definition repair_application_failures ::
  "externals \<Rightarrow> application_decoder \<Rightarrow> nat \<Rightarrow> db \<Rightarrow> string + repair_result \<times> db" where
  "repair_application_failures X prep limit d =
     (case collect_result (decode_again prep) (repair_candidates limit d) of Inl e \<Rightarrow> Inl e
      | Inr decoded \<Rightarrow>
     (case transaction_stream_epoch X d of Inl e \<Rightarrow> Inl e
      | Inr epoch \<Rightarrow>
     (case transaction_next_stream_seq d of Inl e \<Rightarrow> Inl e
      | Inr start \<Rightarrow>
     (case fold_result (repair_transaction X epoch) decoded
             \<lparr>rg_db = d, rg_next = start, rg_repaired = [],
              rg_result = \<lparr>rr_transactions_scanned = length decoded, rr_outputs_repaired = 0, rr_failures_repaired = 0,
                           rr_deliveries_appended = 0, rr_failures_remaining = 0\<rparr>\<rparr> of Inl e \<Rightarrow> Inl e
      | Inr s \<Rightarrow>
          let d = update_meta ''next_stream_seq'' (show_nat (rg_next s)) (rg_db s)
          in Inr ((rg_result s)\<lparr>rr_failures_remaining := snd (d_failure_counts d)\<rparr>, d)))))"

section \<open>What a repair keeps\<close>

text \<open>A state reached from a database: the records are appended and numbered, everything else that the stream
  invariants read is as it was.\<close>

definition repaired_from :: "db \<Rightarrow> nat \<Rightarrow> stream_epoch \<Rightarrow> repairing \<Rightarrow> bool" where
  "repaired_from d n epoch s \<longleftrightarrow>
     n \<le> rg_next s \<and>
     (\<exists>new. d_delivery_log (rg_db s) = d_delivery_log d @ map delivery_row_of new \<and>
        map seq_of new = [n..<rg_next s] \<and> d_work (rg_db s) = d_work d @ map work_of new \<and>
        (\<forall>r \<in> set new. dr_kind r = ProjectionRepaired \<and> sc_epoch (dr_cursor r) = epoch)) \<and>
     d_events (rg_db s) = d_events d \<and> d_batches (rg_db s) = d_batches d \<and> d_meta (rg_db s) = d_meta d \<and>
     (fits_u64 n \<longrightarrow> fits_u64 (rg_next s))"

lemma mark_repaired_frame [simp]:
  "d_delivery_log (snd (mark_repaired P seq d)) = d_delivery_log d" "d_work (snd (mark_repaired P seq d)) = d_work d"
  "d_events (snd (mark_repaired P seq d)) = d_events d" "d_batches (snd (mark_repaired P seq d)) = d_batches d"
  "d_meta (snd (mark_repaired P seq d)) = d_meta d"
  by (simp_all add: mark_repaired_def Let_def)

lemma insert_delivery_frame:
  "insert_delivery r d = Inr d' \<Longrightarrow>
     d_delivery_log d' = d_delivery_log d @ [delivery_row_of r] \<and> d_work d' = d_work d \<and> d_events d' = d_events d \<and>
     d_batches d' = d_batches d \<and> d_meta d' = d_meta d"
  by (auto simp: insert_delivery_def insert_row_def split: if_splits sum.splits)

lemma repair_output_from:
  assumes "repaired_from d n epoch s" and "repair_output X epoch tx a s = Inr s'"
    and "\<forall>w \<in> set (d_work d). pw_delivery_stream_seq w < n"
  shows "repaired_from d n epoch s'"
proof (cases "s' = s")
  case False
  obtain new where s: "n \<le> rg_next s" "d_delivery_log (rg_db s) = d_delivery_log d @ map delivery_row_of new"
      "map seq_of new = [n..<rg_next s]" "d_work (rg_db s) = d_work d @ map work_of new"
      "\<forall>r \<in> set new. dr_kind r = ProjectionRepaired \<and> sc_epoch (dr_cursor r) = epoch"
      "d_events (rg_db s) = d_events d" "d_batches (rg_db s) = d_batches d" "d_meta (rg_db s) = d_meta d"
      "fits_u64 n \<longrightarrow> fits_u64 (rg_next s)"
    using assms(1) by (auto simp: repaired_from_def)
  let ?m = "rg_next s"
  obtain u e where ue: "repairable (rg_db s) tx a = Some (u, e)"
    and new: "(x_txid tx, ao_output_index a) \<notin> app_output_key ` set (d_app_outputs (rg_db s))"
    using assms(2) False
    by (cases "repairable (rg_db s) tx a") (auto simp: repair_output_def Let_def split: if_splits)
  let ?d = "(rg_db s)\<lparr>d_app_outputs := d_app_outputs (rg_db s) @
      [app_output_row_of (x_txid tx) (u_created_block u) (u_created_daa u) (u_spent_block u) a]\<rparr>"
  obtain d1 where i: "insert_delivery (repair_record X epoch tx a e ?m) ?d = Inr d1"
    using assms(2) new
    by (cases "insert_delivery (repair_record X epoch tx a e ?m) ?d") (simp_all add: repair_output_def ue Let_def)
  let ?marked = "mark_repaired (\<lambda>f. af_txid f = x_txid tx \<and> af_output_index f = Some (ao_output_index a)) ?m
        (enqueue_projection ?m [ao_covenant_id a] d1)"
  have m: "next_seq ?m = Inr (rg_next s')" and d': "rg_db s' = snd ?marked"
    using assms(2) new
    by (auto simp: repair_output_def ue i Let_def split_beta split: sum.splits)
  let ?r = "repair_record X epoch tx a e ?m"
  note f = insert_delivery_frame [OF i, simplified]
  have "pw_delivery_stream_seq w < ?m" if "w \<in> set (d_work (rg_db s))" for w
  proof -
    have "set (map seq_of new) = {n..<?m}" using s(3) by simp
    with that assms(3) s(1,4) show ?thesis by (fastforce simp: work_of_def)
  qed
  then have "?m \<notin> pw_delivery_stream_seq ` set (d_work d1)" using f by fastforce
  then have w: "d_work (enqueue_projection ?m [ao_covenant_id a] d1) = d_work d1 @ [work_of ?r]"
    by (simp add: enqueue_projection_def upsert_new work_of_def repair_record_def)
  have nx: "rg_next s' = Suc ?m" "fits_u64 (Suc ?m)" using m by (auto simp: next_seq_def split: if_splits)
  have "map seq_of (new @ [?r]) = [n..<rg_next s']" using s(1,3) by (simp add: nx(1) repair_record_def)
  then show ?thesis
    unfolding repaired_from_def d' mark_repaired_frame
    using s f w nx by (intro conjI exI [of _ "new @ [?r]"]) (simp_all add: enqueue_projection_def repair_record_def)
qed (use assms in simp)

lemma repair_transaction_from:
  assumes "repaired_from d n epoch s" and "repair_transaction X epoch q s = Inr s'"
    and "\<forall>w \<in> set (d_work d). pw_delivery_stream_seq w < n"
  shows "repaired_from d n epoch s'"
proof -
  obtain tx app where q: "q = (tx, app)" by fastforce
  obtain s1 where f: "fold_result (repair_output X epoch tx) (ap_outputs app) (s\<lparr>rg_repaired := []\<rparr>) = Inr s1"
    using assms(2) by (auto simp: q repair_transaction_def dest!: early_return)
  have "repaired_from d n epoch (s\<lparr>rg_repaired := []\<rparr>)" using assms(1) by (simp add: repaired_from_def)
  then have "repaired_from d n epoch s1"
    by (rule fold_result_inv [OF f]) (rule repair_output_from [OF _ _ assms(3)])
  moreover have "repaired_from d n epoch s' = repaired_from d n epoch s1"
    using assms(2) unfolding q repair_transaction_def
    by (auto simp: f Let_def repaired_from_def set_envelope_status_def split_beta split: list.splits)
  ultimately show ?thesis by simp
qed

lemma replay_repaired:
  assumes "\<forall>r \<in> set new. dr_kind r = ProjectionRepaired"
  shows "replay_log (rs @ new) = replay_log rs"
proof -
  have "fold replay_step new held = held" for held
    using assms by (induction new arbitrary: held) (simp_all add: replay_step_def)
  then show ?thesis by (simp add: replay_append)
qed

text \<open>A repair keeps the stream, the queue and the epoch, and changes no other key of \<open>meta\<close>.\<close>

lemma repair_ok:
  assumes "repair_application_failures X prep limit d = Inr (res, d')" and "stream_ok d" and "queue_ok d"
  shows "stream_ok d' \<and> queue_ok d' \<and> (epoch_ok X d \<longrightarrow> epoch_ok X d') \<and>
    (\<forall>k. k \<noteq> ''next_stream_seq'' \<longrightarrow> get_meta d' k = get_meta d k)"
proof -
  from assms(2) obtain n where n: "transaction_next_stream_seq d = Inr n" "1 \<le> n"
    and seqs: "map l_stream_seq (d_delivery_log d) = [1..<n]"
    and rows: "\<forall>l \<in> set (d_delivery_log d). delivery_row_of (l_data_json l) = l" by (auto simp: stream_ok_def)
  from assms(3) n(1) obtain c where c: "projection_cursor d = Inr c" "c < n"
    "map pw_delivery_stream_seq (d_work d) = [Suc c..<n]" by (auto simp: queue_ok_def)
  obtain decoded epoch s r0 where epoch: "transaction_stream_epoch X d = Inr epoch"
    and f: "fold_result (repair_transaction X epoch) decoded
        \<lparr>rg_db = d, rg_next = n, rg_repaired = [], rg_result = r0\<rparr> = Inr s"
    and d': "d' = update_meta ''next_stream_seq'' (show_nat (rg_next s)) (rg_db s)"
    using assms(1) n(1)
    by (auto simp: repair_application_failures_def Let_def split: sum.splits)
  have w: "\<forall>w \<in> set (d_work d). pw_delivery_stream_seq w < n" by (rule queue_bound [OF assms(3) n(1)])
  have "repaired_from d n epoch \<lparr>rg_db = d, rg_next = n, rg_repaired = [], rg_result = r0\<rparr>"
    by (simp add: repaired_from_def)
  then have "repaired_from d n epoch s"
    by (rule fold_result_inv [OF f]) (rule repair_transaction_from [OF _ _ w])
  then obtain new where s: "n \<le> rg_next s" "d_delivery_log (rg_db s) = d_delivery_log d @ map delivery_row_of new"
      "map seq_of new = [n..<rg_next s]" "d_work (rg_db s) = d_work d @ map work_of new"
      "\<forall>r \<in> set new. dr_kind r = ProjectionRepaired \<and> sc_epoch (dr_cursor r) = epoch"
      "d_events (rg_db s) = d_events d" "d_batches (rg_db s) = d_batches d" "d_meta (rg_db s) = d_meta d"
      "fits_u64 n \<longrightarrow> fits_u64 (rg_next s)" by (auto simp: repaired_from_def)
  have tables: "d_delivery_log d' = d_delivery_log d @ map delivery_row_of new" "d_work d' = d_work d @ map work_of new"
    "d_events d' = d_events d" "d_batches d' = d_batches d" by (simp_all add: d' s update_meta_def)
  have "get_meta (rg_db s) k = get_meta d k" for k by (simp add: get_meta_def s(8))
  then have meta: "\<forall>k. k \<noteq> ''next_stream_seq'' \<longrightarrow> get_meta d' k = get_meta d k" by (simp add: d' get_meta_update)
  have fits: "fits_u64 (rg_next s)" using n(1) s(9) by (auto simp: transaction_next_stream_seq_def parse_meta_u64_def dest: parse_u64_fits split: option.splits)
  have nxt: "transaction_next_stream_seq d' = Inr (rg_next s)"
    using n(1) fits unfolding d' transaction_next_stream_seq_def
    by (intro parse_meta_update) (auto simp: parse_meta_u64_def get_meta_def s(8) split: option.splits)
  have rec: "records d' = records d @ new" by (rule records_append [OF tables(1)])
  have rep: "replay_log (records d') = replay_log (records d)"
    unfolding rec by (rule replay_repaired) (use s(5) in blast)
  have "listed d' r = listed d r" for r by (simp add: listed_def tables(4))
  moreover have "\<forall>r \<in> set new. dr_kind r \<noteq> Accepted" using s(5) by auto
  moreover have "map l_stream_seq (d_delivery_log d') = [1..<rg_next s]"
    using seqs s(3) upt_append [OF n(2) s(1)] by (simp add: tables(1) comp_def)
  ultimately have "stream_ok d'"
    using assms(2) nxt n(2) s(1) unfolding stream_ok_def rep by (auto simp: rec tables)
  moreover have "projection_cursor d' = Inr c"
    using c(1) meta by (simp add: projection_cursor_def parse_meta_u64_def CURSOR_META_def)
  then have "queue_ok d'"
    using c(2,3) s(1,3) nxt upt_append [of "Suc c" n "rg_next s"] unfolding queue_ok_def
    by (intro exI [of _ c] exI [of _ "rg_next s"]) (simp add: tables(2) comp_def)
  moreover have "epoch_ok X d \<longrightarrow> epoch_ok X d'"
    using s(5) meta epoch stream_epoch_cong [of d' d X] by (auto simp: epoch_ok_def rec)
  ultimately show ?thesis using meta by simp
qed

text \<open>The counters of the failures are exact before and after: the total, and those still open.\<close>

definition counted :: "db \<Rightarrow> bool" where
  "counted d \<longleftrightarrow> d_failure_counts d = (int (length (d_failures d)), int (length (filter unrepaired (d_failures d))))"

lemma mark_repaired_counted:
  assumes "counted d"
  shows "counted (snd (mark_repaired P seq d)) \<and>
    int (fst (mark_repaired P seq d)) = snd (d_failure_counts d) - snd (d_failure_counts (snd (mark_repaired P seq d)))"
proof -
  let ?hit = "\<lambda>f. P f \<and> unrepaired f"
  let ?mark = "\<lambda>f. if ?hit f then f\<lparr>af_repaired_stream_seq := Some seq\<rparr> else f"
  have c: "fold (\<lambda>f. count_repair f (?mark f)) fs n = (fst n, snd n - int (length fs))"
    if "\<forall>f \<in> set fs. ?hit f" for fs n
    using that by (induction fs arbitrary: n) (auto simp: count_repair_def)
  have still: "int (length (filter (unrepaired \<circ> ?mark) fs)) =
      int (length (filter unrepaired fs)) - int (length (filter ?hit fs))" for fs
    by (induction fs) auto
  show ?thesis using assms by (simp add: mark_repaired_def Let_def counted_def c still)
qed

end
