(* ===== verification/Stream_History.thy ===== *)
theory Stream_History
  imports Repair
begin

text \<open>
  The histories of a store as a step relation, and what holds in every database they reach: the delivery
  stream is a faithful, gapless log of the event table, its pages cover it, applying a block twice is
  applying it once, and draining the projection queue terminates.
\<close>

section \<open>Histories of a store\<close>

text \<open>The databases of a store that was created by this program and is written by the follower and by the repair
  command: opened fresh or again, blocks applied and rolled back, the queue drained, the cursor repointed, the tip
  noted, application failures repaired. Two offline commands are not steps: the migration of a database from before
  the stream (\<open>backfill_delivery_batch\<close>), and a gap recovery on a copy (\<open>merge_recovered_block\<close>,
  \<open>finalize_gap_recovery\<close>), which adds events that have no delivery and renumbers the others, so that a database
  healed by it is not one of these. The re-stamping and re-derivation that a session runs at its start write
  only template columns and token tables and are left out.\<close>

inductive store_run :: "externals \<Rightarrow> state_decoder list \<Rightarrow> string \<Rightarrow> db \<Rightarrow> bool" for X reg network where
  fresh: "open_writer network epoch False empty_db = Inr d \<Longrightarrow> store_run X reg network d"
| reopen: "store_run X reg network d \<Longrightarrow> open_writer network epoch True d = Inr d' \<Longrightarrow> store_run X reg network d'"
| applied: "store_run X reg network d \<Longrightarrow> apply_accepted_block X reg blk d = Inr (res, d') \<Longrightarrow>
    store_run X reg network d'"
| rolled_back: "store_run X reg network d \<Longrightarrow> rollback_removed_blocks X now removed d = Inr (res', d') \<Longrightarrow>
    store_run X reg network d'"
| drained: "store_run X reg network d \<Longrightarrow> drain_optional_projection_chunk X reg pending limit d = (r, d') \<Longrightarrow>
    store_run X reg network d'"
| noted: "store_run X reg network d \<Longrightarrow> k \<in> {''cursor'', ''processed_daa'', ''tip_daa'', ''tip_at_ms''} \<Longrightarrow>
    store_run X reg network (set_meta k v d)"
| repaired: "store_run X reg network d \<Longrightarrow> repair_application_failures X prep limit d = Inr (report, d') \<Longrightarrow>
    store_run X reg network d'"

text \<open>The keys that an open database has, so that opening it again changes nothing.\<close>

definition opened :: "string \<Rightarrow> db \<Rightarrow> bool" where
  "opened network d \<longleftrightarrow>
     get_meta d ''network'' = Some network \<and> get_meta d ''stream_epoch'' \<noteq> None \<and>
     delivery_backfill_complete d \<and> get_meta d INITIALIZED_META \<noteq> None \<and>
     (\<forall>k \<in> {''next_stream_seq'', ''delivery_history_start_daa'', ''delivery_history_order_complete'', CURSOR_META}.
        get_meta d k \<noteq> None)"

lemma get_meta_default:
  "get_meta (default_meta (k, v) d) k' = (if k' = k \<and> get_meta d k = None then Some v else get_meta d k')"
  by (simp add: default_meta_def get_meta_set)

lemma default_meta_frame [simp]:
  "d_work (default_meta kv d) = d_work d" "d_delivery_log (default_meta kv d) = d_delivery_log d"
  "d_events (default_meta kv d) = d_events d" "d_batches (default_meta kv d) = d_batches d"
  by (simp_all add: default_meta_def)

lemma open_writer_fresh:
  assumes "open_writer network epoch False empty_db = Inr d"
  shows "stream_ok d \<and> queue_ok d \<and> opened network d \<and> epoch_ok X d"
proof -
  have p: "parse_u64 ''1'' = Some 1" "parse_u64 ''0'' = Some 0" "show_nat 0 = ''0''" by code_simp+
  have e: "get_meta empty_db k = None" for k by (simp add: get_meta_def empty_db_def)
  let ?d1 = "default_meta (''stream_epoch'', epoch) (default_meta (''network'', network) (migrate_delivery False empty_db))"
  have g: "get_meta ?d1 = [''next_stream_seq'' \<mapsto> ''1'', ''delivery_backfill_complete'' \<mapsto> ''1'',
      ''delivery_history_start_daa'' \<mapsto> ''0'', ''delivery_history_order_complete'' \<mapsto> ''1'', CURSOR_META \<mapsto> ''0'',
      ''network'' \<mapsto> network, ''stream_epoch'' \<mapsto> epoch]"
    by (rule ext) (simp add: migrate_delivery_def get_meta_default e CURSOR_META_def)
  have t: "d_work (migrate_delivery False empty_db) = []" "d_delivery_log (migrate_delivery False empty_db) = []"
    "d_events (migrate_delivery False empty_db) = []" "d_batches (migrate_delivery False empty_db) = []"
    by (simp_all add: migrate_delivery_def empty_db_def)
  have "get_meta (migrate_delivery False empty_db) ''network'' = None"
    by (simp add: migrate_delivery_def get_meta_default e CURSOR_META_def)
  moreover have "delivery_backfill_complete ?d1" by (simp add: delivery_backfill_complete_def g CURSOR_META_def)
  ultimately have "open_writer network epoch False empty_db = initialize ?d1" by (simp add: open_writer_def Let_def)
  moreover have "initialize ?d1 = Inr (set_meta INITIALIZED_META ''1'' (update_meta CURSOR_META ''0'' ?d1))"
    using p t by (simp add: initialize_def g INITIALIZED_META_def CURSOR_META_def transaction_next_stream_seq_def parse_meta_u64_def)
  ultimately have d: "d = set_meta INITIALIZED_META ''1'' (update_meta CURSOR_META ''0'' ?d1)" using assms by simp
  have "get_meta ?d1 CURSOR_META = Some ''0''" by (simp add: g CURSOR_META_def)
  then have m: "get_meta d k = (if k = INITIALIZED_META then Some ''1'' else get_meta ?d1 k)" for k
    by (auto simp: d get_meta_set get_meta_update)
  have n: "transaction_next_stream_seq d = Inr 1" "projection_cursor d = Inr 0"
    by (simp_all add: transaction_next_stream_seq_def projection_cursor_def parse_meta_u64_def m g p
        INITIALIZED_META_def CURSOR_META_def)
  have "d_work d = []" "d_delivery_log d = []" "d_events d = []" "d_batches d = []" by (simp_all add: d t)
  with n have "stream_ok d" "queue_ok d" "epoch_ok X d"
    by (simp_all add: stream_ok_def queue_ok_def epoch_ok_def records_def replay_log_def)
  moreover have "opened network d"
    by (simp add: opened_def m g INITIALIZED_META_def CURSOR_META_def delivery_backfill_complete_def)
  ultimately show ?thesis by simp
qed

lemma default_meta_id: "get_meta d k \<noteq> None \<Longrightarrow> default_meta (k, v) d = d"
  by (auto simp: default_meta_def)

lemma open_writer_opened:
  assumes "opened network d"
  shows "open_writer network epoch legacy d = Inr d"
proof -
  have m: "migrate_delivery legacy d = d"
    using assms unfolding opened_def migrate_delivery_def by (auto simp: default_meta_id delivery_backfill_complete_def)
  have "default_meta (''stream_epoch'', epoch) (default_meta (''network'', network) d) = d"
    using assms by (auto simp: opened_def default_meta_id)
  with assms show ?thesis unfolding open_writer_def m Let_def by (simp add: opened_def initialize_def)
qed

lemma opened_cong:
  assumes "opened network d" and "transaction_next_stream_seq d' = Inr n" and "projection_cursor d' = Inr c"
    and "\<And>k. k \<notin> {''cursor'', ''processed_daa'', ''next_stream_seq'', CURSOR_META} \<Longrightarrow> get_meta d' k = get_meta d k"
  shows "opened network d'"
proof -
  have "get_meta d' ''next_stream_seq'' \<noteq> None" "get_meta d' CURSOR_META \<noteq> None"
    using assms(2,3)
    by (auto simp: transaction_next_stream_seq_def projection_cursor_def parse_meta_u64_def split: option.splits)
  with assms(1,4) show ?thesis
    by (simp add: opened_def delivery_backfill_complete_def CURSOR_META_def INITIALIZED_META_def)
qed

lemma store_run_ok:
  "store_run X reg network d \<Longrightarrow> stream_ok d \<and> queue_ok d \<and> opened network d \<and> epoch_ok X d"
proof (induction rule: store_run.induct)
  case (fresh epoch d)
  from open_writer_fresh [OF this] show ?case by simp
next
  case (reopen d epoch d')
  then have "d' = d" using open_writer_opened [of network d epoch True] by simp
  with reopen.IH show ?case by simp
next
  case (applied d blk res d')
  show ?case
  proof (cases "canonical_batch_daa d (bk_accepting_block blk)")
    case None
    note f = apply_fresh [OF applied.hyps(2) None]
    have z: "bk_accepting_daa blk = 0 \<longrightarrow> bk_events blk = []"
      using applied.hyps(2) by (auto simp: apply_accepted_block_def split: if_splits)
    from applied.IH have ok: "stream_ok d" "queue_ok d" "opened network d" "epoch_ok X d" by simp_all
    have ok': "stream_ok d' \<and> queue_ok d' \<and> (epoch_ok X d \<longrightarrow> epoch_ok X d')" by (rule apply_fresh_ok [OF f ok(1,2) None z])
    then obtain n' c' where "transaction_next_stream_seq d' = Inr n'" "projection_cursor d' = Inr c'"
      by (auto simp: queue_ok_def)
    moreover from ok(1) obtain n where n: "transaction_next_stream_seq d = Inr n" by (auto simp: stream_ok_def)
    have "\<forall>k. k \<notin> {''cursor'', ''processed_daa'', ''next_stream_seq''} \<longrightarrow> get_meta d' k = get_meta d k"
      by (rule apply_fresh_stream [OF f n queue_bound [OF ok(2) n] z])
    ultimately show ?thesis using ok' ok(4) opened_cong [OF ok(3)] by simp
  next
    case (Some daa)
    with applied show ?thesis by (auto simp: apply_accepted_block_def split: if_splits)
  qed
next
  case (rolled_back d now removed res' d')
  then have ok: "stream_ok d" "queue_ok d" "opened network d" "epoch_ok X d" by simp_all
  have ok': "stream_ok d' \<and> queue_ok d' \<and> (epoch_ok X d \<longrightarrow> epoch_ok X d')" by (rule rollback_ok [OF rolled_back.hyps(2) ok(1,2)])
  show ?case
  proof (cases "canonical_removed d removed = []")
    case True
    with rolled_back show ?thesis by (auto simp: rollback_removed_blocks_def)
  next
    case False
    obtain rs d1 where a: "append_removed_deliveries X (canonical_removed d removed) d = Inr (rs, d1)"
      and m: "d_meta d' = d_meta d1"
      by (rule rollback_stages [OF rolled_back.hyps(2) False])
    from ok(1) obtain n where n: "transaction_next_stream_seq d = Inr n" by (auto simp: stream_ok_def)
    have "\<forall>k. k \<noteq> ''next_stream_seq'' \<longrightarrow> get_meta d1 k = get_meta d k" by (rule append_removed_stream [OF a n])
    then have "\<forall>k. k \<noteq> ''next_stream_seq'' \<longrightarrow> get_meta d' k = get_meta d k" by (simp add: get_meta_def m)
    moreover from ok' obtain n' c' where "transaction_next_stream_seq d' = Inr n'" "projection_cursor d' = Inr c'"
      by (auto simp: queue_ok_def)
    ultimately show ?thesis using ok' ok(4) opened_cong [OF ok(3)] by simp
  qed
next
  case (drained d pending limit r d')
  show ?case
  proof (cases pending)
    case True
    with drained show ?thesis by (simp add: drain_optional_projection_chunk_def)
  next
    case False
    then have p: "pending = False" by simp
    from drained have ok: "stream_ok d" "queue_ok d" "opened network d" "epoch_ok X d" by simp_all
    from ok(2) obtain c n where q: "projection_cursor d = Inr c" "transaction_next_stream_seq d = Inr n" "c < n"
      "map pw_delivery_stream_seq (d_work d) = [Suc c..<n]" by (auto simp: queue_ok_def)
    let ?m = "min (clamp 1 256 limit) (n - 1 - c)"
    from drain_step [OF drained.hyps(2) [unfolded p] q refl]
    consider "d' = d" | "projection_cursor d' = Inr (c + ?m)" "transaction_next_stream_seq d' = Inr n"
      "d_work d' = drop ?m (d_work d)" "stream_ok d'" "d_delivery_log d' = d_delivery_log d" "\<forall>k. k \<noteq> CURSOR_META \<longrightarrow> get_meta d' k = get_meta d k"
      using ok(1) by blast
    then show ?thesis
    proof cases
      case 1
      with ok show ?thesis by simp
    next
      case 2
      have "map pw_delivery_stream_seq (d_work d') = [Suc (c + ?m)..<n]"
        using q(4) by (simp add: 2(3) drop_map [symmetric])
      with 2 q(3) have "queue_ok d'" unfolding queue_ok_def by (intro exI [of _ "c + ?m"] exI [of _ n]) auto
      moreover have "opened network d'" using 2(6) opened_cong [OF ok(3) 2(2,1)] by simp
      moreover have "epoch_ok X d'"
        using ok(4) 2(5,6) stream_epoch_cong [of d' d X] by (simp add: epoch_ok_def records_def CURSOR_META_def)
      ultimately show ?thesis using 2(4) by simp
    qed
  qed
next
  case (noted d k v)
  then have ok: "stream_ok d" "queue_ok d" "opened network d" "epoch_ok X d" by simp_all
  let ?d = "set_meta k v d"
  have g: "get_meta ?d k' = get_meta d k'" if "k' \<notin> {''cursor'', ''processed_daa'', ''tip_daa'', ''tip_at_ms''}" for k'
    using noted.hyps(2) that by (auto simp: get_meta_set)
  have m: "transaction_next_stream_seq ?d = transaction_next_stream_seq d" "projection_cursor ?d = projection_cursor d"
    using noted.hyps(2)
    by (auto simp: transaction_next_stream_seq_def projection_cursor_def CURSOR_META_def intro!: parse_meta_set)
  have "stream_ok ?d" using ok(1) by (simp add: stream_ok_def m records_def listed_def)
  moreover have "queue_ok ?d" using ok(2) by (simp add: queue_ok_def m)
  moreover have "opened network ?d"
    using ok(3) by (simp add: opened_def delivery_backfill_complete_def g CURSOR_META_def INITIALIZED_META_def)
  moreover have "epoch_ok X ?d"
    using ok(4) stream_epoch_cong [of ?d d X] g by (simp add: epoch_ok_def records_def)
  ultimately show ?case by simp
next
  case (repaired d prep limit report d')
  then have ok: "stream_ok d" "queue_ok d" "opened network d" "epoch_ok X d" by simp_all
  from repair_ok [OF repaired.hyps(2) ok(1,2)] have ok': "stream_ok d'" "queue_ok d'" "epoch_ok X d'"
    and m: "\<forall>k. k \<noteq> ''next_stream_seq'' \<longrightarrow> get_meta d' k = get_meta d k" using ok(4) by simp_all
  from ok'(2) obtain n' c' where "transaction_next_stream_seq d' = Inr n'" "projection_cursor d' = Inr c'"
    by (auto simp: queue_ok_def)
  with m have "opened network d'" by (intro opened_cong [OF ok(3)]) simp_all
  with ok' show ?case by simp
qed

text \<open>C1. A consumer that replays the delivery stream, adding every accepted record and dropping the source
  of every removal, holds exactly the rows of the event table, in order. This holds after any sequence of the
  operations of \<open>store_run\<close>: opening the store, applying blocks, rolling blocks back, draining the queue, moving
  the cursor, noting the tip, repairing application failures. It does not hold of a database whose events were
  merged by a gap recovery, since those have no delivery.\<close>

theorem replay_is_event_table:
  assumes "store_run X reg network d"
  shows "map delivery_facts (replay_log (records d)) = map event_facts (d_events d)"
  using store_run_ok [OF assms] by (simp add: stream_ok_def)

text \<open>C8. In every database that the operations of \<open>store_run\<close> reach the stream is numbered from one without gaps, the projection queue
  holds exactly the numbers after its cursor, and the reported lag is the number of queued deliveries.\<close>

theorem stream_gapless:
  assumes "store_run X reg network d" and "optional_projection_status X d = Inr st"
  shows "map l_stream_seq (d_delivery_log d) = [1..<Suc (sc_seq (ps_high_water st))] \<and>
    map pw_delivery_stream_seq (d_work d) = [Suc (sc_seq (ps_cursor st))..<Suc (sc_seq (ps_high_water st))] \<and>
    ps_lag st = ps_queued st"
proof -
  from store_run_ok [OF assms(1)] obtain n c where n: "transaction_next_stream_seq d = Inr n" "1 \<le> n"
    "map l_stream_seq (d_delivery_log d) = [1..<n]"
    and c: "projection_cursor d = Inr c" "c < n" "map pw_delivery_stream_seq (d_work d) = [Suc c..<n]"
    by (auto simp: stream_ok_def queue_ok_def)
  have len: "length (d_work d) = n - Suc c" using arg_cong [OF c(3), of length] by simp
  obtain m where m: "n = Suc m" using c(2) by (cases n) auto
  have "sc_seq (ps_high_water st) = m" "sc_seq (ps_cursor st) = c" "ps_lag st = m - c" "ps_queued st = length (d_work d)"
    using assms(2) n(1) c(1) sorted_work(2) [OF c(3)]
    by (auto simp: optional_projection_status_def m split: sum.splits)
  with n(3) c(3) len show ?thesis by (simp add: m)
qed

section \<open>Draining to the end\<close>

primrec drain_n :: "externals \<Rightarrow> state_decoder list \<Rightarrow> nat \<Rightarrow> nat \<Rightarrow> db \<Rightarrow> db" where
  "drain_n X reg limit 0 d = d"
| "drain_n X reg limit (Suc k) d = snd (drain_optional_projection_chunk X reg False limit (drain_n X reg limit k d))"

lemma drain_n_state:
  assumes "projection_cursor d = Inr c" and "transaction_next_stream_seq d = Inr n" and "c < n"
    and "map pw_delivery_stream_seq (d_work d) = [Suc c..<n]"
    and "\<And>j. j < k \<Longrightarrow> \<not> isl (fst (drain_optional_projection_chunk X reg False limit (drain_n X reg limit j d)))"
  shows "projection_cursor (drain_n X reg limit k d) = Inr (min (n - 1) (c + k * clamp 1 256 limit)) \<and>
    transaction_next_stream_seq (drain_n X reg limit k d) = Inr n \<and>
    map pw_delivery_stream_seq (d_work (drain_n X reg limit k d)) = [Suc (min (n - 1) (c + k * clamp 1 256 limit))..<n]"
  using assms(5)
proof (induction k)
  case 0
  with assms show ?case by simp
next
  case (Suc k)
  let ?d = "drain_n X reg limit k d" and ?b = "clamp 1 256 limit"
  let ?c = "min (n - 1) (c + k * ?b)"
  from Suc have q: "projection_cursor ?d = Inr ?c" "transaction_next_stream_seq ?d = Inr n"
    "map pw_delivery_stream_seq (d_work ?d) = [Suc ?c..<n]" by simp_all
  obtain r d' where dr: "drain_optional_projection_chunk X reg False limit ?d = (r, d')" by fastforce
  with Suc.prems [of k] have "\<not> isl r" by simp
  moreover have "?c < n" using assms(3) by simp
  ultimately have st: "projection_cursor d' = Inr (?c + min ?b (n - 1 - ?c))" "transaction_next_stream_seq d' = Inr n"
    "d_work d' = drop (min ?b (n - 1 - ?c)) (d_work ?d)"
    using drain_step [OF dr q(1,2) _ q(3) refl] by auto
  have m: "?c + min ?b (n - 1 - ?c) = min (n - 1) (c + Suc k * ?b)" using assms(3) by auto
  have "map pw_delivery_stream_seq (d_work d') = [Suc ?c + min ?b (n - 1 - ?c)..<n]"
    unfolding st(3) drop_map [symmetric] q(3) by simp
  with st(1,2) show ?case unfolding m add_Suc by (simp add: dr)
qed

text \<open>C9. Draining terminates: from any database that \<open>store_run\<close> reaches, once the drains have run often enough for their
  limit and none of them failed, the queue is empty and its cursor is the high water of the stream.\<close>

theorem drains_finish:
  assumes "store_run X reg network d" and "optional_projection_status X d = Inr st"
    and "ps_lag st \<le> k * clamp 1 256 limit"
    and "\<forall>j < k. \<not> isl (fst (drain_optional_projection_chunk X reg False limit (drain_n X reg limit j d)))"
  shows "d_work (drain_n X reg limit k d) = [] \<and>
    projection_cursor (drain_n X reg limit k d) = Inr (sc_seq (ps_high_water st))"
proof -
  from store_run_ok [OF assms(1)] obtain n c where n: "transaction_next_stream_seq d = Inr n"
    and c: "projection_cursor d = Inr c" "c < n" "map pw_delivery_stream_seq (d_work d) = [Suc c..<n]"
    by (auto simp: stream_ok_def queue_ok_def)
  have st: "ps_lag st = n - 1 - c" "sc_seq (ps_high_water st) = n - 1"
    using assms(2) n c(1) by (auto simp: optional_projection_status_def split: sum.splits)
  with assms(3) c(2) have m: "min (n - 1) (c + k * clamp 1 256 limit) = n - 1" by simp
  have "Suc (n - 1) = n" using c(2) by simp
  with drain_n_state [OF c(1) n c(2,3), of k X reg limit, unfolded m] assms(4) show ?thesis by (simp add: st)
qed

section \<open>Paging through the stream\<close>

primrec read_pages ::
  "externals \<Rightarrow> nat \<Rightarrow> delivery_filter \<Rightarrow> nat \<Rightarrow> db \<Rightarrow> nat \<Rightarrow> stream_cursor option \<Rightarrow> delivery_record list" where
  "read_pages X limit fl cap d 0 after = []"
| "read_pages X limit fl cap d (Suc k) after =
     (case delivery_page_filtered_with_cap X after limit fl cap d of
        Inl _ \<Rightarrow> []
      | Inr rs \<Rightarrow> if rs = [] then [] else rs @ read_pages X limit fl cap d k (Some (dr_cursor (last rs))))"

definition wanted_after :: "db \<Rightarrow> delivery_filter \<Rightarrow> nat \<Rightarrow> delivery_row list" where
  "wanted_after d fl a = filter (\<lambda>l. l_stream_seq l > a \<and> row_wanted d fl l) (d_delivery_log d)"

text \<open>In a strictly ordered list, what lies behind the last of a prefix is the rest.\<close>

lemma filter_behind:
  assumes "sorted_wrt (<) (map f xs)" and "m \<noteq> 0" and "m \<le> length xs"
  shows "filter (\<lambda>x. f x > (f (last (take m xs)) :: nat)) xs = drop m xs"
proof -
  have "take m xs \<noteq> []" using assms(2,3) by auto
  then have l: "last (take m xs) = xs ! (m - 1)" using assms(2,3) by (simp add: last_conv_nth)
  let ?P = "\<lambda>x. f x > f (last (take m xs))"
  have lt: "f (xs ! i) < f (xs ! j)" if "i < j" "j < length xs" for i j
    using sorted_wrt_nth_less [OF assms(1), of i j] that by simp
  have "filter ?P (take m xs) = []"
  proof (rule filter_False, rule ballI)
    fix x assume "x \<in> set (take m xs)"
    then obtain i where "i < m" "i < length xs" "x = xs ! i" by (auto simp: in_set_conv_nth)
    moreover have "m - 1 < length xs" using assms(2,3) by linarith
    moreover have "i = m - 1 \<or> i < m - 1" using \<open>i < m\<close> by linarith
    ultimately show "\<not> ?P x" using lt [of i "m - 1"] l by auto
  qed
  moreover have "filter ?P (drop m xs) = drop m xs"
  proof (rule filter_True, rule ballI)
    fix x assume "x \<in> set (drop m xs)"
    then obtain i where "i < length xs - m" "x = xs ! (m + i)" by (auto simp: in_set_conv_nth)
    then show "?P x" using lt [of "m - 1" "m + i"] assms(2) l by auto
  qed
  ultimately show ?thesis by (metis append_take_drop_id filter_append append_Nil)
qed

lemma read_pages_all:
  assumes "stream_ok d" and "epoch_ok X d" and "transaction_stream_epoch X d = Inr e"
    and "case after of None \<Rightarrow> a = 0 | Some c \<Rightarrow> sc_epoch c = e \<and> sc_seq c = a"
    and "wanted_after d fl a = [] \<or> length (wanted_after d fl a) < k * clamp 1 cap limit"
  shows "read_pages X limit fl cap d k after = map l_data_json (wanted_after d fl a)"
  using assms(4,5)
proof (induction k arbitrary: after a)
  case (Suc k)
  let ?m = "clamp 1 cap limit" and ?F = "wanted_after d fl a"
  from assms(1) obtain n where seqs: "map l_stream_seq (d_delivery_log d) = [1..<n]"
    and rows: "\<forall>l \<in> set (d_delivery_log d). delivery_row_of (l_data_json l) = l" by (auto simp: stream_ok_def)
  have page: "delivery_page_filtered_with_cap X after limit fl cap d = Inr (map l_data_json (take ?m ?F))"
    using Suc.prems(1) sorted_filter_upt [OF seqs]
    by (auto simp: delivery_page_filtered_with_cap_def assms(3) page_rows_def wanted_after_def split: option.splits)
  show ?case
  proof (cases "take ?m ?F = []")
    case True
    have "?F = []" using True Suc.prems(2) by (auto simp: clamp_def split: if_splits)
    then show ?thesis by (simp add: page)
  next
    case False
    let ?l = "last (take ?m ?F)"
    have "?l \<in> set ?F" using last_in_set [OF False] by (rule in_set_takeD)
    then have l: "?l \<in> set (d_delivery_log d)" "a < l_stream_seq ?l" by (auto simp: wanted_after_def)
    have sorted: "sorted_wrt (<) (map l_stream_seq ?F)"
    proof -
      have "sorted_wrt (<) (map l_stream_seq (d_delivery_log d))" unfolding seqs by (rule sorted_wrt_upt)
      then show ?thesis unfolding wanted_after_def by (simp add: sorted_wrt_map sorted_wrt_filter)
    qed
    have "wanted_after d fl (l_stream_seq ?l) = filter (\<lambda>x. l_stream_seq x > l_stream_seq ?l) ?F"
      using l(2) by (auto simp: wanted_after_def intro!: filter_cong)
    also have "\<dots> = drop (min ?m (length ?F)) ?F"
    proof -
      have "take (min ?m (length ?F)) ?F = take ?m ?F" by (simp add: min_def)
      moreover have "min ?m (length ?F) \<noteq> 0" using False by (auto simp: min_def)
      ultimately show ?thesis using filter_behind [OF sorted, of "min ?m (length ?F)"] by simp
    qed
    also have "\<dots> = drop ?m ?F" by (simp add: min_def)
    finally have rest: "wanted_after d fl (l_stream_seq ?l) = drop ?m ?F" .
    have "l_data_json ?l \<in> set (records d)" using l(1) by (simp add: records_def)
    then have "sc_epoch (dr_cursor (l_data_json ?l)) = e" using assms(2,3) by (simp add: epoch_ok_def)
    moreover have "seq_of (l_data_json ?l) = l_stream_seq ?l" using rows l(1) delivery_row_of_simps(1) by metis
    moreover have "drop ?m ?F = [] \<or> length (drop ?m ?F) < k * ?m" using Suc.prems(2) by auto
    ultimately have "read_pages X limit fl cap d k (Some (dr_cursor (l_data_json ?l))) = map l_data_json (drop ?m ?F)"
      using Suc.IH [where after = "Some (dr_cursor (l_data_json ?l))" and a = "l_stream_seq ?l"] rest by simp
    moreover have "last (map l_data_json (take ?m ?F)) = l_data_json ?l" using False by (rule last_map)
    ultimately show ?thesis using False by (simp add: page flip: map_append)
  qed
qed (simp)

text \<open>C10. Paging is complete and terminates: reading pages from the start, each after the last cursor of the
  one before, returns every record that passes the filter, once and in stream order, as soon as the pages
  allowed exceed the records by a page.\<close>

theorem pages_cover:
  assumes "store_run X reg network d" and "transaction_stream_epoch X d = Inr e"
    and "length (filter (row_wanted d fl) (d_delivery_log d)) < k * clamp 1 cap limit"
  shows "read_pages X limit fl cap d k None = map l_data_json (filter (row_wanted d fl) (d_delivery_log d))"
proof -
  from store_run_ok [OF assms(1)] obtain n where ok: "stream_ok d" "epoch_ok X d"
    and "map l_stream_seq (d_delivery_log d) = [1..<n]" by (auto simp: stream_ok_def)
  then have "l_stream_seq ` set (d_delivery_log d) = {1..<n}" by (metis set_map set_upt)
  then have "l_stream_seq l > 0" if "l \<in> set (d_delivery_log d)" for l
    using that imageI [of l "set (d_delivery_log d)" l_stream_seq] by simp
  then have "wanted_after d fl 0 = filter (row_wanted d fl) (d_delivery_log d)"
    unfolding wanted_after_def by (intro filter_cong) auto
  with read_pages_all [OF ok assms(2), where after = None and a = 0] assms(3) show ?thesis by simp
qed

section \<open>Applying a block twice\<close>

lemma apply_delivers:
  assumes "stream_ok d" and "queue_ok d" and "apply_accepted_block X reg blk d = Inr (res, d')"
    and "canonical_batch_daa d (bk_accepting_block blk) = None"
  shows "records d' = records d @ cm_deliveries res"
    and "map event_facts (d_events d') = map event_facts (d_events d) @ map delivery_facts (cm_deliveries res)"
    and "map (\<lambda>r. (dr_covenant_id r, dr_txid r)) (cm_deliveries res) =
      map (\<lambda>ev. (ne_covenant_id ev, ne_txid ev)) (bk_events blk)"
    and "0 < bk_accepting_daa blk \<Longrightarrow> canonical_batch_daa d' (bk_accepting_block blk) = Some (bk_accepting_daa blk)"
    and "res = \<lparr>cm_cursor = bk_accepting_block blk, cm_processed_daa = bk_accepting_daa blk,
      cm_deliveries = canonical_deliveries_for_block d' (bk_accepting_block blk)\<rparr>"
proof -
  let ?B = "bk_accepting_block blk"
  note f = apply_fresh [OF assms(3,4)]
  have z: "bk_accepting_daa blk = 0 \<longrightarrow> bk_events blk = []"
    using assms(3) by (auto simp: apply_accepted_block_def split: if_splits)
  from assms(1) obtain n where n: "transaction_next_stream_seq d = Inr n" by (auto simp: stream_ok_def)
  have ok': "stream_ok d'" using apply_fresh_ok [OF f assms(1,2,4) z] by simp
  obtain new es n' where st: "d_delivery_log d' = d_delivery_log d @ map delivery_row_of new"
    "d_events d' = d_events d @ es" "map event_facts es = map delivery_facts new"
    "\<forall>r \<in> set new. dr_kind r = Accepted \<and> dr_accepting_block r = ?B" "map seq_of new = [n..<n']"
    "length new = length (bk_events blk)"
    and b: "d_batches d' = d_batches d @ (if bk_accepting_daa blk > 0 then
        [\<lparr>cbr_accepting_block = ?B, cbr_accepting_daa = bk_accepting_daa blk,
          cbr_first_stream_seq = (if new = [] then None else Some n),
          cbr_last_stream_seq = (if new = [] then None else Some (n' - 1))\<rparr>] else [])"
    and own: "map (\<lambda>r. (dr_covenant_id r, dr_txid r)) new = map (\<lambda>ev. (ne_covenant_id ev, ne_txid ev)) (bk_events blk)"
    by (rule apply_fresh_stream [OF f n queue_bound [OF assms(2) n] z])
  note l = listed_fresh [OF assms(1) n b st(4,5)]
  have nb: "\<forall>b \<in> set (d_batches d). cbr_accepting_block b \<noteq> ?B"
    using assms(4) unfolding canonical_batch_daa_def option.map_disc_iff row_by_None by (metis imageI)
  then have no: "\<not> listed d r" if "dr_accepting_block r = ?B" for r
    using that by (auto simp: listed_def)
  have "filter (\<lambda>r. dr_kind r = Accepted \<and> dr_accepting_block r = ?B \<and> listed d' r) (records d) = []"
    using l(1) no by (auto simp: filter_empty_conv)
  moreover have "filter (\<lambda>r. dr_kind r = Accepted \<and> dr_accepting_block r = ?B \<and> listed d' r) new = new"
  proof (cases "bk_accepting_daa blk")
    case 0
    with z st(6) show ?thesis by simp
  next
    case (Suc m)
    with l(2) st(4) show ?thesis by (intro filter_True) simp
  qed
  ultimately have del: "canonical_deliveries_for_block d' ?B = new"
    unfolding canonical_listed [OF ok'] records_append [OF st(1)] filter_append by simp
  have "canonical_batch_daa d' ?B = Some (bk_accepting_daa blk)" if "0 < bk_accepting_daa blk"
  proof -
    have "row_by cbr_accepting_block ?B (d_batches d') \<noteq> None" by (simp add: row_by_None b that)
    moreover have "b' \<in> set (d_batches d') \<Longrightarrow> cbr_accepting_block b' = ?B \<Longrightarrow> cbr_accepting_daa b' = bk_accepting_daa blk" for b'
      using nb that by (auto simp: b)
    ultimately show ?thesis unfolding canonical_batch_daa_def using row_by_Some by fastforce
  qed
  then show "0 < bk_accepting_daa blk \<Longrightarrow> canonical_batch_daa d' ?B = Some (bk_accepting_daa blk)" .
  show r: "res = \<lparr>cm_cursor = ?B, cm_processed_daa = bk_accepting_daa blk,
      cm_deliveries = canonical_deliveries_for_block d' ?B\<rparr>"
    using assms(3,4) f z by (auto simp: apply_accepted_block_def)
  then have res: "cm_deliveries res = new" by (simp add: del)
  show "records d' = records d @ cm_deliveries res" unfolding res by (rule records_append [OF st(1)])
  show "map event_facts (d_events d') = map event_facts (d_events d) @ map delivery_facts (cm_deliveries res)"
    using st(2,3) by (simp add: res)
  show "map (\<lambda>r. (dr_covenant_id r, dr_txid r)) (cm_deliveries res) =
      map (\<lambda>ev. (ne_covenant_id ev, ne_txid ev)) (bk_events blk)" using own by (simp add: res)
qed

text \<open>C7. Applying a block is idempotent: a block that was applied is answered from its batch, with the same
  deliveries, and nothing changes; and what its first application delivers are its own events, in order.\<close>

theorem apply_twice:
  assumes "store_run X reg network d" and "apply_accepted_block X reg blk d = Inr (res, d')"
    and "0 < bk_accepting_daa blk" and "canonical_batch_daa d (bk_accepting_block blk) = None"
  shows "apply_accepted_block X reg blk d' = Inr (res, d') \<and>
    map event_facts (d_events d') = map event_facts (d_events d) @ map delivery_facts (cm_deliveries res) \<and>
    map (\<lambda>r. (dr_covenant_id r, dr_txid r)) (cm_deliveries res) =
      map (\<lambda>ev. (ne_covenant_id ev, ne_txid ev)) (bk_events blk)"
proof -
  from store_run_ok [OF assms(1)] have ok: "stream_ok d" "queue_ok d" by simp_all
  note a = apply_delivers [OF ok assms(2,4)]
  from a(4,5) assms(3) have "apply_accepted_block X reg blk d' = Inr (res, d')"
    by (simp add: apply_accepted_block_def)
  with a(2,3) show ?thesis by simp
qed

section \<open>An example\<close>

definition stream0 :: db where
  "stream0 = projr (open_writer ''testnet-10'' ''abababababababababababababababab'' False empty_db)"

definition stream1 :: db where
  "stream1 = snd (projr (apply_accepted_block demo_ext [] demo_batch stream0))"

definition stream2 :: db where
  "stream2 = snd (projr (apply_accepted_block demo_ext [] demo_block2 stream1))"

definition stream3 :: db where
  "stream3 = snd (projr (rollback_removed_blocks demo_ext 0 [[8], [8]] stream2))"

definition status1 :: projection_status where
  "status1 = projr (optional_projection_status demo_ext stream1)"

lemma stream_runs:
  shows stream0_run: "store_run demo_ext [] ''testnet-10'' stream0"
    and stream1_step: "apply_accepted_block demo_ext [] demo_batch stream0 =
      Inr (fst (projr (apply_accepted_block demo_ext [] demo_batch stream0)), stream1)"
    and stream1_run: "store_run demo_ext [] ''testnet-10'' stream1"
    and stream3_run: "store_run demo_ext [] ''testnet-10'' stream3"
proof -
  have "\<not> isl (open_writer ''testnet-10'' ''abababababababababababababababab'' False empty_db)" by code_simp
  then have "open_writer ''testnet-10'' ''abababababababababababababababab'' False empty_db = Inr stream0"
    unfolding stream0_def by (metis sum.collapse(2))
  then show s0: "store_run demo_ext [] ''testnet-10'' stream0" by (rule store_run.fresh)
  have "\<not> isl (apply_accepted_block demo_ext [] demo_batch stream0)" by code_simp
  from projr_pair [OF this] show s1: "apply_accepted_block demo_ext [] demo_batch stream0 =
      Inr (fst (projr (apply_accepted_block demo_ext [] demo_batch stream0)), stream1)" by (simp add: stream1_def)
  show t1: "store_run demo_ext [] ''testnet-10'' stream1" by (rule store_run.applied [OF s0 s1])
  have "\<not> isl (apply_accepted_block demo_ext [] demo_block2 stream1)" by code_simp
  from projr_pair [OF this] have s2: "apply_accepted_block demo_ext [] demo_block2 stream1 =
      Inr (fst (projr (apply_accepted_block demo_ext [] demo_block2 stream1)), stream2)" by (simp add: stream2_def)
  have "\<not> isl (rollback_removed_blocks demo_ext 0 [[8], [8]] stream2)" by code_simp
  from projr_pair [OF this] have s3: "rollback_removed_blocks demo_ext 0 [[8], [8]] stream2 =
      Inr (fst (projr (rollback_removed_blocks demo_ext 0 [[8], [8]] stream2)), stream3)" by (simp add: stream3_def)
  show "store_run demo_ext [] ''testnet-10'' stream3"
    by (rule store_run.rolled_back [OF store_run.applied [OF t1 s2] s3])
qed

lemma status1: "optional_projection_status demo_ext stream1 = Inr status1"
proof -
  have "\<not> isl (optional_projection_status demo_ext stream1)" by code_simp
  then show ?thesis unfolding status1_def by (metis sum.collapse(2))
qed

theorem replay_is_event_table_witness:
  "map delivery_facts (replay_log (records stream3)) = map event_facts (d_events stream3)"
  by (rule replay_is_event_table [OF stream3_run])

theorem stream_gapless_witness:
  "map l_stream_seq (d_delivery_log stream1) = [1..<Suc (sc_seq (ps_high_water status1))] \<and>
    map pw_delivery_stream_seq (d_work stream1) =
      [Suc (sc_seq (ps_cursor status1))..<Suc (sc_seq (ps_high_water status1))] \<and>
    ps_lag status1 = ps_queued status1"
  by (rule stream_gapless [OF stream1_run status1])

theorem drains_finish_witness:
  "d_work (drain_n demo_ext [] 2 1 stream1) = [] \<and>
    projection_cursor (drain_n demo_ext [] 2 1 stream1) = Inr (sc_seq (ps_high_water status1))"
proof (rule drains_finish [OF stream1_run status1])
  show "ps_lag status1 \<le> 1 * clamp 1 256 2" by code_simp
  have "\<not> isl (fst (drain_optional_projection_chunk demo_ext [] False 2 (drain_n demo_ext [] 2 0 stream1)))" by code_simp
  then show "\<forall>j < 1. \<not> isl (fst (drain_optional_projection_chunk demo_ext [] False 2 (drain_n demo_ext [] 2 j stream1)))"
    by simp
qed

theorem pages_cover_witness:
  "read_pages demo_ext 1 no_filter 1001 stream1 2 None =
     map l_data_json (filter (row_wanted stream1 no_filter) (d_delivery_log stream1))"
proof (rule pages_cover [OF stream1_run])
  show "transaction_stream_epoch demo_ext stream1 = Inr (replicate 16 0xAB)" by code_simp
  show "length (filter (row_wanted stream1 no_filter) (d_delivery_log stream1)) < 2 * clamp 1 1001 1" by code_simp
qed

theorem apply_twice_witness:
  "apply_accepted_block demo_ext [] demo_batch stream1 =
     Inr (fst (projr (apply_accepted_block demo_ext [] demo_batch stream0)), stream1)"
proof -
  have "canonical_batch_daa stream0 (bk_accepting_block demo_batch) = None" by code_simp
  from apply_twice [OF stream0_run stream1_step _ this] show ?thesis by (simp add: demo_batch_def)
qed

end
