(* ===== verification/Chain_Sync.thy ===== *)
theory Chain_Sync
  imports Ledger "HOL-Library.AList"
begin

text \<open>
  Following the chain, \<open>crates/kascov-core/src/sync.rs\<close>: one pass of \<open>sync_once\<close> walks the virtual
  selected parent chain from the stored cursor, resolves the bodies of the transactions each chain block
  accepted, classifies their covenant activity and commits one batch per block; \<open>re_anchor\<close> repoints a
  stranded cursor and \<open>ProgressWatch\<close> says when. The node is a record of answers: whatever it says, with
  its failures, is an argument of the definitions.
\<close>

section \<open>The node\<close>

record dag_info =
  di_network :: string
  di_sink :: bytes
  di_virtual_daa_score :: nat
  di_pruning_point :: bytes

record chain_step =
  cp_removed :: "bytes list"
  cp_added :: "accepted_block list"

text \<open>A pass asks for a block at most three times: ahead of the walk, as a member of a mergeset, and once
  more when bodies are missing. The answers may differ, and depend on the chain block being processed.\<close>

datatype fetch_stage = Prefetch | FromMergeset | SecondTry

text \<open>\<open>nd_completed\<close> is the order in which concurrent fetches come back, \<open>nd_covenant_id\<close> the covenant id
  hash of the consensus library (\<open>compute_covenant_id\<close>).\<close>

record node =
  nd_dag_info :: "string + dag_info"
  nd_virtual_chain_from :: "bytes \<Rightarrow> string + chain_step"
  nd_block_with_txs :: "fetch_stage \<Rightarrow> bytes \<Rightarrow> bytes \<Rightarrow> string + block"
  nd_completed :: "bytes list \<Rightarrow> bytes list"
  nd_covenant_id :: "outpoint \<Rightarrow> (nat \<times> nat \<times> 16 word \<times> bytes) list \<Rightarrow> bytes"

section \<open>What a pass reads from the store\<close>

text \<open>\<open>BlockHash::from_str\<close>: hex of exactly 32 bytes.\<close>

definition parse_hash :: "externals \<Rightarrow> string \<Rightarrow> bytes option" where
  "parse_hash X s = Option.bind (hex_decode X s) array32"

definition cursor :: "externals \<Rightarrow> db \<Rightarrow> bytes option" where
  "cursor X d = Option.bind (get_meta d ''cursor'') (parse_hash X)"

definition set_tip :: "nat \<Rightarrow> nat \<Rightarrow> db \<Rightarrow> db" where
  "set_tip daa at_ms d = set_meta ''tip_at_ms'' (show_nat at_ms) (set_meta ''tip_daa'' (show_nat daa) d)"

definition tip :: "db \<Rightarrow> (nat \<times> nat) option" where
  "tip d =
     (case (Option.bind (get_meta d ''tip_daa'') parse_u64, Option.bind (get_meta d ''tip_at_ms'') parse_u64) of
        (Some daa, Some at_ms) \<Rightarrow> Some (daa, at_ms)
      | _ \<Rightarrow> None)"

definition reset_cursor :: "externals \<Rightarrow> bytes \<Rightarrow> db \<Rightarrow> db" where
  "reset_cursor X blk d = set_meta ''cursor'' (hex_encode X blk) d"

definition checkpoint_cursor :: "externals \<Rightarrow> bytes \<Rightarrow> nat \<Rightarrow> db \<Rightarrow> db" where
  "checkpoint_cursor X blk daa d =
     set_meta ''processed_daa'' (show_nat daa) (set_meta ''cursor'' (hex_encode X blk) d)"

definition live_covenant_utxo :: "db \<Rightarrow> outpoint \<Rightarrow> bytes option" where
  "live_covenant_utxo d p =
     map_option u_covenant_id (find (\<lambda>u. utxo_key u = p \<and> u_spent_block u = None) (d_utxos d))"

definition known_covenant :: "db \<Rightarrow> bytes \<Rightarrow> bool" where
  "known_covenant d cid \<longleftrightarrow> cid \<in> c_covenant_id ` set (d_covenants d)"

section \<open>Resolving bodies\<close>

text \<open>The bodies found so far are a map by transaction id; a later insert replaces an earlier one.\<close>

type_synonym bodies = "(bytes \<times> transaction) list"

definition add_bodies :: "bytes list \<Rightarrow> transaction list \<Rightarrow> bodies \<Rightarrow> bodies" where
  "add_bodies wanted_ids txs =
     fold (\<lambda>tx m. if x_txid tx \<in> set wanted_ids then AList.update (x_txid tx) tx m else m) txs"

definition add_fetched :: "bytes list \<Rightarrow> string + block \<Rightarrow> bodies \<Rightarrow> bodies" where
  "add_fetched wanted_ids r m =
     (case r of Inl _ \<Rightarrow> m | Inr b \<Rightarrow> add_bodies wanted_ids (bl_transactions b) m)"

fun retry_bodies :: "bytes list \<Rightarrow> (bytes \<Rightarrow> string + block) \<Rightarrow> bytes list \<Rightarrow> bodies \<Rightarrow> bodies" where
  "retry_bodies wanted_ids fetch [] m = m"
| "retry_bodies wanted_ids fetch (h # hs) m =
     (if length m = length (remdups wanted_ids) then m
      else retry_bodies wanted_ids fetch hs (add_fetched wanted_ids (fetch h) m))"

definition resolve_accepted_bodies :: "node \<Rightarrow> accepted_block \<Rightarrow> block \<Rightarrow> bodies \<times> nat" where
  "resolve_accepted_bodies N accepted accepting =
     (let wanted_ids = ab_accepted_tx_ids accepted;
          n = length (remdups wanted_ids);
          fetch = (\<lambda>stage. nd_block_with_txs N stage (ab_accepting_block accepted));
          own = add_bodies wanted_ids (bl_transactions accepting) [];
          merged =
            (if length own < n
             then fold (\<lambda>h. add_fetched wanted_ids (fetch FromMergeset h))
                    (nd_completed N (bl_mergeset accepting)) own
             else own);
          found =
            (if length merged < n
             then retry_bodies wanted_ids (fetch SecondTry) (bl_mergeset accepting) merged
             else merged)
      in (found, n - length found))"

section \<open>Classification\<close>

definition bound_to :: "bytes \<Rightarrow> tx_output \<Rightarrow> bool" where
  "bound_to cid out \<longleftrightarrow> map_option cb_covenant_id (o_covenant out) = Some cid"

text \<open>The genesis proof: the id recomputes from the authorizing input's outpoint and the outputs bound to it.\<close>

definition is_valid_genesis :: "node \<Rightarrow> transaction \<Rightarrow> bytes \<Rightarrow> bool" where
  "is_valid_genesis N tx cid =
     (let bound = filter (\<lambda>(i, out). bound_to cid out) (enumerate 0 (x_outputs tx));
          auths = map (\<lambda>(i, out). map_option cb_authorizing_input (o_covenant out)) bound
      in case auths of
        Some auth # rest \<Rightarrow>
          list_all (\<lambda>a. a = Some auth) rest \<and>
          (case get_at (x_inputs tx) auth of
             None \<Rightarrow> False
           | Some inp \<Rightarrow>
               nd_covenant_id N (i_previous_outpoint inp)
                 (map (\<lambda>(i, out). (i, o_value out, o_spk_version out, o_spk_script out)) bound) = cid)
      | _ \<Rightarrow> False)"

text \<open>Per covenant of a transaction: how many of its cells are spent and how many outputs are bound to it.\<close>

type_synonym touched = "(bytes \<times> nat \<times> nat) list"

definition touch :: "nat \<times> nat \<Rightarrow> bytes \<Rightarrow> touched \<Rightarrow> touched" where
  "touch n cid = bt_update cid (\<lambda>v. (case v of None \<Rightarrow> n | Some (s, c) \<Rightarrow> (s + fst n, c + snd n)))"

definition classify_kind :: "node \<Rightarrow> (bytes \<Rightarrow> bool) \<Rightarrow> transaction \<Rightarrow> bytes \<Rightarrow> nat \<times> nat \<Rightarrow> event_kind" where
  "classify_kind N known tx cid = (\<lambda>(spent, created).
     if spent > 0 \<and> created > 0 then Transition
     else if spent > 0 then Burn
     else if known cid then Transition
     else if is_valid_genesis N tx cid then Genesis
     else Transition)"

record classifying =
  cl_batch :: accepted_block_batch
  cl_created_overlay :: "(outpoint \<times> bytes) list"
  cl_known_overlay :: "bytes list"

definition resolve_outpoint :: "db \<Rightarrow> (outpoint \<times> bytes) list \<Rightarrow> outpoint \<Rightarrow> bytes option" where
  "resolve_outpoint d overlay p =
     (case map_of overlay p of Some cid \<Rightarrow> Some cid | None \<Rightarrow> live_covenant_utxo d p)"

definition classify_input ::
  "db \<Rightarrow> (outpoint \<times> bytes) list \<Rightarrow> transaction \<Rightarrow> nat \<times> tx_input \<Rightarrow> touched \<times> spent_utxo list \<Rightarrow>
   touched \<times> spent_utxo list" where
  "classify_input d overlay tx = (\<lambda>(i, inp) (t, spent).
     (case resolve_outpoint d overlay (i_previous_outpoint inp) of
        None \<Rightarrow> (t, spent)
      | Some cid \<Rightarrow>
          (touch (1, 0) cid t,
           spent @ [(i_previous_outpoint inp, x_txid tx, i_signature_script inp, i_compute_budget inp, i)])))"

definition classify_output ::
  "transaction \<Rightarrow> nat \<times> tx_output \<Rightarrow> touched \<times> (outpoint \<times> bytes) list \<times> new_utxo list \<Rightarrow>
   touched \<times> (outpoint \<times> bytes) list \<times> new_utxo list" where
  "classify_output tx = (\<lambda>(i, out) (t, overlay, created).
     (case o_covenant out of
        None \<Rightarrow> (t, overlay, created)
      | Some b \<Rightarrow>
          (touch (0, 1) (cb_covenant_id b) t,
           ((x_txid tx, i), cb_covenant_id b) # overlay,
           created @ [\<lparr>nu_outpoint = (x_txid tx, i), nu_covenant_id = cb_covenant_id b, nu_value = o_value out,
                       nu_spk_version = o_spk_version out, nu_spk_script = o_spk_script out\<rparr>])))"

definition event_of ::
  "externals \<Rightarrow> transaction \<Rightarrow> nat \<Rightarrow> nat \<Rightarrow> bytes \<Rightarrow> event_kind \<Rightarrow> new_event" where
  "event_of X tx tx_index event_index cid kind =
     \<lparr>ne_covenant_id = cid, ne_kind = kind, ne_txid = x_txid tx, ne_tx_index = tx_index,
      ne_event_index = event_index,
      ne_payload = (if x_payload tx = [] then None else Some (x_payload tx)),
      ne_lane_namespace = lane_namespace X (x_payload tx)\<rparr>"

definition classify_tx ::
  "externals \<Rightarrow> node \<Rightarrow> db \<Rightarrow> application_decoder \<Rightarrow> nat \<times> transaction \<Rightarrow> classifying \<Rightarrow> classifying" where
  "classify_tx X N d prep = (\<lambda>(tx_index, tx) s.
     (let b = cl_batch s;
          (t, spent) = fold (classify_input d (cl_created_overlay s) tx) (enumerate 0 (x_inputs tx)) ([], bk_spent_utxos b);
          (t, overlay, created) =
            fold (classify_output tx) (enumerate 0 (x_outputs tx)) (t, cl_created_overlay s, bk_created_utxos b);
          known = (\<lambda>cid. cid \<in> set (cl_known_overlay s) \<or> known_covenant d cid);
          events = map (\<lambda>(k, cid, n). event_of X tx tx_index k cid (classify_kind N known tx cid n)) (enumerate 0 t)
      in \<lparr>cl_batch = b\<lparr>bk_transactions := bk_transactions b @ [prepare_accepted tx prep],
                       bk_spent_utxos := spent, bk_created_utxos := created, bk_events := bk_events b @ events\<rparr>,
          cl_created_overlay = overlay,
          cl_known_overlay = map fst t @ cl_known_overlay s\<rparr>))"

definition header_batch :: "accepted_block \<Rightarrow> block \<Rightarrow> accepted_block_batch" where
  "header_batch accepted accepting =
     \<lparr>bk_accepting_block = ab_accepting_block accepted, bk_accepting_daa = bl_daa_score accepting,
      bk_accepting_time_ms = bl_timestamp_ms accepting, bk_accepting_blue_score = bl_blue_score accepting,
      bk_events = [], bk_created_utxos = [], bk_spent_utxos = [], bk_transactions = []\<rparr>"

definition classify_block ::
  "externals \<Rightarrow> node \<Rightarrow> db \<Rightarrow> application_decoder \<Rightarrow> accepted_block \<Rightarrow> block \<Rightarrow> (nat \<times> transaction) list \<Rightarrow>
   accepted_block_batch" where
  "classify_block X N d prep accepted accepting txs =
     cl_batch (fold (classify_tx X N d prep) txs
       \<lparr>cl_batch = header_batch accepted accepting, cl_created_overlay = [], cl_known_overlay = []\<rparr>)"

text \<open>The accepted transactions whose bodies are at hand, each with its position in the accepted list.\<close>

definition indexed_bodies :: "accepted_block \<Rightarrow> bodies \<Rightarrow> (nat \<times> transaction) list" where
  "indexed_bodies accepted m =
     List.map_filter (\<lambda>(i, h). map_option (Pair i) (map_of m h)) (enumerate 0 (ab_accepted_tx_ids accepted))"

text \<open>A pending transaction against the confirmed store. The code lists the covenants in the order of a
  hash map; here they come in the order of their ids.\<close>

definition classify_pending :: "node \<Rightarrow> db \<Rightarrow> transaction \<Rightarrow> (bytes \<times> event_kind) list" where
  "classify_pending N d tx =
     (let t = fold (\<lambda>inp t. case live_covenant_utxo d (i_previous_outpoint inp) of
                 None \<Rightarrow> t | Some cid \<Rightarrow> touch (1, 0) cid t) (x_inputs tx) [];
          t = fold (\<lambda>out t. case o_covenant out of
                 None \<Rightarrow> t | Some b \<Rightarrow> touch (0, 1) (cb_covenant_id b) t) (x_outputs tx) t
      in map (\<lambda>(cid, n). (cid, classify_kind N (known_covenant d) tx cid n)) t)"

text \<open>\<open>reconcile_block\<close>: spends of cells that the store still has live, each covenant once per transaction
  and in the order first met.\<close>

definition reconcile_tx ::
  "externals \<Rightarrow> db \<Rightarrow> nat \<times> transaction \<Rightarrow> accepted_block_batch \<Rightarrow> accepted_block_batch" where
  "reconcile_tx X d = (\<lambda>(tx_index, tx) b.
     (let hits = List.map_filter (\<lambda>(i, inp).
                   map_option (\<lambda>cid. (cid, i_previous_outpoint inp, x_txid tx, i_signature_script inp, i_compute_budget inp, i))
                     (live_covenant_utxo d (i_previous_outpoint inp))) (enumerate 0 (x_inputs tx));
          touched_ids = rev (remdups (rev (map fst hits)))
      in b\<lparr>bk_spent_utxos := bk_spent_utxos b @ map snd hits,
           bk_events := bk_events b @
             map (\<lambda>(k, cid). event_of X tx tx_index k cid Burn) (enumerate 0 touched_ids)\<rparr>))"

definition reconcile_block ::
  "externals \<Rightarrow> db \<Rightarrow> accepted_block \<Rightarrow> block \<Rightarrow> bodies \<Rightarrow> accepted_block_batch" where
  "reconcile_block X d accepted accepting m =
     fold (reconcile_tx X d) (indexed_bodies accepted m) (header_batch accepted accepting)"

section \<open>One pass\<close>

record sync_stats =
  ss_chain_blocks :: nat
  ss_events :: nat
  ss_reorged_out :: nat

datatype sync_update =
    Progress sync_stats
  | ReorgOf nat
  | Committed committed_batch
  | RemovedBatch committed_removal_batch

definition CHECKPOINT_EVERY :: nat where "CHECKPOINT_EVERY = 500"

record walk =
  wk_db :: db
  wk_stats :: sync_stats
  wk_updates :: "sync_update list"
  wk_since_checkpoint :: nat
  wk_last_seen :: "bytes option"
  wk_last_daa :: nat

definition progress :: "sync_stats \<Rightarrow> sync_update list" where
  "progress stats = (if ss_chain_blocks stats mod 100 = 0 then [Progress stats] else [])"

text \<open>One chain block. An error leaves the database and the updates as they were before the block: the
  body checks come before any write and \<open>apply_accepted_block\<close> is one transaction.\<close>

definition walk_block ::
  "externals \<Rightarrow> state_decoder list \<Rightarrow> node \<Rightarrow> application_decoder \<Rightarrow> accepted_block \<Rightarrow> walk \<Rightarrow> string + walk" where
  "walk_block X reg N prep accepted w =
     (case nd_block_with_txs N Prefetch (ab_accepting_block accepted) (ab_accepting_block accepted) of
        Inl e \<Rightarrow> Inl e
      | Inr accepting \<Rightarrow>
     (let (found, unresolved) = resolve_accepted_bodies N accepted accepting in
      if unresolved > 0 then Inl ''unresolved accepted tx bodies''
      else
     (let b = classify_block X N (wk_db w) prep accepted accepting (indexed_bodies accepted found);
          since = wk_since_checkpoint w + 1;
          stats = (wk_stats w)\<lparr>ss_chain_blocks := ss_chain_blocks (wk_stats w) + 1,
                    ss_events := ss_events (wk_stats w) + length (bk_events b)\<rparr>;
          w = w\<lparr>wk_stats := stats, wk_last_seen := Some (ab_accepting_block accepted),
                wk_last_daa := bl_daa_score accepting\<rparr>
      in if bk_events b \<noteq> [] then
           (case apply_accepted_block X reg b (wk_db w) of
              Inl e \<Rightarrow> Inl e
            | Inr (committed, d) \<Rightarrow>
                Inr (w\<lparr>wk_db := d, wk_since_checkpoint := 0,
                       wk_updates := wk_updates w @
                         (if cm_deliveries committed = [] then [] else [Committed committed]) @ progress stats\<rparr>))
         else if since \<ge> CHECKPOINT_EVERY then
           (case apply_accepted_block X reg b (wk_db w) of
              Inl e \<Rightarrow> Inl e
            | Inr (_, d) \<Rightarrow>
                Inr (w\<lparr>wk_db := d, wk_since_checkpoint := 0, wk_updates := wk_updates w @ progress stats\<rparr>))
         else Inr (w\<lparr>wk_since_checkpoint := since, wk_updates := wk_updates w @ progress stats\<rparr>))))"

text \<open>The walk, with the state it stopped in when a block failed.\<close>

fun walk_blocks ::
  "externals \<Rightarrow> state_decoder list \<Rightarrow> node \<Rightarrow> application_decoder \<Rightarrow> accepted_block list \<Rightarrow> walk \<Rightarrow>
   string option \<times> walk" where
  "walk_blocks X reg N prep [] w = (None, w)"
| "walk_blocks X reg N prep (a # as) w =
     (case walk_block X reg N prep a w of
        Inl e \<Rightarrow> (Some e, w)
      | Inr w' \<Rightarrow> walk_blocks X reg N prep as w')"

definition final_checkpoint ::
  "externals \<Rightarrow> state_decoder list \<Rightarrow> walk \<Rightarrow> string + db" where
  "final_checkpoint X reg w =
     (case (wk_since_checkpoint w > 0, wk_last_seen w) of
        (True, Some blk) \<Rightarrow>
          map_sum id snd (apply_accepted_block X reg ((empty_batch blk)\<lparr>bk_accepting_daa := wk_last_daa w\<rparr>) (wk_db w))
      | _ \<Rightarrow> Inr (wk_db w))"

text \<open>The cursor a pass starts from: the stored one, or, on a fresh index, \<open>from\<close> or the sink, which becomes
  the cursor.\<close>

definition start_cursor ::
  "externals \<Rightarrow> state_decoder list \<Rightarrow> node \<Rightarrow> bytes option \<Rightarrow> db \<Rightarrow> string + bytes \<times> db" where
  "start_cursor X reg N from_block d =
     (case cursor X d of
        Some c \<Rightarrow> Inr (c, d)
      | None \<Rightarrow>
          (case (case from_block of Some b \<Rightarrow> Inr b | None \<Rightarrow> map_sum id di_sink (nd_dag_info N)) of
             Inl e \<Rightarrow> Inl e
           | Inr start \<Rightarrow> map_sum id (\<lambda>(_, d). (start, d)) (apply_accepted_block X reg (empty_batch start) d)))"

text \<open>Rolling back what the node removed, with the updates sent.\<close>

definition roll_back_step ::
  "externals \<Rightarrow> nat \<Rightarrow> bytes list \<Rightarrow> db \<Rightarrow> string + sync_update list \<times> db" where
  "roll_back_step X now removed d =
     (if removed = [] then Inr ([], d)
      else map_sum id (\<lambda>(r, d).
             ((if cr_deliveries r = [] then [] else [RemovedBatch r]) @ [ReorgOf (length removed)], d))
           (rollback_removed_blocks X now removed d))"

text \<open>A pass: its result, the updates it sent and the database it leaves, whether it completed or failed.\<close>

definition sync_once ::
  "externals \<Rightarrow> state_decoder list \<Rightarrow> node \<Rightarrow> application_decoder \<Rightarrow> nat \<Rightarrow> bytes option \<Rightarrow> db \<Rightarrow>
   (string + sync_stats) \<times> sync_update list \<times> db" where
  "sync_once X reg N prep now from_block d =
     (let d = (case nd_dag_info N of Inl _ \<Rightarrow> d | Inr dag \<Rightarrow> set_tip (di_virtual_daa_score dag) now d) in
      case start_cursor X reg N from_block d of
        Inl e \<Rightarrow> (Inl e, [], d)
      | Inr (c, d) \<Rightarrow>
     (case nd_virtual_chain_from N c of
        Inl e \<Rightarrow> (Inl e, [], d)
      | Inr step \<Rightarrow>
     (case roll_back_step X now (cp_removed step) d of
        Inl e \<Rightarrow> (Inl e, [], d)
      | Inr (updates, d) \<Rightarrow>
     (case walk_blocks X reg N prep (cp_added step)
             \<lparr>wk_db = d,
              wk_stats = \<lparr>ss_chain_blocks = 0, ss_events = 0, ss_reorged_out = length (cp_removed step)\<rparr>,
              wk_updates = updates, wk_since_checkpoint = 0, wk_last_seen = None, wk_last_daa = 0\<rparr> of
        (Some e, w) \<Rightarrow> (Inl e, wk_updates w, wk_db w)
      | (None, w) \<Rightarrow>
     (case final_checkpoint X reg w of
        Inl e \<Rightarrow> (Inl e, wk_updates w, wk_db w)
      | Inr d \<Rightarrow> (Inr (wk_stats w), wk_updates w, d))))))"

section \<open>Recovering a stranded cursor\<close>

text \<open>Distinct pairs of accepting block and DAA score in the order of \<open>ev_by_daa\<close> read backwards.\<close>

definition blocks_by_daa_desc :: "event_row list \<Rightarrow> (bytes \<times> nat) list" where
  "blocks_by_daa_desc es =
     rev (sort_key snd (remdups (map (\<lambda>e. (e_accepting_block e, e_accepting_daa e)) es)))"

definition recent_accepting_blocks :: "nat \<Rightarrow> db \<Rightarrow> (bytes \<times> nat) list" where
  "recent_accepting_blocks limit d = take limit (blocks_by_daa_desc (d_events d))"

definition newest_at_or_below :: "nat \<Rightarrow> db \<Rightarrow> (bytes \<times> nat) option" where
  "newest_at_or_below target d =
     (case blocks_by_daa_desc (filter (\<lambda>e. e_accepting_daa e \<le> target) (d_events d)) of
        [] \<Rightarrow> None | p # _ \<Rightarrow> Some p)"

definition spread_accepting_blocks :: "nat \<Rightarrow> db \<Rightarrow> (bytes \<times> nat) list" where
  "spread_accepting_blocks samples d =
     (if d_events d = [] then []
      else let daas = set (map e_accepting_daa (d_events d)); span = Max daas - Min daas in
        List.map_filter (\<lambda>i. newest_at_or_below (Max daas - span * i div (max samples 2 - 1)) d) [0..<samples])"

definition accepting_blocks_above :: "nat \<Rightarrow> db \<Rightarrow> bytes list" where
  "accepting_blocks_above daa d =
     map fst (blocks_by_daa_desc (filter (\<lambda>e. e_accepting_daa e > daa) (d_events d)))"

definition WEDGE_LAG_DAA :: nat where "WEDGE_LAG_DAA = 18000"
definition WEDGE_PASSES :: nat where "WEDGE_PASSES = 10"
definition RE_ANCHOR_DENSE_PROBES :: nat where "RE_ANCHOR_DENSE_PROBES = 8"
definition RE_ANCHOR_SPREAD_PROBES :: nat where "RE_ANCHOR_SPREAD_PROBES = 16"

definition lagging :: "nat option \<Rightarrow> nat option \<Rightarrow> bool" where
  "lagging processed tip_daa =
     (case (processed, tip_daa) of (Some p, Some t) \<Rightarrow> t - p > WEDGE_LAG_DAA | _ \<Rightarrow> False)"

datatype re_anchor = NotWedged | Anchored bytes | NothingWalkable

definition walkable :: "node \<Rightarrow> bool \<Rightarrow> bytes \<Rightarrow> bool" where
  "walkable N lag blk =
     (case nd_virtual_chain_from N blk of
        Inl _ \<Rightarrow> False
      | Inr step \<Rightarrow> \<not> (lag \<and> cp_removed step = [] \<and> cp_added step = []))"

definition anchor_at :: "externals \<Rightarrow> nat \<Rightarrow> bytes \<times> nat \<Rightarrow> db \<Rightarrow> string + db" where
  "anchor_at X now = (\<lambda>(blk, daa) d.
     (let above = accepting_blocks_above daa d in
      case (if above = [] then Inr d else map_sum id snd (rollback_removed_blocks X now above d)) of
        Inl e \<Rightarrow> Inl e
      | Inr d \<Rightarrow> Inr (checkpoint_cursor X blk daa d)))"

fun probe_anchors ::
  "externals \<Rightarrow> node \<Rightarrow> bool \<Rightarrow> nat \<Rightarrow> bytes \<Rightarrow> bytes list \<Rightarrow> (bytes \<times> nat) list \<Rightarrow> db \<Rightarrow> string + re_anchor \<times> db" where
  "probe_anchors X N lag now c probed [] d = Inr (NothingWalkable, d)"
| "probe_anchors X N lag now c probed ((blk, daa) # rest) d =
     (if blk = c \<or> blk \<in> set probed then probe_anchors X N lag now c probed rest d
      else if \<not> walkable N lag blk then probe_anchors X N lag now c (blk # probed) rest d
      else map_sum id (Pair (Anchored blk)) (anchor_at X now (blk, daa) d))"

definition re_anchor :: "externals \<Rightarrow> node \<Rightarrow> nat \<Rightarrow> db \<Rightarrow> string + re_anchor \<times> db" where
  "re_anchor X N now d =
     (case cursor X d of
        None \<Rightarrow> Inr (NotWedged, d)
      | Some c \<Rightarrow>
          let lag = lagging (processed_daa d) (map_option fst (tip d)) in
          if walkable N lag c then Inr (NotWedged, d)
          else probe_anchors X N lag now c []
                 (recent_accepting_blocks RE_ANCHOR_DENSE_PROBES d @ spread_accepting_blocks RE_ANCHOR_SPREAD_PROBES d) d)"

section \<open>The watch over passes that do nothing\<close>

record progress_watch =
  wa_last_processed :: "nat option"
  wa_stuck_passes :: nat

definition fresh_watch :: progress_watch where
  "fresh_watch = \<lparr>wa_last_processed = None, wa_stuck_passes = 0\<rparr>"

record pass_verdict =
  pv_advanced :: bool
  pv_demand_recovery :: bool

definition observe :: "nat option \<Rightarrow> nat option \<Rightarrow> progress_watch \<Rightarrow> pass_verdict \<times> progress_watch" where
  "observe processed tip_daa pw =
     (let advanced = (processed \<noteq> None \<and> processed \<noteq> wa_last_processed pw);
          pw = (if advanced then pw\<lparr>wa_last_processed := processed\<rparr> else pw)
      in if advanced \<or> \<not> lagging processed tip_daa
         then (\<lparr>pv_advanced = advanced, pv_demand_recovery = False\<rparr>, pw\<lparr>wa_stuck_passes := 0\<rparr>)
         else let stuck = wa_stuck_passes pw + 1 in
           if stuck \<ge> WEDGE_PASSES
           then (\<lparr>pv_advanced = advanced, pv_demand_recovery = True\<rparr>, pw\<lparr>wa_stuck_passes := 0\<rparr>)
           else (\<lparr>pv_advanced = advanced, pv_demand_recovery = False\<rparr>, pw\<lparr>wa_stuck_passes := stuck\<rparr>))"

end
