(* ===== verification/Classify_Laws.thy ===== *)
theory Classify_Laws
  imports Reorg Chain_Sync
begin

text \<open>
  What classification means: the events of a block are the ones a declarative rule gives, transaction by
  transaction, and applying a classified block moves the set of live covenant cells by the abstract ledger
  step, in which every transaction removes the outpoints it spends and adds the outputs it binds.
\<close>

section \<open>Frames\<close>

lemma classify_header:
  "bk_accepting_block (classify_block X N d prep accepted accepting txs) = ab_accepting_block accepted \<and>
   bk_accepting_daa (classify_block X N d prep accepted accepting txs) = bl_daa_score accepting"
proof -
  have "bk_accepting_block (cl_batch (fold (classify_tx X N d prep) txs s)) = bk_accepting_block (cl_batch s) \<and>
      bk_accepting_daa (cl_batch (fold (classify_tx X N d prep) txs s)) = bk_accepting_daa (cl_batch s)" for s
    by (induction txs arbitrary: s) (simp_all add: classify_tx_def Let_def split: prod.splits)
  then show ?thesis by (simp add: classify_block_def header_batch_def)
qed

lemma apply_fresh_utxos:
  assumes "apply_fresh_block X reg blk d = Inr d'"
  shows "d_utxos d' = apply_utxos X reg blk (d_utxos d)"
proof -
  obtain epoch start and d1 :: db and n1 where
    ev: "fold_result (apply_event X epoch blk) (bk_events blk)
        (d\<lparr>d_utxos := apply_utxos X reg blk (d_utxos d)\<rparr>, start) = Inr (d1, n1)"
    and u: "d_utxos d' = d_utxos d1"
    by (rule apply_fresh_block_stages [OF assms])
  have "d_utxos (fst (d1, n1)) = apply_utxos X reg blk (d_utxos d)"
  proof (rule fold_result_inv [OF ev, where P = "\<lambda>s. d_utxos (fst s) = apply_utxos X reg blk (d_utxos d)"])
    show "d_utxos (fst s') = apply_utxos X reg blk (d_utxos d)"
      if "d_utxos (fst s) = apply_utxos X reg blk (d_utxos d)" "apply_event X epoch blk e s = Inr s'" for e s s'
      using that apply_event_chain(2) [of X epoch blk e "fst s" "snd s" "fst s'" "snd s'"] by simp
  qed simp
  with u show ?thesis by simp
qed

section \<open>The abstract ledger\<close>

text \<open>The outputs of a transaction that are bound to a covenant, with their outpoints.\<close>

definition bound_outputs :: "transaction \<Rightarrow> (outpoint \<times> bytes) list" where
  "bound_outputs tx =
     List.map_filter (\<lambda>(i, out). map_option (\<lambda>b. ((x_txid tx, i), cb_covenant_id b)) (o_covenant out))
       (enumerate 0 (x_outputs tx))"

definition spent_outpoints :: "transaction \<Rightarrow> outpoint set" where
  "spent_outpoints tx = i_previous_outpoint ` set (x_inputs tx)"

definition ledger_step :: "transaction \<Rightarrow> (outpoint \<rightharpoonup> bytes) \<Rightarrow> (outpoint \<rightharpoonup> bytes)" where
  "ledger_step tx L = (\<lambda>p. if p \<in> spent_outpoints tx then None else L p) ++ map_of (bound_outputs tx)"

text \<open>What a transaction of a block sees at an outpoint, after the transactions \<open>pre\<close> of the same block.\<close>

definition sees :: "db \<Rightarrow> transaction list \<Rightarrow> outpoint \<Rightarrow> bytes option" where
  "sees d pre = resolve_outpoint d (rev (concat (map bound_outputs pre)))"

definition spent_ids :: "db \<Rightarrow> transaction list \<Rightarrow> transaction \<Rightarrow> bytes set" where
  "spent_ids d pre tx = {cid. \<exists>inp \<in> set (x_inputs tx). sees d pre (i_previous_outpoint inp) = Some cid}"

definition created_ids :: "transaction \<Rightarrow> bytes set" where
  "created_ids tx = snd ` set (bound_outputs tx)"

definition touched_ids :: "db \<Rightarrow> transaction list \<Rightarrow> transaction \<Rightarrow> bytes set" where
  "touched_ids d pre tx = spent_ids d pre tx \<union> created_ids tx"

definition event_rule :: "node \<Rightarrow> db \<Rightarrow> transaction list \<Rightarrow> transaction \<Rightarrow> bytes \<Rightarrow> event_kind" where
  "event_rule N d pre tx cid =
     (if cid \<in> spent_ids d pre tx then (if cid \<in> created_ids tx then Transition else Burn)
      else if known_covenant d cid \<or> (\<exists>j < length pre. cid \<in> touched_ids d (take j pre) (pre ! j)) then Transition
      else if is_valid_genesis N tx cid then Genesis
      else Transition)"

definition tx_events :: "externals \<Rightarrow> node \<Rightarrow> db \<Rightarrow> transaction list \<Rightarrow> nat \<times> transaction \<Rightarrow> new_event list" where
  "tx_events X N d pre = (\<lambda>(i, tx).
     map (\<lambda>(k, cid). event_of X tx i k cid (event_rule N d pre tx cid))
       (enumerate 0 (sorted_list_of_set (touched_ids d pre tx))))"

section \<open>Counting what a transaction touches\<close>

lemma touch_wf [simp]: "bt_wf t \<Longrightarrow> bt_wf (touch n cid t)"
  by (simp add: touch_def)

lemma touch_get:
  "bt_wf t \<Longrightarrow> bt_get (touch n cid t) x =
     (if x = cid then Some (case bt_get t x of None \<Rightarrow> n | Some (s, c) \<Rightarrow> (s + fst n, c + snd n)) else bt_get t x)"
  by (simp add: touch_def bt_get_update)

text \<open>A count table: an entry for each covenant that is spent or created, with positive counts on the sides
  it is on.\<close>

definition counts :: "touched \<Rightarrow> bytes set \<Rightarrow> bytes set \<Rightarrow> bool" where
  "counts t S C \<longleftrightarrow>
     bt_wf t \<and> fst ` set t = S \<union> C \<and>
     (\<forall>cid s c. bt_get t cid = Some (s, c) \<longrightarrow> (s > 0 \<longleftrightarrow> cid \<in> S) \<and> (c > 0 \<longleftrightarrow> cid \<in> C))"

lemma counts_Nil: "counts [] {} {}"
  by (simp add: counts_def bt_get_def)

lemma keys_touch: "fst ` set (touch n cid t) = insert cid (fst ` set t)"
  by (simp add: touch_def keys_bt_update)

lemma counts_touch:
  assumes "counts t S C"
  shows "counts (touch (1, 0) cid t) (insert cid S) C" and "counts (touch (0, 1) cid t) S (insert cid C)"
proof -
  have wf: "bt_wf t" and keys: "fst ` set t = S \<union> C"
    and n: "\<And>x s c. bt_get t x = Some (s, c) \<Longrightarrow> (s > 0 \<longleftrightarrow> x \<in> S) \<and> (c > 0 \<longleftrightarrow> x \<in> C)"
    using assms by (simp_all add: counts_def)
  have none: "x \<notin> S" "x \<notin> C" if "bt_get t x = None" for x
    using that keys unfolding bt_get_None by blast+
  have a: "(s > 0 \<longleftrightarrow> x \<in> insert cid S) \<and> (c > 0 \<longleftrightarrow> x \<in> C)" if "bt_get (touch (1, 0) cid t) x = Some (s, c)" for x s c
    using that n none by (cases "bt_get t x") (auto simp: touch_get [OF wf] split: if_splits)
  have b: "(s > 0 \<longleftrightarrow> x \<in> S) \<and> (c > 0 \<longleftrightarrow> x \<in> insert cid C)" if "bt_get (touch (0, 1) cid t) x = Some (s, c)" for x s c
    using that n none by (cases "bt_get t x") (auto simp: touch_get [OF wf] split: if_splits)
  show "counts (touch (1, 0) cid t) (insert cid S) C" "counts (touch (0, 1) cid t) S (insert cid C)"
    unfolding counts_def keys_touch keys using wf a b by auto
qed

lemma counts_keys:
  assumes "counts t S C"
  shows "map fst t = sorted_list_of_set (S \<union> C)"
proof -
  have "sorted_wrt (<) (map fst t)" "S \<union> C = set (map fst t)" using assms by (simp_all add: counts_def bt_wf_def)
  then show ?thesis by (simp only: strict_sorted_iff sorted_list_of_set.idem_if_sorted_distinct)
qed

lemma counts_kind:
  assumes "counts t S C" and "(cid, n) \<in> set t"
  shows "classify_kind N known tx cid n =
    (if cid \<in> S then (if cid \<in> C then Transition else Burn)
     else if known cid then Transition else if is_valid_genesis N tx cid then Genesis else Transition)"
proof -
  obtain s c where n: "n = (s, c)" by fastforce
  have "bt_get t cid = Some n" using assms bt_get_Some [of t cid n] by (simp add: counts_def)
  with assms(1) have "s > 0 \<longleftrightarrow> cid \<in> S" "c > 0 \<longleftrightarrow> cid \<in> C" by (simp_all add: counts_def n)
  then show ?thesis by (auto simp: classify_kind_def n)
qed

section \<open>One transaction\<close>

lemma fold_inputs:
  assumes "counts t S C"
  shows "\<exists>t'. fold (classify_input d ov tx) (enumerate k inps) (t, spent) =
      (t', spent @ List.map_filter (\<lambda>(i, inp). if resolve_outpoint d ov (i_previous_outpoint inp) = None then None
         else Some (i_previous_outpoint inp, x_txid tx, i_signature_script inp, i_compute_budget inp, i)) (enumerate k inps)) \<and>
    counts t' (S \<union> {cid. \<exists>inp \<in> set inps. resolve_outpoint d ov (i_previous_outpoint inp) = Some cid}) C"
  using assms
proof (induction inps arbitrary: t S spent k)
  case Nil
  then show ?case by (simp add: map_filter_simps)
next
  case (Cons inp inps)
  show ?case
  proof (cases "resolve_outpoint d ov (i_previous_outpoint inp)")
    case None
    with Cons.IH [OF Cons.prems, of "Suc k" spent] show ?thesis
      by (simp add: classify_input_def map_filter_simps)
  next
    case (Some cid)
    let ?s = "(i_previous_outpoint inp, x_txid tx, i_signature_script inp, i_compute_budget inp, k)"
    have e: "S \<union> {c. \<exists>i \<in> set (inp # inps). resolve_outpoint d ov (i_previous_outpoint i) = Some c} =
        insert cid S \<union> {c. \<exists>i \<in> set inps. resolve_outpoint d ov (i_previous_outpoint i) = Some c}"
      using Some by auto
    from Cons.IH [OF counts_touch(1) [OF Cons.prems], of "Suc k" cid "spent @ [?s]"] Some show ?thesis
      unfolding e by (simp add: classify_input_def map_filter_simps)
  qed
qed

lemma fold_outputs:
  assumes "counts t S C"
  shows "\<exists>t' cs. fold (classify_output tx) (enumerate k outs) (t, ov, created) =
      (t', rev (List.map_filter (\<lambda>(i, out). map_option (\<lambda>b. ((x_txid tx, i), cb_covenant_id b)) (o_covenant out))
          (enumerate k outs)) @ ov, created @ cs) \<and>
    map (\<lambda>u. (nu_outpoint u, nu_covenant_id u)) cs =
      List.map_filter (\<lambda>(i, out). map_option (\<lambda>b. ((x_txid tx, i), cb_covenant_id b)) (o_covenant out)) (enumerate k outs) \<and>
    counts t' S (C \<union> snd ` set (List.map_filter
      (\<lambda>(i, out). map_option (\<lambda>b. ((x_txid tx, i), cb_covenant_id b)) (o_covenant out)) (enumerate k outs)))"
  using assms
proof (induction outs arbitrary: t C ov created k)
  case Nil
  then show ?case by (simp add: map_filter_simps)
next
  case (Cons out outs)
  show ?case
  proof (cases "o_covenant out")
    case None
    with Cons.IH [OF Cons.prems, of "Suc k" ov created] show ?thesis
      by (simp add: classify_output_def map_filter_simps)
  next
    case (Some b)
    let ?u = "\<lparr>nu_outpoint = (x_txid tx, k), nu_covenant_id = cb_covenant_id b, nu_value = o_value out,
       nu_spk_version = o_spk_version out, nu_spk_script = o_spk_script out\<rparr>"
    from Cons.IH [OF counts_touch(2) [OF Cons.prems], of "Suc k" "cb_covenant_id b"
        "((x_txid tx, k), cb_covenant_id b) # ov" "created @ [?u]"]
    obtain t' cs where "fold (classify_output tx) (enumerate (Suc k) outs)
          (touch (0, 1) (cb_covenant_id b) t, ((x_txid tx, k), cb_covenant_id b) # ov, created @ [?u]) =
        (t', rev (List.map_filter (\<lambda>(i, out). map_option (\<lambda>b. ((x_txid tx, i), cb_covenant_id b)) (o_covenant out))
          (enumerate (Suc k) outs)) @ ((x_txid tx, k), cb_covenant_id b) # ov, (created @ [?u]) @ cs)"
      "map (\<lambda>u. (nu_outpoint u, nu_covenant_id u)) cs = List.map_filter
        (\<lambda>(i, out). map_option (\<lambda>b. ((x_txid tx, i), cb_covenant_id b)) (o_covenant out)) (enumerate (Suc k) outs)"
      "counts t' S (insert (cb_covenant_id b) C \<union> snd ` set (List.map_filter
        (\<lambda>(i, out). map_option (\<lambda>b. ((x_txid tx, i), cb_covenant_id b)) (o_covenant out)) (enumerate (Suc k) outs)))"
      by blast
    with Some show ?thesis
      by (intro exI [of _ t'] exI [of _ "?u # cs"]) (simp add: classify_output_def map_filter_simps)
  qed
qed
section \<open>A block\<close>

definition tx_spends :: "db \<Rightarrow> transaction list \<Rightarrow> transaction \<Rightarrow> spent_utxo list" where
  "tx_spends d pre tx =
     List.map_filter (\<lambda>(i, inp). if sees d pre (i_previous_outpoint inp) = None then None
         else Some (i_previous_outpoint inp, x_txid tx, i_signature_script inp, i_compute_budget inp, i))
       (enumerate 0 (x_inputs tx))"

text \<open>The parts of a batch, one per transaction, each computed from the transactions before it.\<close>

definition per_tx :: "(transaction list \<Rightarrow> nat \<times> transaction \<Rightarrow> 'a list) \<Rightarrow> (nat \<times> transaction) list \<Rightarrow> 'a list" where
  "per_tx f txs = concat (map (\<lambda>k. f (map snd (take k txs)) (txs ! k)) [0..<length txs])"

lemma per_tx_snoc: "per_tx f (txs @ [t]) = per_tx f txs @ f (map snd txs) t"
proof -
  have old: "map (\<lambda>k. f (map snd (take k (txs @ [t]))) ((txs @ [t]) ! k)) [0..<length txs] =
      map (\<lambda>k. f (map snd (take k txs)) (txs ! k)) [0..<length txs]"
    by (rule map_cong) (auto simp: nth_append)
  have up: "[0..<length (txs @ [t])] = [0..<length txs] @ [length txs]" by simp
  show ?thesis unfolding per_tx_def up map_append old concat_append by simp
qed

lemma per_tx_Nil [simp]: "per_tx f [] = []"
  by (simp add: per_tx_def)

text \<open>Covenants touched by the transactions so far.\<close>

definition touched_before :: "db \<Rightarrow> transaction list \<Rightarrow> bytes set" where
  "touched_before d pre = {cid. \<exists>j < length pre. cid \<in> touched_ids d (take j pre) (pre ! j)}"

lemma touched_before_snoc: "touched_before d (pre @ [tx]) = touched_before d pre \<union> touched_ids d pre tx"
proof -
  let ?P = "\<lambda>pre' cid j. cid \<in> touched_ids d (take j pre') (pre' ! j)"
  have old: "?P (pre @ [tx]) cid j \<longleftrightarrow> ?P pre cid j" if "j < length pre" for cid j using that by (simp add: nth_append)
  have "(\<exists>j < length (pre @ [tx]). ?P (pre @ [tx]) cid j) \<longleftrightarrow>
      (\<exists>j < length pre. ?P pre cid j) \<or> cid \<in> touched_ids d pre tx" for cid
  proof -
    have "?P (pre @ [tx]) cid (length pre) \<longleftrightarrow> cid \<in> touched_ids d pre tx" by simp
    then show ?thesis unfolding length_append_singleton using old less_Suc_eq by metis
  qed
  then show ?thesis unfolding touched_before_def by blast
qed

lemma classify_tx_step:
  assumes "cl_created_overlay s = rev (concat (map bound_outputs pre))" and "set (cl_known_overlay s) = touched_before d pre"
  shows "\<exists>cs. classify_tx X N d prep (i, tx) s =
      \<lparr>cl_batch = (cl_batch s)\<lparr>bk_transactions := bk_transactions (cl_batch s) @ [prepare_accepted tx prep],
          bk_spent_utxos := bk_spent_utxos (cl_batch s) @ tx_spends d pre tx,
          bk_created_utxos := bk_created_utxos (cl_batch s) @ cs,
          bk_events := bk_events (cl_batch s) @ tx_events X N d pre (i, tx)\<rparr>,
       cl_created_overlay = rev (concat (map bound_outputs (pre @ [tx]))),
       cl_known_overlay = sorted_list_of_set (touched_ids d pre tx) @ cl_known_overlay s\<rparr> \<and>
    map (\<lambda>u. (nu_outpoint u, nu_covenant_id u)) cs = bound_outputs tx"
proof -
  let ?b = "cl_batch s" and ?ov = "cl_created_overlay s"
  have sees: "resolve_outpoint d ?ov p = sees d pre p" for p by (simp add: sees_def assms(1))
  from fold_inputs [OF counts_Nil, of d ?ov tx 0 "x_inputs tx" "bk_spent_utxos ?b"]
  obtain t1 where t1: "fold (classify_input d ?ov tx) (enumerate 0 (x_inputs tx)) ([], bk_spent_utxos ?b) =
      (t1, bk_spent_utxos ?b @ tx_spends d pre tx)" "counts t1 (spent_ids d pre tx) {}"
    unfolding sees by (auto simp: tx_spends_def spent_ids_def)
  from fold_outputs [OF t1(2), of tx 0 "x_outputs tx" ?ov "bk_created_utxos ?b"]
  obtain t2 cs where t2: "fold (classify_output tx) (enumerate 0 (x_outputs tx)) (t1, ?ov, bk_created_utxos ?b) =
      (t2, rev (bound_outputs tx) @ ?ov, bk_created_utxos ?b @ cs)"
    "map (\<lambda>u. (nu_outpoint u, nu_covenant_id u)) cs = bound_outputs tx"
    "counts t2 (spent_ids d pre tx) (created_ids tx)"
    unfolding created_ids_def bound_outputs_def by auto
  let ?known = "\<lambda>cid. cid \<in> set (cl_known_overlay s) \<or> known_covenant d cid"
  have known: "?known cid \<longleftrightarrow> known_covenant d cid \<or> (\<exists>j < length pre. cid \<in> touched_ids d (take j pre) (pre ! j))" for cid
    by (auto simp: assms(2) touched_before_def)
  have rule: "classify_kind N ?known tx cid n = event_rule N d pre tx cid" if "(cid, n) \<in> set t2" for cid n
    unfolding counts_kind [OF t2(3) that] event_rule_def known by (rule refl)
  have keys: "map fst t2 = sorted_list_of_set (touched_ids d pre tx)"
    using counts_keys [OF t2(3)] by (simp add: touched_ids_def)
  have "map (\<lambda>(k, cid, n). event_of X tx i k cid (classify_kind N ?known tx cid n)) (enumerate m t) =
      map (\<lambda>(k, cid). event_of X tx i k cid (event_rule N d pre tx cid)) (enumerate m (map fst t))"
    if "set t \<subseteq> set t2" for m t
    using that by (induction t arbitrary: m) (auto simp: rule)
  from this [of t2 0] have "map (\<lambda>(k, cid, n). event_of X tx i k cid (classify_kind N ?known tx cid n)) (enumerate 0 t2) =
      tx_events X N d pre (i, tx)" by (simp add: keys tx_events_def)
  with t1(1) t2(1,2) keys show ?thesis
    by (intro exI [of _ cs]) (simp add: classify_tx_def Let_def assms(1))
qed

lemma finite_touched: "finite (touched_ids d pre tx)"
proof -
  have "spent_ids d pre tx \<subseteq> (\<lambda>inp. the (sees d pre (i_previous_outpoint inp))) ` set (x_inputs tx)"
    by (force simp: spent_ids_def)
  then show ?thesis by (auto simp: touched_ids_def created_ids_def intro: finite_subset)
qed

lemma classify_state:
  assumes "s = fold (classify_tx X N d prep) txs \<lparr>cl_batch = header_batch a blk, cl_created_overlay = [], cl_known_overlay = []\<rparr>"
  shows "cl_created_overlay s = rev (concat (map bound_outputs (map snd txs))) \<and>
    set (cl_known_overlay s) = touched_before d (map snd txs) \<and>
    bk_events (cl_batch s) = per_tx (tx_events X N d) txs \<and>
    bk_spent_utxos (cl_batch s) = per_tx (\<lambda>pre (i, tx). tx_spends d pre tx) txs \<and>
    map (\<lambda>u. (nu_outpoint u, nu_covenant_id u)) (bk_created_utxos (cl_batch s)) = concat (map bound_outputs (map snd txs))"
  using assms
proof (induction txs arbitrary: s rule: rev_induct)
  case Nil
  then show ?case by (simp add: header_batch_def touched_before_def)
next
  case (snoc t txs)
  obtain i tx where t: "t = (i, tx)" by fastforce
  let ?s = "fold (classify_tx X N d prep) txs \<lparr>cl_batch = header_batch a blk, cl_created_overlay = [], cl_known_overlay = []\<rparr>"
  note ih = snoc.IH [OF refl]
  from classify_tx_step [of ?s "map snd txs" d X N prep i tx] ih obtain cs where
    "s = \<lparr>cl_batch = (cl_batch ?s)\<lparr>bk_transactions := bk_transactions (cl_batch ?s) @ [prepare_accepted tx prep],
          bk_spent_utxos := bk_spent_utxos (cl_batch ?s) @ tx_spends d (map snd txs) tx,
          bk_created_utxos := bk_created_utxos (cl_batch ?s) @ cs,
          bk_events := bk_events (cl_batch ?s) @ tx_events X N d (map snd txs) (i, tx)\<rparr>,
       cl_created_overlay = rev (concat (map bound_outputs (map snd txs @ [tx]))),
       cl_known_overlay = sorted_list_of_set (touched_ids d (map snd txs) tx) @ cl_known_overlay ?s\<rparr>"
    "map (\<lambda>u. (nu_outpoint u, nu_covenant_id u)) cs = bound_outputs tx"
    using snoc.prems by (auto simp: t)
  with ih show ?case
    by (simp add: t per_tx_snoc touched_before_snoc finite_touched Un_commute)
qed

text \<open>C6. The events of a block, by the rule: for each accepted transaction in order, one event for every
  covenant it spends a visible cell of or binds an output to, in the order of the covenant ids; a burn when it
  only spends, a genesis when it only binds, the covenant was never seen and the id proves itself, a
  transition otherwise.\<close>

theorem classified_events:
  "bk_events (classify_block X N d prep accepted accepting txs) = per_tx (tx_events X N d) txs"
  using classify_state [OF refl] by (simp add: classify_block_def)

section \<open>The cells a block leaves live\<close>

definition live_in :: "utxo_row list \<Rightarrow> outpoint \<Rightarrow> bytes option" where
  "live_in us p = map_option u_covenant_id (find (\<lambda>u. utxo_key u = p \<and> u_spent_block u = None) us)"

lemma live_covenant_utxo_in: "live_covenant_utxo d = live_in (d_utxos d)"
  by (rule ext) (simp add: live_covenant_utxo_def live_in_def)

lemma live_key: "live_in us p = Some cid \<Longrightarrow> p \<in> utxo_key ` set us"
  by (auto simp: live_in_def find_Some_iff)

lemma live_create:
  assumes "nu_outpoint u \<notin> utxo_key ` set us"
  shows "live_in (create_utxo reg B daa u us) = (live_in us)(nu_outpoint u \<mapsto> nu_covenant_id u)"
proof (rule ext)
  fix p
  have k: "utxo_key (created_row reg B daa u) = nu_outpoint u" "u_spent_block (created_row reg B daa u) = None"
    "u_covenant_id (created_row reg B daa u) = nu_covenant_id u" by (simp_all add: created_row_def)
  have e: "create_utxo reg B daa u us = us @ [created_row reg B daa u]"
    using assms by (simp add: create_utxo_def upsert_def k)
  have "find P (xs @ [y]) = (case find P xs of None \<Rightarrow> if P y then Some y else None | Some z \<Rightarrow> Some z)"
    for P and xs :: "utxo_row list" and y by (induction xs) auto
  moreover have "live_in us (nu_outpoint u) = None" using assms live_key by fastforce
  ultimately show "live_in (create_utxo reg B daa u us) p = ((live_in us)(nu_outpoint u \<mapsto> nu_covenant_id u)) p"
    using k by (auto simp: e live_in_def split: option.splits)
qed

lemma live_creates:
  assumes "distinct (map nu_outpoint ns)" and "nu_outpoint ` set ns \<inter> utxo_key ` set us = {}"
  shows "live_in (fold (create_utxo reg B daa) ns us) =
    live_in us ++ map_of (rev (map (\<lambda>u. (nu_outpoint u, nu_covenant_id u)) ns))"
  using assms
proof (induction ns arbitrary: us)
  case (Cons n ns)
  have n: "nu_outpoint n \<notin> utxo_key ` set us" using Cons.prems(2) by auto
  have "utxo_key ` set (create_utxo reg B daa n us) = insert (nu_outpoint n) (utxo_key ` set us)"
    by (simp add: create_utxo_def keys_upsert created_row_def)
  with Cons.prems have "nu_outpoint ` set ns \<inter> utxo_key ` set (create_utxo reg B daa n us) = {}" by auto
  from Cons.IH [OF _ this] Cons.prems(1) show ?case by (simp add: live_create [OF n] del: fun_upd_apply)
qed simp

lemma live_mark:
  "live_in (mark_spent X reg B s us) p = (if p = fst s then None else live_in us p)"
proof -
  obtain q txid sig budget ix where s: "s = (q, txid, sig, budget, ix)" by (cases s) auto
  let ?m = "mark_row X reg B txid sig budget ix"
  have k: "utxo_key (?m u) = utxo_key u" "u_spent_block (?m u) \<noteq> None" for u by (simp_all add: mark_row_def)
  show ?thesis
    unfolding s mark_spent_def live_in_def Let_def prod.case fst_conv
    by (induction us) (auto simp: k mark_row_def)
qed

lemma live_marks:
  "live_in (fold (mark_spent X reg B) ss us) p = (if p \<in> fst ` set ss then None else live_in us p)"
  by (induction ss arbitrary: us) (auto simp: live_mark)

text \<open>A block over transactions that are new to the store, each listed once.\<close>

definition new_txs :: "db \<Rightarrow> transaction list \<Rightarrow> bool" where
  "new_txs d txs \<longleftrightarrow> distinct (map x_txid txs) \<and> x_txid ` set txs \<inter> u_txid ` set (d_utxos d) = {}"

lemma bound_txid: "(p, cid) \<in> set (bound_outputs tx) \<Longrightarrow> fst p = x_txid tx"
  by (auto simp: bound_outputs_def List.map_filter_def)

lemma created_txid: "p \<in> fst ` set (concat (map bound_outputs txs)) \<Longrightarrow> fst p \<in> x_txid ` set txs"
  by (auto dest!: bound_txid)

lemma bound_distinct: "distinct (map fst (bound_outputs tx))"
proof -
  have "distinct (map fst (List.map_filter (\<lambda>(i, out). map_option (\<lambda>b. ((x_txid tx, i), cb_covenant_id b)) (o_covenant out))
      (enumerate k outs))) \<and> (\<forall>p \<in> set (List.map_filter (\<lambda>(i, out). map_option (\<lambda>b. ((x_txid tx, i), cb_covenant_id b)) (o_covenant out))
      (enumerate k outs)). k \<le> snd (fst p))" for k outs
  proof (induction outs arbitrary: k)
    case (Cons out outs)
    from Cons.IH [of "Suc k"] show ?case by (cases "o_covenant out") (force simp: map_filter_simps)+
  qed (simp add: map_filter_simps)
  then show ?thesis unfolding bound_outputs_def by blast
qed

lemma created_distinct:
  assumes "distinct (map x_txid txs)"
  shows "distinct (map fst (concat (map bound_outputs txs)))"
  using assms
proof (induction txs)
  case (Cons tx txs)
  have "p \<notin> fst ` set (concat (map bound_outputs txs))" if "p \<in> fst ` set (bound_outputs tx)" for p
  proof
    assume "p \<in> fst ` set (concat (map bound_outputs txs))"
    with that have "fst p = x_txid tx" "fst p \<in> x_txid ` set txs" by (auto dest!: bound_txid)
    with Cons.prems show False by auto
  qed
  then have "fst ` set (bound_outputs tx) \<inter> fst ` set (concat (map bound_outputs txs)) = {}" by blast
  with Cons bound_distinct [of tx] show ?case by simp
qed simp

lemma sees_map: "sees d pre p = (live_covenant_utxo d ++ map_of (rev (concat (map bound_outputs pre)))) p"
  by (simp add: sees_def resolve_outpoint_def map_add_def)

lemma spends_outpoints: "fst ` set (tx_spends d pre tx) = {p \<in> spent_outpoints tx. sees d pre p \<noteq> None}"
proof -
  have "fst ` set (List.map_filter (\<lambda>(i, inp). if sees d pre (i_previous_outpoint inp) = None then None
         else Some (i_previous_outpoint inp, x_txid tx, i_signature_script inp, i_compute_budget inp, i)) (enumerate k inps)) =
      {p \<in> i_previous_outpoint ` set inps. sees d pre p \<noteq> None}" for k inps
    by (induction inps arbitrary: k) (auto simp: map_filter_simps)
  then show ?thesis by (simp add: tx_spends_def spent_outpoints_def)
qed

lemma map_of_rev_distinct: "distinct (map fst xs) \<Longrightarrow> map_of (rev xs) = map_of xs"
  by (subst map_of_inject_set) (simp_all add: rev_map [symmetric])

lemma sees_snoc: "sees d (pre @ [tx]) = sees d pre ++ map_of (bound_outputs tx)"
  by (rule ext) (simp add: sees_map map_add_def map_of_rev_distinct [OF bound_distinct] split: option.splits)

lemma sees_other_txids:
  assumes "fst p \<notin> x_txid ` set pre" and "fst p \<notin> u_txid ` set (d_utxos d)"
  shows "sees d pre p = None"
proof -
  have "p \<notin> fst ` set (rev (concat (map bound_outputs pre)))" using assms(1) by (force dest!: bound_txid)
  then have "map_of (rev (concat (map bound_outputs pre))) p = None" by (simp add: map_of_eq_None_iff)
  moreover have "live_covenant_utxo d p = None"
    using assms(2) live_key [of "d_utxos d" p] unfolding live_covenant_utxo_in by (cases "live_in (d_utxos d) p") force+
  ultimately show ?thesis by (simp add: sees_map map_add_def)
qed

text \<open>The ledger after a prefix of the block: what the block sees, less what the prefix spent.\<close>

lemma ledger_prefix:
  assumes "new_txs d (map snd txs)"
  shows "fold ledger_step (map snd txs) (live_covenant_utxo d) =
      (\<lambda>p. if p \<in> fst ` set (per_tx (\<lambda>pre (i, tx). tx_spends d pre tx) txs) then None else sees d (map snd txs) p) \<and>
    (\<forall>p \<in> fst ` set (per_tx (\<lambda>pre (i, tx). tx_spends d pre tx) txs). sees d (map snd txs) p \<noteq> None)"
  using assms
proof (induction txs rule: rev_induct)
  case Nil
  show ?case by (simp add: sees_map fun_eq_iff)
next
  case (snoc t txs)
  obtain i tx where t: "t = (i, tx)" by fastforce
  let ?pre = "map snd txs"
  let ?spent = "fst ` set (per_tx (\<lambda>pre (i, tx). tx_spends d pre tx) txs)"
  let ?new = "{p \<in> spent_outpoints tx. sees d ?pre p \<noteq> None}"
  have pre: "new_txs d ?pre" using snoc.prems by (auto simp: new_txs_def)
  note ih = snoc.IH [OF pre]
  have spent: "fst ` set (per_tx (\<lambda>pre (i, tx). tx_spends d pre tx) (txs @ [t])) = ?spent \<union> ?new"
    by (simp add: per_tx_snoc t image_Un spends_outpoints)
  have unseen: "sees d ?pre p = None" if "map_of (bound_outputs tx) p = Some cid" for p cid
  proof (rule sees_other_txids)
    have p: "fst p = x_txid tx" using that by (blast dest: map_of_SomeD bound_txid)
    show "fst p \<notin> x_txid ` set ?pre" using snoc.prems by (simp add: p new_txs_def t image_image)
    show "fst p \<notin> u_txid ` set (d_utxos d)" using snoc.prems by (simp add: p new_txs_def t)
  qed
  have 1: "ledger_step tx (\<lambda>p. if p \<in> ?spent then None else sees d ?pre p) p =
      (if p \<in> ?spent \<union> ?new then None else sees d (?pre @ [tx]) p)" for p
  proof (cases "map_of (bound_outputs tx) p")
    case None
    then show ?thesis by (simp add: ledger_step_def sees_snoc map_add_def)
  next
    case (Some cid)
    with unseen ih have "p \<notin> ?spent \<union> ?new" by fastforce
    with Some show ?thesis by (simp add: ledger_step_def sees_snoc map_add_def)
  qed
  have 2: "sees d (?pre @ [tx]) p \<noteq> None" if "p \<in> ?spent \<union> ?new" for p
    using that ih by (auto simp: sees_snoc map_add_def split: option.splits)
  have m: "map snd (txs @ [t]) = ?pre @ [tx]" by (simp add: t)
  have "fold ledger_step (?pre @ [tx]) L = ledger_step tx (fold ledger_step ?pre L)" for L by simp
  then show ?case unfolding spent m using 1 2 conjunct1 [OF ih] by (intro conjI ext ballI) simp_all
qed

lemma classify_ledger:
  assumes "new_txs d (map snd txs)"
  shows "live_in (apply_utxos X reg (classify_block X N d prep accepted accepting txs) (d_utxos d)) =
    fold ledger_step (map snd txs) (live_covenant_utxo d)"
proof -
  let ?b = "classify_block X N d prep accepted accepting txs"
  have c: "map (\<lambda>u. (nu_outpoint u, nu_covenant_id u)) (bk_created_utxos ?b) = concat (map bound_outputs (map snd txs))"
    and s: "bk_spent_utxos ?b = per_tx (\<lambda>pre (i, tx). tx_spends d pre tx) txs"
    using classify_state [OF refl] by (simp_all add: classify_block_def)
  have keys: "map nu_outpoint (bk_created_utxos ?b) = map fst (concat (map bound_outputs (map snd txs)))"
    unfolding c [symmetric] by simp
  have dist: "distinct (map nu_outpoint (bk_created_utxos ?b))"
    unfolding keys by (rule created_distinct) (use assms in \<open>simp add: new_txs_def\<close>)
  have "nu_outpoint ` set (bk_created_utxos ?b) = fst ` set (concat (map bound_outputs (map snd txs)))"
    using arg_cong [OF keys, of set] by simp
  then have "fst p \<in> x_txid ` snd ` set txs" if "p \<in> nu_outpoint ` set (bk_created_utxos ?b)" for p
    using that created_txid [of p "map snd txs"] by simp
  moreover have "fst p \<in> u_txid ` set (d_utxos d)" if "p \<in> utxo_key ` set (d_utxos d)" for p
    using that by auto
  moreover have "x_txid ` snd ` set txs \<inter> u_txid ` set (d_utxos d) = {}" using assms by (simp add: new_txs_def)
  ultimately have new: "nu_outpoint ` set (bk_created_utxos ?b) \<inter> utxo_key ` set (d_utxos d) = {}" by blast
  have "live_in (apply_utxos X reg ?b (d_utxos d)) p =
      (if p \<in> fst ` set (bk_spent_utxos ?b) then None
       else (live_in (d_utxos d) ++ map_of (rev (map (\<lambda>u. (nu_outpoint u, nu_covenant_id u)) (bk_created_utxos ?b)))) p)" for p
    by (simp only: apply_utxos_def live_marks live_creates [OF dist new])
  then show ?thesis
    unfolding conjunct1 [OF ledger_prefix [OF assms]] by (simp add: c s sees_map live_covenant_utxo_in fun_eq_iff)
qed

section \<open>An example\<close>

text \<open>A chain block that accepts one transaction, a genesis, from a node whose hash proves it.\<close>

definition demo_genesis :: transaction where
  "demo_genesis = \<lparr>x_txid = replicate 32 5, x_version = 0,
     x_inputs = [\<lparr>i_previous_outpoint = (replicate 32 3, 0), i_signature_script = [], i_compute_budget = 0\<rparr>],
     x_outputs = [\<lparr>o_value = 7, o_spk_version = 0, o_spk_script = [0x51],
       o_covenant = Some \<lparr>cb_covenant_id = replicate 32 9, cb_authorizing_input = 0\<rparr>\<rparr>],
     x_payload = []\<rparr>"

definition demo_accepted :: accepted_block where
  "demo_accepted = \<lparr>ab_accepting_block = replicate 32 2, ab_accepted_tx_ids = [replicate 32 5]\<rparr>"

definition demo_block :: block where
  "demo_block = \<lparr>bl_hash = replicate 32 2, bl_daa_score = 100, bl_blue_score = 90, bl_timestamp_ms = 1000,
     bl_parents = [], bl_mergeset = [], bl_transactions = [demo_genesis]\<rparr>"

definition demo_step :: chain_step where
  "demo_step = \<lparr>cp_removed = [], cp_added = [demo_accepted]\<rparr>"

definition demo_node :: node where
  "demo_node = \<lparr>nd_dag_info = Inl ''offline'', nd_virtual_chain_from = \<lambda>_. Inr demo_step,
     nd_block_with_txs = \<lambda>_ _ _. Inr demo_block, nd_completed = id, nd_covenant_id = \<lambda>_ _. replicate 32 9\<rparr>"

end
