(* ===== verification/Sync_Laws.thy ===== *)
theory Sync_Laws
  imports Stream_History Classify_Laws
begin

text \<open>
  What a pass over the chain does to a store, whatever the node answers: it is a history of the store, its
  updates are the deliveries the store logged, its cursor never runs ahead of what was applied, and the
  watch asks for a recovery after exactly ten passes that stood still far from the tip.
\<close>

section \<open>The progress watch\<close>

text \<open>The verdicts on a list of passes, each with the processed DAA score and the tip, and the watch after them.\<close>

definition watch_passes :: "(nat option \<times> nat option) list \<Rightarrow> pass_verdict list \<times> progress_watch" where
  "watch_passes obs =
     foldl (\<lambda>(vs, w). \<lambda>(p, t). let (v, w') = observe p t w in (vs @ [v], w')) ([], fresh_watch) obs"

text \<open>The latest processed score that was known before a pass, and the passes that stood still: behind the
  tip by more than \<open>WEDGE_LAG_DAA\<close>, with the score of the pass before.\<close>

definition latest :: "'a option list \<Rightarrow> 'a option" where
  "latest xs = find_map id (rev xs)"

definition stood_still :: "(nat option \<times> nat option) list \<Rightarrow> nat \<Rightarrow> bool" where
  "stood_still obs i \<longleftrightarrow>
     (case obs ! i of
        (Some p, Some t) \<Rightarrow> t - p > WEDGE_LAG_DAA \<and> latest (map fst (take i obs)) = Some p
      | _ \<Rightarrow> False)"

definition streak :: "(nat option \<times> nat option) list \<Rightarrow> nat" where
  "streak obs = length (takeWhile (stood_still obs) (rev [0..<length obs]))"

lemma latest_snoc: "latest (xs @ [x]) = (case x of None \<Rightarrow> latest xs | Some v \<Rightarrow> Some v)"
  by (simp add: latest_def split: option.splits)

lemma latest_some: "x \<noteq> None \<Longrightarrow> latest (xs @ [x]) = x"
  by (auto simp: latest_snoc)

lemma stood_still_snoc: "i < length obs \<Longrightarrow> stood_still (obs @ [ob]) i = stood_still obs i"
  by (simp add: stood_still_def nth_append split: prod.splits option.splits)

lemma streak_snoc:
  "streak (obs @ [ob]) = (if stood_still (obs @ [ob]) (length obs) then Suc (streak obs) else 0)"
proof -
  have "takeWhile (stood_still (obs @ [ob])) (rev [0..<length obs]) = takeWhile (stood_still obs) (rev [0..<length obs])"
    by (rule takeWhile_cong) (auto simp: stood_still_snoc)
  then show ?thesis by (simp add: streak_def)
qed

lemma watch_snoc:
  "watch_passes (obs @ [(p, t)]) =
     (let (vs, w) = watch_passes obs; (v, w') = observe p t w in (vs @ [v], w'))"
  by (simp add: watch_passes_def split: prod.splits)

text \<open>What one pass does to the watch.\<close>

lemma observe_still:
  assumes "p \<noteq> None" and "p = wa_last_processed w" and "lagging p t"
  shows "observe p t w =
    (\<lparr>pv_advanced = False, pv_demand_recovery = (wa_stuck_passes w + 1 \<ge> WEDGE_PASSES)\<rparr>,
     w\<lparr>wa_stuck_passes := (if wa_stuck_passes w + 1 \<ge> WEDGE_PASSES then 0 else wa_stuck_passes w + 1)\<rparr>)"
  using assms by (simp add: observe_def Let_def)

lemma observe_moved:
  assumes "\<not> (p \<noteq> None \<and> p = wa_last_processed w \<and> lagging p t)"
  shows "snd (observe p t w) =
      \<lparr>wa_last_processed = (case p of None \<Rightarrow> wa_last_processed w | Some v \<Rightarrow> Some v), wa_stuck_passes = 0\<rparr>"
    and "\<not> pv_demand_recovery (fst (observe p t w))"
  using assms by (auto simp: observe_def Let_def lagging_def split: option.splits)

lemma watch_snoc_eqs:
  assumes "watch_passes obs = (vs, w)"
  shows "snd (watch_passes (obs @ [(p, t)])) = snd (observe p t w)"
    and "last (fst (watch_passes (obs @ [(p, t)]))) = fst (observe p t w)"
  by (simp_all add: watch_snoc assms split: prod.splits)

lemma watch_state:
  "wa_last_processed (snd (watch_passes obs)) = latest (map fst obs) \<and>
   wa_stuck_passes (snd (watch_passes obs)) = streak obs mod WEDGE_PASSES \<and>
   (obs \<noteq> [] \<longrightarrow> pv_demand_recovery (last (fst (watch_passes obs))) =
      (streak obs > 0 \<and> streak obs mod WEDGE_PASSES = 0))"
proof (induction obs rule: rev_induct)
  case Nil
  show ?case by (simp add: watch_passes_def fresh_watch_def latest_def streak_def)
next
  case (snoc ob obs)
  obtain p t where ob: "ob = (p, t)" by fastforce
  obtain vs w where w: "watch_passes obs = (vs, w)" by fastforce
  with snoc have ih: "wa_last_processed w = latest (map fst obs)" "wa_stuck_passes w = streak obs mod 10"
    by (simp_all add: WEDGE_PASSES_def)
  note eqs = watch_snoc_eqs [OF w, of p t]
  have still: "stood_still (obs @ [(p, t)]) (length obs) \<longleftrightarrow> p \<noteq> None \<and> p = wa_last_processed w \<and> lagging p t"
    by (auto simp: stood_still_def ih lagging_def split: option.splits)
  show ?case
  proof (cases "p \<noteq> None \<and> p = wa_last_processed w \<and> lagging p t")
    case True
    then have s: "streak (obs @ [(p, t)]) = Suc (streak obs)" unfolding streak_snoc still by (rule if_P)
    from True have "p \<noteq> None" by blast
    from latest_some [OF this, of "map fst obs"] have l: "latest (map fst (obs @ [(p, t)])) = p" by simp
    from True have f: "p \<noteq> None" "p = wa_last_processed w" "lagging p t" by blast+
    note ob' = observe_still [OF f, unfolded WEDGE_PASSES_def]
    show ?thesis unfolding ob eqs s l ob' WEDGE_PASSES_def using True ih(2) by (auto simp: mod_Suc)
  next
    case False
    then have s: "streak (obs @ [(p, t)]) = 0" unfolding streak_snoc still by (rule if_not_P)
    show ?thesis
      unfolding ob eqs s using observe_moved [OF False] by (simp add: ih(1) latest_snoc split: option.split)
  qed
qed

text \<open>C16. The watch demands a recovery after a pass exactly when the number of passes that just stood still,
  far behind the tip, is a positive multiple of ten: never earlier, never for an index that moves or is near
  the tip, and again after every further ten.\<close>

theorem watch_demands_iff:
  "pv_demand_recovery (last (fst (watch_passes (obs @ [ob])))) \<longleftrightarrow>
     streak (obs @ [ob]) > 0 \<and> streak (obs @ [ob]) mod WEDGE_PASSES = 0"
  using watch_state [of "obs @ [ob]"] by simp

section \<open>Following the updates\<close>

text \<open>The deliveries an update carries, and a consumer that holds the log so far and takes a delivery when it
  bears the next number.\<close>

definition carried :: "sync_update \<Rightarrow> delivery_record list" where
  "carried u =
     (case u of Committed b \<Rightarrow> cm_deliveries b | RemovedBatch r \<Rightarrow> cr_deliveries r | _ \<Rightarrow> [])"

definition follow :: "delivery_record \<Rightarrow> delivery_record list \<Rightarrow> delivery_record list" where
  "follow r held = (if seq_of r = Suc (length held) then held @ [r] else held)"

definition follow_updates :: "sync_update list \<Rightarrow> delivery_record list \<Rightarrow> delivery_record list" where
  "follow_updates updates held = fold follow (concat (map carried updates)) held"

lemma follow_updates_append [simp]:
  "follow_updates (us @ vs) held = follow_updates vs (follow_updates us held)"
  by (simp add: follow_updates_def)

lemma follow_updates_simps [simp]:
  "follow_updates [] held = held"
  "follow_updates [Committed b] held = fold follow (cm_deliveries b) held"
  "follow_updates [RemovedBatch r] held = fold follow (cr_deliveries r) held"
  "follow_updates [ReorgOf n] held = held" "follow_updates (progress stats) held = held"
  by (simp_all add: follow_updates_def carried_def progress_def)

lemma follow_new:
  assumes "map seq_of (held @ new) = [1..<m]"
  shows "fold follow new held = held @ new"
  using assms
proof (induction new arbitrary: held)
  case (Cons r new)
  have "length (map seq_of (held @ r # new)) = m - 1" unfolding Cons.prems by simp
  then have m: "length held < m - 1" by simp
  have "seq_of r = map seq_of (held @ r # new) ! length held" by (simp add: nth_append)
  also have "\<dots> = Suc (length held)" using m unfolding Cons.prems by simp
  finally have "follow r held = held @ [r]" by (simp add: follow_def)
  with Cons.IH [of "held @ [r]"] Cons.prems show ?case by simp
qed simp

lemma follow_old: "(\<And>r. r \<in> set rs \<Longrightarrow> seq_of r \<le> length held) \<Longrightarrow> fold follow rs held = held"
  by (induction rs) (force simp: follow_def)+

lemma stream_seqs:
  assumes "stream_ok d"
  shows "map seq_of (records d) = [1..<Suc (length (records d))]"
proof -
  from assms obtain n where n: "map l_stream_seq (d_delivery_log d) = [1..<n]" "1 \<le> n"
    and rows: "\<forall>l \<in> set (d_delivery_log d). delivery_row_of (l_data_json l) = l" by (auto simp: stream_ok_def)
  then have s: "map seq_of (records d) = [1..<n]" by (simp add: seqs_of_records [OF rows])
  from arg_cong [OF this, of length] n(2) have "n = Suc (length (records d))" by simp
  with s show ?thesis by simp
qed

lemma stored_seq:
  assumes "stream_ok d" and "r \<in> set (records d)"
  shows "seq_of r \<le> length (records d)"
proof -
  have "seq_of r \<in> set (map seq_of (records d))" using assms(2) by simp
  then show ?thesis unfolding stream_seqs [OF assms(1)] by auto
qed

lemma canonical_applied:
  "apply_accepted_block X reg blk d = Inr (res, d') \<Longrightarrow> canonical_batch_daa d (bk_accepting_block blk) = Some daa \<Longrightarrow>
     d' = d \<and> cm_deliveries res = canonical_deliveries_for_block d (bk_accepting_block blk)"
  by (auto simp: apply_accepted_block_def split: if_splits)

lemma apply_followed:
  assumes "store_run X reg network d" and "apply_accepted_block X reg blk d = Inr (res, d')"
  shows "fold follow (cm_deliveries res) (records d) = records d'"
proof (cases "canonical_batch_daa d (bk_accepting_block blk)")
  case None
  from store_run_ok [OF assms(1)] have ok: "stream_ok d" "queue_ok d" by simp_all
  note a = apply_delivers(1) [OF ok assms(2) None]
  have "stream_ok d'" using store_run_ok store_run.applied [OF assms] by blast
  from stream_seqs [OF this] show ?thesis unfolding a by (rule follow_new)
next
  case (Some daa)
  from store_run_ok [OF assms(1)] have ok: "stream_ok d" by simp
  note c = canonical_applied [OF assms(2) Some]
  have "set (cm_deliveries res) \<subseteq> set (records d)" by (auto simp: c canonical_listed [OF ok])
  with stored_seq [OF ok] have "fold follow (cm_deliveries res) (records d) = records d"
    by (intro follow_old) blast
  with c show ?thesis by simp
qed

lemma apply_empty_records:
  assumes "store_run X reg network d" and "apply_accepted_block X reg blk d = Inr (res, d')" and "bk_events blk = []"
  shows "records d' = records d"
proof (cases "canonical_batch_daa d (bk_accepting_block blk)")
  case None
  from store_run_ok [OF assms(1)] have ok: "stream_ok d" "queue_ok d" by simp_all
  from apply_delivers(1,3) [OF ok assms(2) None] assms(3) show ?thesis by simp
next
  case (Some daa)
  with canonical_applied [OF assms(2) Some] show ?thesis by simp
qed

lemma rollback_records:
  assumes "stream_ok d" and "rollback_removed_blocks X now removed d = Inr (res, d')"
  shows "records d' = records d @ cr_deliveries res"
proof (cases "canonical_removed d removed = []")
  case True
  with assms(2) show ?thesis by (auto simp: rollback_removed_blocks_def)
next
  case False
  obtain rs d1 where a: "append_removed_deliveries X (canonical_removed d removed) d = Inr (rs, d1)"
    and res: "res = \<lparr>cr_removed_blocks = canonical_removed d removed, cr_deliveries = rs\<rparr>"
    and raw: "d_delivery_log d' = d_delivery_log d1"
    by (rule rollback_stages [OF assms(2) False])
  from assms(1) obtain n where n: "transaction_next_stream_seq d = Inr n" by (auto simp: stream_ok_def)
  have "d_delivery_log d1 = d_delivery_log d @ map delivery_row_of rs"
    by (rule append_removed_stream [OF a n])
  with raw res show ?thesis by (intro records_append) simp
qed

lemma rollback_followed:
  assumes "store_run X reg network d" and "rollback_removed_blocks X now removed d = Inr (res, d')"
  shows "fold follow (cr_deliveries res) (records d) = records d'"
proof -
  from store_run_ok [OF assms(1)] have ok: "stream_ok d" by simp
  have "stream_ok d'" using store_run_ok store_run.rolled_back [OF assms] by blast
  from stream_seqs [OF this] show ?thesis unfolding rollback_records [OF ok assms(2)] by (rule follow_new)
qed

section \<open>A pass\<close>

lemma records_noted [simp]: "records (set_meta k v d) = records d"
  by (simp add: records_def)

lemma set_tip_run:
  "store_run X reg network d \<Longrightarrow> store_run X reg network (set_tip daa at_ms d) \<and> records (set_tip daa at_ms d) = records d"
  by (auto simp: set_tip_def intro!: store_run.noted)

lemma checkpoint_run:
  "store_run X reg network d \<Longrightarrow>
     store_run X reg network (checkpoint_cursor X blk daa d) \<and> records (checkpoint_cursor X blk daa d) = records d"
  by (auto simp: checkpoint_cursor_def intro!: store_run.noted)

text \<open>A block that the walk processed: it was classified, and then committed, checkpointed or passed over.\<close>

lemma walk_block_cases:
  assumes "walk_block X reg N prep accepted w = Inr w'"
  obtains accepting found b stats where
    "nd_block_with_txs N Prefetch (ab_accepting_block accepted) (ab_accepting_block accepted) = Inr accepting"
    and "resolve_accepted_bodies N accepted accepting = (found, 0)"
    and "b = classify_block X N (wk_db w) prep accepted accepting (indexed_bodies accepted found)"
    and "wk_last_seen w' = Some (ab_accepting_block accepted)" and "wk_last_daa w' = bl_daa_score accepting"
    and "(\<exists>res. apply_accepted_block X reg b (wk_db w) = Inr (res, wk_db w') \<and> wk_since_checkpoint w' = 0 \<and>
            wk_updates w' = wk_updates w @
              (if bk_events b = [] \<or> cm_deliveries res = [] then [] else [Committed res]) @ progress stats) \<or>
         bk_events b = [] \<and> wk_db w' = wk_db w \<and> wk_since_checkpoint w' = Suc (wk_since_checkpoint w) \<and>
           wk_updates w' = wk_updates w @ progress stats"
proof -
  from assms obtain accepting found where
    a: "nd_block_with_txs N Prefetch (ab_accepting_block accepted) (ab_accepting_block accepted) = Inr accepting"
    and r: "resolve_accepted_bodies N accepted accepting = (found, 0)"
    by (auto simp: walk_block_def Let_def split: sum.splits prod.splits if_splits)
  let ?b = "classify_block X N (wk_db w) prep accepted accepting (indexed_bodies accepted found)"
  consider (events) res d where "bk_events ?b \<noteq> []" "apply_accepted_block X reg ?b (wk_db w) = Inr (res, d)"
    | (checkpoint) res d where "bk_events ?b = []" "wk_since_checkpoint w + 1 \<ge> CHECKPOINT_EVERY"
        "apply_accepted_block X reg ?b (wk_db w) = Inr (res, d)"
    | (pass) "bk_events ?b = []" "\<not> wk_since_checkpoint w + 1 \<ge> CHECKPOINT_EVERY"
    using assms unfolding walk_block_def a r Let_def sum.case prod.case
    by (fastforce split: sum.splits if_splits)
  then show ?thesis
    using assms unfolding walk_block_def a r Let_def sum.case prod.case
    by cases (auto intro!: that [OF a r refl])
qed

lemma walk_block_run:
  assumes "store_run X reg network (wk_db w)" and "walk_block X reg N prep accepted w = Inr w'"
  shows "store_run X reg network (wk_db w') \<and>
    (\<exists>us. wk_updates w' = wk_updates w @ us \<and> follow_updates us (records (wk_db w)) = records (wk_db w'))"
  using assms(2)
proof (rule walk_block_cases)
  fix b stats
  assume "(\<exists>res. apply_accepted_block X reg b (wk_db w) = Inr (res, wk_db w') \<and> wk_since_checkpoint w' = 0 \<and>
            wk_updates w' = wk_updates w @
              (if bk_events b = [] \<or> cm_deliveries res = [] then [] else [Committed res]) @ progress stats) \<or>
         bk_events b = [] \<and> wk_db w' = wk_db w \<and> wk_since_checkpoint w' = Suc (wk_since_checkpoint w) \<and>
           wk_updates w' = wk_updates w @ progress stats"
  then show ?thesis
  proof (elim disjE exE conjE)
    fix res
    assume a: "apply_accepted_block X reg b (wk_db w) = Inr (res, wk_db w')"
      and u: "wk_updates w' = wk_updates w @
              (if bk_events b = [] \<or> cm_deliveries res = [] then [] else [Committed res]) @ progress stats"
    from apply_followed [OF assms(1) a] apply_empty_records [OF assms(1) a]
    have "follow_updates ((if bk_events b = [] \<or> cm_deliveries res = [] then [] else [Committed res]) @ progress stats)
        (records (wk_db w)) = records (wk_db w')" by auto
    with store_run.applied [OF assms(1) a] u show ?thesis by blast
  next
    assume "wk_db w' = wk_db w" "wk_updates w' = wk_updates w @ progress stats"
    with assms(1) show ?thesis by auto
  qed
qed

lemma walk_blocks_run:
  assumes "store_run X reg network (wk_db w)" and "walk_blocks X reg N prep as w = (e, w')"
  shows "store_run X reg network (wk_db w') \<and>
    (\<exists>us. wk_updates w' = wk_updates w @ us \<and> follow_updates us (records (wk_db w)) = records (wk_db w'))"
  using assms
proof (induction as arbitrary: w)
  case (Cons a as)
  show ?case
  proof (cases "walk_block X reg N prep a w")
    case (Inr w1)
    from walk_block_run [OF Cons.prems(1) Inr] obtain us where
      us: "store_run X reg network (wk_db w1)" "wk_updates w1 = wk_updates w @ us"
      "follow_updates us (records (wk_db w)) = records (wk_db w1)" by blast
    from Cons.IH [OF us(1)] Cons.prems(2) Inr obtain vs where
      "store_run X reg network (wk_db w')" "wk_updates w' = wk_updates w1 @ vs"
      "follow_updates vs (records (wk_db w1)) = records (wk_db w')" by auto
    with us show ?thesis by (intro conjI exI [of _ "us @ vs"]) simp_all
  qed (use Cons.prems in \<open>auto intro!: exI [of _ "[]"]\<close>)
qed (auto intro!: exI [of _ "[]"])

lemma roll_back_run:
  assumes "store_run X reg network d" and "roll_back_step X now removed d = Inr (us, d')"
  shows "store_run X reg network d' \<and> follow_updates us (records d) = records d'"
proof (cases "removed = []")
  case False
  with assms(2) obtain res where r: "rollback_removed_blocks X now removed d = Inr (res, d')"
    and us: "us = (if cr_deliveries res = [] then [] else [RemovedBatch res]) @ [ReorgOf (length removed)]"
    by (auto simp: roll_back_step_def map_sum_Inr)
  from rollback_followed [OF assms(1) r] have "follow_updates us (records d) = records d'"
    by (auto simp: us)
  with store_run.rolled_back [OF assms(1) r] show ?thesis by blast
qed (use assms in \<open>simp add: roll_back_step_def\<close>)

lemma start_cursor_run:
  assumes "store_run X reg network d" and "start_cursor X reg N from_block d = Inr (c, d')"
  shows "store_run X reg network d' \<and> records d' = records d"
proof (cases "cursor X d")
  case None
  with assms(2) obtain res where a: "apply_accepted_block X reg (empty_batch c) d = Inr (res, d')"
    by (auto simp: start_cursor_def map_sum_Inr split: sum.splits)
  with store_run.applied [OF assms(1) a] apply_empty_records [OF assms(1) a] show ?thesis
    by (simp add: empty_batch_def)
qed (use assms in \<open>simp add: start_cursor_def\<close>)

lemma final_checkpoint_run:
  assumes "store_run X reg network (wk_db w)" and "final_checkpoint X reg w = Inr d'"
  shows "store_run X reg network d' \<and> records d' = records (wk_db w)"
proof (cases "wk_since_checkpoint w > 0 \<and> wk_last_seen w \<noteq> None")
  case True
  with assms(2) obtain blk res where
    a: "apply_accepted_block X reg ((empty_batch blk)\<lparr>bk_accepting_daa := wk_last_daa w\<rparr>) (wk_db w) = Inr (res, d')"
    by (auto simp: final_checkpoint_def map_sum_Inr)
  with store_run.applied [OF assms(1) a] apply_empty_records [OF assms(1) a] show ?thesis
    by (simp add: empty_batch_def)
qed (use assms in \<open>auto simp: final_checkpoint_def split: option.splits bool.splits\<close>)

text \<open>The stages of a pass.\<close>

inductive sync_stages :: "externals \<Rightarrow> state_decoder list \<Rightarrow> node \<Rightarrow> application_decoder \<Rightarrow> nat \<Rightarrow> bytes option \<Rightarrow>
    db \<Rightarrow> string + sync_stats \<Rightarrow> sync_update list \<Rightarrow> db \<Rightarrow> bool"
  for X reg N prep now from_block where
  no_start: "sync_stages X reg N prep now from_block d (Inl e) [] d"
| no_walk: "start_cursor X reg N from_block d = Inr (c, d1) \<Longrightarrow>
    sync_stages X reg N prep now from_block d (Inl e) [] d1"
| walked: "start_cursor X reg N from_block d = Inr (c, d1) \<Longrightarrow> nd_virtual_chain_from N c = Inr step \<Longrightarrow>
    roll_back_step X now (cp_removed step) d1 = Inr (us, d2) \<Longrightarrow>
    walk_blocks X reg N prep (cp_added step)
      \<lparr>wk_db = d2, wk_stats = \<lparr>ss_chain_blocks = 0, ss_events = 0, ss_reorged_out = length (cp_removed step)\<rparr>,
       wk_updates = us, wk_since_checkpoint = 0, wk_last_seen = None, wk_last_daa = 0\<rparr> = (e, w) \<Longrightarrow>
    (e = None \<and> final_checkpoint X reg w = Inr d' \<and> r = Inr (wk_stats w) \<or> isl r \<and> d' = wk_db w) \<Longrightarrow>
    sync_stages X reg N prep now from_block d r (wk_updates w) d'"

lemma sync_once_stages:
  assumes "sync_once X reg N prep now from_block d = (r, us, d')"
  shows "sync_stages X reg N prep now from_block
    (case nd_dag_info N of Inl _ \<Rightarrow> d | Inr dag \<Rightarrow> set_tip (di_virtual_daa_score dag) now d) r us d'"
proof -
  let ?d = "case nd_dag_info N of Inl _ \<Rightarrow> d | Inr dag \<Rightarrow> set_tip (di_virtual_daa_score dag) now d"
  show ?thesis
  proof (cases "start_cursor X reg N from_block ?d")
    case (Inl e)
    with assms show ?thesis by (auto simp: sync_once_def Let_def intro: sync_stages.no_start)
  next
    case (Inr cd)
    then obtain c d1 where c: "start_cursor X reg N from_block ?d = Inr (c, d1)" by (cases cd) simp
    show ?thesis
    proof (cases "nd_virtual_chain_from N c")
      case (Inl e)
      with assms c show ?thesis by (auto simp: sync_once_def Let_def intro: sync_stages.no_walk)
    next
      case (Inr step)
      note step = this
      show ?thesis
      proof (cases "roll_back_step X now (cp_removed step) d1")
        case (Inl e)
        with assms c step show ?thesis by (auto simp: sync_once_def Let_def intro: sync_stages.no_walk)
      next
        case (Inr vd)
        then obtain vs d2 where b: "roll_back_step X now (cp_removed step) d1 = Inr (vs, d2)" by (cases vd) simp
        obtain e w where w: "walk_blocks X reg N prep (cp_added step)
          \<lparr>wk_db = d2, wk_stats = \<lparr>ss_chain_blocks = 0, ss_events = 0, ss_reorged_out = length (cp_removed step)\<rparr>,
           wk_updates = vs, wk_since_checkpoint = 0, wk_last_seen = None, wk_last_daa = 0\<rparr> = (e, w)" by fastforce
        have "us = wk_updates w \<and>
            (e = None \<and> final_checkpoint X reg w = Inr d' \<and> r = Inr (wk_stats w) \<or> isl r \<and> d' = wk_db w)"
          using assms by (auto simp: sync_once_def Let_def c step b w split: option.splits sum.splits)
        with sync_stages.walked [OF c step b w] show ?thesis by blast
      qed
    qed
  qed
qed

lemma sync_once_run:
  assumes "store_run X reg network d" and "sync_once X reg N prep now from_block d = (r, us, d')"
  shows "store_run X reg network d' \<and> follow_updates us (records d) = records d'"
proof -
  let ?d = "case nd_dag_info N of Inl _ \<Rightarrow> d | Inr dag \<Rightarrow> set_tip (di_virtual_daa_score dag) now d"
  have d: "store_run X reg network ?d" "records ?d = records d"
    using assms(1) set_tip_run [OF assms(1)] by (auto split: sum.splits)
  from sync_once_stages [OF assms(2)] show ?thesis
  proof cases
    case (no_start e)
    with d show ?thesis by simp
  next
    case (no_walk c e)
    with start_cursor_run [OF d(1)] d(2) show ?thesis by simp
  next
    case (walked c d1 step vs d2 e w)
    from start_cursor_run [OF d(1) walked(2)] have s: "store_run X reg network d1" "records d1 = records d"
      by (simp_all add: d(2))
    from roll_back_run [OF s(1) walked(4)] have b: "store_run X reg network d2"
      "follow_updates vs (records d) = records d2" by (simp_all add: s(2))
    from walk_blocks_run [OF _ walked(5)] b obtain ws where
      w: "store_run X reg network (wk_db w)" "wk_updates w = vs @ ws" "follow_updates ws (records d2) = records (wk_db w)"
      by auto
    with walked(6) final_checkpoint_run [OF w(1)] show ?thesis by (auto simp: walked(1) b)
  qed
qed

text \<open>C4. A subscriber keeps step with the store through any pass, whatever the node answers and whether the
  pass completes or fails part-way: holding the delivery log as it was before, and taking from the updates
  the deliveries that bear the next number, it ends up with exactly the log of the store, whose replay is
  the event table.\<close>

theorem subscriber_in_step:
  assumes "store_run X reg network d" and "sync_once X reg N prep now from_block d = (r, updates, d')"
  shows "follow_updates updates (records d) = records d' \<and>
    map delivery_facts (replay_log (follow_updates updates (records d))) = map event_facts (d_events d')"
proof -
  from sync_once_run [OF assms] have s: "store_run X reg network d'" "follow_updates updates (records d) = records d'"
    by simp_all
  from store_run_ok [OF s(1)] s(2) show ?thesis by (simp add: stream_ok_def)
qed

section \<open>Where a pass leaves the cursor\<close>

lemma cursor_cong: "get_meta d' ''cursor'' = get_meta d ''cursor'' \<Longrightarrow> cursor X d' = cursor X d"
  by (simp add: cursor_def)

lemma cursor_hex:
  assumes "hex_documented X" and "length blk = 32" and "get_meta d ''cursor'' = Some (hex_encode X blk)"
  shows "cursor X d = Some blk"
proof -
  from assms(1) have "hex_decode X (hex_encode X blk) = Some blk" unfolding hex_documented_def by blast
  with assms(2,3) show ?thesis by (simp add: cursor_def parse_hash_def array32_def)
qed

text \<open>A fresh block: the cursor moves to it, and the new events and batches are its own.\<close>

lemma apply_fresh_marks:
  assumes "store_run X reg network d" and "apply_accepted_block X reg blk d = Inr (res, d')"
    and "canonical_batch_daa d (bk_accepting_block blk) = None"
  shows "get_meta d' ''cursor'' = Some (hex_encode X (bk_accepting_block blk))"
    and "e \<in> set (d_events d') \<Longrightarrow> e \<in> set (d_events d) \<or> e_accepting_block e = bk_accepting_block blk"
    and "b \<noteq> bk_accepting_block blk \<Longrightarrow> canonical_batch_daa d b = None \<Longrightarrow> canonical_batch_daa d' b = None"
proof -
  note f = apply_fresh [OF assms(2,3)]
  have z: "bk_accepting_daa blk = 0 \<longrightarrow> bk_events blk = []"
    using assms(2) by (auto simp: apply_accepted_block_def split: if_splits)
  from store_run_ok [OF assms(1)] have ok: "stream_ok d" "queue_ok d" by simp_all
  from ok(1) obtain n where n: "transaction_next_stream_seq d = Inr n" by (auto simp: stream_ok_def)
  obtain new es n' where es: "d_events d' = d_events d @ es" "map event_facts es = map delivery_facts new"
    and new: "\<forall>r \<in> set new. dr_kind r = Accepted \<and> dr_accepting_block r = bk_accepting_block blk"
    by (rule apply_fresh_stream [OF f n queue_bound [OF ok(2) n] z])
  obtain d1 :: db and n1 where m: "d_meta d' = (let m = upsert fst (''cursor'', hex_encode X (bk_accepting_block blk)) (d_meta d1) in
        if bk_accepting_daa blk > 0 then
          map (\<lambda>(k, w). if k = ''next_stream_seq'' then (k, show_nat n1) else (k, w))
            (upsert fst (''processed_daa'', show_nat (bk_accepting_daa blk)) m)
        else m)" by (rule apply_fresh_block_stages [OF f])
  show "get_meta d' ''cursor'' = Some (hex_encode X (bk_accepting_block blk))"
    by (simp add: get_meta_def m Let_def map_of_update map_of_upsert)
  show "e \<in> set (d_events d) \<or> e_accepting_block e = bk_accepting_block blk" if e: "e \<in> set (d_events d')"
  proof (rule disjCI)
    assume "e_accepting_block e \<noteq> bk_accepting_block blk"
    moreover have "event_facts e \<in> set (map delivery_facts new)" if "e \<in> set es"
      using that unfolding es(2) [symmetric] by simp
    ultimately have "e \<notin> set es" using new by (auto simp: event_facts_def delivery_facts_def)
    with e es(1) show "e \<in> set (d_events d)" by simp
  qed
  show "canonical_batch_daa d' b = None" if "b \<noteq> bk_accepting_block blk" "canonical_batch_daa d b = None"
    using that apply_fresh_batches [OF f] by (auto simp: canonical_batch_daa_def row_by_None split: if_splits)
qed

text \<open>The state of a walk after the blocks \<open>past\<close>: the cursor is on the last of a prefix of them, behind which
  nothing was recorded, and the walk knows how many blocks that leaves unmarked.\<close>

definition walk_mark :: "externals \<Rightarrow> bytes \<Rightarrow> event_row list \<Rightarrow> accepted_block list \<Rightarrow> walk \<Rightarrow> nat \<Rightarrow> bool" where
  "walk_mark X c es past w k \<longleftrightarrow>
     k \<le> length past \<and> cursor X (wk_db w) = Some (last (c # map ab_accepting_block (take k past))) \<and>
     (\<forall>e \<in> set (d_events (wk_db w)). e \<in> set es \<or> e_accepting_block e \<in> ab_accepting_block ` set (take k past)) \<and>
     wk_since_checkpoint w = length past - k \<and>
     wk_last_seen w = (if past = [] then None else Some (ab_accepting_block (last past))) \<and>
     (past \<noteq> [] \<longrightarrow> length (ab_accepting_block (last past)) = 32) \<and>
     (k < length past \<longrightarrow> canonical_batch_daa (wk_db w) (ab_accepting_block (last past)) = None)"

definition unapplied :: "db \<Rightarrow> accepted_block list \<Rightarrow> bool" where
  "unapplied d as \<longleftrightarrow>
     distinct (map ab_accepting_block as) \<and>
     (\<forall>a \<in> set as. length (ab_accepting_block a) = 32 \<and> canonical_batch_daa d (ab_accepting_block a) = None)"

lemma mark_applied:
  assumes "hex_documented X" and "store_run X reg network (wk_db w)" and "walk_mark X c es past w k"
    and "apply_accepted_block X reg b (wk_db w) = Inr (res, d')" and "bk_accepting_block b = ab_accepting_block a"
    and "unapplied (wk_db w) (a # as)"
  shows "cursor X d' = Some (ab_accepting_block a)"
    and "\<forall>e \<in> set (d_events d'). e \<in> set es \<or> e_accepting_block e \<in> ab_accepting_block ` set (past @ [a])"
    and "unapplied d' as"
proof -
  have n: "canonical_batch_daa (wk_db w) (bk_accepting_block b) = None" and l: "length (ab_accepting_block a) = 32"
    using assms(5,6) by (simp_all add: unapplied_def)
  note m = apply_fresh_marks [OF assms(2,4) n]
  show "cursor X d' = Some (ab_accepting_block a)"
    by (rule cursor_hex [OF assms(1) l]) (simp add: m(1) assms(5))
  show "\<forall>e \<in> set (d_events d'). e \<in> set es \<or> e_accepting_block e \<in> ab_accepting_block ` set (past @ [a])"
    using m(2) assms(3,5) by (fastforce simp: walk_mark_def dest: in_set_takeD)
  have "canonical_batch_daa d' (ab_accepting_block a') = None" if "a' \<in> set as" for a'
  proof (rule m(3))
    show "ab_accepting_block a' \<noteq> bk_accepting_block b"
    proof
      assume "ab_accepting_block a' = bk_accepting_block b"
      with assms(5) that have "ab_accepting_block a \<in> ab_accepting_block ` set as" by (metis imageI)
      with assms(6) show False by (simp add: unapplied_def)
    qed
    show "canonical_batch_daa (wk_db w) (ab_accepting_block a') = None" using assms(6) that by (simp add: unapplied_def)
  qed
  with assms(6) show "unapplied d' as" by (simp add: unapplied_def)
qed

lemma walk_block_mark:
  assumes "hex_documented X" and "store_run X reg network (wk_db w)" and "walk_mark X c es past w k"
    and "walk_block X reg N prep a w = Inr w'" and "unapplied (wk_db w) (a # as)"
  shows "(\<exists>k'. walk_mark X c es (past @ [a]) w' k') \<and> unapplied (wk_db w') as"
  using assms(4)
proof (rule walk_block_cases)
  fix accepting found b stats
  assume b: "b = classify_block X N (wk_db w) prep a accepting (indexed_bodies a found)"
    and seen: "wk_last_seen w' = Some (ab_accepting_block a)"
    and c: "(\<exists>res. apply_accepted_block X reg b (wk_db w) = Inr (res, wk_db w') \<and> wk_since_checkpoint w' = 0 \<and>
            wk_updates w' = wk_updates w @
              (if bk_events b = [] \<or> cm_deliveries res = [] then [] else [Committed res]) @ progress stats) \<or>
         bk_events b = [] \<and> wk_db w' = wk_db w \<and> wk_since_checkpoint w' = Suc (wk_since_checkpoint w) \<and>
           wk_updates w' = wk_updates w @ progress stats"
  have id: "bk_accepting_block b = ab_accepting_block a" by (simp add: b classify_header)
  from c show ?thesis
  proof (elim disjE exE conjE)
    fix res assume r: "apply_accepted_block X reg b (wk_db w) = Inr (res, wk_db w')" "wk_since_checkpoint w' = 0"
    note m = mark_applied [OF assms(1-3) r(1) id assms(5)]
    have "walk_mark X c es (past @ [a]) w' (Suc (length past))"
      using m r(2) seen assms(5) by (simp add: walk_mark_def unapplied_def)
    with m(3) show ?thesis by blast
  next
    assume s: "wk_db w' = wk_db w" "wk_since_checkpoint w' = Suc (wk_since_checkpoint w)"
    have "walk_mark X c es (past @ [a]) w' k" using assms(3,5) s seen by (auto simp: walk_mark_def unapplied_def)
    with assms(5) s(1) show ?thesis by (auto simp: unapplied_def)
  qed
qed

lemma walk_blocks_mark:
  assumes "hex_documented X" and "store_run X reg network (wk_db w)" and "walk_mark X c es past w k"
    and "walk_blocks X reg N prep as w = (e, w')" and "unapplied (wk_db w) as"
  shows "\<exists>j k. j \<le> length as \<and> walk_mark X c es (past @ take j as) w' k \<and> (e = None \<longrightarrow> j = length as) \<and>
    unapplied (wk_db w') (drop j as)"
  using assms(2-)
proof (induction as arbitrary: w past k)
  case Nil
  then show ?case by auto
next
  case (Cons a as)
  show ?case
  proof (cases "walk_block X reg N prep a w")
    case (Inl x)
    with Cons.prems show ?thesis by (intro exI [of _ 0] exI [of _ k]) auto
  next
    case (Inr w1)
    from walk_block_mark [OF assms(1) Cons.prems(1,2) Inr Cons.prems(4)] obtain k1 where
      m: "walk_mark X c es (past @ [a]) w1 k1" "unapplied (wk_db w1) as" by blast
    have "store_run X reg network (wk_db w1)" using walk_block_run [OF Cons.prems(1) Inr] by blast
    from Cons.IH [OF this m(1) _ m(2)] Cons.prems(3) Inr obtain j k2 where
      "j \<le> length as" "walk_mark X c es ((past @ [a]) @ take j as) w' k2" "e = None \<longrightarrow> j = length as"
      "unapplied (wk_db w') (drop j as)" by auto
    then show ?thesis by (intro exI [of _ "Suc j"] exI [of _ k2]) simp
  qed
qed

text \<open>Rolling back leaves the cursor, brings no event and no batch.\<close>

lemma roll_back_marks:
  assumes "stream_ok d" and "roll_back_step X now removed d = Inr (us, d')"
  shows "get_meta d' ''cursor'' = get_meta d ''cursor''" and "set (d_events d') \<subseteq> set (d_events d)"
    and "canonical_batch_daa d b = None \<Longrightarrow> canonical_batch_daa d' b = None"
proof -
  have "get_meta d' ''cursor'' = get_meta d ''cursor'' \<and> set (d_events d') \<subseteq> set (d_events d) \<and>
      cbr_accepting_block ` set (d_batches d') \<subseteq> cbr_accepting_block ` set (d_batches d)"
  proof (cases "removed = [] \<or> canonical_removed d removed = []")
    case True
    with assms(2) have "d' = d"
      by (auto simp: roll_back_step_def map_sum_Inr rollback_removed_blocks_def split: if_splits)
    then show ?thesis by simp
  next
    case False
    with assms(2) obtain res where r: "rollback_removed_blocks X now removed d = Inr (res, d')"
      by (auto simp: roll_back_step_def map_sum_Inr)
    from False have ne: "canonical_removed d removed \<noteq> []" by simp
    obtain rs d1 where a: "append_removed_deliveries X (canonical_removed d removed) d = Inr (rs, d1)"
      and raw: "d_events d' = d_events (fold rollback_block (canonical_removed d removed) d)"
        "d_batches d' = d_batches (fold rollback_block (canonical_removed d removed) d)" "d_meta d' = d_meta d1"
      by (rule rollback_stages [OF r ne])
    from assms(1) obtain n where n: "transaction_next_stream_seq d = Inr n" by (auto simp: stream_ok_def)
    have "\<forall>k. k \<noteq> ''next_stream_seq'' \<longrightarrow> get_meta d1 k = get_meta d k"
      by (rule append_removed_stream [OF a n])
    with raw show ?thesis by (auto simp: rollback_blocks_events get_meta_def)
  qed
  then show "get_meta d' ''cursor'' = get_meta d ''cursor''" "set (d_events d') \<subseteq> set (d_events d)"
    "canonical_batch_daa d b = None \<Longrightarrow> canonical_batch_daa d' b = None"
    by (auto simp: canonical_batch_daa_def row_by_None)
qed

lemma final_checkpoint_mark:
  assumes "hex_documented X" and "store_run X reg network (wk_db w)" and "walk_mark X c es past w k"
    and "final_checkpoint X reg w = Inr d'"
  shows "cursor X d' = Some (last (c # map ab_accepting_block past)) \<and>
    (\<forall>e \<in> set (d_events d'). e \<in> set es \<or> e_accepting_block e \<in> ab_accepting_block ` set past)"
proof (cases "k < length past")
  case True
  let ?blk = "ab_accepting_block (last past)"
  from True have ne: "past \<noteq> []" by auto
  with True assms(3,4) obtain res where
    a: "apply_accepted_block X reg ((empty_batch ?blk)\<lparr>bk_accepting_daa := wk_last_daa w\<rparr>) (wk_db w) = Inr (res, d')"
    by (auto simp: final_checkpoint_def walk_mark_def map_sum_Inr)
  have n: "canonical_batch_daa (wk_db w) (bk_accepting_block ((empty_batch ?blk)\<lparr>bk_accepting_daa := wk_last_daa w\<rparr>)) = None"
    using assms(3) True by (simp add: empty_batch_def walk_mark_def)
  note m = apply_fresh_marks [OF assms(2) a n]
  have "cursor X d' = Some ?blk"
    by (rule cursor_hex [OF assms(1)]) (use m(1) assms(3) ne in \<open>simp_all add: empty_batch_def walk_mark_def\<close>)
  moreover have "e \<in> set es \<or> e_accepting_block e \<in> ab_accepting_block ` set past" if "e \<in> set (d_events d')" for e
  proof -
    from m(2) [OF that] have "e \<in> set (d_events (wk_db w)) \<or> e_accepting_block e = ?blk" by (simp add: empty_batch_def)
    moreover have "?blk \<in> ab_accepting_block ` set past" using ne by simp
    moreover have "ab_accepting_block ` set (take k past) \<subseteq> ab_accepting_block ` set past" by (intro image_mono set_take_subset)
    ultimately show ?thesis using assms(3) unfolding walk_mark_def by (metis subsetD)
  qed
  ultimately show ?thesis using ne by (simp add: last_map)
next
  case False
  with assms(3) have "k = length past" "wk_since_checkpoint w = 0" by (auto simp: walk_mark_def)
  with assms(3,4) show ?thesis by (auto simp: walk_mark_def final_checkpoint_def)
qed

text \<open>C5. A pass never loses its place: when the node lists blocks that were not applied before, the cursor is
  left on the last block of some prefix of them (on the old cursor for the empty prefix), every event
  recorded by the pass belongs to that prefix, so the next pass walks everything that is not in yet, and a
  completed pass has walked the whole list.\<close>

theorem pass_keeps_place:
  assumes "hex_documented X" and "store_run X reg network d" and "cursor X d = Some c"
    and "nd_virtual_chain_from N c = Inr step" and "unapplied d (cp_added step)"
    and "sync_once X reg N prep now from_block d = (r, updates, d')"
  shows "\<exists>k \<le> length (cp_added step).
    cursor X d' = Some (last (c # map ab_accepting_block (take k (cp_added step)))) \<and>
    (\<forall>e \<in> set (d_events d'). e \<in> set (d_events d) \<or>
       e_accepting_block e \<in> ab_accepting_block ` set (take k (cp_added step))) \<and>
    (isl r \<or> k = length (cp_added step))"
proof -
  let ?as = "cp_added step"
  let ?d = "case nd_dag_info N of Inl _ \<Rightarrow> d | Inr dag \<Rightarrow> set_tip (di_virtual_daa_score dag) now d"
  have g: "get_meta ?d ''cursor'' = get_meta d ''cursor''"
    by (simp add: set_tip_def get_meta_set split: sum.split)
  have d: "store_run X reg network ?d" "d_events ?d = d_events d" "d_batches ?d = d_batches d"
    using assms(2) set_tip_run [OF assms(2)] by (simp_all add: set_tip_def split: sum.split)
  have cur: "cursor X ?d = Some c" using cursor_cong [OF g] assms(3) by simp
  then have start: "start_cursor X reg N from_block ?d = Inr (c, ?d)" by (simp add: start_cursor_def)
  have zero: ?thesis if "isl r" "d' = ?d"
    using that cur d(2) by (intro exI [of _ 0]) simp
  from sync_once_stages [OF assms(6)] show ?thesis
  proof cases
    case (no_start e)
    then show ?thesis by (intro zero) simp_all
  next
    case (no_walk c' e)
    with start show ?thesis by (intro zero) simp_all
  next
    case (walked c' d1 step' vs d2 e w)
    from walked(2,3) start assms(4) have eq: "c' = c" "d1 = ?d" "step' = step" by simp_all
    note rb = walked(4) [unfolded eq] and walk = walked(5) [unfolded eq]
    have ok: "stream_ok ?d" using store_run_ok [OF d(1)] by simp
    note m = roll_back_marks [OF ok rb]
    have run: "store_run X reg network d2" using roll_back_run [OF d(1) rb] by simp
    let ?w = "\<lparr>wk_db = d2, wk_stats = \<lparr>ss_chain_blocks = 0, ss_events = 0, ss_reorged_out = length (cp_removed step)\<rparr>,
       wk_updates = vs, wk_since_checkpoint = 0, wk_last_seen = None, wk_last_daa = 0\<rparr>"
    have w0: "walk_mark X c (d_events d) [] ?w 0"
      using m(2) cursor_cong [OF m(1)] cur d(2) by (auto simp: walk_mark_def)
    have un: "unapplied (wk_db ?w) ?as"
      using assms(5) m(3) d(3) by (simp add: unapplied_def canonical_batch_daa_def)
    have run': "store_run X reg network (wk_db ?w)" using run by simp
    from walk_blocks_mark [OF assms(1) run' w0 walk un] obtain j k where
      j: "j \<le> length ?as" "walk_mark X c (d_events d) (take j ?as) w k" "e = None \<longrightarrow> j = length ?as" by auto
    from walk_blocks_run [OF run' walk] have runw: "store_run X reg network (wk_db w)" by simp
    from walked(6) show ?thesis
    proof (elim disjE conjE)
      assume "e = None" "final_checkpoint X reg w = Inr d'"
      with final_checkpoint_mark [OF assms(1) runw j(2)] j(3) show ?thesis by (intro exI [of _ "length ?as"]) simp
    next
      assume "isl r" "d' = wk_db w"
      with j(1,2) show ?thesis by (intro exI [of _ k]) (auto simp: walk_mark_def min_def split: if_splits)
    qed
  qed
qed

section \<open>An example\<close>

text \<open>A store whose cursor is on a block, and a pass over one new block.\<close>

definition sync0 :: db where
  "sync0 = reset_cursor documented_hex (replicate 32 1) stream0"

definition demo_pass :: "(string + sync_stats) \<times> sync_update list \<times> db" where
  "demo_pass = sync_once documented_hex [] demo_node no_application_decoder 0 None sync0"

lemma demo_pass_facts:
  shows sync0_run: "store_run documented_hex [] ''testnet-10'' sync0"
    and sync0_cursor: "cursor documented_hex sync0 = Some (replicate 32 1)"
    and demo_walk: "nd_virtual_chain_from demo_node (replicate 32 1) = Inr demo_step"
    and sync0_unapplied: "unapplied sync0 (cp_added demo_step)"
    and demo_pass_eq: "sync_once documented_hex [] demo_node no_application_decoder 0 None sync0 =
      (fst demo_pass, fst (snd demo_pass), snd (snd demo_pass))"
proof -
  have "\<not> isl (open_writer ''testnet-10'' ''abababababababababababababababab'' False empty_db)" by code_simp
  then have "open_writer ''testnet-10'' ''abababababababababababababababab'' False empty_db = Inr stream0"
    unfolding stream0_def by (metis sum.collapse(2))
  from store_run.fresh [OF this] have "store_run documented_hex [] ''testnet-10'' stream0" .
  then show "store_run documented_hex [] ''testnet-10'' sync0"
    unfolding sync0_def reset_cursor_def by (rule store_run.noted) simp
  show "cursor documented_hex sync0 = Some (replicate 32 1)"
    by (rule cursor_hex [OF documented_hex_ok]) (simp_all add: sync0_def reset_cursor_def get_meta_set)
  show "nd_virtual_chain_from demo_node (replicate 32 1) = Inr demo_step" by (simp add: demo_node_def)
  have "canonical_batch_daa sync0 (replicate 32 2) = None" by code_simp
  then show "unapplied sync0 (cp_added demo_step)" by (simp add: unapplied_def demo_step_def demo_accepted_def)
qed (simp add: demo_pass_def)

lemma demo_pass_completes: "\<not> isl (fst demo_pass) \<and> length (fst (snd demo_pass)) = 1"
  by code_simp

theorem subscriber_in_step_witness:
  "length (fst (snd demo_pass)) = 1 \<and>
    follow_updates (fst (snd demo_pass)) (records sync0) = records (snd (snd demo_pass))"
  using demo_pass_completes subscriber_in_step [OF sync0_run demo_pass_eq] by simp

theorem pass_keeps_place_witness:
  "\<exists>k \<le> 1. cursor documented_hex (snd (snd demo_pass)) =
      Some (last (replicate 32 1 # map ab_accepting_block (take k [demo_accepted]))) \<and>
    (isl (fst demo_pass) \<or> k = 1)"
  using pass_keeps_place [OF documented_hex_ok sync0_run sync0_cursor demo_walk sync0_unapplied demo_pass_eq]
  by (auto simp: demo_step_def)

end
