(* ===== verification/Pass_Ledger.thy ===== *)
theory Pass_Ledger
  imports Sync_Laws
begin

text \<open>
  A pass against the abstract ledger: the bodies it classifies are exactly the accepted transactions, in
  acceptance order, and a completed pass without a reorg takes the live covenant cells through the ledger
  steps of all of them.
\<close>

section \<open>The bodies of a chain block\<close>

text \<open>A transaction the node served while this chain block was processed.\<close>

definition served :: "node \<Rightarrow> accepted_block \<Rightarrow> transaction \<Rightarrow> bool" where
  "served N a tx \<longleftrightarrow>
     (\<exists>stage h b. nd_block_with_txs N stage (ab_accepting_block a) h = Inr b \<and> tx \<in> set (bl_transactions b))"

definition bodies_ok :: "node \<Rightarrow> accepted_block \<Rightarrow> bodies \<Rightarrow> bool" where
  "bodies_ok N a m \<longleftrightarrow>
     distinct (map fst m) \<and> fst ` set m \<subseteq> set (ab_accepted_tx_ids a) \<and>
     (\<forall>h tx. map_of m h = Some tx \<longrightarrow> x_txid tx = h \<and> served N a tx)"

lemma bodies_ok_update:
  assumes "bodies_ok N a m" and "served N a tx" and "x_txid tx \<in> set (ab_accepted_tx_ids a)"
  shows "bodies_ok N a (AList.update (x_txid tx) tx m)"
  unfolding bodies_ok_def
proof (intro conjI allI impI)
  show "distinct (map fst (AList.update (x_txid tx) tx m))"
    using assms(1) by (simp add: bodies_ok_def distinct_update)
  have "fst ` set (AList.update (x_txid tx) tx m) = insert (x_txid tx) (fst ` set m)"
    unfolding dom_map_of_conv_image_fst [symmetric] by (simp add: update_conv')
  with assms(1,3) show "fst ` set (AList.update (x_txid tx) tx m) \<subseteq> set (ab_accepted_tx_ids a)"
    by (simp add: bodies_ok_def)
  fix h tx' assume "map_of (AList.update (x_txid tx) tx m) h = Some tx'"
  then have "(if h = x_txid tx then Some tx else map_of m h) = Some tx'" by (simp add: update_conv')
  with assms(1,2) show "x_txid tx' = h" "served N a tx'"
    unfolding bodies_ok_def by (metis option.inject)+
qed

lemma add_bodies_ok:
  assumes "bodies_ok N a m" and "\<And>tx. tx \<in> set txs \<Longrightarrow> served N a tx"
  shows "bodies_ok N a (add_bodies (ab_accepted_tx_ids a) txs m)"
  using assms
proof (induction txs arbitrary: m)
  case (Cons tx txs)
  have "bodies_ok N a (if x_txid tx \<in> set (ab_accepted_tx_ids a) then AList.update (x_txid tx) tx m else m)"
    using Cons.prems bodies_ok_update by simp
  with Cons.IH Cons.prems(2) show ?case by (simp add: add_bodies_def)
qed (simp add: add_bodies_def)

lemma add_fetched_ok:
  assumes "bodies_ok N a m"
  shows "bodies_ok N a (add_fetched (ab_accepted_tx_ids a) (nd_block_with_txs N stage (ab_accepting_block a) h) m)"
proof (cases "nd_block_with_txs N stage (ab_accepting_block a) h")
  case (Inr b)
  then have "served N a tx" if "tx \<in> set (bl_transactions b)" for tx using that unfolding served_def by blast
  with add_bodies_ok [OF assms] Inr show ?thesis by (simp add: add_fetched_def)
qed (use assms in \<open>simp add: add_fetched_def\<close>)

lemma retry_bodies_ok:
  "bodies_ok N a m \<Longrightarrow>
     bodies_ok N a (retry_bodies (ab_accepted_tx_ids a) (nd_block_with_txs N stage (ab_accepting_block a)) hs m)"
  by (induction hs arbitrary: m) (simp_all add: add_fetched_ok)

text \<open>When nothing is missing, the bodies are the accepted transactions in their order.\<close>

lemma indexed_all:
  assumes "\<And>h. h \<in> set hs \<Longrightarrow> \<exists>tx. map_of m h = Some tx \<and> x_txid tx = h \<and> P tx"
  shows "map x_txid (map snd (List.map_filter (\<lambda>(i, h). map_option (Pair i) (map_of m h)) (enumerate k hs))) = hs \<and>
    (\<forall>tx \<in> set (map snd (List.map_filter (\<lambda>(i, h). map_option (Pair i) (map_of m h)) (enumerate k hs))). P tx)"
  using assms
proof (induction hs arbitrary: k)
  case (Cons h hs)
  from Cons.prems [of h] obtain tx where "map_of m h = Some tx" "x_txid tx = h" "P tx" by auto
  with Cons.IH [of "Suc k"] Cons.prems show ?case by (simp add: map_filter_simps)
qed (simp add: map_filter_simps)

lemma resolve_complete:
  assumes "resolve_accepted_bodies N a blk = (found, 0)"
    and "nd_block_with_txs N Prefetch (ab_accepting_block a) (ab_accepting_block a) = Inr blk"
  shows "map x_txid (map snd (indexed_bodies a found)) = ab_accepted_tx_ids a \<and>
    (\<forall>tx \<in> set (map snd (indexed_bodies a found)). served N a tx)"
proof -
  let ?ids = "ab_accepted_tx_ids a"
  have own: "bodies_ok N a (add_bodies ?ids (bl_transactions blk) [])"
    by (rule add_bodies_ok) (use assms(2) in \<open>auto simp: bodies_ok_def served_def\<close>)
  have fold_ok: "bodies_ok N a (fold (\<lambda>h. add_fetched ?ids (nd_block_with_txs N FromMergeset (ab_accepting_block a) h)) hs m)"
    if "bodies_ok N a m" for hs m
    using that by (induction hs arbitrary: m) (simp_all add: add_fetched_ok)
  from assms(1) own fold_ok have ok: "bodies_ok N a found" and len: "length (remdups ?ids) \<le> length found"
    by (auto simp: resolve_accepted_bodies_def Let_def intro!: retry_bodies_ok split: if_splits)
  have "card (fst ` set found) = length found"
    using ok distinct_card [of "map fst found"] by (simp add: bodies_ok_def)
  moreover have "card (set ?ids) = length (remdups ?ids)" using distinct_card [of "remdups ?ids"] by simp
  ultimately have "fst ` set found = set ?ids"
    using ok len card_seteq [of "set ?ids" "fst ` set found"] by (simp add: bodies_ok_def)
  then have "\<exists>tx. map_of found h = Some tx \<and> x_txid tx = h \<and> served N a tx" if "h \<in> set ?ids" for h
    using that ok map_of_eq_None_iff [of found h] by (cases "map_of found h") (auto simp: bodies_ok_def)
  from indexed_all [of ?ids found "served N a" 0, OF this] show ?thesis by (simp add: indexed_bodies_def)
qed

section \<open>One block\<close>

lemma apply_utxos_keys:
  "utxo_key ` set (apply_utxos X reg b us) \<subseteq> utxo_key ` set us \<union> nu_outpoint ` set (bk_created_utxos b)"
proof -
  have mark: "utxo_key ` set (mark_spent X reg B s vs) = utxo_key ` set vs" for B s vs
  proof -
    have "map utxo_key (mark_spent X reg B s vs) = map utxo_key vs"
      by (cases s) (simp add: mark_spent_def mark_row_def)
    from arg_cong [OF this, of set] show ?thesis by simp
  qed
  have "utxo_key ` set (fold (mark_spent X reg B) ss vs) = utxo_key ` set vs" for B ss vs
    by (induction ss arbitrary: vs) (simp_all add: mark)
  moreover have "utxo_key ` set (create_utxo reg B daa n vs) = insert (nu_outpoint n) (utxo_key ` set vs)" for B daa n vs
    by (simp add: create_utxo_def keys_upsert created_row_def)
  then have "utxo_key ` set (fold (create_utxo reg B daa) ns vs) = utxo_key ` set vs \<union> nu_outpoint ` set ns" for B daa ns vs
    by (induction ns arbitrary: vs) simp_all
  ultimately show ?thesis by (simp add: apply_utxos_def)
qed

lemma per_tx_empty: "per_tx f txs = [] \<longleftrightarrow> (\<forall>k < length txs. f (map snd (take k txs)) (txs ! k) = [])"
  by (auto simp: per_tx_def)

lemma quiet_block:
  assumes "bk_events (classify_block X N d prep a blk txs) = []"
  shows "bk_created_utxos (classify_block X N d prep a blk txs) = []"
    and "bk_spent_utxos (classify_block X N d prep a blk txs) = []"
proof -
  let ?b = "classify_block X N d prep a blk txs"
  have st: "bk_events ?b = per_tx (tx_events X N d) txs"
    "bk_spent_utxos ?b = per_tx (\<lambda>pre (i, tx). tx_spends d pre tx) txs"
    "map (\<lambda>u. (nu_outpoint u, nu_covenant_id u)) (bk_created_utxos ?b) = concat (map bound_outputs (map snd txs))"
    using classify_state [OF refl] by (simp_all add: classify_block_def)
  have none: "touched_ids d (map snd (take k txs)) (snd (txs ! k)) = {}" if "k < length txs" for k
  proof -
    have "tx_events X N d (map snd (take k txs)) (txs ! k) = []" using assms that unfolding st(1) per_tx_empty by blast
    from arg_cong [OF this, of length] show ?thesis
      by (cases "txs ! k") (simp add: tx_events_def finite_touched)
  qed
  have "tx_spends d (map snd (take k txs)) (snd (txs ! k)) = []" if "k < length txs" for k
  proof -
    let ?pre = "map snd (take k txs)" and ?tx = "snd (txs ! k)"
    have "fst ` set (tx_spends d ?pre ?tx) = {}"
      unfolding spends_outpoints using none [OF that] by (auto simp: touched_ids_def spent_ids_def spent_outpoints_def) (metis option.exhaust)
    then show ?thesis by simp
  qed
  then show "bk_spent_utxos ?b = []" unfolding st(2) per_tx_empty by (simp add: split_beta)
  have "bound_outputs tx = []" if "tx \<in> set (map snd txs)" for tx
  proof -
    from that obtain k where "k < length txs" "tx = snd (txs ! k)" by (auto simp: in_set_conv_nth)
    with none [of k] show ?thesis by (auto simp: touched_ids_def created_ids_def)
  qed
  then have e: "concat (map bound_outputs (map snd txs)) = []" by simp
  show "bk_created_utxos ?b = []" using st(3) unfolding e by simp
qed

text \<open>A block the walk processed, against the ledger.\<close>

definition ids_new :: "db \<Rightarrow> accepted_block list \<Rightarrow> bool" where
  "ids_new d as \<longleftrightarrow>
     distinct (concat (map ab_accepted_tx_ids as)) \<and>
     set (concat (map ab_accepted_tx_ids as)) \<inter> u_txid ` set (d_utxos d) = {}"

definition block_steps :: "node \<Rightarrow> accepted_block \<Rightarrow> transaction list \<Rightarrow> bool" where
  "block_steps N a txs \<longleftrightarrow> map x_txid txs = ab_accepted_tx_ids a \<and> (\<forall>tx \<in> set txs. served N a tx)"

lemma classified_txids:
  assumes "p \<in> nu_outpoint ` set (bk_created_utxos (classify_block X N d prep a blk txs))"
  shows "fst p \<in> x_txid ` set (map snd txs)"
proof (rule created_txid)
  have "map (\<lambda>u. (nu_outpoint u, nu_covenant_id u)) (bk_created_utxos (classify_block X N d prep a blk txs)) =
      concat (map bound_outputs (map snd txs))"
    using classify_state [OF refl] by (simp add: classify_block_def)
  from arg_cong [OF this, of "\<lambda>ps. fst ` set ps"] assms
  show "p \<in> fst ` set (concat (map bound_outputs (map snd txs)))" by (simp add: image_image)
qed

lemma walk_block_ledger:
  assumes "store_run X reg network (wk_db w)" and "walk_block X reg N prep a w = Inr w'"
    and "unapplied (wk_db w) (a # as)" and "ids_new (wk_db w) (a # as)"
  shows "\<exists>txs. block_steps N a txs \<and> ids_new (wk_db w') as \<and> unapplied (wk_db w') as \<and>
    live_covenant_utxo (wk_db w') = fold ledger_step txs (live_covenant_utxo (wk_db w))"
  using assms(2)
proof (rule walk_block_cases)
  fix accepting found b stats
  assume f: "nd_block_with_txs N Prefetch (ab_accepting_block a) (ab_accepting_block a) = Inr accepting"
    "resolve_accepted_bodies N a accepting = (found, 0)"
    and b: "b = classify_block X N (wk_db w) prep a accepting (indexed_bodies a found)"
    and c: "(\<exists>res. apply_accepted_block X reg b (wk_db w) = Inr (res, wk_db w') \<and> wk_since_checkpoint w' = 0 \<and>
            wk_updates w' = wk_updates w @
              (if bk_events b = [] \<or> cm_deliveries res = [] then [] else [Committed res]) @ progress stats) \<or>
         bk_events b = [] \<and> wk_db w' = wk_db w \<and> wk_since_checkpoint w' = Suc (wk_since_checkpoint w) \<and>
           wk_updates w' = wk_updates w @ progress stats"
  let ?txs = "map snd (indexed_bodies a found)"
  from resolve_complete [OF f(2,1)] have steps: "block_steps N a ?txs" by (simp add: block_steps_def)
  then have ids: "map x_txid ?txs = ab_accepted_tx_ids a" by (simp add: block_steps_def)
  from arg_cong [OF ids, of set] have ids': "x_txid ` set ?txs = set (ab_accepted_tx_ids a)" by (simp add: image_image)
  have new: "new_txs (wk_db w) ?txs"
    unfolding new_txs_def ids ids' using assms(4) by (auto simp: ids_new_def)
  have un: "canonical_batch_daa (wk_db w) (bk_accepting_block b) = None" "bk_accepting_block b = ab_accepting_block a"
    using assms(3) by (simp_all add: unapplied_def b classify_header)
  note ledger = classify_ledger [OF new, of X reg N prep a accepting, folded b]
  from c have u: "d_utxos (wk_db w') = apply_utxos X reg b (d_utxos (wk_db w)) \<and> unapplied (wk_db w') as"
  proof (elim disjE exE conjE)
    fix res assume a: "apply_accepted_block X reg b (wk_db w) = Inr (res, wk_db w')"
    have "canonical_batch_daa (wk_db w') (ab_accepting_block a') = None" if "a' \<in> set as" for a'
    proof (rule apply_fresh_marks(3) [OF assms(1) a un(1)])
      have "ab_accepting_block a' \<in> ab_accepting_block ` set as" using that by simp
      then show "ab_accepting_block a' \<noteq> bk_accepting_block b" using assms(3) un(2) by (auto simp: unapplied_def)
      show "canonical_batch_daa (wk_db w) (ab_accepting_block a') = None" using assms(3) that by (simp add: unapplied_def)
    qed
    with apply_fresh_utxos [OF apply_fresh [OF a un(1)]] assms(3) show ?thesis by (simp add: unapplied_def)
  next
    assume "bk_events b = []" "wk_db w' = wk_db w"
    with quiet_block [of X N "wk_db w" prep a accepting "indexed_bodies a found"] assms(3) show ?thesis
      by (simp add: b [symmetric] apply_utxos_def unapplied_def)
  qed
  have "u_txid ` set (d_utxos (wk_db w')) \<subseteq> u_txid ` set (d_utxos (wk_db w)) \<union> set (ab_accepted_tx_ids a)"
  proof
    fix h assume "h \<in> u_txid ` set (d_utxos (wk_db w'))"
    then have "h \<in> fst ` utxo_key ` set (apply_utxos X reg b (d_utxos (wk_db w)))" by (force simp: u)
    with apply_utxos_keys [of X reg b "d_utxos (wk_db w)"]
    have "h \<in> fst ` (utxo_key ` set (d_utxos (wk_db w)) \<union> nu_outpoint ` set (bk_created_utxos b))" by blast
    then obtain p where p: "h = fst p"
      "p \<in> utxo_key ` set (d_utxos (wk_db w)) \<or> p \<in> nu_outpoint ` set (bk_created_utxos b)" by blast
    moreover have "fst p \<in> set (ab_accepted_tx_ids a)" if "p \<in> nu_outpoint ` set (bk_created_utxos b)"
      using classified_txids [of p X N "wk_db w" prep a accepting "indexed_bodies a found", folded b] that
      unfolding ids' by blast
    ultimately show "h \<in> u_txid ` set (d_utxos (wk_db w)) \<union> set (ab_accepted_tx_ids a)" by fastforce
  qed
  then have "ids_new (wk_db w') as" using assms(4) by (auto simp: ids_new_def)
  with steps u ledger show ?thesis by (intro exI [of _ ?txs]) (simp add: live_covenant_utxo_in [of "wk_db w'"])
qed

section \<open>The whole pass\<close>

lemma walk_blocks_ledger:
  assumes "store_run X reg network (wk_db w)" and "walk_blocks X reg N prep as w = (None, w')"
    and "unapplied (wk_db w) as" and "ids_new (wk_db w) as"
  shows "\<exists>txss. list_all2 (block_steps N) as txss \<and>
    live_covenant_utxo (wk_db w') = fold ledger_step (concat txss) (live_covenant_utxo (wk_db w))"
  using assms
proof (induction as arbitrary: w)
  case (Cons a as)
  from Cons.prems(2) obtain w1 where w1: "walk_block X reg N prep a w = Inr w1"
    and rest: "walk_blocks X reg N prep as w1 = (None, w')" by (auto split: sum.splits)
  from walk_block_ledger [OF Cons.prems(1) w1 Cons.prems(3,4)] obtain txs where
    txs: "block_steps N a txs" "ids_new (wk_db w1) as" "unapplied (wk_db w1) as"
    "live_covenant_utxo (wk_db w1) = fold ledger_step txs (live_covenant_utxo (wk_db w))" by blast
  have "store_run X reg network (wk_db w1)" using walk_block_run [OF Cons.prems(1) w1] by blast
  from Cons.IH [OF this rest txs(3,2)] obtain txss where "list_all2 (block_steps N) as txss"
    "live_covenant_utxo (wk_db w') = fold ledger_step (concat txss) (live_covenant_utxo (wk_db w1))" by blast
  with txs(1,4) show ?case by (intro exI [of _ "txs # txss"]) simp
qed simp

lemma apply_empty_utxos:
  assumes "apply_accepted_block X reg ((empty_batch blk)\<lparr>bk_accepting_daa := daa\<rparr>) d = Inr (res, d')"
  shows "d_utxos d' = d_utxos d"
proof (cases "canonical_batch_daa d blk")
  case None
  with apply_fresh_utxos [OF apply_fresh [OF assms]] show ?thesis by (simp add: empty_batch_def apply_utxos_def)
next
  case (Some x)
  with canonical_applied [OF assms] show ?thesis by (simp add: empty_batch_def)
qed

lemma final_checkpoint_utxos: "final_checkpoint X reg w = Inr d' \<Longrightarrow> d_utxos d' = d_utxos (wk_db w)"
  by (auto simp: final_checkpoint_def map_sum_Inr split: bool.splits option.splits dest: apply_empty_utxos)

text \<open>C3. A completed pass is the ledger: when the node lists new chain blocks and removes none, and their accepted
  transactions are new and listed once, then for each block there are bodies, served by the node and in the
  order of acceptance, such that the live covenant cells after the pass are those before it taken through
  the ledger steps of all these transactions.\<close>

theorem pass_steps_ledger:
  assumes "store_run X reg network d" and "cursor X d = Some c"
    and "nd_virtual_chain_from N c = Inr step" and "cp_removed step = []"
    and "unapplied d (cp_added step)" and "ids_new d (cp_added step)"
    and "sync_once X reg N prep now from_block d = (Inr stats, updates, d')"
  shows "\<exists>txss. list_all2 (block_steps N) (cp_added step) txss \<and>
    live_covenant_utxo d' = fold ledger_step (concat txss) (live_covenant_utxo d)"
proof -
  let ?d = "case nd_dag_info N of Inl _ \<Rightarrow> d | Inr dag \<Rightarrow> set_tip (di_virtual_daa_score dag) now d"
  have g: "get_meta ?d ''cursor'' = get_meta d ''cursor''"
    by (simp add: set_tip_def get_meta_set split: sum.split)
  have d: "store_run X reg network ?d" "d_utxos ?d = d_utxos d" "d_batches ?d = d_batches d"
    using assms(1) set_tip_run [OF assms(1)] by (simp_all add: set_tip_def split: sum.split)
  have "cursor X ?d = Some c" using cursor_cong [OF g] assms(2) by simp
  then have start: "start_cursor X reg N from_block ?d = Inr (c, ?d)" by (simp add: start_cursor_def)
  have rb: "roll_back_step X now (cp_removed step) ?d = Inr ([], ?d)" by (simp add: roll_back_step_def assms(4))
  from sync_once_stages [OF assms(7)] show ?thesis
  proof cases
    case (walked c' d1 step' vs d2 e w)
    from walked(2,3) start assms(3) have eq: "c' = c" "d1 = ?d" "step' = step" by simp_all
    from walked(4) rb have eq2: "d2 = ?d" "vs = []" unfolding eq by simp_all
    from walked(6) have fin: "e = None" "final_checkpoint X reg w = Inr d'" by simp_all
    note walk = walked(5) [unfolded eq eq2 fin(1)]
    let ?w = "\<lparr>wk_db = ?d, wk_stats = \<lparr>ss_chain_blocks = 0, ss_events = 0, ss_reorged_out = length (cp_removed step)\<rparr>,
       wk_updates = [], wk_since_checkpoint = 0, wk_last_seen = None, wk_last_daa = 0\<rparr>"
    have "store_run X reg network (wk_db ?w)" "unapplied (wk_db ?w) (cp_added step)" "ids_new (wk_db ?w) (cp_added step)"
      using d assms(5,6) by (simp_all add: unapplied_def ids_new_def canonical_batch_daa_def)
    from walk_blocks_ledger [OF this(1) walk this(2,3)] obtain txss where
      "list_all2 (block_steps N) (cp_added step) txss"
      "live_covenant_utxo (wk_db w) = fold ledger_step (concat txss) (live_covenant_utxo ?d)" by auto
    with final_checkpoint_utxos [OF fin(2)] d(2) show ?thesis
      by (intro exI [of _ txss]) (simp add: live_covenant_utxo_in)
  qed
qed

theorem pass_steps_ledger_witness:
  "\<exists>txss. list_all2 (block_steps demo_node) [demo_accepted] txss \<and>
    live_covenant_utxo (snd (snd demo_pass)) = fold ledger_step (concat txss) (live_covenant_utxo sync0)"
proof -
  from demo_pass_completes obtain stats where "fst demo_pass = Inr stats" by (cases "fst demo_pass") simp_all
  with demo_pass_eq have p: "sync_once documented_hex [] demo_node no_application_decoder 0 None sync0 =
      (Inr stats, fst (snd demo_pass), snd (snd demo_pass))" by simp
  have "u_txid ` set (d_utxos sync0) = {}" by code_simp
  then have i: "ids_new sync0 (cp_added demo_step)" by (simp add: ids_new_def demo_step_def demo_accepted_def)
  have r: "cp_removed demo_step = []" by (simp add: demo_step_def)
  from pass_steps_ledger [OF sync0_run sync0_cursor demo_walk r sync0_unapplied i p] show ?thesis
    by (simp add: demo_step_def)
qed

end
