(* ===== verification/Argi.thy ===== *)
theory Argi
  imports Ledger
begin

text \<open>
  The ARGI envelope of Argent transactions, \<open>crates/kascov-argent/src/envelope.rs\<close>: its writer, its
  reader, and that they are inverse to each other on the nose. A reader takes bytes and answers a value
  with the bytes left, or an error; Rust strings are their UTF-8 bytes.
\<close>

section \<open>Data\<close>

record envelope_limits =
  el_max_envelope_bytes :: nat
  el_max_output_declarations :: nat
  el_max_actor_name_bytes :: nat
  el_max_state_bytes :: nat

definition limits_valid :: "envelope_limits \<Rightarrow> bool" where
  "limits_valid l \<longleftrightarrow>
     el_max_envelope_bytes l > 0 \<and> el_max_output_declarations l > 0 \<and>
     el_max_actor_name_bytes l > 0 \<and> el_max_state_bytes l > 0"

record output_declaration =
  od_output_index :: nat
  od_application_id :: string
  od_artifact_id :: bytes
  od_actor_path :: string
  od_state_json :: string

record argi_envelope =
  av_application_payload :: bytes
  av_outputs :: "output_declaration list"

datatype envelope_error =
    EnvelopeLimit nat
  | OutputLimit nat
  | NameLimit nat
  | StateLimit nat
  | Magic
  | Version u8
  | UnknownFlags u8
  | Truncated
  | Utf8 string
  | DuplicateOutputIndex nat
  | TrailingBytes
  | LengthOverflow

text \<open>What the types of the fields promise: a \<open>u16\<close> index, 32 bytes, strings in UTF-8.\<close>

definition str_bytes :: "string \<Rightarrow> bytes" where
  "str_bytes s = map of_char s"

definition bytes_str :: "bytes \<Rightarrow> string" where
  "bytes_str bs = map (\<lambda>b. char_of (unat b)) bs"

definition declaration_typed :: "output_declaration \<Rightarrow> bool" where
  "declaration_typed o' \<longleftrightarrow>
     od_output_index o' < 65536 \<and> length (od_artifact_id o') = 32 \<and> is_utf8 (str_bytes (od_application_id o')) \<and>
     is_utf8 (str_bytes (od_actor_path o')) \<and> is_utf8 (str_bytes (od_state_json o'))"

definition envelope_typed :: "argi_envelope \<Rightarrow> bool" where
  "envelope_typed e \<longleftrightarrow> list_all declaration_typed (av_outputs e)"

section \<open>Limits\<close>

definition check_output_count :: "nat \<Rightarrow> envelope_limits \<Rightarrow> envelope_error option" where
  "check_output_count n l =
     (if n > el_max_output_declarations l then Some (OutputLimit (el_max_output_declarations l)) else None)"

definition check_name :: "nat \<Rightarrow> envelope_limits \<Rightarrow> envelope_error option" where
  "check_name n l =
     (if n > el_max_actor_name_bytes l then Some (NameLimit (el_max_actor_name_bytes l)) else None)"

definition check_state :: "nat \<Rightarrow> envelope_limits \<Rightarrow> envelope_error option" where
  "check_state n l =
     (if n > el_max_state_bytes l then Some (StateLimit (el_max_state_bytes l)) else None)"

text \<open>A check followed by the rest of the function.\<close>

definition ensure :: "envelope_error option \<Rightarrow> envelope_error + 'a \<Rightarrow> envelope_error + 'a" where
  "ensure check rest = (case check of Some e \<Rightarrow> Inl e | None \<Rightarrow> rest)"

section \<open>Writing\<close>

definition put_u16_bytes :: "bytes \<Rightarrow> envelope_error + bytes" where
  "put_u16_bytes v = (if length v < 65536 then Inr (nat_le 2 (length v) @ v) else Inl LengthOverflow)"

definition put_u32_bytes :: "bytes \<Rightarrow> envelope_error + bytes" where
  "put_u32_bytes v = (if length v < 4294967296 then Inr (nat_le 4 (length v) @ v) else Inl LengthOverflow)"

definition encode_declaration :: "envelope_limits \<Rightarrow> output_declaration \<Rightarrow> envelope_error + bytes" where
  "encode_declaration l o' =
     ensure (check_name (length (od_application_id o')) l)
    (ensure (check_name (length (od_actor_path o')) l)
    (ensure (check_state (length (od_state_json o')) l)
    (case put_u16_bytes (str_bytes (od_application_id o')) of Inl e \<Rightarrow> Inl e
     | Inr app_id \<Rightarrow>
    (case put_u16_bytes (str_bytes (od_actor_path o')) of Inl e \<Rightarrow> Inl e
     | Inr actor \<Rightarrow>
    (case put_u32_bytes (str_bytes (od_state_json o')) of Inl e \<Rightarrow> Inl e
     | Inr state \<Rightarrow> Inr (nat_le 2 (od_output_index o') @ app_id @ od_artifact_id o' @ actor @ state))))))"

fun encode_outputs :: "envelope_limits \<Rightarrow> nat list \<Rightarrow> output_declaration list \<Rightarrow> envelope_error + bytes" where
  "encode_outputs l seen [] = Inr []"
| "encode_outputs l seen (o' # os) =
     (if od_output_index o' \<in> set seen then Inl (DuplicateOutputIndex (od_output_index o'))
      else case encode_declaration l o' of Inl e \<Rightarrow> Inl e
       | Inr b \<Rightarrow> map_sum id ((@) b) (encode_outputs l (od_output_index o' # seen) os))"

definition MAGIC :: bytes where "MAGIC = str_bytes ''ARGI''"
definition VERSION :: u8 where "VERSION = 1"

definition encode_envelope :: "argi_envelope \<Rightarrow> envelope_limits \<Rightarrow> envelope_error + bytes" where
  "encode_envelope env l =
     ensure (check_output_count (length (av_outputs env)) l)
    (if \<not> length (av_application_payload env) < 4294967296 then Inl LengthOverflow
     else if \<not> length (av_outputs env) < 65536 then Inl LengthOverflow
     else case encode_outputs l [] (av_outputs env) of Inl e \<Rightarrow> Inl e
      | Inr outs \<Rightarrow>
          let bs = MAGIC @ [VERSION, 0] @ nat_le 4 (length (av_application_payload env)) @ av_application_payload env @
                   nat_le 2 (length (av_outputs env)) @ outs
          in if length bs > el_max_envelope_bytes l then Inl (EnvelopeLimit (el_max_envelope_bytes l)) else Inr bs)"

section \<open>Reading\<close>

type_synonym 'a reader = "bytes \<Rightarrow> envelope_error + 'a \<times> bytes"

definition and_then :: "'a reader \<Rightarrow> ('a \<Rightarrow> 'b reader) \<Rightarrow> 'b reader" where
  "and_then p f bs = (case p bs of Inl e \<Rightarrow> Inl e | Inr (x, rest) \<Rightarrow> f x rest)"

definition take_bytes :: "nat \<Rightarrow> bytes reader" where
  "take_bytes n bs = (if n \<le> length bs then Inr (take n bs, drop n bs) else Inl Truncated)"

definition read_int :: "nat \<Rightarrow> nat reader" where
  "read_int width = and_then (take_bytes width) (\<lambda>b rest. Inr (le_nat b, rest))"

definition read_bytes :: "nat \<Rightarrow> bytes reader" where
  "read_bytes width = and_then (read_int width) take_bytes"

definition read_string :: "nat \<Rightarrow> string \<Rightarrow> string reader" where
  "read_string width what =
     and_then (read_bytes width) (\<lambda>b rest. if is_utf8 b then Inr (bytes_str b, rest) else Inl (Utf8 what))"

definition decode_declaration :: "envelope_limits \<Rightarrow> nat list \<Rightarrow> output_declaration reader" where
  "decode_declaration l seen =
     and_then (read_int 2) (\<lambda>output_index.
       if output_index \<in> set seen then (\<lambda>_. Inl (DuplicateOutputIndex output_index))
       else and_then (read_string 2 ''application ID'') (\<lambda>application_id rest.
         ensure (check_name (length application_id) l)
        (and_then (take_bytes 32) (\<lambda>artifact_id.
         and_then (read_string 2 ''actor path'') (\<lambda>actor_path rest.
         ensure (check_name (length actor_path) l)
        (and_then (read_string 4 ''state JSON'') (\<lambda>state_json rest.
         ensure (check_state (length state_json) l)
        (Inr (\<lparr>od_output_index = output_index, od_application_id = application_id, od_artifact_id = artifact_id,
               od_actor_path = actor_path, od_state_json = state_json\<rparr>, rest))) rest))) rest)))"

fun decode_outputs :: "envelope_limits \<Rightarrow> nat list \<Rightarrow> nat \<Rightarrow> output_declaration list reader" where
  "decode_outputs l seen 0 = (\<lambda>rest. Inr ([], rest))"
| "decode_outputs l seen (Suc n) =
     and_then (decode_declaration l seen) (\<lambda>o'.
     and_then (decode_outputs l (od_output_index o' # seen) n) (\<lambda>os rest. Inr (o' # os, rest)))"

text \<open>The reader behind the length check.\<close>

definition read_envelope :: "envelope_limits \<Rightarrow> argi_envelope reader" where
  "read_envelope l =
     and_then (take_bytes 4) (\<lambda>magic.
       if magic \<noteq> MAGIC then (\<lambda>_. Inl Magic)
       else and_then (take_bytes 1) (\<lambda>version.
         if version \<noteq> [VERSION] then (\<lambda>_. Inl (Version (hd version)))
         else and_then (take_bytes 1) (\<lambda>flags.
           if flags \<noteq> [0] then (\<lambda>_. Inl (UnknownFlags (hd flags)))
           else and_then (read_bytes 4) (\<lambda>payload.
                and_then (read_int 2) (\<lambda>output_count rest.
                ensure (check_output_count output_count l)
               (and_then (decode_outputs l [] output_count) (\<lambda>outputs rest.
                  if rest \<noteq> [] then Inl TrailingBytes
                  else Inr (\<lparr>av_application_payload = payload, av_outputs = outputs\<rparr>, rest)) rest))))))"

definition decode_envelope :: "bytes \<Rightarrow> envelope_limits \<Rightarrow> envelope_error + argi_envelope" where
  "decode_envelope bs l =
     (if length bs > el_max_envelope_bytes l then Inl (EnvelopeLimit (el_max_envelope_bytes l))
      else map_sum id fst (read_envelope l bs))"

section \<open>The interface of a field\<close>

text \<open>A field has values it can hold, a writer and a reader; the reader accepts exactly what the writer writes.\<close>

locale field_codec =
  fixes holds :: "'a \<Rightarrow> bool" and enc :: "'a \<Rightarrow> bytes" and dec :: "'a reader"
  assumes dec_iff: "dec bs = Inr (x, rest) \<longleftrightarrow> holds x \<and> bs = enc x @ rest"
begin

lemma and_then_iff:
  "and_then dec f bs = Inr (y, rest) \<longleftrightarrow> (\<exists>x bs'. holds x \<and> bs = enc x @ bs' \<and> f x bs' = Inr (y, rest))"
proof (cases "dec bs")
  case (Inl e)
  then have "\<not> (\<exists>x bs'. holds x \<and> bs = enc x @ bs')" using dec_iff [of bs] by auto
  with Inl show ?thesis by (auto simp: and_then_def)
next
  case (Inr p)
  then obtain x bs' where d: "dec bs = Inr (x, bs')" by (cases p) simp
  have "x' = x \<and> bs'' = bs'" if "holds x'" "bs = enc x' @ bs''" for x' bs''
    using that dec_iff [of bs x' bs''] d by simp
  with d dec_iff [of bs x bs'] show ?thesis by (auto simp: and_then_def)
qed

lemma written_is_read: "holds x \<Longrightarrow> dec (enc x @ rest) = Inr (x, rest)"
  using dec_iff by blast

end

interpretation raw: field_codec "\<lambda>b. length b = n" "\<lambda>b. b" "take_bytes n" for n
proof
  show "take_bytes n bs = Inr (x, rest) \<longleftrightarrow> length x = n \<and> bs = x @ rest" for bs x rest
    by (auto simp: take_bytes_def)
qed

interpretation int_field: field_codec "\<lambda>v. v < 256 ^ k" "nat_le k" "read_int k" for k
proof
  show "read_int k bs = Inr (v, rest) \<longleftrightarrow> v < 256 ^ k \<and> bs = nat_le k v @ rest" for bs v rest
    unfolding read_int_def raw.and_then_iff
    using le_nat_bound nat_le_le_nat by (auto simp: le_nat_nat_le)
qed

interpretation bytes_field: field_codec "\<lambda>v. length v < 256 ^ k" "\<lambda>v. nat_le k (length v) @ v" "read_bytes k" for k
proof
  show "read_bytes k bs = Inr (v, rest) \<longleftrightarrow> length v < 256 ^ k \<and> bs = (nat_le k (length v) @ v) @ rest" for bs v rest
    unfolding read_bytes_def int_field.and_then_iff raw.dec_iff by auto
qed

lemma of_char_byte: "of_char (char_of (unat b)) = (b :: u8)"
proof -
  have "(of_char (char_of (unat b)) :: u8) = of_nat (of_char (char_of (unat b)) :: nat)" by (simp only: of_nat_of_char)
  then show ?thesis by simp
qed

lemma byte_of_char: "char_of (unat (of_char c :: u8)) = c"
proof -
  have "(of_char c :: u8) = of_nat (of_char c :: nat)" by (simp only: of_nat_of_char)
  then have "unat (of_char c :: u8) = (of_char c :: nat)" by (simp add: unat_of_nat)
  then show ?thesis by simp
qed

lemma str_bytes_bytes_str [simp]: "str_bytes (bytes_str bs) = bs"
  by (simp add: str_bytes_def bytes_str_def map_idI of_char_byte)

lemma bytes_str_str_bytes [simp]: "bytes_str (str_bytes s) = s"
  by (simp add: str_bytes_def bytes_str_def map_idI byte_of_char)

lemma length_str_bytes [simp]: "length (str_bytes s) = length s"
  by (simp add: str_bytes_def)

lemma length_bytes_str [simp]: "length (bytes_str bs) = length bs"
  by (simp add: bytes_str_def)

interpretation string_field: field_codec "\<lambda>s. is_utf8 (str_bytes s) \<and> length s < 256 ^ k"
  "\<lambda>s. nat_le k (length s) @ str_bytes s" "read_string k what" for k what
proof
  show "read_string k what bs = Inr (s, rest) \<longleftrightarrow>
      (is_utf8 (str_bytes s) \<and> length s < 256 ^ k) \<and> bs = (nat_le k (length s) @ str_bytes s) @ rest" for bs s rest
    unfolding read_string_def bytes_field.and_then_iff
    by (auto split: if_splits) (metis str_bytes_bytes_str length_str_bytes bytes_str_str_bytes)+
qed

section \<open>Declarations\<close>

text \<open>The bytes of a declaration, and when its fields fit the limits and their length prefixes.\<close>

definition declaration_bytes :: "output_declaration \<Rightarrow> bytes" where
  "declaration_bytes o' =
     nat_le 2 (od_output_index o') @
     (nat_le 2 (length (od_application_id o')) @ str_bytes (od_application_id o')) @
     od_artifact_id o' @
     (nat_le 2 (length (od_actor_path o')) @ str_bytes (od_actor_path o')) @
     (nat_le 4 (length (od_state_json o')) @ str_bytes (od_state_json o'))"

definition declaration_fits :: "envelope_limits \<Rightarrow> output_declaration \<Rightarrow> bool" where
  "declaration_fits l o' \<longleftrightarrow>
     length (od_application_id o') \<le> el_max_actor_name_bytes l \<and> length (od_application_id o') < 65536 \<and>
     length (od_actor_path o') \<le> el_max_actor_name_bytes l \<and> length (od_actor_path o') < 65536 \<and>
     length (od_state_json o') \<le> el_max_state_bytes l \<and> length (od_state_json o') < 4294967296"

lemma ensure_Inr [simp]: "ensure c r = Inr y \<longleftrightarrow> c = None \<and> r = Inr y"
  by (auto simp: ensure_def split: option.splits)

lemma checks_None [simp]:
  "check_output_count n l = None \<longleftrightarrow> n \<le> el_max_output_declarations l"
  "check_name n l = None \<longleftrightarrow> n \<le> el_max_actor_name_bytes l"
  "check_state n l = None \<longleftrightarrow> n \<le> el_max_state_bytes l"
  by (auto simp: check_output_count_def check_name_def check_state_def)

lemma encode_declaration_iff:
  "encode_declaration l o' = Inr b \<longleftrightarrow> declaration_fits l o' \<and> b = declaration_bytes o'"
  by (auto simp: encode_declaration_def declaration_fits_def declaration_bytes_def put_u16_bytes_def put_u32_bytes_def
      split: if_splits)

text \<open>A reader that ends by packing its value, and one that refuses first.\<close>

lemma and_then_return:
  "and_then p (\<lambda>y r. Inr (g y, r)) bs = Inr (z, rest) \<longleftrightarrow> (\<exists>y. p bs = Inr (y, rest) \<and> z = g y)"
  by (auto simp: and_then_def split: sum.splits)

lemma refuse_value_iff: "(if b then Inl e else r) = Inr y \<longleftrightarrow> \<not> b \<and> r = Inr y"
  by simp

lemma case_Inr_iff: "(case r of Inl e \<Rightarrow> Inl e | Inr x \<Rightarrow> f x) = Inr y \<longleftrightarrow> (\<exists>x. r = Inr x \<and> f x = Inr y)"
  by (cases r) simp_all

lemma refuse_iff: "(if b then (\<lambda>_. Inl e) else p) bs = Inr y \<longleftrightarrow> \<not> b \<and> p bs = Inr y"
  by simp

interpretation decl_field: field_codec
  "\<lambda>o'. declaration_typed o' \<and> declaration_fits l o' \<and> od_output_index o' \<notin> set seen"
  declaration_bytes "decode_declaration l seen" for l seen
proof
  show "decode_declaration l seen bs = Inr (o', rest) \<longleftrightarrow>
      (declaration_typed o' \<and> declaration_fits l o' \<and> od_output_index o' \<notin> set seen) \<and> bs = declaration_bytes o' @ rest"
    for bs o' rest
    unfolding decode_declaration_def int_field.and_then_iff refuse_iff
    by (cases o')
      (auto simp: string_field.and_then_iff raw.and_then_iff declaration_typed_def declaration_fits_def
        declaration_bytes_def split: if_splits)
qed

lemma decode_outputs_iff:
  "decode_outputs l seen n bs = Inr (os, rest) \<longleftrightarrow>
     length os = n \<and> list_all declaration_typed os \<and> list_all (declaration_fits l) os \<and>
     distinct (map od_output_index os) \<and> od_output_index ` set os \<inter> set seen = {} \<and>
     bs = concat (map declaration_bytes os) @ rest"
proof (induction n arbitrary: seen bs os)
  case 0
  show ?case by auto
next
  case (Suc n)
  show ?case
  proof (cases os)
    case Nil
    then show ?thesis by (auto simp: decl_field.and_then_iff and_then_def split: sum.splits)
  next
    case (Cons o' os')
    have "decode_outputs l seen (Suc n) bs = Inr (os, rest) \<longleftrightarrow>
        (\<exists>bs'. (declaration_typed o' \<and> declaration_fits l o' \<and> od_output_index o' \<notin> set seen) \<and>
           bs = declaration_bytes o' @ bs' \<and> decode_outputs l (od_output_index o' # seen) n bs' = Inr (os', rest))"
      unfolding decode_outputs.simps decl_field.and_then_iff and_then_return Cons by auto
    then show ?thesis unfolding Suc.IH by (auto simp: Cons)
  qed
qed

lemma encode_outputs_iff:
  "encode_outputs l seen os = Inr b \<longleftrightarrow>
     list_all (declaration_fits l) os \<and> distinct (map od_output_index os) \<and>
     od_output_index ` set os \<inter> set seen = {} \<and> b = concat (map declaration_bytes os)"
proof (induction os arbitrary: seen b)
  case (Cons o' os)
  show ?case
  proof (cases "encode_declaration l o'")
    case (Inl e)
    then have "\<not> declaration_fits l o'" using encode_declaration_iff [of l o' "declaration_bytes o'"] by auto
    with Inl show ?thesis by simp
  next
    case (Inr b')
    then have o': "declaration_fits l o'" "b' = declaration_bytes o'" by (simp_all add: encode_declaration_iff)
    have "map_sum id ((@) b') r = Inr b \<longleftrightarrow> (\<exists>x. r = Inr x \<and> b = b' @ x)" for r :: "envelope_error + bytes"
      by (cases r) auto
    with Inr o' show ?thesis by (auto simp: Cons.IH)
  qed
qed auto

section \<open>Envelopes\<close>

definition envelope_bytes :: "argi_envelope \<Rightarrow> bytes" where
  "envelope_bytes env =
     MAGIC @ [VERSION, 0] @ nat_le 4 (length (av_application_payload env)) @ av_application_payload env @
     nat_le 2 (length (av_outputs env)) @ concat (map declaration_bytes (av_outputs env))"

definition envelope_fits :: "envelope_limits \<Rightarrow> argi_envelope \<Rightarrow> bool" where
  "envelope_fits l env \<longleftrightarrow>
     length (av_outputs env) \<le> el_max_output_declarations l \<and> length (av_application_payload env) < 4294967296 \<and>
     length (av_outputs env) < 65536 \<and> list_all (declaration_fits l) (av_outputs env) \<and>
     distinct (map od_output_index (av_outputs env))"

lemma encode_envelope_iff:
  "encode_envelope env l = Inr bs \<longleftrightarrow>
     envelope_fits l env \<and> length (envelope_bytes env) \<le> el_max_envelope_bytes l \<and> bs = envelope_bytes env"
proof -
  let ?B = "\<lambda>b. MAGIC @ [VERSION, 0] @ nat_le 4 (length (av_application_payload env)) @ av_application_payload env @
     nat_le 2 (length (av_outputs env)) @ b"
  have "encode_envelope env l = Inr bs \<longleftrightarrow>
      length (av_outputs env) \<le> el_max_output_declarations l \<and> length (av_application_payload env) < 4294967296 \<and>
      length (av_outputs env) < 65536 \<and>
      (\<exists>b. encode_outputs l [] (av_outputs env) = Inr b \<and> \<not> el_max_envelope_bytes l < length (?B b) \<and> ?B b = bs)"
    by (simp only: encode_envelope_def ensure_Inr checks_None Let_def refuse_value_iff case_Inr_iff sum.inject not_not)
  also have "\<dots> \<longleftrightarrow> envelope_fits l env \<and> length (envelope_bytes env) \<le> el_max_envelope_bytes l \<and> envelope_bytes env = bs"
    unfolding encode_outputs_iff envelope_fits_def envelope_bytes_def by (simp only: not_less) force
  finally show ?thesis by (simp only: eq_commute [of bs])
qed

lemma read_envelope_iff:
  "read_envelope l bs = Inr (env, rest) \<longleftrightarrow>
     rest = [] \<and> envelope_typed env \<and> envelope_fits l env \<and> bs = envelope_bytes env"
proof -
  have outs: "and_then (decode_outputs l [] n) (\<lambda>outputs rest. if rest \<noteq> [] then Inl TrailingBytes
        else Inr (\<lparr>av_application_payload = payload, av_outputs = outputs\<rparr>, rest)) r = Inr (env, rest) \<longleftrightarrow>
      rest = [] \<and> payload = av_application_payload env \<and> decode_outputs l [] n r = Inr (av_outputs env, [])" for n payload r
    by (cases env) (auto simp: and_then_def split: sum.splits if_splits)
  have m: "length MAGIC = 4" by (simp add: MAGIC_def)
  show ?thesis
    unfolding read_envelope_def raw.and_then_iff refuse_iff bytes_field.and_then_iff int_field.and_then_iff ensure_Inr
      checks_None outs decode_outputs_iff envelope_typed_def envelope_fits_def envelope_bytes_def
    by (simp add: m cong: conj_cong) (intro iffI; elim conjE; intro conjI; assumption)
qed

lemma decode_envelope_iff:
  "decode_envelope bs l = Inr env \<longleftrightarrow>
     length bs \<le> el_max_envelope_bytes l \<and> envelope_typed env \<and> envelope_fits l env \<and> bs = envelope_bytes env"
proof -
  have "decode_envelope bs l = Inr env \<longleftrightarrow>
      length bs \<le> el_max_envelope_bytes l \<and> (\<exists>rest. read_envelope l bs = Inr (env, rest))"
    unfolding decode_envelope_def by (cases "read_envelope l bs") auto
  then show ?thesis unfolding read_envelope_iff by simp
qed

text \<open>C21. The ARGI codec is exact: a payload reads as an envelope precisely when the envelope is well typed and
  writing it under the same limits gives back that payload, byte for byte; so there is one encoding per
  envelope, none is rejected by the reader, and nothing else is accepted.\<close>

theorem argi_codec:
  "decode_envelope bs l = Inr env \<longleftrightarrow> envelope_typed env \<and> encode_envelope env l = Inr bs"
  unfolding decode_envelope_iff encode_envelope_iff by auto

end
