(* ===== verification/Argent.thy ===== *)
theory Argent
  imports Argi
begin

text \<open>
  Argent applications, \<open>crates/kascov-argent/src/manifest.rs\<close> and \<open>decoder.rs\<close>: the manifest of approved
  applications, and the decoder that hands the store the outputs whose declared state rebuilds to the very
  output the chain accepted. Files, SHA-256, JSON and the Argent runtime (crates \<open>argent_artifact\<close> and
  \<open>argent_runtime\<close>) are an argument of the definitions.
\<close>

section \<open>The environment\<close>

record artifact_file =
  af_path :: string
  af_sha256 :: string

record application_file =
  pf_id :: string
  pf_enabled :: bool
  pf_artifact :: artifact_file
  pf_dependencies :: "artifact_file list"
  pf_limits :: envelope_limits

record manifest_file =
  mf_version :: nat
  mf_applications :: "application_file list"

text \<open>\<open>'a\<close> is an artifact, \<open>'b\<close> a bundle, \<open>'c\<close> a transaction builder, \<open>'s\<close> a source state. A check answers the
  text of its error. \<open>ag_resolve\<close> is \<open>Path::join\<close> unless the path is absolute.\<close>

record ('a, 'b, 'c, 's) argent_env =
  ag_parent :: "string \<Rightarrow> string"
  ag_resolve :: "string \<Rightarrow> string \<Rightarrow> string"
  ag_read :: "string \<Rightarrow> string + bytes"
  ag_sha256 :: "bytes \<Rightarrow> bytes"
  ag_hex_error :: "string \<Rightarrow> string"
  ag_manifest :: "bytes \<Rightarrow> string + manifest_file"
  ag_artifact :: "bytes \<Rightarrow> string + 'a"
  ag_schema_version :: "'a \<Rightarrow> string option"
  ag_template_plan :: "'a \<Rightarrow> string option"
  ag_sil_abi :: "'a \<Rightarrow> string option"
  ag_verify_id :: "'a \<Rightarrow> string option"
  ag_artifact_id :: "'a \<Rightarrow> string"
  ag_bundle :: "'a \<Rightarrow> string + 'b"
  ag_with_artifact :: "'a \<Rightarrow> 'b \<Rightarrow> string + 'b"
  ag_builder :: "'b \<Rightarrow> string + 'c"
  ag_state :: "string \<Rightarrow> string + 's"
  ag_genesis_output :: "'c \<Rightarrow> string \<Rightarrow> 's \<Rightarrow> nat \<Rightarrow> string + nat \<times> 16 word \<times> bytes"

section \<open>The manifest\<close>

record 'a approved_application =
  aa_id :: string
  aa_enabled :: bool
  aa_limits :: envelope_limits
  aa_artifact_id :: bytes
  aa_primary :: 'a
  aa_dependencies :: "'a list"

record manifest_rejection =
  mr_application_id :: string
  mr_code :: string
  mr_detail :: string

record 'a approved_manifest =
  am_applications :: "'a approved_application list"
  am_rejections :: "manifest_rejection list"

datatype manifest_error = ReadError string string | JsonError string | ManifestVersion nat

definition lower_hex :: "char \<Rightarrow> bool" where
  "lower_hex c \<longleftrightarrow> (let n = of_char c :: nat in 48 \<le> n \<and> n \<le> 57 \<or> 97 \<le> n \<and> n \<le> 102)"

text \<open>A check with its code, then the rest; and a step whose error carries a code.\<close>

definition checked :: "string \<Rightarrow> string option \<Rightarrow> (string \<times> string) + 'r \<Rightarrow> (string \<times> string) + 'r" where
  "checked code check rest = (case check of Some e \<Rightarrow> Inl (code, e) | None \<Rightarrow> rest)"

definition coded :: "string \<Rightarrow> string + 'r \<Rightarrow> (string \<times> string) + 'r" where
  "coded code r = (case r of Inl e \<Rightarrow> Inl (code, e) | Inr x \<Rightarrow> Inr x)"

definition load_artifact ::
  "externals \<Rightarrow> ('a, 'b, 'c, 's) argent_env \<Rightarrow> string \<Rightarrow> artifact_file \<Rightarrow> (string \<times> string) + 'a" where
  "load_artifact X G base file =
     (if length (af_sha256 file) \<noteq> 64 \<or> \<not> list_all lower_hex (af_sha256 file)
      then Inl (''content_hash'', ''SHA-256 must be 64 lower-case hexadecimal characters'')
      else let path = ag_resolve G base (af_path file) in
        case ag_read G path of
          Inl e \<Rightarrow> Inl (''artifact_read'', path @ '': '' @ e)
        | Inr content \<Rightarrow>
            let found = hex_encode X (ag_sha256 G content) in
            if found \<noteq> af_sha256 file
            then Inl (''content_hash'', path @ '': expected '' @ af_sha256 file @ '', found '' @ found)
            else case ag_artifact G content of
              Inl e \<Rightarrow> Inl (''artifact_json'', path @ '': '' @ e)
            | Inr artifact \<Rightarrow>
                checked ''artifact_version'' (ag_schema_version G artifact)
               (checked ''artifact_template_plan'' (ag_template_plan G artifact)
               (checked ''artifact_sil_abi'' (ag_sil_abi G artifact)
               (checked ''artifact_id'' (ag_verify_id G artifact)
               (Inr artifact)))))"

definition bundle_of :: "('a, 'b, 'c, 's) argent_env \<Rightarrow> 'a \<Rightarrow> 'a list \<Rightarrow> string + 'b" where
  "bundle_of G primary dependencies =
     (case ag_bundle G primary of Inl e \<Rightarrow> Inl e | Inr b \<Rightarrow> fold_result (ag_with_artifact G) dependencies b)"

definition load_application ::
  "externals \<Rightarrow> ('a, 'b, 'c, 's) argent_env \<Rightarrow> string \<Rightarrow> application_file \<Rightarrow>
   (string \<times> string) + 'a approved_application" where
  "load_application X G base entry =
     (if \<not> limits_valid (pf_limits entry)
      then Inl (''invalid_limits'', ''all four envelope limits must be positive'')
      else case load_artifact X G base (pf_artifact entry) of Inl e \<Rightarrow> Inl e
      | Inr primary \<Rightarrow>
     (case collect_result (load_artifact X G base) (pf_dependencies entry) of Inl e \<Rightarrow> Inl e
      | Inr dependencies \<Rightarrow>
     (case coded ''artifact_bundle'' (bundle_of G primary dependencies) of Inl e \<Rightarrow> Inl e
      | Inr bundle \<Rightarrow>
     (case coded ''artifact_bundle'' (ag_builder G bundle) of Inl e \<Rightarrow> Inl e
      | Inr _ \<Rightarrow>
     (case hex_decode X (ag_artifact_id G primary) of
        None \<Rightarrow> Inl (''artifact_id'', ag_hex_error G (ag_artifact_id G primary))
      | Some raw \<Rightarrow>
         (case array32 raw of
            None \<Rightarrow> Inl (''artifact_id'', ''artifact ID has '' @ show_nat (length raw) @ '' bytes'')
          | Some artifact_id \<Rightarrow>
              Inr \<lparr>aa_id = pf_id entry, aa_enabled = pf_enabled entry, aa_limits = pf_limits entry,
                   aa_artifact_id = artifact_id, aa_primary = primary, aa_dependencies = dependencies\<rparr>))))))"

text \<open>The entries in order, with the ids met so far; an entry that is refused stays in the list of rejections.\<close>

definition approve_entry ::
  "externals \<Rightarrow> ('a, 'b, 'c, 's) argent_env \<Rightarrow> string \<Rightarrow> application_file \<Rightarrow>
   string list \<times> 'a approved_manifest \<Rightarrow> string list \<times> 'a approved_manifest" where
  "approve_entry X G base entry = (\<lambda>(ids, m).
     (let id = pf_id entry;
          result =
            (if id = [] then Inl (''invalid_application_id'', ''application ID is empty'')
             else if id \<in> set ids
             then Inl (''duplicate_application_id'', ''duplicate application ID `'' @ id @ ''`'')
             else load_application X G base entry);
          ids = (if id = [] then ids else id # ids)
      in case result of
           Inr a \<Rightarrow> (ids, m\<lparr>am_applications := am_applications m @ [a]\<rparr>)
         | Inl (code, detail) \<Rightarrow>
             (ids, m\<lparr>am_rejections := am_rejections m @
                [\<lparr>mr_application_id = id, mr_code = code, mr_detail = detail\<rparr>]\<rparr>)))"

definition load_manifest ::
  "externals \<Rightarrow> ('a, 'b, 'c, 's) argent_env \<Rightarrow> string \<Rightarrow> manifest_error + 'a approved_manifest" where
  "load_manifest X G path =
     (case ag_read G path of Inl e \<Rightarrow> Inl (ReadError path e)
      | Inr content \<Rightarrow>
     (case ag_manifest G content of Inl e \<Rightarrow> Inl (JsonError e)
      | Inr manifest \<Rightarrow>
          if mf_version manifest \<noteq> 1 then Inl (ManifestVersion (mf_version manifest))
          else Inr (snd (fold (approve_entry X G (ag_parent G path)) (mf_applications manifest)
                          ([], \<lparr>am_applications = [], am_rejections = []\<rparr>)))))"

definition application :: "'a approved_manifest \<Rightarrow> string \<Rightarrow> 'a approved_application option" where
  "application m wanted_id = find (\<lambda>a. aa_id a = wanted_id) (am_applications m)"

definition widest :: "envelope_limits \<Rightarrow> envelope_limits \<Rightarrow> envelope_limits" where
  "widest a b =
     \<lparr>el_max_envelope_bytes = max (el_max_envelope_bytes a) (el_max_envelope_bytes b),
      el_max_output_declarations = max (el_max_output_declarations a) (el_max_output_declarations b),
      el_max_actor_name_bytes = max (el_max_actor_name_bytes a) (el_max_actor_name_bytes b),
      el_max_state_bytes = max (el_max_state_bytes a) (el_max_state_bytes b)\<rparr>"

definition decode_limits :: "'a approved_manifest \<Rightarrow> envelope_limits option" where
  "decode_limits m =
     (case map aa_limits (filter aa_enabled (am_applications m)) of
        [] \<Rightarrow> None
      | l # ls \<Rightarrow> Some (foldl widest l ls))"

section \<open>The decoder\<close>

definition rebuild_output ::
  "('a, 'b, 'c, 's) argent_env \<Rightarrow> 'a approved_application \<Rightarrow> string \<Rightarrow> string \<Rightarrow> tx_output \<Rightarrow> string + tx_output" where
  "rebuild_output G app actor_path state_json accepted =
     (case o_covenant accepted of None \<Rightarrow> Inl ''accepted output has no covenant binding''
      | Some binding \<Rightarrow>
     (case ag_state G state_json of Inl e \<Rightarrow> Inl (''invalid source state JSON: '' @ e)
      | Inr state \<Rightarrow>
     (case bundle_of G (aa_primary app) (aa_dependencies app) of Inl e \<Rightarrow> Inl e
      | Inr bundle \<Rightarrow>
     (case ag_builder G bundle of Inl e \<Rightarrow> Inl e
      | Inr builder \<Rightarrow>
     (case ag_genesis_output G builder actor_path state (o_value accepted) of Inl e \<Rightarrow> Inl e
      | Inr (v, version, script) \<Rightarrow>
          Inr \<lparr>o_value = v, o_spk_version = version, o_spk_script = script, o_covenant = Some binding\<rparr>)))))"

definition MAX_FAILURE_DETAIL_BYTES :: nat where "MAX_FAILURE_DETAIL_BYTES = 512"

text \<open>The last character boundary at or below a position.\<close>

fun boundary_below :: "string \<Rightarrow> nat \<Rightarrow> nat" where
  "boundary_below s 0 = 0"
| "boundary_below s (Suc n) =
     (if Suc n < length s \<and> continues_char (s ! Suc n) then boundary_below s n else Suc n)"

definition failure ::
  "nat option \<Rightarrow> string option \<Rightarrow> bytes option \<Rightarrow> string \<Rightarrow> string \<Rightarrow> decode_failure" where
  "failure output_index application_id artifact_id code detail =
     \<lparr>df_output_index = output_index, df_application_id = application_id, df_artifact_id = artifact_id,
      df_code = code,
      df_detail = (if length detail > MAX_FAILURE_DETAIL_BYTES
                   then take (boundary_below detail MAX_FAILURE_DETAIL_BYTES) detail else detail)\<rparr>"

fun envelope_error_str :: "envelope_error \<Rightarrow> string" where
  "envelope_error_str (EnvelopeLimit n) = ''ARGI envelope exceeds '' @ show_nat n @ '' bytes''"
| "envelope_error_str (OutputLimit n) = ''ARGI output count exceeds '' @ show_nat n"
| "envelope_error_str (NameLimit n) = ''ARGI actor or application name exceeds '' @ show_nat n @ '' bytes''"
| "envelope_error_str (StateLimit n) = ''ARGI state exceeds '' @ show_nat n @ '' bytes''"
| "envelope_error_str Magic = ''invalid ARGI magic''"
| "envelope_error_str (Version v) = ''unsupported ARGI version '' @ show_nat (unat v)"
| "envelope_error_str (UnknownFlags v) =
     ''unknown ARGI flags 0x'' @ [hex_digit (unat v div 16), hex_digit (unat v mod 16)]"
| "envelope_error_str Truncated = ''truncated ARGI envelope''"
| "envelope_error_str (Utf8 what) = ''invalid UTF-8 in ARGI '' @ what"
| "envelope_error_str (DuplicateOutputIndex n) = ''duplicate ARGI output index '' @ show_nat n"
| "envelope_error_str TrailingBytes = ''ARGI envelope has trailing bytes''"
| "envelope_error_str LengthOverflow = ''ARGI field length cannot be encoded''"

definition exceeds :: "envelope_limits \<Rightarrow> transaction \<Rightarrow> nat \<Rightarrow> output_declaration \<Rightarrow> bool" where
  "exceeds l tx output_count decl \<longleftrightarrow>
     length (x_payload tx) > el_max_envelope_bytes l \<or> output_count > el_max_output_declarations l \<or>
     length (od_application_id decl) > el_max_actor_name_bytes l \<or>
     length (od_actor_path decl) > el_max_actor_name_bytes l \<or> length (od_state_json decl) > el_max_state_bytes l"

definition decode_output ::
  "('a, 'b, 'c, 's) argent_env \<Rightarrow> 'a approved_manifest \<Rightarrow> transaction \<Rightarrow> nat \<Rightarrow> output_declaration \<Rightarrow>
   decode_failure + application_output" where
  "decode_output G m tx output_count decl =
     (let fail = (\<lambda>code detail. Inl (failure (Some (od_output_index decl)) (Some (od_application_id decl))
                    (Some (od_artifact_id decl)) code detail)) in
      case application m (od_application_id decl) of
        None \<Rightarrow> fail ''application_not_approved'' ''application is absent from the approved manifest''
      | Some app \<Rightarrow>
      if \<not> aa_enabled app then fail ''application_disabled'' ''application is disabled''
      else if aa_artifact_id app \<noteq> od_artifact_id decl
      then fail ''artifact_not_approved'' ''artifact ID does not match the approved artifact''
      else if exceeds (aa_limits app) tx output_count decl
      then fail ''application_limit'' ''declaration exceeds the approved application limits''
      else case get_at (x_outputs tx) (od_output_index decl) of
        None \<Rightarrow> fail ''output_index'' ''declared accepted output does not exist''
      | Some accepted \<Rightarrow>
     (case o_covenant accepted of
        None \<Rightarrow> fail ''output_covenant'' ''declared accepted output has no covenant binding''
      | Some covenant \<Rightarrow>
      if cb_authorizing_input covenant \<ge> length (x_inputs tx)
      then fail ''output_covenant'' ''covenant authorizing input does not exist''
      else case rebuild_output G app (od_actor_path decl) (od_state_json decl) accepted of
        Inl e \<Rightarrow> fail ''artifact_rebuild'' e
      | Inr rebuilt \<Rightarrow>
     (case o_covenant rebuilt of
        None \<Rightarrow> fail ''artifact_rebuild'' ''rebuilt output has no covenant binding''
      | Some rebuilt_covenant \<Rightarrow>
          if o_value rebuilt \<noteq> o_value accepted \<or> o_spk_version rebuilt \<noteq> o_spk_version accepted \<or>
             o_spk_script rebuilt \<noteq> o_spk_script accepted \<or>
             cb_authorizing_input rebuilt_covenant \<noteq> cb_authorizing_input covenant \<or>
             cb_covenant_id rebuilt_covenant \<noteq> cb_covenant_id covenant
          then fail ''output_mismatch'' ''rebuilt Argent output does not match the accepted output''
          else Inr \<lparr>ao_output_index = od_output_index decl, ao_covenant_id = cb_covenant_id covenant,
                    ao_application_id = od_application_id decl, ao_artifact_id = od_artifact_id decl,
                    ao_actor_path = od_actor_path decl, ao_state_json = od_state_json decl\<rparr>)))"

definition file_result ::
  "decode_failure + application_output \<Rightarrow> application_preprocess \<Rightarrow> application_preprocess" where
  "file_result r p =
     (case r of
        Inr out \<Rightarrow> p\<lparr>ap_outputs := ap_outputs p @ [out]\<rparr>
      | Inl f \<Rightarrow> p\<lparr>ap_failures := ap_failures p @ [f]\<rparr>)"

definition preprocess :: "('a, 'b, 'c, 's) argent_env \<Rightarrow> 'a approved_manifest \<Rightarrow> application_decoder" where
  "preprocess G m tx =
     (let refused = (\<lambda>code detail. \<lparr>ap_raw_envelope = Some (x_payload tx), ap_application_payload = None,
                       ap_outputs = [], ap_failures = [failure None None None code detail]\<rparr>) in
      if \<not> starts_with (x_payload tx) ''ARGI'' then no_application_decoder tx
      else case decode_limits m of
        None \<Rightarrow> refused ''no_approved_application'' ''no enabled Argent application is approved''
      | Some limits \<Rightarrow>
     (case decode_envelope (x_payload tx) limits of
        Inl e \<Rightarrow> refused ''invalid_envelope'' (envelope_error_str e)
      | Inr env \<Rightarrow>
          fold (\<lambda>decl. file_result (decode_output G m tx (length (av_outputs env)) decl)) (av_outputs env)
            \<lparr>ap_raw_envelope = Some (x_payload tx), ap_application_payload = Some (av_application_payload env),
             ap_outputs = [], ap_failures = []\<rparr>))"

section \<open>What the manifest approves\<close>

text \<open>An artifact that was read from a file of the manifest: its content has the stated digest, and it passed
  every check.\<close>

definition from_file :: "externals \<Rightarrow> ('a, 'b, 'c, 's) argent_env \<Rightarrow> string \<Rightarrow> artifact_file \<Rightarrow> 'a \<Rightarrow> bool" where
  "from_file X G base file artifact \<longleftrightarrow>
     (\<exists>content. ag_read G (ag_resolve G base (af_path file)) = Inr content \<and>
        hex_encode X (ag_sha256 G content) = af_sha256 file \<and> ag_artifact G content = Inr artifact) \<and>
     ag_schema_version G artifact = None \<and> ag_template_plan G artifact = None \<and>
     ag_sil_abi G artifact = None \<and> ag_verify_id G artifact = None"

definition approved_from :: "externals \<Rightarrow> ('a, 'b, 'c, 's) argent_env \<Rightarrow> string \<Rightarrow> application_file \<Rightarrow>
    'a approved_application \<Rightarrow> bool" where
  "approved_from X G base entry a \<longleftrightarrow>
     aa_id a = pf_id entry \<and> aa_enabled a = pf_enabled entry \<and> aa_limits a = pf_limits entry \<and>
     limits_valid (aa_limits a) \<and>
     hex_decode X (ag_artifact_id G (aa_primary a)) = Some (aa_artifact_id a) \<and> length (aa_artifact_id a) = 32 \<and>
     from_file X G base (pf_artifact entry) (aa_primary a) \<and>
     list_all2 (from_file X G base) (pf_dependencies entry) (aa_dependencies a) \<and>
     (\<exists>bundle builder. bundle_of G (aa_primary a) (aa_dependencies a) = Inr bundle \<and> ag_builder G bundle = Inr builder)"

lemma checked_Inr [simp]: "checked code c r = Inr y \<longleftrightarrow> c = None \<and> r = Inr y"
  by (simp add: checked_def split: option.splits)

lemma coded_Inr [simp]: "coded code r = Inr y \<longleftrightarrow> r = Inr y"
  by (cases r) (simp_all add: coded_def)

lemma load_artifact_from: "load_artifact X G base file = Inr a \<Longrightarrow> from_file X G base file a"
  by (auto simp: load_artifact_def from_file_def Let_def split: if_splits sum.splits)

lemma collected_all2: "collect_result f xs = Inr ys \<Longrightarrow> list_all2 (\<lambda>x y. f x = Inr y) xs ys"
  by (simp add: collect_result_Inr list_all2_conv_all_nth list_eq_iff_nth_eq)

lemma load_application_from:
  assumes "load_application X G base entry = Inr a"
  shows "approved_from X G base entry a"
proof -
  from assms obtain primary dependencies bnd builder raw where
    p: "limits_valid (pf_limits entry)" "load_artifact X G base (pf_artifact entry) = Inr primary"
    "collect_result (load_artifact X G base) (pf_dependencies entry) = Inr dependencies"
    "bundle_of G primary dependencies = Inr bnd" "ag_builder G bnd = Inr builder"
    "hex_decode X (ag_artifact_id G primary) = Some raw" "length raw = 32"
    and a: "a = \<lparr>aa_id = pf_id entry, aa_enabled = pf_enabled entry, aa_limits = pf_limits entry,
                   aa_artifact_id = raw, aa_primary = primary, aa_dependencies = dependencies\<rparr>"
    unfolding load_application_def
    by (simp add: array32_def split: option.splits sum.splits if_splits)
  have "list_all2 (from_file X G base) (pf_dependencies entry) dependencies"
    using collected_all2 [OF p(3)] by (rule list.rel_mono_strong) (simp add: load_artifact_from)
  with p load_artifact_from show ?thesis by (auto simp: approved_from_def a)
qed

text \<open>The state of the loop over the entries.\<close>

definition approving :: "externals \<Rightarrow> ('a, 'b, 'c, 's) argent_env \<Rightarrow> string \<Rightarrow> application_file list \<Rightarrow>
    string list \<times> 'a approved_manifest \<Rightarrow> bool" where
  "approving X G base entries s \<longleftrightarrow>
     (let (ids, m) = s in
      aa_id ` set (am_applications m) \<subseteq> set ids \<and> [] \<notin> set ids \<and> distinct (map aa_id (am_applications m)) \<and>
      (\<forall>a \<in> set (am_applications m). \<exists>entry \<in> set entries. approved_from X G base entry a) \<and>
      length (am_applications m) + length (am_rejections m) = length entries)"

lemma approve_entry_keeps:
  assumes "approving X G base entries s"
  shows "approving X G base (entries @ [entry]) (approve_entry X G base entry s)"
proof -
  obtain ids m where s: "s = (ids, m)" by fastforce
  let ?r = "if pf_id entry = [] then Inl (''invalid_application_id'', ''application ID is empty'')
             else if pf_id entry \<in> set ids
             then Inl (''duplicate_application_id'', ''duplicate application ID `'' @ pf_id entry @ ''`'')
             else load_application X G base entry"
  show ?thesis
  proof (cases ?r)
    case (Inl e)
    with assms show ?thesis
      by (cases e) (auto simp: approving_def approve_entry_def s Let_def split: prod.splits)
  next
    case (Inr a)
    then have a: "pf_id entry \<noteq> []" "pf_id entry \<notin> set ids" "load_application X G base entry = Inr a"
      by (auto split: if_splits)
    from load_application_from [OF a(3)] have f: "approved_from X G base entry a" .
    then have "aa_id a = pf_id entry" by (simp add: approved_from_def)
    with assms Inr a f show ?thesis
      by (auto simp: approving_def approve_entry_def s Let_def)
  qed
qed

text \<open>C20. What a loaded manifest approves: ids are non-empty and distinct, and each approved application has
  positive limits, a 32-byte artifact id and artifacts, its own and its dependencies', that were read from the
  files its entry names, with the digests it pins, through every check; every entry is either approved or
  listed among the rejections.\<close>

theorem manifest_approves:
  assumes "load_manifest X G path = Inr m"
  shows "\<exists>content manifest. ag_read G path = Inr content \<and> ag_manifest G content = Inr manifest \<and>
    mf_version manifest = 1 \<and> distinct (map aa_id (am_applications m)) \<and> [] \<notin> aa_id ` set (am_applications m) \<and>
    (\<forall>a \<in> set (am_applications m). \<exists>entry \<in> set (mf_applications manifest).
       approved_from X G (ag_parent G path) entry a) \<and>
    length (am_applications m) + length (am_rejections m) = length (mf_applications manifest)"
proof -
  let ?start = "([], \<lparr>am_applications = [], am_rejections = []\<rparr>)"
  have inv: "approving X G base (done' @ entries) (fold (approve_entry X G base) entries s)"
    if "approving X G base done' s" for base done' entries s
    using that
  proof (induction entries arbitrary: done' s)
    case (Cons entry entries)
    from Cons.IH [OF approve_entry_keeps [OF Cons.prems]] show ?case by simp
  qed simp
  from assms obtain content manifest where c: "ag_read G path = Inr content" "ag_manifest G content = Inr manifest"
    "mf_version manifest = 1" "m = snd (fold (approve_entry X G (ag_parent G path)) (mf_applications manifest) ?start)"
    by (auto simp: load_manifest_def split: sum.splits if_splits)
  have "approving X G (ag_parent G path) ([] @ mf_applications manifest)
      (fold (approve_entry X G (ag_parent G path)) (mf_applications manifest) ?start)"
    by (rule inv) (simp add: approving_def)
  with c show ?thesis by (auto simp: approving_def split: prod.splits)
qed

section \<open>What the decoder hands on\<close>

text \<open>A declaration that an approved application backs: its state rebuilds to the accepted output itself.\<close>

definition backed :: "('a, 'b, 'c, 's) argent_env \<Rightarrow> 'a approved_manifest \<Rightarrow> transaction \<Rightarrow> nat \<Rightarrow>
    output_declaration \<Rightarrow> application_output \<Rightarrow> bool" where
  "backed G m tx n decl out \<longleftrightarrow>
     (\<exists>app accepted covenant. application m (od_application_id decl) = Some app \<and> aa_enabled app \<and>
        aa_artifact_id app = od_artifact_id decl \<and> \<not> exceeds (aa_limits app) tx n decl \<and>
        get_at (x_outputs tx) (od_output_index decl) = Some accepted \<and> o_covenant accepted = Some covenant \<and>
        cb_authorizing_input covenant < length (x_inputs tx) \<and>
        rebuild_output G app (od_actor_path decl) (od_state_json decl) accepted = Inr accepted \<and>
        out = \<lparr>ao_output_index = od_output_index decl, ao_covenant_id = cb_covenant_id covenant,
               ao_application_id = od_application_id decl, ao_artifact_id = od_artifact_id decl,
               ao_actor_path = od_actor_path decl, ao_state_json = od_state_json decl\<rparr>)"

lemma rebuilt_shape:
  assumes "rebuild_output G app actor state accepted = Inr rebuilt"
  shows "o_covenant rebuilt = o_covenant accepted" and "o_covenant accepted \<noteq> None"
  using assms by (auto simp: rebuild_output_def dest!: early_return split: option.splits sum.splits)

lemma decode_output_iff: "decode_output G m tx n decl = Inr out \<longleftrightarrow> backed G m tx n decl out"
proof
  assume r: "decode_output G m tx n decl = Inr out"
  then obtain app accepted covenant rebuilt where
    p: "application m (od_application_id decl) = Some app" "aa_enabled app" "aa_artifact_id app = od_artifact_id decl"
    "\<not> exceeds (aa_limits app) tx n decl" "get_at (x_outputs tx) (od_output_index decl) = Some accepted"
    "o_covenant accepted = Some covenant" "cb_authorizing_input covenant < length (x_inputs tx)"
    "rebuild_output G app (od_actor_path decl) (od_state_json decl) accepted = Inr rebuilt"
    unfolding decode_output_def Let_def by (auto split: option.splits sum.splits if_splits)
  have "o_covenant rebuilt = Some covenant" using rebuilt_shape [OF p(8)] p(6) by simp
  with r p have "o_value rebuilt = o_value accepted" "o_spk_version rebuilt = o_spk_version accepted"
    "o_spk_script rebuilt = o_spk_script accepted" and
    out: "out = \<lparr>ao_output_index = od_output_index decl, ao_covenant_id = cb_covenant_id covenant,
               ao_application_id = od_application_id decl, ao_artifact_id = od_artifact_id decl,
               ao_actor_path = od_actor_path decl, ao_state_json = od_state_json decl\<rparr>"
    unfolding decode_output_def Let_def by (auto split: if_splits)
  with p(6) \<open>o_covenant rebuilt = Some covenant\<close> have "rebuilt = accepted" by simp
  with p out show "backed G m tx n decl out" unfolding backed_def by blast
next
  assume "backed G m tx n decl out"
  then show "decode_output G m tx n decl = Inr out" by (auto simp: backed_def decode_output_def)
qed

lemma fold_file_result:
  "ap_outputs (fold (\<lambda>d. file_result (f d)) ds p) = ap_outputs p @ List.map_filter (\<lambda>d. case f d of Inr out \<Rightarrow> Some out | Inl _ \<Rightarrow> None) ds \<and>
   ap_failures (fold (\<lambda>d. file_result (f d)) ds p) = ap_failures p @ List.map_filter (\<lambda>d. case f d of Inl e \<Rightarrow> Some e | Inr _ \<Rightarrow> None) ds"
  by (induction ds arbitrary: p) (auto simp: file_result_def map_filter_simps split: sum.splits)

lemma set_map_filter_iff: "y \<in> set (List.map_filter g xs) \<longleftrightarrow> (\<exists>x \<in> set xs. g x = Some y)"
  by (induction xs) (auto simp: map_filter_simps split: option.splits)

lemma right_part: "(case r of Inr x \<Rightarrow> Some x | Inl _ \<Rightarrow> None) = Some y \<longleftrightarrow> r = Inr y"
  by (cases r) simp_all

lemma decoded_declarations:
  "out \<in> set (ap_outputs (fold (\<lambda>d. file_result (decode_output G m tx n d)) ds p)) \<longleftrightarrow>
     out \<in> set (ap_outputs p) \<or> (\<exists>d \<in> set ds. backed G m tx n d out)"
  by (simp add: fold_file_result set_map_filter_iff right_part decode_output_iff)

lemma envelope_magic: "starts_with (envelope_bytes env) ''ARGI''"
  by (simp add: envelope_bytes_def MAGIC_def str_bytes_def starts_with_def)

text \<open>The three ways out of the decoder.\<close>

lemma preprocess_decoded:
  assumes "decode_limits m = Some l" and "decode_envelope (x_payload tx) l = Inr env"
  shows "preprocess G m tx = fold (\<lambda>decl. file_result (decode_output G m tx (length (av_outputs env)) decl)) (av_outputs env)
     \<lparr>ap_raw_envelope = Some (x_payload tx), ap_application_payload = Some (av_application_payload env),
      ap_outputs = [], ap_failures = []\<rparr>"
proof -
  from assms(2) have "starts_with (x_payload tx) ''ARGI''" by (auto simp: decode_envelope_iff envelope_magic)
  with assms show ?thesis by (simp add: preprocess_def Let_def)
qed

lemma preprocess_refused:
  assumes "\<not> (\<exists>l env. decode_limits m = Some l \<and> decode_envelope (x_payload tx) l = Inr env)"
  shows "ap_outputs (preprocess G m tx) = []"
  using assms by (auto simp: preprocess_def Let_def no_application_decoder_def split: option.splits sum.splits)

text \<open>C17. The decoder hands on exactly what the chain backs: an output reaches the store precisely when the
  payload is the encoding of a well-typed envelope under the manifest's limits, and one of its declarations
  names an enabled application with its approved artifact, inside that application's own limits, whose declared
  state the Argent builder turns into the accepted output at the declared index, byte for byte.\<close>

theorem preprocess_iff:
  "out \<in> set (ap_outputs (preprocess G m tx)) \<longleftrightarrow>
     (\<exists>l env decl. decode_limits m = Some l \<and> envelope_typed env \<and> encode_envelope env l = Inr (x_payload tx) \<and>
        decl \<in> set (av_outputs env) \<and> backed G m tx (length (av_outputs env)) decl out)"
proof (cases "\<exists>l env. decode_limits m = Some l \<and> decode_envelope (x_payload tx) l = Inr env")
  case True
  then obtain l env where l: "decode_limits m = Some l" and env: "decode_envelope (x_payload tx) l = Inr env" by blast
  have same: "env' = env" if "envelope_typed env'" "encode_envelope env' l = Inr (x_payload tx)" for env'
    using that env decode_envelope_iff [of "x_payload tx" l env'] by (auto simp: encode_envelope_iff)
  have "out \<in> set (ap_outputs (preprocess G m tx)) \<longleftrightarrow>
      (\<exists>decl \<in> set (av_outputs env). backed G m tx (length (av_outputs env)) decl out)"
    unfolding preprocess_decoded [OF l env] decoded_declarations by simp
  moreover have "envelope_typed env" "encode_envelope env l = Inr (x_payload tx)"
    using env by (auto simp: decode_envelope_iff encode_envelope_iff)
  ultimately show ?thesis using l same by (metis option.inject)
next
  case False
  then have "\<not> (envelope_typed env \<and> encode_envelope env l = Inr (x_payload tx))" if "decode_limits m = Some l" for l env
    using that by (auto simp: decode_envelope_iff encode_envelope_iff)
  with preprocess_refused [OF False, where G = G] show ?thesis by auto
qed

text \<open>The types of what goes to the store.\<close>

lemma boundary_below_le: "boundary_below s n \<le> n"
  by (induction n) simp_all

lemma boundary_below_boundary:
  "boundary_below s n < length s \<Longrightarrow> 0 < boundary_below s n \<Longrightarrow> \<not> continues_char (s ! boundary_below s n)"
  by (induction n) (auto split: if_splits)

definition failure_typed :: "decode_failure \<Rightarrow> bool" where
  "failure_typed f \<longleftrightarrow> length (df_detail f) \<le> MAX_FAILURE_DETAIL_BYTES \<and>
     (case df_output_index f of None \<Rightarrow> True | Some i \<Rightarrow> i < 65536) \<and>
     (case df_artifact_id f of None \<Rightarrow> True | Some a \<Rightarrow> length a = 32) \<and>
     (case df_application_id f of None \<Rightarrow> True | Some s \<Rightarrow> is_utf8 (str_bytes s))"

definition output_typed :: "transaction \<Rightarrow> application_output \<Rightarrow> bool" where
  "output_typed tx out \<longleftrightarrow>
     ao_output_index out < 65536 \<and> length (ao_artifact_id out) = 32 \<and> is_utf8 (str_bytes (ao_application_id out)) \<and>
     is_utf8 (str_bytes (ao_actor_path out)) \<and> is_utf8 (str_bytes (ao_state_json out)) \<and>
     (case get_at (x_outputs tx) (ao_output_index out) of
        None \<Rightarrow> False
      | Some accepted \<Rightarrow> (case o_covenant accepted of
            None \<Rightarrow> False
          | Some c \<Rightarrow> cb_covenant_id c = ao_covenant_id out \<and> cb_authorizing_input c < length (x_inputs tx)))"

lemma failure_is_typed:
  "failure_typed (failure i app a code detail) \<longleftrightarrow>
     (case i of None \<Rightarrow> True | Some i \<Rightarrow> i < 65536) \<and> (case a of None \<Rightarrow> True | Some a \<Rightarrow> length a = 32) \<and>
     (case app of None \<Rightarrow> True | Some s \<Rightarrow> is_utf8 (str_bytes s))"
  using boundary_below_le [of detail MAX_FAILURE_DETAIL_BYTES] by (auto simp: failure_typed_def failure_def)

lemma decode_output_typed:
  assumes "declaration_typed decl"
  shows "decode_output G m tx n decl = Inr out \<Longrightarrow> output_typed tx out \<and> ao_output_index out = od_output_index decl"
    and "decode_output G m tx n decl = Inl f \<Longrightarrow> failure_typed f \<and> df_output_index f = Some (od_output_index decl)"
proof -
  assume "decode_output G m tx n decl = Inr out"
  with assms show "output_typed tx out \<and> ao_output_index out = od_output_index decl"
    by (auto simp: decode_output_iff backed_def output_typed_def declaration_typed_def)
next
  assume "decode_output G m tx n decl = Inl f"
  then obtain code detail where "f = failure (Some (od_output_index decl)) (Some (od_application_id decl))
      (Some (od_artifact_id decl)) code detail"
    unfolding decode_output_def Let_def by (auto split: option.splits sum.splits if_splits)
  with assms show "failure_typed f \<and> df_output_index f = Some (od_output_index decl)"
    by (simp add: failure_is_typed declaration_typed_def) (simp add: failure_def)
qed

text \<open>The indices an outcome of the decoder carries, failures of the whole envelope without one.\<close>

definition outcome_indices :: "application_preprocess \<Rightarrow> nat option list" where
  "outcome_indices p = map (Some \<circ> ao_output_index) (ap_outputs p) @ map df_output_index (ap_failures p)"

definition preprocess_typed :: "transaction \<Rightarrow> application_preprocess \<Rightarrow> bool" where
  "preprocess_typed tx p \<longleftrightarrow>
     list_all (output_typed tx) (ap_outputs p) \<and> list_all failure_typed (ap_failures p) \<and> distinct (outcome_indices p)"

lemma file_result_typed:
  assumes "preprocess_typed tx p" and "declaration_typed d" and "Some (od_output_index d) \<notin> set (outcome_indices p)"
  shows "preprocess_typed tx (file_result (decode_output G m tx n d) p) \<and>
    set (outcome_indices (file_result (decode_output G m tx n d) p)) = insert (Some (od_output_index d)) (set (outcome_indices p))"
proof (cases "decode_output G m tx n d")
  case (Inl f)
  from decode_output_typed(2) [OF assms(2) Inl] assms show ?thesis
    by (auto simp: Inl file_result_def preprocess_typed_def outcome_indices_def)
next
  case (Inr out)
  from decode_output_typed(1) [OF assms(2) Inr] assms show ?thesis
    by (auto simp: Inr file_result_def preprocess_typed_def outcome_indices_def)
qed

lemma fold_outcomes_typed:
  assumes "preprocess_typed tx p" and "list_all declaration_typed ds" and "distinct (map od_output_index ds)"
    and "(Some \<circ> od_output_index) ` set ds \<inter> set (outcome_indices p) = {}"
  shows "preprocess_typed tx (fold (\<lambda>d. file_result (decode_output G m tx n d)) ds p)"
  using assms
proof (induction ds arbitrary: p)
  case (Cons d ds)
  from Cons.prems have d: "declaration_typed d" "Some (od_output_index d) \<notin> set (outcome_indices p)" by auto
  note step = file_result_typed [OF Cons.prems(1) d, where G = G and m = m and n = n]
  have "(Some \<circ> od_output_index) ` set ds \<inter> set (outcome_indices (file_result (decode_output G m tx n d) p)) = {}"
    using Cons.prems(3,4) step by (auto simp: disjoint_iff image_iff)
  with Cons.prems(2,3) step show ?case by (simp add: Cons.IH)
qed simp

text \<open>C18. Whatever the payload, what the decoder returns is well typed: every output points at an output of the
  transaction whose covenant binding names the recorded covenant and an input that exists, artifact ids have 32
  bytes, texts are UTF-8, no failure text is longer than 512 bytes, and no output index has two outcomes.\<close>

theorem preprocess_well_typed: "preprocess_typed tx (preprocess G m tx)"
proof (cases "\<exists>l env. decode_limits m = Some l \<and> decode_envelope (x_payload tx) l = Inr env")
  case True
  then obtain l env where l: "decode_limits m = Some l" and env: "decode_envelope (x_payload tx) l = Inr env" by blast
  from env have "list_all declaration_typed (av_outputs env)" "distinct (map od_output_index (av_outputs env))"
    by (auto simp: decode_envelope_iff envelope_typed_def envelope_fits_def)
  then show ?thesis unfolding preprocess_decoded [OF l env]
    by (intro fold_outcomes_typed) (auto simp: preprocess_typed_def outcome_indices_def)
next
  case False
  then show ?thesis
    by (auto simp: preprocess_def Let_def no_application_decoder_def preprocess_typed_def outcome_indices_def
        failure_is_typed split: option.splits sum.splits)
qed

section \<open>The limits of the reader\<close>

definition limits_within :: "envelope_limits \<Rightarrow> envelope_limits \<Rightarrow> bool" where
  "limits_within a b \<longleftrightarrow>
     el_max_envelope_bytes a \<le> el_max_envelope_bytes b \<and> el_max_output_declarations a \<le> el_max_output_declarations b \<and>
     el_max_actor_name_bytes a \<le> el_max_actor_name_bytes b \<and> el_max_state_bytes a \<le> el_max_state_bytes b"

lemma within_foldl: "limits_within x l \<or> (\<exists>y \<in> set ls. limits_within x y) \<Longrightarrow> limits_within x (foldl widest l ls)"
proof (induction ls arbitrary: l)
  case (Cons y ls)
  have "limits_within x l \<Longrightarrow> limits_within x (widest l y)" "limits_within x y \<Longrightarrow> limits_within x (widest l y)"
    by (simp_all add: limits_within_def widest_def le_max_iff_disj)
  with Cons show ?case by auto
qed simp

lemma encode_within:
  assumes "encode_envelope env a = Inr bs" and "limits_within a b"
  shows "encode_envelope env b = Inr bs"
  using assms unfolding encode_envelope_iff limits_within_def
  by (auto simp: envelope_fits_def declaration_fits_def elim!: list.pred_mono_strong)

text \<open>C19. The limits the decoder reads with are wide enough for every application it serves: an envelope that was
  written under the limits of an enabled application is read back as it was.\<close>

theorem decode_limits_cover:
  assumes "a \<in> set (am_applications m)" and "aa_enabled a"
    and "envelope_typed env" and "encode_envelope env (aa_limits a) = Inr bs"
  shows "\<exists>l. decode_limits m = Some l \<and> limits_within (aa_limits a) l \<and> decode_envelope bs l = Inr env"
proof -
  let ?ls = "map aa_limits (filter aa_enabled (am_applications m))"
  have a: "aa_limits a \<in> set ?ls" using assms(1,2) by simp
  then obtain l ls where ls: "?ls = l # ls" "aa_limits a \<in> set (l # ls)" by (cases ?ls) (simp, metis)
  have w: "limits_within (aa_limits a) (foldl widest l ls)"
    using ls(2) by (intro within_foldl) (auto simp: limits_within_def)
  from encode_within [OF assms(4) w] assms(3) have "decode_envelope bs (foldl widest l ls) = Inr env"
    by (auto simp: decode_envelope_iff encode_envelope_iff)
  with ls w show ?thesis by (simp add: decode_limits_def)
qed

section \<open>An example manifest\<close>

definition demo_limits :: envelope_limits where
  "demo_limits = \<lparr>el_max_envelope_bytes = 100, el_max_output_declarations = 2, el_max_actor_name_bytes = 8,
     el_max_state_bytes = 16\<rparr>"

definition demo_entry :: application_file where
  "demo_entry = \<lparr>pf_id = ''app'', pf_enabled = True,
     pf_artifact = \<lparr>af_path = ''a'', af_sha256 = hex_pairs (replicate 32 0xAB)\<rparr>, pf_dependencies = [],
     pf_limits = demo_limits\<rparr>"

text \<open>A second entry under the same id is refused.\<close>

definition demo_argent :: "(string, unit, unit, unit) argent_env" where
  "demo_argent = \<lparr>ag_parent = \<lambda>_. [], ag_resolve = \<lambda>_ p. p, ag_read = \<lambda>p. Inr (str_bytes p),
     ag_sha256 = \<lambda>_. replicate 32 0xAB, ag_hex_error = \<lambda>_. [],
     ag_manifest = \<lambda>_. Inr \<lparr>mf_version = 1, mf_applications = [demo_entry, demo_entry]\<rparr>,
     ag_artifact = \<lambda>_. Inr ''artifact'', ag_schema_version = \<lambda>_. None, ag_template_plan = \<lambda>_. None,
     ag_sil_abi = \<lambda>_. None, ag_verify_id = \<lambda>_. None, ag_artifact_id = \<lambda>_. hex_pairs (replicate 32 7),
     ag_bundle = \<lambda>_. Inr (), ag_with_artifact = \<lambda>_ _. Inr (), ag_builder = \<lambda>_. Inr (), ag_state = \<lambda>_. Inr (),
     ag_genesis_output = \<lambda>_ _ _ v. Inr (v, 0, [0x51])\<rparr>"

definition demo_approved :: "string approved_manifest" where
  "demo_approved = projr (load_manifest documented_hex demo_argent ''m'')"

lemma hex_of_demo: "length (hex_pairs (replicate 32 0xAB)) = 64" "list_all lower_hex (hex_pairs (replicate 32 0xAB))"
  by (code_simp, code_simp)

lemma demo_manifest_loads: "load_manifest documented_hex demo_argent ''m'' = Inr
    \<lparr>am_applications = [\<lparr>aa_id = ''app'', aa_enabled = True, aa_limits = demo_limits, aa_artifact_id = replicate 32 7,
       aa_primary = ''artifact'', aa_dependencies = []\<rparr>],
     am_rejections = [\<lparr>mr_application_id = ''app'', mr_code = ''duplicate_application_id'',
       mr_detail = ''duplicate application ID `app`''\<rparr>]\<rparr>"
  by (simp add: load_manifest_def demo_argent_def approve_entry_def demo_entry_def load_application_def limits_valid_def
      demo_limits_def load_artifact_def hex_of_demo documented_hex_def unhex_hex_pairs coded_def checked_def bundle_of_def
      array32_def Let_def)

lemma demo_approved: "load_manifest documented_hex demo_argent ''m'' = Inr demo_approved"
  by (simp add: demo_approved_def demo_manifest_loads)

lemma manifest_approves_witness:
  "length (am_applications demo_approved) + length (am_rejections demo_approved) = 2 \<and>
   distinct (map aa_id (am_applications demo_approved))"
  using manifest_approves [OF demo_approved] by (auto simp: demo_argent_def)

definition demo_envelope :: argi_envelope where
  "demo_envelope = \<lparr>av_application_payload = [1], av_outputs = [\<lparr>od_output_index = 0, od_application_id = ''app'',
     od_artifact_id = replicate 32 7, od_actor_path = ''A'', od_state_json = ''{}''\<rparr>]\<rparr>"

lemma demo_envelope_ok: "envelope_typed demo_envelope"
  "encode_envelope demo_envelope demo_limits = Inr (envelope_bytes demo_envelope)"
proof -
  have "is_utf8 (str_bytes ''app'')" "is_utf8 (str_bytes ''A'')" "is_utf8 (str_bytes ''{}'')"
    by (code_simp, code_simp, code_simp)
  then show "envelope_typed demo_envelope"
    by (simp add: envelope_typed_def demo_envelope_def declaration_typed_def)
  show "encode_envelope demo_envelope demo_limits = Inr (envelope_bytes demo_envelope)"
    unfolding encode_envelope_iff
    by (simp add: envelope_fits_def demo_envelope_def demo_limits_def declaration_fits_def envelope_bytes_def
        declaration_bytes_def MAGIC_def)
qed

lemma decode_limits_cover_witness:
  "\<exists>l. decode_limits demo_approved = Some l \<and> decode_envelope (envelope_bytes demo_envelope) l = Inr demo_envelope"
  using decode_limits_cover [of "hd (am_applications demo_approved)" demo_approved demo_envelope "envelope_bytes demo_envelope"]
  by (auto simp: demo_approved_def demo_manifest_loads demo_envelope_ok)

end
