(* ===== verification/Gap_Recovery.thy ===== *)
theory Gap_Recovery
  imports Chain_Sync
begin

text \<open>
  Recovering an indexing gap: \<open>recover_gap\<close> of \<open>crates/kascov-core/src/sync.rs\<close> and the store operations it
  uses (\<open>store.rs\<close>: \<open>find_daa_gap\<close>, \<open>merge_recovered_block\<close>, \<open>finalize_gap_recovery\<close> and the markers in
  \<open>meta\<close>). Progress messages are left out; the JSON library is an argument.
\<close>

section \<open>Merging a recovered block\<close>

record merge_counts =
  mg_events_added :: nat
  mg_utxos_added :: nat
  mg_spends_repaired :: nat

definition no_merges :: merge_counts where
  "no_merges = \<lparr>mg_events_added = 0, mg_utxos_added = 0, mg_spends_repaired = 0\<rparr>"

definition add_merges :: "merge_counts \<Rightarrow> merge_counts \<Rightarrow> merge_counts" where
  "add_merges a b =
     \<lparr>mg_events_added = mg_events_added a + mg_events_added b,
      mg_utxos_added = mg_utxos_added a + mg_utxos_added b,
      mg_spends_repaired = mg_spends_repaired a + mg_spends_repaired b\<rparr>"

text \<open>\<open>INSERT OR IGNORE\<close>: an existing row stays.\<close>

definition merge_utxo ::
  "state_decoder list \<Rightarrow> accepted_block_batch \<Rightarrow> new_utxo \<Rightarrow> merge_counts \<times> db \<Rightarrow> merge_counts \<times> db" where
  "merge_utxo reg b u = (\<lambda>(n, d).
     if nu_outpoint u \<in> utxo_key ` set (d_utxos d) then (n, d)
     else (n\<lparr>mg_utxos_added := mg_utxos_added n + 1\<rparr>,
           d\<lparr>d_utxos := d_utxos d @ [created_row reg (bk_accepting_block b) (bk_accepting_daa b) u]\<rparr>))"

definition still_unspent :: "outpoint \<Rightarrow> utxo_row \<Rightarrow> bool" where
  "still_unspent p u \<longleftrightarrow> utxo_key u = p \<and> u_spent_block u = None"

text \<open>Only a row that is still unspent is repaired.\<close>

definition merge_spend ::
  "externals \<Rightarrow> state_decoder list \<Rightarrow> accepted_block_batch \<Rightarrow> spent_utxo \<Rightarrow> merge_counts \<times> db \<Rightarrow> merge_counts \<times> db" where
  "merge_spend X reg b = (\<lambda>(outpoint, spending_txid, sig, budget, input_index) (n, d).
     if \<not> list_ex (still_unspent outpoint) (d_utxos d) then (n, d)
     else (n\<lparr>mg_spends_repaired := mg_spends_repaired n + length (filter (still_unspent outpoint) (d_utxos d))\<rparr>,
           d\<lparr>d_utxos := map (\<lambda>u. if still_unspent outpoint u
               then mark_row X reg (bk_accepting_block b) spending_txid sig budget input_index u else u) (d_utxos d)\<rparr>))"

text \<open>A merged event has no event index and no delivery.\<close>

definition merged_event_row :: "externals \<Rightarrow> accepted_block_batch \<Rightarrow> new_event \<Rightarrow> nat \<Rightarrow> event_row" where
  "merged_event_row X b ev seq =
     \<lparr>e_covenant_id = ne_covenant_id ev, e_seq = seq, e_kind = event_kind_str (ne_kind ev), e_txid = ne_txid ev,
      e_accepting_block = bk_accepting_block b, e_accepting_daa = bk_accepting_daa b,
      e_tx_index = Some (ne_tx_index ev), e_blue_score = Some (int (bk_accepting_blue_score b)),
      e_time_ms = Some (int (bk_accepting_time_ms b)), e_payload = ne_payload ev,
      e_lane_namespace = ne_lane_namespace ev, e_payload_tag = map_option (payload_tag X) (ne_payload ev),
      e_inscription_kind = map_option (inscription_kind_of X) (ne_payload ev),
      e_event_index = None, e_delivery_stream_seq = None\<rparr>"

definition bare_covenant :: "bytes \<Rightarrow> covenant_row" where
  "bare_covenant cid =
     \<lparr>c_covenant_id = cid, c_genesis_txid = None, c_genesis_daa = None, c_lineage_complete = False,
      c_event_count = 0, c_last_activity_daa = 0\<rparr>"

definition recorded :: "db \<Rightarrow> bytes \<Rightarrow> bytes \<Rightarrow> bool" where
  "recorded d cid txid \<longleftrightarrow> (cid, txid) \<in> (\<lambda>e. (e_covenant_id e, e_txid e)) ` set (d_events d)"

definition merge_event ::
  "externals \<Rightarrow> accepted_block_batch \<Rightarrow> new_event \<Rightarrow> merge_counts \<times> db \<Rightarrow> string + merge_counts \<times> db" where
  "merge_event X b ev = (\<lambda>(n, d).
     if recorded d (ne_covenant_id ev) (ne_txid ev) then Inr (n, d)
     else case insert_event (merged_event_row X b ev (next_event_seq d (ne_covenant_id ev))) (d_events d) of
       Inl e \<Rightarrow> Inl e
     | Inr events \<Rightarrow>
         Inr (n\<lparr>mg_events_added := mg_events_added n + 1\<rparr>,
              d\<lparr>d_covenants := ensure_covenant (bare_covenant (ne_covenant_id ev)) (d_covenants d), d_events := events\<rparr>))"

definition merge_recovered_block ::
  "externals \<Rightarrow> state_decoder list \<Rightarrow> accepted_block_batch \<Rightarrow> db \<Rightarrow> string + merge_counts \<times> db" where
  "merge_recovered_block X reg b d =
     fold_result (merge_event X b) (bk_events b)
       (fold (merge_spend X reg b) (bk_spent_utxos b) (fold (merge_utxo reg b) (bk_created_utxos b) (no_merges, d)))"

section \<open>Closing a recovery\<close>

text \<open>Renumbering in place under the primary key. A row is moved by one \<open>UPDATE\<close>, which fails when its new
  place is taken; the sequence column, which goes below zero on the way, is kept beside the row.\<close>

type_synonym numbered = "(int \<times> event_row) list"

definition move_seq :: "bytes \<Rightarrow> int \<times> int \<Rightarrow> numbered \<Rightarrow> string + numbered" where
  "move_seq cid = (\<lambda>(old, new) rows.
     let place = map (\<lambda>(s, e). (e_covenant_id e, s)) rows in
     if (cid, old) \<notin> set place then Inr rows
     else if (cid, new) \<in> set place then Inl ''sqlite''
     else Inr (map (\<lambda>(s, e). if e_covenant_id e = cid \<and> s = old then (new, e) else (s, e)) rows))"

text \<open>Each row is parked at \<open>-(new + 1)\<close>, then every parked row flips back.\<close>

definition park_moves :: "nat list \<Rightarrow> (int \<times> int) list" where
  "park_moves ordered = map (\<lambda>(new, old). (int old, - int new - 1)) (enumerate 0 ordered)"

definition flip_moves :: "bytes \<Rightarrow> numbered \<Rightarrow> (int \<times> int) list" where
  "flip_moves cid rows =
     map (\<lambda>(s, e). (s, - s - 1)) (filter (\<lambda>(s, e). e_covenant_id e = cid \<and> s < 0) rows)"

definition renumber :: "bytes \<Rightarrow> nat list \<Rightarrow> event_row list \<Rightarrow> string + event_row list" where
  "renumber cid ordered rows =
     (case fold_result (move_seq cid) (park_moves ordered) (map (\<lambda>e. (int (e_seq e), e)) rows) of
        Inl e \<Rightarrow> Inl e
      | Inr parked \<Rightarrow>
          (case fold_result (move_seq cid) (flip_moves cid parked) parked of
             Inl e \<Rightarrow> Inl e
           | Inr numbered \<Rightarrow> Inr (map (\<lambda>(s, e). e\<lparr>e_seq := nat s\<rparr>) numbered)))"

text \<open>The covenant's sequence numbers in the order of DAA score, then of the numbers themselves.\<close>

definition rows_of :: "bytes \<Rightarrow> event_row list \<Rightarrow> event_row list" where
  "rows_of cid = filter (\<lambda>e. e_covenant_id e = cid)"

definition chronological :: "bytes \<Rightarrow> event_row list \<Rightarrow> nat list" where
  "chronological cid rows = map e_seq (sort_key e_accepting_daa (sort_key e_seq (rows_of cid rows)))"

definition resequence :: "bytes \<Rightarrow> nat \<times> db \<Rightarrow> string + nat \<times> db" where
  "resequence cid = (\<lambda>(n, d).
     let ordered = chronological cid (d_events d) in
     if list_all (\<lambda>(new_seq, old_seq). old_seq = new_seq) (enumerate 0 ordered) then Inr (n, d)
     else case renumber cid ordered (d_events d) of
       Inl e \<Rightarrow> Inl e
     | Inr events \<Rightarrow> Inr (n + 1, d\<lparr>d_events := events\<rparr>))"

text \<open>The summary columns and the genesis columns from the events.\<close>

definition refreshed_row :: "event_row list \<Rightarrow> covenant_row \<Rightarrow> covenant_row" where
  "refreshed_row es c =
     (let c = c\<lparr>c_event_count := int (length es), c_last_activity_daa := Max (insert 0 (e_accepting_daa ` set es))\<rparr> in
      case find (\<lambda>e. e_seq e = 0) es of
        Some e \<Rightarrow>
          if e_kind e = ''genesis''
          then c\<lparr>c_genesis_txid := Some (e_txid e), c_genesis_daa := Some (e_accepting_daa e), c_lineage_complete := True\<rparr>
          else c\<lparr>c_genesis_txid := None, c_genesis_daa := None, c_lineage_complete := False\<rparr>
      | None \<Rightarrow> c\<lparr>c_genesis_txid := None, c_genesis_daa := None, c_lineage_complete := False\<rparr>)"

definition refresh_covenant :: "bytes \<Rightarrow> db \<Rightarrow> db" where
  "refresh_covenant cid d =
     d\<lparr>d_covenants := map (\<lambda>c. if c_covenant_id c = cid then refreshed_row (rows_of cid (d_events d)) c else c)
         (d_covenants d)\<rparr>"

definition settle_covenant :: "bytes \<Rightarrow> nat \<times> db \<Rightarrow> string + nat \<times> db" where
  "settle_covenant cid s =
     (case resequence cid s of Inl e \<Rightarrow> Inl e | Inr (n, d) \<Rightarrow> Inr (n, refresh_covenant cid d))"

text \<open>The covenants with an event inside the window, and the tokens and minters to derive again.\<close>

definition window_covenants :: "nat \<Rightarrow> nat \<Rightarrow> db \<Rightarrow> bytes list" where
  "window_covenants gap_lo gap_hi d =
     remdups (map e_covenant_id (filter (\<lambda>e. gap_lo \<le> e_accepting_daa e \<and> e_accepting_daa e \<le> gap_hi) (d_events d)))"

definition citing_tokens :: "db \<Rightarrow> bytes \<Rightarrow> bytes list" where
  "citing_tokens d cid = map te_token_id (filter (\<lambda>t. te_covenant_id t = cid) (d_token_events d))"

definition tokens_todo :: "db \<Rightarrow> bytes list \<Rightarrow> bytes list" where
  "tokens_todo d refresh =
     bs_of_list (concat (map (\<lambda>cid. (if is_token d cid \<or> has_token_evidence d cid then [cid] else []) @ citing_tokens d cid)
       refresh))"

definition minters_todo :: "db \<Rightarrow> bytes list \<Rightarrow> bytes list" where
  "minters_todo d refresh = bs_of_list (filter (\<lambda>cid. is_minter d cid \<or> has_minter_evidence d cid) refresh)"

text \<open>\<open>tokens::derive_minter\<close> for each minter, then \<open>tokens::derive_token\<close> for every token that is due; their number.\<close>

definition rederive_due :: "externals \<Rightarrow> state_decoder list \<Rightarrow> bytes list \<Rightarrow> db \<Rightarrow> string + nat \<times> db" where
  "rederive_due X reg refresh d =
     (let (affected, d') = derive_minters X reg (minters_todo d refresh) d;
          due = bs_of_list (tokens_todo d refresh @ affected)
      in case fold_result (derive_token X reg) due d' of
           Inl e \<Rightarrow> Inl e
         | Inr d \<Rightarrow> Inr (length due, d))"

section \<open>The markers in \<open>meta\<close>\<close>

text \<open>\<open>serde_json\<close>: parsing and printing of a value, and the texts that stand for a number it holds.\<close>

record serde =
  sj_parse :: "string \<Rightarrow> json option"
  sj_print :: "json \<Rightarrow> string"
  sj_number :: "string \<Rightarrow> bool"

text \<open>The values that a \<open>serde_json::Value\<close> can be: its objects keep their members in the order of the names.\<close>

fun json_value :: "(string \<Rightarrow> bool) \<Rightarrow> json \<Rightarrow> bool" where
  "json_value num (JNumber s) \<longleftrightarrow> num s"
| "json_value num (JArray vs) \<longleftrightarrow> list_all (json_value num) vs"
| "json_value num (JObject ms) \<longleftrightarrow> sorted_wrt (<) (map fst ms) \<and> list_all (\<lambda>(k, v). json_value num v) ms"
| "json_value num _ \<longleftrightarrow> True"

definition serde_documented :: "serde \<Rightarrow> bool" where
  "serde_documented J \<longleftrightarrow>
     (\<forall>v. json_value (sj_number J) v \<longrightarrow> sj_parse J (sj_print J v) = Some v) \<and>
     (\<forall>s v. sj_parse J s = Some v \<longrightarrow> json_value (sj_number J) v) \<and>
     (\<forall>n. fits_u64 n \<longrightarrow> sj_number J (show_nat n))"

definition json_u64 :: "string \<Rightarrow> json \<Rightarrow> nat option" where
  "json_u64 k v =
     (case v of
        JObject ms \<Rightarrow> (case map_of ms k of Some (JNumber s) \<Rightarrow> parse_u64 s | _ \<Rightarrow> None)
      | _ \<Rightarrow> None)"

text \<open>The entries of the record of recoveries; anything that does not parse as an array has none.\<close>

definition gap_entries :: "serde \<Rightarrow> db \<Rightarrow> json list" where
  "gap_entries J d =
     (case Option.bind (get_meta d ''gap_recoveries'') (sj_parse J) of
        Some (JArray vs) \<Rightarrow> vs
      | _ \<Rightarrow> [])"

definition entry_window :: "json \<Rightarrow> (nat \<times> nat) option" where
  "entry_window v =
     (case (json_u64 ''from_daa'' v, json_u64 ''to_daa'' v) of
        (Some lo, Some hi) \<Rightarrow> Some (lo, hi)
      | _ \<Rightarrow> None)"

definition gap_recoveries :: "serde \<Rightarrow> db \<Rightarrow> (nat \<times> nat) list" where
  "gap_recoveries J d = rev (List.map_filter entry_window (gap_entries J d))"

definition gap_recovery_pending :: "db \<Rightarrow> (nat \<times> nat) option" where
  "gap_recovery_pending d =
     (case Option.bind (get_meta d ''gap_recovery_pending'') (split_once (CHR '':'')) of
        None \<Rightarrow> None
      | Some (a, b) \<Rightarrow>
          (case (parse_u64 a, parse_u64 b) of (Some lo, Some hi) \<Rightarrow> Some (lo, hi) | _ \<Rightarrow> None))"

definition set_gap_recovery_pending :: "nat \<Rightarrow> nat \<Rightarrow> db \<Rightarrow> db" where
  "set_gap_recovery_pending gap_lo gap_hi =
     set_meta ''gap_recovery_pending'' (show_nat gap_lo @ '':'' @ show_nat gap_hi)"

definition gap_walk_cursor :: "externals \<Rightarrow> db \<Rightarrow> bytes option" where
  "gap_walk_cursor X d = Option.bind (get_meta d ''gap_walk_cursor'') (parse_hash X)"

definition set_gap_walk_cursor :: "externals \<Rightarrow> bytes \<Rightarrow> db \<Rightarrow> db" where
  "set_gap_walk_cursor X blk = set_meta ''gap_walk_cursor'' (hex_encode X blk)"

definition delete_meta :: "string \<Rightarrow> db \<Rightarrow> db" where
  "delete_meta key d = d\<lparr>d_meta := filter (\<lambda>(k, v). k \<noteq> key) (d_meta d)\<rparr>"

definition has_event_at_or_below :: "db \<Rightarrow> bytes \<Rightarrow> nat \<Rightarrow> bool" where
  "has_event_at_or_below d cid daa \<longleftrightarrow> list_ex (\<lambda>e. e_covenant_id e = cid \<and> e_accepting_daa e \<le> daa) (d_events d)"

text \<open>The widest step between consecutive DAA scores, the lowest of them on a tie.\<close>

definition daa_steps :: "db \<Rightarrow> (nat \<times> nat) list" where
  "daa_steps d =
     (let daas = sort (remdups (map e_accepting_daa (d_events d))) in zip daas (tl daas))"

definition find_daa_gap :: "nat \<Rightarrow> db \<Rightarrow> (nat \<times> nat) option" where
  "find_daa_gap min_span d =
     (case filter (\<lambda>(prev, daa). daa - prev \<ge> min_span) (daa_steps d) of
        [] \<Rightarrow> None
      | p # ps \<Rightarrow> Some (fold (\<lambda>q best. if snd q - fst q > snd best - fst best then q else best) ps p))"

section \<open>\<open>finalize_gap_recovery\<close>\<close>

record finalize_counts =
  fc_covenants_refreshed :: nat
  fc_covenants_resequenced :: nat
  fc_tokens_rederived :: nat

definition gap_note :: string where
  "gap_note = ''recover-gap: canonical history merged from a node walk (the window was skipped by a deep-reorg sink reset)''"

text \<open>The members come in the order of their names; the counters and scores have 64 bits.\<close>

definition json_of_u64 :: "nat \<Rightarrow> json" where
  "json_of_u64 n = JNumber (show_nat (n mod 2 ^ 64))"

definition gap_entry :: "nat \<Rightarrow> nat \<Rightarrow> nat \<Rightarrow> merge_counts \<Rightarrow> nat \<Rightarrow> json" where
  "gap_entry gap_lo gap_hi now merged refreshed =
     JObject
       [(''at_ms'', json_of_u64 now), (''covenants_refreshed'', json_of_u64 refreshed),
        (''events_added'', json_of_u64 (mg_events_added merged)), (''from_daa'', json_of_u64 gap_lo),
        (''note'', JString gap_note), (''spends_repaired'', json_of_u64 (mg_spends_repaired merged)),
        (''to_daa'', json_of_u64 gap_hi), (''utxos_added'', json_of_u64 (mg_utxos_added merged))]"

definition record_recovery :: "serde \<Rightarrow> json \<Rightarrow> db \<Rightarrow> db" where
  "record_recovery J entry d =
     delete_meta ''gap_walk_cursor'' (delete_meta ''gap_recovery_pending''
       (set_meta ''gap_recoveries'' (sj_print J (JArray (gap_entries J d @ [entry]))) d))"

definition finalize_gap_recovery ::
  "externals \<Rightarrow> state_decoder list \<Rightarrow> serde \<Rightarrow> nat \<Rightarrow> nat \<Rightarrow> nat \<Rightarrow> merge_counts \<Rightarrow> db \<Rightarrow> string + finalize_counts \<times> db" where
  "finalize_gap_recovery X reg J now gap_lo gap_hi merged d =
     (let refresh = window_covenants gap_lo gap_hi d in
      case fold_result settle_covenant refresh (0, d) of Inl e \<Rightarrow> Inl e
      | Inr (resequenced, d) \<Rightarrow>
     (case rederive_due X reg refresh d of Inl e \<Rightarrow> Inl e
      | Inr (rederived, d) \<Rightarrow>
          Inr (\<lparr>fc_covenants_refreshed = length refresh, fc_covenants_resequenced = resequenced,
                fc_tokens_rederived = rederived\<rparr>,
               record_recovery J (gap_entry gap_lo gap_hi now merged (length refresh)) d)))"

section \<open>\<open>recover_gap\<close>\<close>

record gap_options =
  go_from_daa :: "nat option"
  go_to_daa :: "nat option"
  go_min_gap_daa :: nat
  go_anchor_block :: "bytes option"

record gap_report =
  gr_gap_lo :: nat
  gr_gap_hi :: nat
  gr_already_recovered :: bool
  gr_chain_blocks_walked :: nat
  gr_blocks_captured :: nat
  gr_merged :: merge_counts
  gr_finalized :: finalize_counts
  gr_residual_blocks :: nat
  gr_residual_txs :: nat
  gr_residual_daa_lo :: nat
  gr_residual_daa_hi :: nat

definition fresh_report :: "nat \<Rightarrow> nat \<Rightarrow> bool \<Rightarrow> gap_report" where
  "fresh_report lo hi already =
     \<lparr>gr_gap_lo = lo, gr_gap_hi = hi, gr_already_recovered = already, gr_chain_blocks_walked = 0,
      gr_blocks_captured = 0, gr_merged = no_merges,
      gr_finalized = \<lparr>fc_covenants_refreshed = 0, fc_covenants_resequenced = 0, fc_tokens_rederived = 0\<rparr>,
      gr_residual_blocks = 0, gr_residual_txs = 0, gr_residual_daa_lo = 0, gr_residual_daa_hi = 0\<rparr>"

text \<open>The window of a run: given, resumed, detected, or nothing left to do.\<close>

datatype gap_window = NoWindow string | AlreadyRecovered nat nat | Window nat nat

definition detected_window :: "serde \<Rightarrow> nat \<Rightarrow> db \<Rightarrow> gap_window" where
  "detected_window J min_gap d =
     (case gap_recovery_pending d of
        Some (lo, hi) \<Rightarrow> Window lo hi
      | None \<Rightarrow>
          (case gap_recoveries J d of
             (lo, hi) # _ \<Rightarrow> AlreadyRecovered lo hi
           | [] \<Rightarrow> (case find_daa_gap min_gap d of None \<Rightarrow> NoWindow ''gap detection'' | Some (lo, hi) \<Rightarrow> Window lo hi)))"

definition chosen_window :: "serde \<Rightarrow> gap_options \<Rightarrow> db \<Rightarrow> gap_window" where
  "chosen_window J opts d =
     (case (go_from_daa opts, go_to_daa opts) of
        (Some lo, Some hi) \<Rightarrow> if lo < hi then Window lo hi else NoWindow ''gap bounds''
      | (None, None) \<Rightarrow> detected_window J (go_min_gap_daa opts) d
      | _ \<Rightarrow> NoWindow ''gap bounds'')"

definition covered_already :: "serde \<Rightarrow> gap_options \<Rightarrow> nat \<Rightarrow> nat \<Rightarrow> db \<Rightarrow> bool" where
  "covered_already J opts gap_lo gap_hi d \<longleftrightarrow>
     go_anchor_block opts = None \<and> list_ex (\<lambda>(lo, hi). lo \<le> gap_lo \<and> gap_hi \<le> hi) (gap_recoveries J d)"

record gap_walk =
  gw_db :: db
  gw_report :: gap_report
  gw_merged :: merge_counts

definition note_residue :: "nat \<Rightarrow> nat \<Rightarrow> gap_report \<Rightarrow> gap_report" where
  "note_residue daa unresolved r =
     (if unresolved > 0 then
        r\<lparr>gr_residual_blocks := gr_residual_blocks r + 1, gr_residual_txs := gr_residual_txs r + unresolved,
          gr_residual_daa_lo := (if gr_residual_daa_lo r = 0 then daa else min (gr_residual_daa_lo r) daa),
          gr_residual_daa_hi := max (gr_residual_daa_hi r) daa\<rparr>
      else r)"

text \<open>An event that live classification calls a transition only because a later sighting made the covenant known.\<close>

definition rescue_genesis :: "node \<Rightarrow> db \<Rightarrow> nat \<Rightarrow> bodies \<Rightarrow> new_event \<Rightarrow> new_event" where
  "rescue_genesis N d daa found ev =
     (if ne_kind ev = Genesis \<or> has_event_at_or_below d (ne_covenant_id ev) daa then ev
      else case map_of found (ne_txid ev) of
        None \<Rightarrow> ev
      | Some tx \<Rightarrow> if is_valid_genesis N tx (ne_covenant_id ev) then ev\<lparr>ne_kind := Genesis\<rparr> else ev)"

definition capture_block :: "externals \<Rightarrow> node \<Rightarrow> db \<Rightarrow> accepted_block \<Rightarrow> block \<Rightarrow> bodies \<Rightarrow> accepted_block_batch" where
  "capture_block X N d accepted accepting found =
     (let b = classify_block X N d no_application_decoder accepted accepting (indexed_bodies accepted found)
      in b\<lparr>bk_events := map (rescue_genesis N d (bl_daa_score accepting) found) (bk_events b)\<rparr>)"

definition has_activity :: "accepted_block_batch \<Rightarrow> bool" where
  "has_activity b \<longleftrightarrow> bk_events b \<noteq> [] \<or> bk_created_utxos b \<noteq> [] \<or> bk_spent_utxos b \<noteq> []"

definition merge_into :: "externals \<Rightarrow> state_decoder list \<Rightarrow> accepted_block_batch \<Rightarrow> gap_walk \<Rightarrow> string + gap_walk" where
  "merge_into X reg b w =
     (if has_activity b then
        (case merge_recovered_block X reg b (gw_db w) of
           Inl e \<Rightarrow> Inl e
         | Inr (n, d) \<Rightarrow> Inr (w\<lparr>gw_db := d, gw_merged := add_merges (gw_merged w) n\<rparr>))
      else Inr w)"

text \<open>One chain block: skipped below the window, captured inside it, reconciled up to the ceiling, above which
  the walk stops (the flag).\<close>

definition gap_block ::
  "externals \<Rightarrow> state_decoder list \<Rightarrow> node \<Rightarrow> nat \<Rightarrow> nat \<Rightarrow> nat \<Rightarrow> accepted_block \<Rightarrow> gap_walk \<Rightarrow> string + bool \<times> gap_walk" where
  "gap_block X reg N gap_lo gap_hi stop_daa accepted w =
     (let w = w\<lparr>gw_report := (gw_report w)\<lparr>gr_chain_blocks_walked := gr_chain_blocks_walked (gw_report w) + 1\<rparr>\<rparr> in
      case nd_block_with_txs N Prefetch (ab_accepting_block accepted) (ab_accepting_block accepted) of
        Inl e \<Rightarrow> Inl e
      | Inr accepting \<Rightarrow>
          if bl_daa_score accepting < gap_lo then Inr (False, w)
          else if bl_daa_score accepting > stop_daa then Inr (True, w)
          else
            let (found, unresolved) = resolve_accepted_bodies N accepted accepting;
                w = w\<lparr>gw_report := note_residue (bl_daa_score accepting) unresolved (gw_report w)\<rparr>
            in if bl_daa_score accepting \<le> gap_hi
               then map_sum id (Pair False) (merge_into X reg (capture_block X N (gw_db w) accepted accepting found)
                      (w\<lparr>gw_report := (gw_report w)\<lparr>gr_blocks_captured := gr_blocks_captured (gw_report w) + 1\<rparr>\<rparr>))
               else map_sum id (Pair False) (merge_into X reg (reconcile_block X (gw_db w) accepted accepting found) w))"

text \<open>The blocks of a step: the error, if one stopped it, else whether the ceiling was passed, and the state.\<close>

fun gap_blocks ::
  "externals \<Rightarrow> state_decoder list \<Rightarrow> node \<Rightarrow> nat \<Rightarrow> nat \<Rightarrow> nat \<Rightarrow> accepted_block list \<Rightarrow> gap_walk \<Rightarrow>
   (string + bool) \<times> gap_walk" where
  "gap_blocks X reg N gap_lo gap_hi stop_daa [] w = (Inr False, w)"
| "gap_blocks X reg N gap_lo gap_hi stop_daa (a # as) w =
     (case gap_block X reg N gap_lo gap_hi stop_daa a w of
        Inl e \<Rightarrow> (Inl e, w)
      | Inr (True, w) \<Rightarrow> (Inr True, w)
      | Inr (False, w) \<Rightarrow> gap_blocks X reg N gap_lo gap_hi stop_daa as w)"

text \<open>One turn of the walk: an error, the end of the walk, or the block to go on from.\<close>

definition gap_turn ::
  "externals \<Rightarrow> state_decoder list \<Rightarrow> node \<Rightarrow> nat \<Rightarrow> nat \<Rightarrow> nat \<Rightarrow> bytes \<Rightarrow> gap_walk \<Rightarrow> (string + bytes option) \<times> gap_walk" where
  "gap_turn X reg N gap_lo gap_hi stop_daa c w =
     (case nd_virtual_chain_from N c of
        Inl e \<Rightarrow> (Inl e, w)
      | Inr step \<Rightarrow>
          if cp_removed step \<noteq> [] then (Inl ''chain reorged under the recovery walk'', w)
          else if cp_added step = [] then (Inr None, w)
          else let next_cursor = ab_accepting_block (last (cp_added step)) in
            case nd_block_with_txs N Prefetch c next_cursor of
              Inl e \<Rightarrow> (Inl e, w)
            | Inr last_block \<Rightarrow>
                if bl_daa_score last_block < gap_lo then
                  (Inr (Some next_cursor),
                   w\<lparr>gw_db := set_gap_walk_cursor X next_cursor (gw_db w),
                     gw_report := (gw_report w)\<lparr>gr_chain_blocks_walked :=
                       gr_chain_blocks_walked (gw_report w) + length (cp_added step)\<rparr>\<rparr>)
                else
                  (case gap_blocks X reg N gap_lo gap_hi stop_daa (cp_added step) w of
                     (Inl e, w) \<Rightarrow> (Inl e, w)
                   | (Inr True, w) \<Rightarrow> (Inr None, w)
                   | (Inr False, w) \<Rightarrow> (Inr (Some next_cursor), w\<lparr>gw_db := set_gap_walk_cursor X next_cursor (gw_db w)\<rparr>)))"

text \<open>The walk as a partial function: a node whose chain never ends keeps it going.\<close>

partial_function (option) gap_loop ::
  "externals \<Rightarrow> state_decoder list \<Rightarrow> node \<Rightarrow> nat \<Rightarrow> nat \<Rightarrow> nat \<Rightarrow> bytes \<Rightarrow> gap_walk \<Rightarrow> (string option \<times> gap_walk) option" where
  "gap_loop X reg N gap_lo gap_hi stop_daa c w =
     (case gap_turn X reg N gap_lo gap_hi stop_daa c w of
        (Inl e, w) \<Rightarrow> Some (Some e, w)
      | (Inr None, w) \<Rightarrow> Some (None, w)
      | (Inr (Some next_cursor), w) \<Rightarrow> gap_loop X reg N gap_lo gap_hi stop_daa next_cursor w)"

definition walk_start :: "externals \<Rightarrow> gap_options \<Rightarrow> dag_info \<Rightarrow> db \<Rightarrow> bytes" where
  "walk_start X opts dag d =
     (case gap_walk_cursor X d of
        Some c \<Rightarrow> c
      | None \<Rightarrow> (case go_anchor_block opts of Some blk \<Rightarrow> blk | None \<Rightarrow> di_pruning_point dag))"

definition close_walk ::
  "externals \<Rightarrow> state_decoder list \<Rightarrow> serde \<Rightarrow> nat \<Rightarrow> nat \<Rightarrow> nat \<Rightarrow> gap_walk \<Rightarrow> (string + gap_report) \<times> db" where
  "close_walk X reg J now gap_lo gap_hi w =
     (case finalize_gap_recovery X reg J now gap_lo gap_hi (gw_merged w) (gw_db w) of
        Inl e \<Rightarrow> (Inl e, gw_db w)
      | Inr (fin, d) \<Rightarrow> (Inr ((gw_report w)\<lparr>gr_merged := gw_merged w, gr_finalized := fin\<rparr>), d))"

text \<open>A run, \<open>None\<close> if it never ends: its result and the database it leaves.\<close>

definition walk_window ::
  "externals \<Rightarrow> state_decoder list \<Rightarrow> node \<Rightarrow> serde \<Rightarrow> nat \<Rightarrow> gap_options \<Rightarrow> nat \<Rightarrow> nat \<Rightarrow> db \<Rightarrow>
   ((string + gap_report) \<times> db) option" where
  "walk_window X reg N J now opts gap_lo gap_hi d =
     (let d = set_gap_recovery_pending gap_lo gap_hi d;
          stop_daa = max (case processed_daa d of Some p \<Rightarrow> p | None \<Rightarrow> gap_hi) gap_hi
      in case nd_dag_info N of
        Inl e \<Rightarrow> Some (Inl e, d)
      | Inr dag \<Rightarrow>
          (case gap_loop X reg N gap_lo gap_hi stop_daa (walk_start X opts dag d)
                  \<lparr>gw_db = d, gw_report = fresh_report gap_lo gap_hi False, gw_merged = no_merges\<rparr> of
             None \<Rightarrow> None
           | Some (Some e, w) \<Rightarrow> Some (Inl e, gw_db w)
           | Some (None, w) \<Rightarrow> Some (close_walk X reg J now gap_lo gap_hi w)))"

definition recover_gap ::
  "externals \<Rightarrow> state_decoder list \<Rightarrow> node \<Rightarrow> serde \<Rightarrow> nat \<Rightarrow> gap_options \<Rightarrow> db \<Rightarrow>
   ((string + gap_report) \<times> db) option" where
  "recover_gap X reg N J now opts d =
     (case chosen_window J opts d of
        NoWindow e \<Rightarrow> Some (Inl e, d)
      | AlreadyRecovered lo hi \<Rightarrow> Some (Inr (fresh_report lo hi True), d)
      | Window lo hi \<Rightarrow>
          if covered_already J opts lo hi d then Some (Inr (fresh_report lo hi True), d)
          else walk_window X reg N J now opts lo hi d)"

end
