(* ===== verification/Gap_Renumber.thy ===== *)
theory Gap_Renumber
  imports Gap_Recovery Stream_History "HOL-Library.Multiset"
begin

text \<open>
  Renumbering in place, as \<open>finalize_gap_recovery\<close> (\<open>crates/kascov-core/src/store.rs\<close>) does it: parking every
  row below zero and flipping back never collides with the primary key and gives each event its rank in
  chronological order; and what settling one covenant leaves behind.
\<close>

section \<open>Renumbering in place\<close>

definition move_to :: "bytes \<Rightarrow> (int \<Rightarrow> int option) \<Rightarrow> int \<times> event_row \<Rightarrow> int \<times> event_row" where
  "move_to cid m = (\<lambda>(s, e). if e_covenant_id e = cid then (case m s of None \<Rightarrow> s | Some t \<Rightarrow> t, e) else (s, e))"

definition places :: "bytes \<Rightarrow> numbered \<Rightarrow> int set" where
  "places cid rows = {s. \<exists>e. (s, e) \<in> set rows \<and> e_covenant_id e = cid}"

lemma place_iff: "(cid, s) \<in> set (map (\<lambda>(s, e). (e_covenant_id e, s)) rows) \<longleftrightarrow> s \<in> places cid rows"
  by (force simp: places_def)

lemma places_simps [simp]:
  "places cid [] = {}"
  "places cid (p # rows) = (if e_covenant_id (snd p) = cid then insert (fst p) (places cid rows) else places cid rows)"
  by (cases p; force simp: places_def)+

lemma places_moved:
  "places cid (map (move_to cid m) rows) = (\<lambda>s. case m s of None \<Rightarrow> s | Some t \<Rightarrow> t) ` places cid rows"
  by (induction rows) (auto simp: move_to_def split_beta)

lemma move_seq_moves:
  assumes "new \<notin> places cid rows"
  shows "move_seq cid (old, new) rows = Inr (map (move_to cid [old \<mapsto> new]) rows)"
proof (cases "old \<in> places cid rows")
  case True
  with assms show ?thesis
    unfolding move_seq_def Let_def prod.case place_iff by (auto simp: move_to_def)
next
  case False
  then have "map (move_to cid [old \<mapsto> new]) rows = rows"
    by (intro map_idI) (auto simp: move_to_def places_def)
  with False show ?thesis unfolding move_seq_def Let_def prod.case place_iff by simp
qed

lemma moves_reach:
  assumes "distinct (map fst ms)" "distinct (map snd ms)"
    and "set (map snd ms) \<inter> (set (map fst ms) \<union> places cid rows) = {}"
  shows "fold_result (move_seq cid) ms rows = Inr (map (move_to cid (map_of ms)) rows)"
  using assms
proof (induction ms arbitrary: rows)
  case Nil
  have "map (move_to cid (map_of [])) rows = rows" by (intro map_idI) (auto simp: move_to_def)
  then show ?case by simp
next
  case (Cons m ms)
  obtain old new where m: "m = (old, new)" by fastforce
  let ?rows = "map (move_to cid [old \<mapsto> new]) rows"
  have step: "move_seq cid m rows = Inr ?rows"
    using Cons.prems(3) by (simp add: m move_seq_moves)
  have "places cid ?rows \<subseteq> insert new (places cid rows)"
    unfolding places_moved by auto
  moreover have "new \<notin> set (map snd ms)" "set (map snd ms) \<inter> (set (map fst ms) \<union> places cid rows) = {}"
    using Cons.prems(2,3) by (auto simp: m)
  ultimately have "set (map snd ms) \<inter> (set (map fst ms) \<union> places cid ?rows) = {}" by blast
  with Cons.prems have "fold_result (move_seq cid) ms ?rows = Inr (map (move_to cid (map_of ms)) ?rows)"
    by (intro Cons.IH) auto
  moreover have "map_of ms new = None" using Cons.prems(3) by (auto simp: m map_of_eq_None_iff)
  then have "move_to cid (map_of ms) (move_to cid [old \<mapsto> new] p) = move_to cid (map_of (m # ms)) p" for p
    by (cases p) (simp add: move_to_def m split: option.splits)
  then have "map (move_to cid (map_of ms)) ?rows = map (move_to cid (map_of (m # ms))) rows"
    unfolding map_map comp_def by (intro map_cong refl)
  ultimately show ?case by (simp only: fold_result.simps step sum.case)
qed

text \<open>The reference: every row of the covenant takes its rank in the list.\<close>

definition rank_in :: "'x list \<Rightarrow> 'x \<Rightarrow> nat" where
  "rank_in xs x = length (takeWhile (\<lambda>y. y \<noteq> x) xs)"

lemma rank_in_nth: "distinct xs \<Longrightarrow> i < length xs \<Longrightarrow> rank_in xs (xs ! i) = i"
proof (induction xs arbitrary: i)
  case (Cons x xs)
  then show ?case by (cases i) (auto simp: rank_in_def)
qed simp

lemma nth_rank_in: "x \<in> set xs \<Longrightarrow> rank_in xs x < length xs \<and> xs ! rank_in xs x = x"
  by (induction xs) (auto simp: rank_in_def)

definition ranked :: "bytes \<Rightarrow> nat list \<Rightarrow> event_row \<Rightarrow> event_row" where
  "ranked cid ordered e = (if e_covenant_id e = cid then e\<lparr>e_seq := rank_in ordered (e_seq e)\<rparr> else e)"

lemma park_moves_fst: "map fst (park_moves ordered) = map int ordered"
  by (rule nth_equalityI) (simp_all add: park_moves_def nth_enumerate_eq)

lemma park_lookup:
  assumes "distinct ordered"
  shows "map_of (park_moves ordered) s =
    (if s \<in> int ` set ordered then Some (- int (rank_in ordered (nat s)) - 1) else None)"
proof (cases "s \<in> int ` set ordered")
  case True
  then obtain i where i: "i < length ordered" "s = int (ordered ! i)" by (auto simp: in_set_conv_nth)
  have "(s, - int i - 1) \<in> set (park_moves ordered)"
    using i by (force simp: park_moves_def in_set_enumerate_eq)
  moreover have "distinct (map fst (park_moves ordered))"
    using assms by (simp add: park_moves_fst distinct_map)
  ultimately show ?thesis using True i assms by (simp add: rank_in_nth)
next
  case False
  then show ?thesis by (force simp: map_of_eq_None_iff park_moves_def in_set_enumerate_eq)
qed

text \<open>The flips of the parked rows.\<close>

lemma flip_lookup:
  "map_of (flip_moves cid rows) s = (if s < 0 \<and> s \<in> places cid rows then Some (- s - 1) else None)"
proof (induction rows)
  case (Cons p rows)
  obtain t e where "p = (t, e)" by fastforce
  with Cons show ?case by (simp add: flip_moves_def)
qed (simp add: flip_moves_def)

lemma flip_moves_snd: "map snd (flip_moves cid rows) = map (\<lambda>s. - s - 1) (map fst (flip_moves cid rows))"
  by (simp add: flip_moves_def split_beta)

definition parked :: "bytes \<Rightarrow> nat list \<Rightarrow> event_row list \<Rightarrow> numbered" where
  "parked cid ordered rows =
     map (\<lambda>e. (if e_covenant_id e = cid then - int (rank_in ordered (e_seq e)) - 1 else int (e_seq e), e)) rows"

lemma parked_places: "places cid (parked cid ordered rows) = (\<lambda>e. - int (rank_in ordered (e_seq e)) - 1) ` set (rows_of cid rows)"
  unfolding parked_def rows_of_def by (induction rows) auto

lemma parked_firsts:
  "map fst (flip_moves cid (parked cid ordered rows)) = map (\<lambda>e. - int (rank_in ordered (e_seq e)) - 1) (rows_of cid rows)"
  unfolding parked_def rows_of_def flip_moves_def by (induction rows) auto

lemma renumber_ranks:
  assumes "distinct (map e_seq (rows_of cid rows))" and "set ordered = e_seq ` set (rows_of cid rows)" and "distinct ordered"
  shows "renumber cid ordered rows = Inr (map (ranked cid ordered) rows)"
proof -
  let ?start = "map (\<lambda>e. (int (e_seq e), e)) rows" and ?parked = "parked cid ordered rows"
  have start: "places cid ?start = int ` set ordered"
    unfolding assms(2) rows_of_def by (induction rows) auto
  have "fold_result (move_seq cid) (park_moves ordered) ?start = Inr (map (move_to cid (map_of (park_moves ordered))) ?start)"
  proof (rule moves_reach)
    show "distinct (map fst (park_moves ordered))" using assms(3) by (simp add: park_moves_fst distinct_map)
    have snds: "map snd (park_moves ordered) = map (\<lambda>i. - int i - 1) [0..<length ordered]"
      by (rule nth_equalityI) (simp_all add: park_moves_def nth_enumerate_eq)
    show "distinct (map snd (park_moves ordered))" unfolding snds by (simp add: distinct_map inj_on_def)
    show "set (map snd (park_moves ordered)) \<inter> (set (map fst (park_moves ordered)) \<union> places cid ?start) = {}"
      unfolding snds park_moves_fst start by auto
  qed
  also have "map (move_to cid (map_of (park_moves ordered))) ?start = ?parked"
    using assms(2) by (auto simp: parked_def move_to_def park_lookup [OF assms(3)] rows_of_def)
  finally have park: "fold_result (move_seq cid) (park_moves ordered) ?start = Inr ?parked" .
  have inj: "inj_on (\<lambda>e. rank_in ordered (e_seq e)) (set (rows_of cid rows))"
  proof (rule inj_onI)
    fix e e' assume e: "e \<in> set (rows_of cid rows)" "e' \<in> set (rows_of cid rows)"
      and r: "rank_in ordered (e_seq e) = rank_in ordered (e_seq e')"
    have inv: "e_seq e = ordered ! rank_in ordered (e_seq e)" if "e \<in> set (rows_of cid rows)" for e
      using that assms(2) by (simp add: nth_rank_in)
    have "e_seq e = ordered ! rank_in ordered (e_seq e')" using inv [OF e(1)] by (simp only: r)
    also have "\<dots> = e_seq e'" using inv [OF e(2)] by (rule sym)
    finally have "e_seq e = e_seq e'" .
    then show "e = e'" using e assms(1) by (auto simp: distinct_map inj_on_def)
  qed
  have "fold_result (move_seq cid) (flip_moves cid ?parked) ?parked = Inr (map (move_to cid (map_of (flip_moves cid ?parked))) ?parked)"
  proof (rule moves_reach)
    have "inj_on (\<lambda>e. - int (rank_in ordered (e_seq e)) - 1) (set (rows_of cid rows))"
    proof (rule inj_onI)
      fix e e' assume e: "e \<in> set (rows_of cid rows)" "e' \<in> set (rows_of cid rows)"
        and "- int (rank_in ordered (e_seq e)) - 1 = - int (rank_in ordered (e_seq e')) - 1"
      then have "rank_in ordered (e_seq e) = rank_in ordered (e_seq e')" by simp
      from inj_onD [OF inj this e] show "e = e'" .
    qed
    then show d: "distinct (map fst (flip_moves cid ?parked))"
      unfolding parked_firsts using assms(1) by (simp add: distinct_map)
    then show "distinct (map snd (flip_moves cid ?parked))"
      unfolding flip_moves_snd by (subst distinct_map) (simp add: inj_on_def)
    show "set (map snd (flip_moves cid ?parked)) \<inter> (set (map fst (flip_moves cid ?parked)) \<union> places cid ?parked) = {}"
      unfolding flip_moves_snd parked_firsts parked_places by auto
  qed
  moreover have "map (\<lambda>(s, e). e\<lparr>e_seq := nat s\<rparr>) (map (move_to cid (map_of (flip_moves cid ?parked))) ?parked) =
      map (ranked cid ordered) rows"
  proof -
    have "(\<lambda>(s, e). e\<lparr>e_seq := nat s\<rparr>) (move_to cid (map_of (flip_moves cid ?parked)) p) = ranked cid ordered (snd p)"
      if "p \<in> set ?parked" for p
    proof -
      from that obtain e where e: "e \<in> set rows"
        "p = (if e_covenant_id e = cid then - int (rank_in ordered (e_seq e)) - 1 else int (e_seq e), e)"
        unfolding parked_def by auto
      then have "e_covenant_id e = cid \<Longrightarrow> e \<in> set (rows_of cid rows)" by (simp add: rows_of_def)
      with e show ?thesis by (auto simp: move_to_def flip_lookup parked_places ranked_def)
    qed
    then have "map ((\<lambda>(s, e). e\<lparr>e_seq := nat s\<rparr>) \<circ> move_to cid (map_of (flip_moves cid ?parked))) ?parked =
        map (ranked cid ordered \<circ> snd) ?parked" by (intro map_cong) auto
    also have "\<dots> = map (ranked cid ordered) rows" by (simp add: parked_def)
    finally show ?thesis by simp
  qed
  ultimately show ?thesis by (simp add: renumber_def park del: map_map)
qed

section \<open>Settled covenants\<close>

definition keys_ok :: "event_row list \<Rightarrow> bool" where
  "keys_ok rows \<longleftrightarrow> distinct (map (\<lambda>e. (e_covenant_id e, e_seq e)) rows)"

lemma keys_ok_iff: "keys_ok rows \<longleftrightarrow> (\<forall>cid. distinct (map e_seq (rows_of cid rows)))"
proof (induction rows)
  case (Cons e rows)
  have "(e_covenant_id e, e_seq e) \<in> (\<lambda>e. (e_covenant_id e, e_seq e)) ` set rows \<longleftrightarrow>
      e_seq e \<in> e_seq ` set (rows_of (e_covenant_id e) rows)"
    unfolding rows_of_def image_iff set_filter by (simp, metis)
  with Cons show ?case by (auto simp: keys_ok_def rows_of_def)
qed (simp add: keys_ok_def rows_of_def)

lemma sort_key_sorted: "sorted (map f xs) \<Longrightarrow> sort_key f xs = xs"
  by (rule properties_for_sort_key) auto

lemma two_sorts:
  assumes "mset ys = mset xs" and "sorted (map f ys)" and "sorted (map g ys)" and "distinct (map g ys)"
  shows "sort_key f (sort_key g xs) = ys"
proof -
  have "inj_on g (set xs)"
    using assms(1,4) by (metis distinct_map set_mset_mset)
  with assms have "sort_key g xs = ys" by (intro sort_key_inj_key_eq) auto
  with assms(2) show ?thesis by (simp add: sort_key_sorted)
qed

lemma set_chronological: "set (chronological cid rows) = e_seq ` set (rows_of cid rows)"
  by (simp add: chronological_def)

lemma distinct_chronological:
  assumes "distinct (map e_seq (rows_of cid rows))"
  shows "distinct (chronological cid rows)"
proof -
  have "mset (chronological cid rows) = mset (map e_seq (rows_of cid rows))"
    unfolding chronological_def mset_map mset_sort ..
  with assms show ?thesis by (metis mset_eq_imp_distinct_iff)
qed

lemma length_chronological [simp]: "length (chronological cid rows) = length (rows_of cid rows)"
  by (simp add: chronological_def)

lemma ranked_keeps [simp]:
  "e_covenant_id (ranked cid o' e) = e_covenant_id e" "e_accepting_daa (ranked cid o' e) = e_accepting_daa e"
  "e_txid (ranked cid o' e) = e_txid e" "e_kind (ranked cid o' e) = e_kind e"
  by (simp_all add: ranked_def)

lemma rows_of_ranked:
  "rows_of cid (map (ranked cid o') rows) = map (ranked cid o') (rows_of cid rows)"
  "cid' \<noteq> cid \<Longrightarrow> rows_of cid' (map (ranked cid o') rows) = rows_of cid' rows"
proof -
  show "rows_of cid (map (ranked cid o') rows) = map (ranked cid o') (rows_of cid rows)"
    by (induction rows) (simp_all add: rows_of_def)
  assume "cid' \<noteq> cid"
  then show "rows_of cid' (map (ranked cid o') rows) = rows_of cid' rows"
    by (induction rows) (auto simp: rows_of_def ranked_def)
qed

text \<open>After renumbering, the chronological numbers count up from zero.\<close>

lemma chronological_ranked:
  assumes "distinct (map e_seq (rows_of cid rows))"
  shows "chronological cid (map (ranked cid (chronological cid rows)) rows) = [0..<length (rows_of cid rows)]"
proof -
  let ?S = "sort_key e_accepting_daa (sort_key e_seq (rows_of cid rows))"
  let ?o = "chronological cid rows"
  let ?T = "map (ranked cid ?o) ?S"
  have d: "distinct ?o" using assms by (rule distinct_chronological)
  have S: "e_covenant_id e = cid" if "e \<in> set ?S" for e using that by (auto simp: rows_of_def)
  have seqs: "map e_seq ?T = [0..<length (rows_of cid rows)]"
  proof (rule nth_equalityI)
    fix i assume "i < length (map e_seq ?T)"
    then have i: "i < length ?S" by simp
    then have c: "e_covenant_id (?S ! i) = cid" by (intro S nth_mem)
    have "e_seq (?S ! i) = ?o ! i" using i by (simp add: chronological_def)
    with c d i show "map e_seq ?T ! i = [0..<length (rows_of cid rows)] ! i"
      by (simp add: ranked_def rank_in_nth)
  qed simp
  have m: "mset ?T = mset (rows_of cid (map (ranked cid ?o) rows))"
    unfolding rows_of_ranked by simp
  have daas: "map e_accepting_daa ?T = map e_accepting_daa ?S" by simp
  have "sorted (map e_accepting_daa ?T)" unfolding daas by (rule sorted_sort_key)
  then have "sort_key e_accepting_daa (sort_key e_seq (rows_of cid (map (ranked cid ?o) rows))) = ?T"
    by (rule two_sorts [OF m]) (simp_all only: seqs sorted_upt distinct_upt)
  then show ?thesis unfolding chronological_def [of cid "map (ranked cid ?o) rows"] by (simp only: seqs)
qed

definition settled :: "db \<Rightarrow> bytes \<Rightarrow> bool" where
  "settled d cid \<longleftrightarrow>
     chronological cid (d_events d) = [0..<length (rows_of cid (d_events d))] \<and>
     list_all (\<lambda>c. c_covenant_id c = cid \<longrightarrow> refreshed_row (rows_of cid (d_events d)) c = c) (d_covenants d)"

text \<open>An event without its number.\<close>

definition sans_seq :: "event_row \<Rightarrow> event_row" where
  "sans_seq e = e\<lparr>e_seq := 0\<rparr>"

lemma sans_seq_ranked [simp]: "sans_seq (ranked cid o' e) = sans_seq e"
  by (simp add: sans_seq_def ranked_def)

lemma ranked_in_order:
  assumes "chronological cid rows = [0..<length (rows_of cid rows)]"
  shows "map (ranked cid (chronological cid rows)) rows = rows"
proof (rule map_idI)
  fix e assume e: "e \<in> set rows"
  show "ranked cid (chronological cid rows) e = e"
  proof (cases "e_covenant_id e = cid")
    case True
    with e have "e_seq e \<in> set (chronological cid rows)" by (auto simp: set_chronological rows_of_def)
    then have "e_seq e < length (rows_of cid rows)" unfolding assms by simp
    then have "rank_in [0..<length (rows_of cid rows)] (e_seq e) = e_seq e"
      using rank_in_nth [of "[0..<length (rows_of cid rows)]" "e_seq e"] by simp
    then show ?thesis by (simp add: ranked_def assms)
  qed (simp add: ranked_def)
qed

lemma all_enumerated_from: "list_all (\<lambda>(i, x). x = i) (enumerate n xs) \<longleftrightarrow> xs = [n..<n + length xs]"
proof (induction xs arbitrary: n)
  case (Cons x xs)
  have "[n..<n + length (x # xs)] = n # [Suc n..<Suc n + length xs]"
    using upt_conv_Cons [of n "n + length (x # xs)"] by simp
  with Cons [of "Suc n"] show ?case by auto
qed simp

lemmas all_enumerated = all_enumerated_from [of 0, simplified]

lemma resequence_ranks:
  assumes "keys_ok (d_events d)"
  shows "resequence cid (n, d) =
    Inr (if chronological cid (d_events d) = [0..<length (rows_of cid (d_events d))] then n else n + 1,
         d\<lparr>d_events := map (ranked cid (chronological cid (d_events d))) (d_events d)\<rparr>)"
proof -
  have k: "distinct (map e_seq (rows_of cid (d_events d)))" using assms by (simp add: keys_ok_iff)
  show ?thesis
    using ranked_in_order [of cid "d_events d"]
    by (simp add: resequence_def Let_def all_enumerated renumber_ranks [OF k set_chronological distinct_chronological [OF k]])
qed

lemma refreshed_row_id [simp]: "c_covenant_id (refreshed_row es c) = c_covenant_id c"
  by (simp add: refreshed_row_def Let_def split: option.splits)

lemma refreshed_twice: "refreshed_row es (refreshed_row es c) = refreshed_row es c"
  by (simp add: refreshed_row_def Let_def split: option.splits)

lemma keys_ok_ranked:
  assumes "keys_ok rows"
  shows "keys_ok (map (ranked cid (chronological cid rows)) rows)"
  unfolding keys_ok_iff
proof
  fix cid'
  show "distinct (map e_seq (rows_of cid' (map (ranked cid (chronological cid rows)) rows)))"
  proof (cases "cid' = cid")
    case True
    let ?R = "map (ranked cid (chronological cid rows)) rows"
    have "mset (map e_seq (rows_of cid ?R)) = mset (chronological cid ?R)"
      unfolding chronological_def mset_map mset_sort ..
    also have "\<dots> = mset [0..<length (rows_of cid rows)]"
      using assms by (simp only: chronological_ranked keys_ok_iff)
    finally show ?thesis unfolding True by (metis mset_eq_imp_distinct_iff distinct_upt)
  next
    case False
    with assms show ?thesis by (simp add: rows_of_ranked keys_ok_iff)
  qed
qed

text \<open>Settling one covenant.\<close>

lemma settle_covenant_ok:
  assumes "keys_ok (d_events d)"
  obtains n' d' where "settle_covenant cid (n, d) = Inr (n', d')" "keys_ok (d_events d')"
    "map sans_seq (d_events d') = map sans_seq (d_events d)" "settled d' cid"
    "\<And>cid'. settled d cid' \<Longrightarrow> settled d' cid'"
    "d' = d\<lparr>d_events := d_events d', d_covenants := d_covenants d'\<rparr>"
    "settled d cid \<Longrightarrow> n' = n \<and> d' = d"
    "map c_covenant_id (d_covenants d') = map c_covenant_id (d_covenants d)"
proof -
  let ?o = "chronological cid (d_events d)"
  let ?es = "map (ranked cid ?o) (d_events d)"
  let ?n = "if ?o = [0..<length (rows_of cid (d_events d))] then n else n + 1"
  let ?d = "refresh_covenant cid (d\<lparr>d_events := ?es\<rparr>)"
  have s: "settle_covenant cid (n, d) = Inr (?n, ?d)"
    unfolding settle_covenant_def resequence_ranks [OF assms] by simp
  have es: "d_events ?d = ?es" by (simp add: refresh_covenant_def)
  have len: "length (rows_of cid ?es) = length (rows_of cid (d_events d))" by (simp add: rows_of_ranked)
  have "list_all (\<lambda>c. c_covenant_id c = cid \<longrightarrow> refreshed_row (rows_of cid ?es) c = c) (d_covenants ?d)"
    by (simp add: refresh_covenant_def list.pred_map) (simp add: list_all_iff refreshed_twice)
  then have here: "settled ?d cid"
    using assms unfolding settled_def es len by (simp only: chronological_ranked keys_ok_iff simp_thms)
  have there: "settled ?d cid'" if "settled d cid'" for cid'
  proof (cases "cid' = cid")
    case False
    have r: "rows_of cid' ?es = rows_of cid' (d_events d)" using False by (rule rows_of_ranked)
    then have "chronological cid' ?es = chronological cid' (d_events d)" by (simp only: chronological_def)
    with that r show ?thesis unfolding settled_def es
      using False by (simp add: refresh_covenant_def list.pred_map) (auto simp: list_all_iff)
  qed (use here in simp)
  have same: "?n = n \<and> ?d = d" if "settled d cid"
  proof -
    from that have c: "?o = [0..<length (rows_of cid (d_events d))]" by (simp add: settled_def)
    then have e: "?es = d_events d" by (rule ranked_in_order)
    have "map (\<lambda>c. if c_covenant_id c = cid then refreshed_row (rows_of cid (d_events d)) c else c) (d_covenants d) = d_covenants d"
      using that by (intro map_idI) (auto simp: settled_def list_all_iff)
    then show ?thesis using c unfolding e by (simp add: refresh_covenant_def)
  qed
  have ids: "map c_covenant_id (d_covenants ?d) = map c_covenant_id (d_covenants d)"
    by (simp add: refresh_covenant_def comp_def if_distrib cong: if_cong)
  show ?thesis
    by (rule that [OF s _ _ here there _ same ids])
      (simp_all add: es keys_ok_ranked [OF assms] comp_def, simp add: refresh_covenant_def)
qed

end
