(* ===== verification/Gap_Laws.thy ===== *)
theory Gap_Laws
  imports Gap_Renumber "HOL-Library.Countable"
begin

text \<open>
  What a gap recovery does to the index: a finished recovery leaves the covenants of the window in
  chronological order with exact summaries, merging twice is merging once, a run only adds to the history and
  leaves the place of the live walk alone, it ends on a chain that ends, and a completed run is not repeated.
\<close>

section \<open>Closing\<close>

lemma settle_all:
  assumes "keys_ok (d_events d)"
  shows "\<exists>n' d'. fold_result settle_covenant cids (n, d) = Inr (n', d') \<and> keys_ok (d_events d') \<and>
    map sans_seq (d_events d') = map sans_seq (d_events d) \<and> list_all (settled d') cids \<and>
    (\<forall>cid. settled d cid \<longrightarrow> settled d' cid) \<and> d' = d\<lparr>d_events := d_events d', d_covenants := d_covenants d'\<rparr> \<and>
    map c_covenant_id (d_covenants d') = map c_covenant_id (d_covenants d) \<and>
    (list_all (settled d) cids \<longrightarrow> n' = n \<and> d' = d)"
  using assms
proof (induction cids arbitrary: n d)
  case (Cons cid cids)
  obtain n1 d1 where s: "settle_covenant cid (n, d) = Inr (n1, d1)" "keys_ok (d_events d1)"
    "map sans_seq (d_events d1) = map sans_seq (d_events d)" "settled d1 cid" "\<And>cid'. settled d cid' \<Longrightarrow> settled d1 cid'"
    "d1 = d\<lparr>d_events := d_events d1, d_covenants := d_covenants d1\<rparr>" "settled d cid \<Longrightarrow> n1 = n \<and> d1 = d"
    "map c_covenant_id (d_covenants d1) = map c_covenant_id (d_covenants d)"
    using settle_covenant_ok [OF Cons.prems, of cid n] by metis
  from Cons.IH [OF s(2), of n1] obtain n' d' where r: "fold_result settle_covenant cids (n1, d1) = Inr (n', d')"
    "keys_ok (d_events d')" "map sans_seq (d_events d') = map sans_seq (d_events d1)" "list_all (settled d') cids"
    "\<forall>cid. settled d1 cid \<longrightarrow> settled d' cid" "d' = d1\<lparr>d_events := d_events d', d_covenants := d_covenants d'\<rparr>"
    "map c_covenant_id (d_covenants d') = map c_covenant_id (d_covenants d1)"
    "list_all (settled d1) cids \<longrightarrow> n' = n1 \<and> d' = d1" by blast
  have "d' = d\<lparr>d_events := d_events d', d_covenants := d_covenants d'\<rparr>"
    by (subst r(6), subst s(6)) simp
  with s r show ?case by (intro exI [of _ n'] exI [of _ d']) (auto simp: list_all_iff)
qed auto

lemma rederive_due_frame: "rederive_due X reg refresh d = Inr (n, d') \<Longrightarrow> sans_tokens d' = sans_tokens d"
proof -
  have tokens: "fold_result (derive_token X reg) ts d = Inr d' \<Longrightarrow> sans_tokens d' = sans_tokens d" for ts d
    by (induction ts arbitrary: d) (auto dest!: early_return dest: derive_token_frame)
  assume "rederive_due X reg refresh d = Inr (n, d')"
  then show ?thesis
    using derive_minters_frame [of X reg "minters_todo d refresh" d]
    by (auto simp: rederive_due_def Let_def split_beta dest!: early_return tokens)
qed

lemma window_sans_seq:
  "window_covenants lo hi d =
     remdups (map e_covenant_id (filter (\<lambda>e. lo \<le> e_accepting_daa e \<and> e_accepting_daa e \<le> hi) (map sans_seq (d_events d))))"
  by (simp add: window_covenants_def filter_map comp_def sans_seq_def)

lemma settled_cong: "d_events d = d_events d' \<Longrightarrow> d_covenants d = d_covenants d' \<Longrightarrow> settled d cid = settled d' cid"
  by (simp add: settled_def)

lemma get_meta_delete: "get_meta (delete_meta k0 d) k = (if k = k0 then None else get_meta d k)"
proof -
  have "map_of (filter (\<lambda>(k, v). k \<noteq> k0) m) k = (if k = k0 then None else map_of m k)" for m :: "(string \<times> string) list"
    by (induction m) auto
  then show ?thesis by (simp add: delete_meta_def get_meta_def)
qed

lemma get_meta_record_recovery:
  "get_meta (record_recovery J entry d) ''gap_recovery_pending'' = None"
  "get_meta (record_recovery J entry d) ''gap_walk_cursor'' = None"
  "get_meta (record_recovery J entry d) ''gap_recoveries'' = Some (sj_print J (JArray (gap_entries J d @ [entry])))"
  by (simp_all add: record_recovery_def get_meta_delete get_meta_set)

lemma gap_entry_value:
  assumes "serde_documented J"
  shows "json_value (sj_number J) (gap_entry lo hi now merged n)"
proof -
  have "json_value (sj_number J) (json_of_u64 k)" for k
    using assms by (simp add: serde_documented_def json_of_u64_def fits_u64_def)
  moreover have "sorted_wrt (<) [''at_ms'', ''covenants_refreshed'', ''events_added'', ''from_daa'', ''note'',
      ''spends_repaired'', ''to_daa'', ''utxos_added'']" by code_simp
  ultimately show ?thesis by (simp add: gap_entry_def)
qed

lemma gap_entries_values:
  assumes "serde_documented J"
  shows "list_all (json_value (sj_number J)) (gap_entries J d)"
proof (cases "Option.bind (get_meta d ''gap_recoveries'') (sj_parse J)")
  case (Some v)
  then have "json_value (sj_number J) v" using assms by (auto simp: serde_documented_def bind_eq_Some_conv)
  with Some show ?thesis by (cases v) (simp_all add: gap_entries_def)
qed (simp add: gap_entries_def)

lemma gap_recoveries_recorded:
  assumes "serde_documented J" and "fits_u64 lo" and "fits_u64 hi"
  shows "gap_recoveries J (record_recovery J (gap_entry lo hi now merged n) d) = (lo, hi) # gap_recoveries J d"
proof -
  let ?e = "gap_entry lo hi now merged n"
  have "entry_window ?e = Some (lo, hi)"
    using assms(2,3) by (simp add: entry_window_def gap_entry_def json_u64_def json_of_u64_def parse_show_u64 fits_u64_def)
  moreover have "json_value (sj_number J) (JArray (gap_entries J d @ [?e]))"
    using gap_entries_values [OF assms(1)] gap_entry_value [OF assms(1)] by simp
  then have "gap_entries J (record_recovery J ?e d) = gap_entries J d @ [?e]"
    using assms(1) by (simp add: gap_entries_def [of J "record_recovery J ?e d"] get_meta_record_recovery serde_documented_def)
  ultimately show ?thesis by (simp add: gap_recoveries_def List.map_filter_def)
qed

lemma record_recovery_keeps [simp]:
  "d_events (record_recovery J e d) = d_events d" "d_covenants (record_recovery J e d) = d_covenants d"
  "d_utxos (record_recovery J e d) = d_utxos d"
  by (simp_all add: record_recovery_def delete_meta_def set_meta_def)

text \<open>What a reader of the tables expects of a covenant: its events, taken by number, count up from zero and never
  go back in DAA score, and its row has their count, the last score, and the genesis exactly if the first event
  is one.\<close>

definition genesis_of :: "event_row list \<Rightarrow> (bytes \<times> nat) option" where
  "genesis_of es =
     (case es of e # _ \<Rightarrow> if e_kind e = ''genesis'' then Some (e_txid e, e_accepting_daa e) else None | [] \<Rightarrow> None)"

definition in_order :: "db \<Rightarrow> bytes \<Rightarrow> bool" where
  "in_order d cid \<longleftrightarrow>
     (let es = sort_key e_seq (rows_of cid (d_events d)) in
      map e_seq es = [0..<length es] \<and> sorted (map e_accepting_daa es) \<and>
      list_all (\<lambda>c. c_covenant_id c = cid \<longrightarrow>
        c_event_count c = int (length es) \<and>
        c_last_activity_daa c = (if es = [] then 0 else e_accepting_daa (last es)) \<and>
        c_genesis_txid c = map_option fst (genesis_of es) \<and> c_genesis_daa c = map_option snd (genesis_of es) \<and>
        (c_lineage_complete c \<longleftrightarrow> genesis_of es \<noteq> None)) (d_covenants d))"

lemma sorted_last: "sorted (map f xs) \<Longrightarrow> x \<in> set xs \<Longrightarrow> f x \<le> f (last xs)"
  by (induction xs) auto

lemma settled_in_order:
  assumes "settled d cid"
  shows "in_order d cid"
proof -
  let ?es = "rows_of cid (d_events d)"
  define S where "S = sort_key e_accepting_daa (sort_key e_seq ?es)"
  have len: "length S = length ?es" and set: "set S = set ?es" and perm: "mset S = mset ?es" by (simp_all add: S_def)
  have seqs: "map e_seq S = [0..<length ?es]" using assms by (simp add: settled_def chronological_def S_def)
  have by_seq: "sort_key e_seq ?es = S"
  proof (rule sort_key_inj_key_eq)
    have "distinct (map e_seq S)" unfolding seqs by simp
    then show "inj_on e_seq (set ?es)" unfolding distinct_map set by (rule conjunct2)
  qed (simp_all add: seqs perm)
  have daas: "sorted (map e_accepting_daa S)" unfolding S_def by (rule sorted_sort_key)
  have last_daa: "Max (insert 0 (e_accepting_daa ` set ?es)) = (if S = [] then 0 else e_accepting_daa (last S))"
  proof (cases "S = []")
    case True
    then have "set ?es = {}" using set by simp
    with True show ?thesis by simp
  next
    case False
    have "e_accepting_daa e \<le> e_accepting_daa (last S)" if "e \<in> set ?es" for e
      using sorted_last [OF daas] that unfolding set .
    moreover have "last S \<in> set ?es" using False last_in_set [of S] set by simp
    ultimately show ?thesis using False by (intro Max_eqI) auto
  qed
  have first: "find (\<lambda>e. e_seq e = 0) ?es = (case S of e # _ \<Rightarrow> Some e | [] \<Rightarrow> None)"
  proof (cases S)
    case Nil
    then have "?es = []" using len by simp
    then show ?thesis using Nil by simp
  next
    case (Cons e rest)
    have "distinct (map e_seq S)" unfolding seqs by simp
    then have inj: "inj_on e_seq (set ?es)" unfolding distinct_map set by (rule conjunct2)
    have "0 < length ?es" using len unfolding Cons by (metis list.size(4) zero_less_Suc add_Suc_right)
    then have "map e_seq S ! 0 = 0" unfolding seqs by (simp only: nth_upt add_0)
    then have "e_seq e = 0" unfolding Cons by simp
    moreover have e: "e \<in> set ?es" using set unfolding Cons by auto
    ultimately have "find (\<lambda>e. e_seq e = 0) ?es \<noteq> None" by (auto simp: find_None_iff)
    then obtain e' where f: "find (\<lambda>e. e_seq e = 0) ?es = Some e'" by blast
    then have "e' \<in> set ?es" "e_seq e' = 0" by (auto simp: find_Some_iff)
    then have "e' = e" using inj_onD [OF inj, of e' e] e \<open>e_seq e = 0\<close> by simp
    with f Cons show ?thesis by simp
  qed
  have rows: "list_all (\<lambda>c. c_covenant_id c = cid \<longrightarrow> refreshed_row ?es c = c) (d_covenants d)"
    using assms by (simp add: settled_def)
  have fields: "c_event_count (refreshed_row ?es c) = int (length S)"
    "c_last_activity_daa (refreshed_row ?es c) = (if S = [] then 0 else e_accepting_daa (last S))"
    "c_genesis_txid (refreshed_row ?es c) = map_option fst (genesis_of S)"
    "c_genesis_daa (refreshed_row ?es c) = map_option snd (genesis_of S)"
    "c_lineage_complete (refreshed_row ?es c) \<longleftrightarrow> genesis_of S \<noteq> None" for c
    unfolding refreshed_row_def Let_def first last_daa [symmetric] genesis_of_def
    by (simp_all only: len) (simp_all split: list.splits)
  have row: "c_event_count c = int (length S) \<and> c_last_activity_daa c = (if S = [] then 0 else e_accepting_daa (last S)) \<and>
      c_genesis_txid c = map_option fst (genesis_of S) \<and> c_genesis_daa c = map_option snd (genesis_of S) \<and>
      (c_lineage_complete c \<longleftrightarrow> genesis_of S \<noteq> None)" if "refreshed_row ?es c = c" for c
    using fields [of c] by (simp only: that; blast)
  have "list_all (\<lambda>c. c_covenant_id c = cid \<longrightarrow>
      c_event_count c = int (length S) \<and> c_last_activity_daa c = (if S = [] then 0 else e_accepting_daa (last S)) \<and>
      c_genesis_txid c = map_option fst (genesis_of S) \<and> c_genesis_daa c = map_option snd (genesis_of S) \<and>
      (c_lineage_complete c \<longleftrightarrow> genesis_of S \<noteq> None)) (d_covenants d)"
    using rows by (rule list.pred_mono_strong) (use row in blast)
  with daas seqs [folded len] show ?thesis unfolding in_order_def Let_def by_seq by (intro conjI)
qed

text \<open>C11. Closing a recovery puts every covenant of the window in order: its events are numbered from zero by DAA
  score without gaps and its row states exactly their count, their last score and the genesis the first one
  proves; apart from those numbers no event changes, the primary key still holds, and the window is on record
  with both markers gone.\<close>

theorem finalize_settles:
  assumes "finalize_gap_recovery X reg J now lo hi merged d = Inr (fin, d')" and "keys_ok (d_events d)"
    and "serde_documented J" and "fits_u64 lo" and "fits_u64 hi"
  shows "list_all (in_order d') (window_covenants lo hi d') \<and> window_covenants lo hi d' = window_covenants lo hi d \<and>
    map sans_seq (d_events d') = map sans_seq (d_events d) \<and> keys_ok (d_events d') \<and>
    gap_recoveries J d' = (lo, hi) # gap_recoveries J d \<and> gap_recovery_pending d' = None \<and> gap_walk_cursor X d' = None"
proof -
  let ?refresh = "window_covenants lo hi d"
  obtain n d1 where s: "fold_result settle_covenant ?refresh (0, d) = Inr (n, d1)" "keys_ok (d_events d1)"
    "map sans_seq (d_events d1) = map sans_seq (d_events d)" "list_all (settled d1) ?refresh"
    "d1 = d\<lparr>d_events := d_events d1, d_covenants := d_covenants d1\<rparr>"
    using settle_all [OF assms(2)] by metis
  obtain k d2 where r: "rederive_due X reg ?refresh d1 = Inr (k, d2)"
    and d': "d' = record_recovery J (gap_entry lo hi now merged (length ?refresh)) d2"
    using assms(1) s(1) by (auto simp: finalize_gap_recovery_def Let_def dest!: early_return)
  note f = sans_tokens_eqs [OF rederive_due_frame [OF r]]
  have e: "d_events d' = d_events d1" "d_covenants d' = d_covenants d1" by (simp_all add: d' f)
  have w: "window_covenants lo hi d' = ?refresh" unfolding window_sans_seq e s(3) ..
  have "d_meta d2 = d_meta d" unfolding f by (subst s(5)) simp
  then have g: "gap_recoveries J d2 = gap_recoveries J d"
    by (simp add: gap_recoveries_def gap_entries_def get_meta_def)
  show ?thesis
    unfolding w e using s(2,3,4) settled_cong [OF e]
    by (simp add: d' gap_recoveries_recorded [OF assms(3-5)] g gap_recovery_pending_def gap_walk_cursor_def
        get_meta_record_recovery list_all_iff settled_in_order)
qed

section \<open>Merging\<close>

lemma next_event_seq_fresh: "(cid, next_event_seq d cid) \<notin> (\<lambda>e. (e_covenant_id e, e_seq e)) ` set (d_events d)"
proof
  assume "(cid, next_event_seq d cid) \<in> (\<lambda>e. (e_covenant_id e, e_seq e)) ` set (d_events d)"
  then obtain e where e: "e \<in> set (d_events d)" "e_covenant_id e = cid" "e_seq e = next_event_seq d cid" by auto
  let ?seqs = "map e_seq (filter (\<lambda>e. e_covenant_id e = cid) (d_events d))"
  have i: "e_seq e \<in> set ?seqs" using e(1,2) by auto
  have "?seqs \<noteq> []"
  proof
    assume "?seqs = []"
    with i show False by (simp only: list.set empty_iff)
  qed
  moreover have "e_seq e \<le> Max (set ?seqs)" using i by (rule Max_ge [OF finite_set])
  ultimately have "e_seq e < next_event_seq d cid" unfolding next_event_seq_def Let_def by (simp only: if_False)
  with e(3) show False by simp
qed

lemma merge_event_iff:
  "merge_event X b ev (n, d) = Inr
     (if recorded d (ne_covenant_id ev) (ne_txid ev) then (n, d)
      else (n\<lparr>mg_events_added := mg_events_added n + 1\<rparr>,
            d\<lparr>d_covenants := ensure_covenant (bare_covenant (ne_covenant_id ev)) (d_covenants d),
              d_events := d_events d @ [merged_event_row X b ev (next_event_seq d (ne_covenant_id ev))]\<rparr>))"
  using next_event_seq_fresh [of "ne_covenant_id ev" d]
  by (simp add: merge_event_def insert_event_def insert_row_def merged_event_row_def)

lemma merge_recorded:
  "merge_event X b ev (n, d) = Inr (n', d') \<Longrightarrow>
     recorded d' (ne_covenant_id ev) (ne_txid ev) \<and> (\<forall>cid txid. recorded d cid txid \<longrightarrow> recorded d' cid txid) \<and>
     d_utxos d' = d_utxos d"
  by (auto simp: merge_event_iff recorded_def merged_event_row_def split: if_splits)

lemma merge_events_total:
  "\<exists>n' d'. fold_result (merge_event X b) evs (n, d) = Inr (n', d') \<and>
     (\<forall>cid txid. recorded d cid txid \<longrightarrow> recorded d' cid txid) \<and>
     list_all (\<lambda>ev. recorded d' (ne_covenant_id ev) (ne_txid ev)) evs \<and> d_utxos d' = d_utxos d"
proof (induction evs arbitrary: n d)
  case (Cons ev evs)
  obtain n1 d1 where m: "merge_event X b ev (n, d) = Inr (n1, d1)" unfolding merge_event_iff by (metis prod.exhaust)
  from Cons.IH [of n1 d1] obtain n' d' where r: "fold_result (merge_event X b) evs (n1, d1) = Inr (n', d')"
    "\<forall>cid txid. recorded d1 cid txid \<longrightarrow> recorded d' cid txid"
    "list_all (\<lambda>ev. recorded d' (ne_covenant_id ev) (ne_txid ev)) evs" "d_utxos d' = d_utxos d1" by blast
  with m merge_recorded [OF m] show ?case by auto
qed simp

lemma merge_events_again:
  "list_all (\<lambda>ev. recorded d (ne_covenant_id ev) (ne_txid ev)) evs \<Longrightarrow> fold_result (merge_event X b) evs (n, d) = Inr (n, d)"
  by (induction evs) (simp_all add: merge_event_iff)

lemma merge_utxo_keys:
  "utxo_key ` set (d_utxos (snd (merge_utxo reg b u s))) = insert (nu_outpoint u) (utxo_key ` set (d_utxos (snd s)))"
  by (cases s) (auto simp: merge_utxo_def created_row_def)

lemma merge_utxos_keys:
  "utxo_key ` set (d_utxos (snd (fold (merge_utxo reg b) us s))) = nu_outpoint ` set us \<union> utxo_key ` set (d_utxos (snd s))"
  by (induction us arbitrary: s) (auto simp: merge_utxo_keys)

lemma merge_utxos_again:
  "nu_outpoint ` set us \<subseteq> utxo_key ` set (d_utxos d) \<Longrightarrow> fold (merge_utxo reg b) us (n, d) = (n, d)"
  by (induction us) (auto simp: merge_utxo_def)

definition unspent_at :: "db \<Rightarrow> outpoint \<Rightarrow> bool" where
  "unspent_at d p \<longleftrightarrow> list_ex (still_unspent p) (d_utxos d)"

lemma mark_row_spent [simp]:
  "u_txid (mark_row X reg blk t sig k i u) = u_txid u"
  "u_output_index (mark_row X reg blk t sig k i u) = u_output_index u" "u_spent_block (mark_row X reg blk t sig k i u) = Some blk"
  by (simp_all add: mark_row_def)

lemma merge_spend_marks:
  "unspent_at (snd (merge_spend X reg b s q)) p \<longleftrightarrow> unspent_at (snd q) p \<and> p \<noteq> fst s"
  "utxo_key ` set (d_utxos (snd (merge_spend X reg b s q))) = utxo_key ` set (d_utxos (snd q))"
proof -
  obtain o' t sig k i where s: "s = (o', t, sig, k, i)" by (cases s)
  obtain n d where q: "q = (n, d)" by fastforce
  show "unspent_at (snd (merge_spend X reg b s q)) p \<longleftrightarrow> unspent_at (snd q) p \<and> p \<noteq> fst s"
    by (auto simp: s q merge_spend_def unspent_at_def list_ex_iff still_unspent_def)
  have "utxo_key (if still_unspent o' u then mark_row X reg (bk_accepting_block b) t sig k i u else u) = utxo_key u" for u
    by simp
  then show "utxo_key ` set (d_utxos (snd (merge_spend X reg b s q))) = utxo_key ` set (d_utxos (snd q))"
    unfolding s q merge_spend_def by (simp add: image_image del: image_Un if_image_distrib)
qed

lemma merge_spends_mark:
  "unspent_at (snd (fold (merge_spend X reg b) ss q)) p \<longleftrightarrow> unspent_at (snd q) p \<and> p \<notin> fst ` set ss"
  "utxo_key ` set (d_utxos (snd (fold (merge_spend X reg b) ss q))) = utxo_key ` set (d_utxos (snd q))"
  by (induction ss arbitrary: q) (auto simp: merge_spend_marks)

lemma merge_spends_again:
  "\<forall>s \<in> set ss. \<not> unspent_at d (fst s) \<Longrightarrow> fold (merge_spend X reg b) ss (n, d) = (n, d)"
  by (induction ss) (auto simp: merge_spend_def unspent_at_def)

text \<open>C13. Merging a recovered block always succeeds, and merging it again changes nothing and counts nothing:
  a run that was cut off may walk the same blocks once more.\<close>

theorem merge_twice:
  "\<exists>n d'. merge_recovered_block X reg b d = Inr (n, d') \<and> merge_recovered_block X reg b d' = Inr (no_merges, d')"
proof -
  let ?u = "fold (merge_utxo reg b) (bk_created_utxos b) (no_merges, d)"
  let ?s = "fold (merge_spend X reg b) (bk_spent_utxos b) ?u"
  obtain n d' where m: "fold_result (merge_event X b) (bk_events b) ?s = Inr (n, d')"
    and e: "list_all (\<lambda>ev. recorded d' (ne_covenant_id ev) (ne_txid ev)) (bk_events b)" and u: "d_utxos d' = d_utxos (snd ?s)"
    using merge_events_total [of X b "bk_events b" "fst ?s" "snd ?s"] by auto
  have "nu_outpoint ` set (bk_created_utxos b) \<subseteq> utxo_key ` set (d_utxos d')"
    unfolding u by (auto simp: merge_spends_mark merge_utxos_keys)
  moreover have "\<forall>s \<in> set (bk_spent_utxos b). \<not> unspent_at d' (fst s)"
  proof
    fix s assume "s \<in> set (bk_spent_utxos b)"
    then have "\<not> unspent_at (snd ?s) (fst s)" unfolding merge_spends_mark by simp
    then show "\<not> unspent_at d' (fst s)" unfolding unspent_at_def u .
  qed
  ultimately show ?thesis
    using m e by (simp add: merge_recovered_block_def merge_utxos_again merge_spends_again merge_events_again)
qed

section \<open>A recovery only adds\<close>

text \<open>A cell is kept when nothing but an unset spend changes.\<close>

definition spend_filled :: "utxo_row \<Rightarrow> utxo_row \<Rightarrow> bool" where
  "spend_filled u v \<longleftrightarrow> u_spent_block u = None \<and> u_spent_block v \<noteq> None \<and>
     v\<lparr>u_spent_block := u_spent_block u, u_spent_txid := u_spent_txid u, u_spent_sig := u_spent_sig u,
       u_spent_budget := u_spent_budget u, u_spent_input_index := u_spent_input_index u,
       u_revealed_template := u_revealed_template u, u_kcc1_template_hash := u_kcc1_template_hash u\<rparr> = u"

definition kept :: "utxo_row \<Rightarrow> utxo_row \<Rightarrow> bool" where
  "kept u v \<longleftrightarrow> v = u \<or> spend_filled u v"

definition gap_keys :: "string set" where
  "gap_keys = {''gap_recoveries'', ''gap_recovery_pending'', ''gap_walk_cursor''}"

text \<open>The database without what a recovery works on: the cells and events, the covenant summaries, the six
  token and market tables that it derives again for the covenants of the window, and its own markers in
  \<open>meta\<close>. What is left is what the live follower goes on from: the delivery stream, its queue, the batches,
  the application tables, the reorg log, and the rest of \<open>meta\<close> with the cursor.\<close>

definition follower_state :: "db \<Rightarrow> db" where
  "follower_state d = (sans_tokens d)\<lparr>d_utxos := [], d_events := [], d_covenants := [],
     d_meta := filter (\<lambda>(k, v). k \<notin> gap_keys) (d_meta d)\<rparr>"

definition only_adds :: "db \<Rightarrow> db \<Rightarrow> bool" where
  "only_adds d d' \<longleftrightarrow>
     (\<exists>cells new. d_utxos d' = cells @ new \<and> list_all2 kept (d_utxos d) cells) \<and>
     (\<exists>new. map sans_seq (d_events d') = map sans_seq (d_events d) @ new) \<and>
     (\<exists>new. map c_covenant_id (d_covenants d') = map c_covenant_id (d_covenants d) @ new) \<and>
     follower_state d' = follower_state d"

lemma kept_refl: "list_all2 kept us us"
  by (simp add: list.rel_refl kept_def)

lemma kept_trans: "kept u v \<Longrightarrow> kept v w \<Longrightarrow> kept u w"
  by (auto simp: kept_def spend_filled_def)

lemma only_adds_refl: "only_adds d d"
  unfolding only_adds_def using kept_refl by blast

lemma only_adds_trans:
  assumes "only_adds a b" and "only_adds b c"
  shows "only_adds a c"
proof -
  obtain cells new where ab: "d_utxos b = cells @ new" "list_all2 kept (d_utxos a) cells"
    using assms(1) by (auto simp: only_adds_def)
  obtain cells' new' where bc: "d_utxos c = cells' @ new'" "list_all2 kept (d_utxos b) cells'"
    using assms(2) by (auto simp: only_adds_def)
  from bc(2) obtain xs ys where "cells' = xs @ ys" "list_all2 kept cells xs"
    unfolding ab by (auto simp: list_all2_append1)
  moreover from list_all2_trans [OF kept_trans ab(2) this(2)] have "list_all2 kept (d_utxos a) xs" .
  ultimately have "\<exists>cells new. d_utxos c = cells @ new \<and> list_all2 kept (d_utxos a) cells"
    using bc(1) by auto
  with assms show ?thesis by (auto simp: only_adds_def)
qed

lemma only_addsI:
  assumes "d_utxos d' = cells @ new" and "list_all2 kept (d_utxos d) cells"
    and "map sans_seq (d_events d') = map sans_seq (d_events d) @ evs"
    and "map c_covenant_id (d_covenants d') = map c_covenant_id (d_covenants d) @ ids"
    and "follower_state d' = follower_state d"
  shows "only_adds d d'"
  unfolding only_adds_def using assms by blast

text \<open>A change that leaves cells, events and the covenants' ids alone.\<close>

lemma only_adds_beside:
  assumes "d_utxos d' = d_utxos d" and "map sans_seq (d_events d') = map sans_seq (d_events d)"
    and "map c_covenant_id (d_covenants d') = map c_covenant_id (d_covenants d)"
    and "follower_state d' = follower_state d"
  shows "only_adds d d'"
  using assms kept_refl [of "d_utxos d"] by (auto simp: only_adds_def)

lemma only_adds_meta: "k \<in> gap_keys \<Longrightarrow> only_adds d (set_meta k v d)" "k \<in> gap_keys \<Longrightarrow> only_adds d (delete_meta k d)"
proof -
  assume k: "k \<in> gap_keys"
  have "filter (\<lambda>(k, v). k \<notin> gap_keys) (upsert fst (k, v) m) = filter (\<lambda>(k, v). k \<notin> gap_keys) m" for m :: "(string \<times> string) list"
  proof -
    have "filter (\<lambda>(k, v). k \<notin> gap_keys) (map (\<lambda>r. if fst r = k then (k, v) else r) m) = filter (\<lambda>(k, v). k \<notin> gap_keys) m"
      using k by (induction m) auto
    with k show ?thesis by (simp add: upsert_def)
  qed
  then show "only_adds d (set_meta k v d)"
    by (intro only_adds_beside) (simp_all add: set_meta_def follower_state_def sans_tokens_def)
  have "filter (\<lambda>(k, v). k \<notin> gap_keys) (filter (\<lambda>(k', v). k' \<noteq> k) m) = filter (\<lambda>(k, v). k \<notin> gap_keys) m"
    for m :: "(string \<times> string) list"
    using k by (induction m) auto
  then show "only_adds d (delete_meta k d)"
    by (intro only_adds_beside) (simp_all add: delete_meta_def follower_state_def sans_tokens_def)
qed

lemma only_adds_tokens:
  assumes "sans_tokens d' = sans_tokens d"
  shows "only_adds d d'"
proof -
  have "follower_state d = (sans_tokens d)\<lparr>d_utxos := [], d_events := [], d_covenants := [],
     d_meta := filter (\<lambda>(k, v). k \<notin> gap_keys) (d_meta (sans_tokens d))\<rparr>" for d
    by (simp add: follower_state_def sans_tokens_def)
  with assms sans_tokens_eqs [OF assms] show ?thesis by (intro only_adds_beside) simp_all
qed

lemma only_adds_merge_utxo: "only_adds (snd s) (snd (merge_utxo reg b u s))"
proof -
  have "only_adds d (d\<lparr>d_utxos := d_utxos d @ [r]\<rparr>)" for d r
    using kept_refl [of "d_utxos d"] by (auto simp: only_adds_def follower_state_def sans_tokens_def)
  then show ?thesis by (cases s) (simp add: merge_utxo_def only_adds_refl)
qed

lemma mark_fills: "u_spent_block u = None \<Longrightarrow> spend_filled u (mark_row X reg blk t sig k i u)"
  by (simp add: spend_filled_def mark_row_def)

lemma only_adds_merge_spend: "only_adds (snd q) (snd (merge_spend X reg b s q))"
proof -
  obtain p t sig k i where s: "s = (p, t, sig, k, i)" by (cases s)
  obtain n d where q: "q = (n, d)" by fastforce
  let ?f = "\<lambda>u. if still_unspent p u then mark_row X reg (bk_accepting_block b) t sig k i u else u"
  have "kept u (?f u)" for u by (simp add: kept_def mark_fills still_unspent_def)
  then have "list_all2 kept (d_utxos d) (map ?f (d_utxos d))" by (simp add: list_all2_conv_all_nth)
  then have "only_adds d (d\<lparr>d_utxos := map ?f (d_utxos d)\<rparr>)"
    by (intro only_addsI [where cells = "map ?f (d_utxos d)" and new = "[]" and evs = "[]" and ids = "[]"])
      (simp_all add: follower_state_def sans_tokens_def)
  then show ?thesis by (simp add: s q merge_spend_def only_adds_refl)
qed

lemma only_adds_merge_event:
  assumes "merge_event X b ev q = Inr q'"
  shows "only_adds (snd q) (snd q')"
proof -
  have "only_adds d (d\<lparr>d_covenants := ensure_covenant c (d_covenants d), d_events := d_events d @ [e]\<rparr>)" for d e c
    by (rule only_addsI [where cells = "d_utxos d" and new = "[]" and evs = "[sans_seq e]"
          and ids = "if c_covenant_id c \<in> c_covenant_id ` set (d_covenants d) then [] else [c_covenant_id c]"])
      (simp_all add: kept_refl follower_state_def sans_tokens_def ensure_covenant_def)
  with assms show ?thesis by (cases q) (auto simp: merge_event_iff only_adds_refl split: if_splits)
qed

lemma only_adds_fold:
  assumes "\<And>x s. only_adds (snd s) (snd (f x s))"
  shows "only_adds (snd s) (snd (fold f xs s))"
proof (induction xs arbitrary: s)
  case (Cons x xs)
  from only_adds_trans [OF assms Cons.IH] show ?case by simp
qed (simp add: only_adds_refl)

lemma only_adds_fold_result:
  assumes "\<And>x s s'. f x s = Inr s' \<Longrightarrow> only_adds (snd s) (snd s')"
  shows "fold_result f xs s = Inr s' \<Longrightarrow> only_adds (snd s) (snd s')"
proof (induction xs arbitrary: s)
  case (Cons x xs)
  from Cons.prems obtain s1 where "f x s = Inr s1" "fold_result f xs s1 = Inr s'" by (auto dest!: early_return)
  from only_adds_trans [OF assms [OF this(1)] Cons.IH [OF this(2)]] show ?case .
qed (simp add: only_adds_refl)

lemma only_adds_merge:
  assumes "merge_recovered_block X reg b d = Inr (n, d')"
  shows "only_adds d d'"
proof -
  let ?u = "fold (merge_utxo reg b) (bk_created_utxos b) (no_merges, d)"
  let ?s = "fold (merge_spend X reg b) (bk_spent_utxos b) ?u"
  have "only_adds (snd (no_merges, d)) (snd ?u)" by (rule only_adds_fold [OF only_adds_merge_utxo])
  from only_adds_trans [OF this only_adds_fold [OF only_adds_merge_spend]] have a: "only_adds d (snd ?s)" by simp
  have b: "only_adds (snd ?s) (snd (n, d'))"
    by (rule only_adds_fold_result [OF only_adds_merge_event assms [unfolded merge_recovered_block_def]])
  from only_adds_trans [OF a b] show ?thesis by simp
qed

text \<open>Renumbering keeps every row, whatever the keys are.\<close>

lemma renumber_keeps: "renumber cid ordered rows = Inr rows' \<Longrightarrow> map sans_seq rows' = map sans_seq rows"
proof -
  have step: "map snd rows' = map snd rows" if "move_seq cid m rows = Inr rows'" for m rows rows'
    using that by (cases m) (auto simp: move_seq_def Let_def split_beta split: if_splits)
  have all: "fold_result (move_seq cid) ms rows = Inr rows' \<Longrightarrow> map snd rows' = map snd rows" for ms rows rows'
    by (induction ms arbitrary: rows) (auto dest!: early_return step)
  assume "renumber cid ordered rows = Inr rows'"
  then obtain ps ns where
    "fold_result (move_seq cid) (park_moves ordered) (map (\<lambda>e. (int (e_seq e), e)) rows) = Inr ps"
    "fold_result (move_seq cid) (flip_moves cid ps) ps = Inr ns" and r: "rows' = map (\<lambda>(s, e). e\<lparr>e_seq := nat s\<rparr>) ns"
    by (auto simp: renumber_def dest!: early_return)
  have "map snd ns = map snd ps" by (rule all) fact
  also have "\<dots> = map snd (map (\<lambda>e. (int (e_seq e), e)) rows)" by (rule all) fact
  finally have n: "map snd ns = rows" by (simp add: comp_def)
  have "map sans_seq rows' = map sans_seq (map snd ns)" by (simp add: r sans_seq_def split_beta)
  then show ?thesis unfolding n .
qed

lemma only_adds_settle:
  assumes "settle_covenant cid q = Inr q'"
  shows "only_adds (snd q) (snd q')"
proof -
  have "only_adds d (refresh_covenant cid (d\<lparr>d_events := es\<rparr>))" if "map sans_seq es = map sans_seq (d_events d)" for d es
    using that by (intro only_adds_beside) (simp_all add: refresh_covenant_def follower_state_def sans_tokens_def)
  moreover have "only_adds d (refresh_covenant cid d)" for d
    by (intro only_adds_beside) (simp_all add: refresh_covenant_def follower_state_def sans_tokens_def)
  ultimately show ?thesis using assms
    by (cases q) (auto simp: settle_covenant_def resequence_def Let_def renumber_keeps split: sum.splits if_splits)
qed

lemma only_adds_finalize:
  assumes "finalize_gap_recovery X reg J now lo hi merged d = Inr (fin, d')"
  shows "only_adds d d'"
proof -
  obtain n d1 k d2 where s: "fold_result settle_covenant (window_covenants lo hi d) (0, d) = Inr (n, d1)"
    and r: "rederive_due X reg (window_covenants lo hi d) d1 = Inr (k, d2)"
    and d': "d' = record_recovery J (gap_entry lo hi now merged (length (window_covenants lo hi d))) d2"
    using assms by (auto simp: finalize_gap_recovery_def Let_def dest!: early_return)
  have a: "only_adds d d1" using only_adds_fold_result [OF only_adds_settle s] by simp
  have b: "only_adds d1 d2" using rederive_due_frame [OF r] by (rule only_adds_tokens)
  have "only_adds e (record_recovery J x e)" for x e
    unfolding record_recovery_def
    by (rule only_adds_trans [OF only_adds_trans [OF only_adds_meta(1) only_adds_meta(2)] only_adds_meta(2)])
      (simp_all add: gap_keys_def)
  then have c: "only_adds d2 d'" unfolding d' .
  show ?thesis by (rule only_adds_trans [OF only_adds_trans [OF a b] c])
qed

lemma only_adds_gap_block:
  "gap_block X reg N lo hi stop a w = Inr (f, w') \<Longrightarrow> only_adds (gw_db w) (gw_db w')"
proof -
  have m: "only_adds (gw_db w) (gw_db w')" if "merge_into X reg b w = Inr w'" for b w w'
    using that by (auto simp: merge_into_def only_adds_refl only_adds_merge split: if_splits sum.splits)
  assume "gap_block X reg N lo hi stop a w = Inr (f, w')"
  then show ?thesis
    unfolding gap_block_def Let_def split_beta
    by (auto simp: only_adds_refl map_sum_Inr split: sum.splits if_splits dest!: m)
qed

lemma only_adds_gap_blocks:
  "gap_blocks X reg N lo hi stop as w = (r, w') \<Longrightarrow> only_adds (gw_db w) (gw_db w')"
proof (induction as arbitrary: w)
  case (Cons a as)
  show ?case
  proof (cases "gap_block X reg N lo hi stop a w")
    case (Inl e)
    with Cons.prems show ?thesis by (simp add: only_adds_refl)
  next
    case (Inr q)
    obtain f w1 where q: "q = (f, w1)" by fastforce
    have b: "only_adds (gw_db w) (gw_db w1)" using Inr unfolding q by (rule only_adds_gap_block)
    show ?thesis
    proof (cases f)
      case True
      with Cons.prems Inr q b show ?thesis by simp
    next
      case False
      with Cons.prems Inr q have "gap_blocks X reg N lo hi stop as w1 = (r, w')" by simp
      from only_adds_trans [OF b Cons.IH [OF this]] show ?thesis .
    qed
  qed
qed (simp add: only_adds_refl)

lemma only_adds_cursor: "only_adds d (set_gap_walk_cursor X c d)"
  unfolding set_gap_walk_cursor_def by (rule only_adds_meta) (simp add: gap_keys_def)

lemma only_adds_gap_turn:
  assumes "gap_turn X reg N lo hi stop c w = (r, w')"
  shows "only_adds (gw_db w) (gw_db w')"
proof -
  have b: "only_adds (gw_db w) (set_gap_walk_cursor X c' (gw_db w1))"
    if "gap_blocks X reg N lo hi stop as w = (r, w1)" for as r w1 c'
    by (rule only_adds_trans [OF only_adds_gap_blocks [OF that] only_adds_cursor])
  from assms show ?thesis
    unfolding gap_turn_def Let_def
    by (auto simp: only_adds_refl only_adds_cursor intro: b only_adds_gap_blocks
        split: sum.splits if_splits prod.splits bool.splits)
qed

lemma only_adds_gap_loop:
  "gap_loop X reg N lo hi stop c w = Some y \<Longrightarrow> only_adds (gw_db w) (gw_db (snd y))"
proof (induction rule: gap_loop.raw_induct [rotated 1, consumes 1])
  case (1 loop X reg N lo hi stop c w y)
  obtain r w1 where t: "gap_turn X reg N lo hi stop c w = (r, w1)" by fastforce
  note a = only_adds_gap_turn [OF t]
  consider (error) e where "r = Inl e" | (halt) "r = Inr None" | (go) c' where "r = Inr (Some c')"
    by (metis sum.exhaust option.exhaust)
  then show ?case
  proof cases
    case go
    with 1(2) t have "loop X reg N lo hi stop c' w1 = Some y" by simp
    from only_adds_trans [OF a 1(1) [OF this]] show ?thesis .
  qed (use 1(2) t a in auto)
qed

lemma only_adds_walk_window:
  assumes "walk_window X reg N J now opts lo hi d = Some (r, d')"
  shows "only_adds d d'"
proof -
  let ?d = "set_gap_recovery_pending lo hi d"
  have p: "only_adds d ?d" unfolding set_gap_recovery_pending_def by (rule only_adds_meta) (simp add: gap_keys_def)
  have "only_adds ?d d'"
    using assms unfolding walk_window_def Let_def close_walk_def
    by (auto simp: only_adds_refl dest!: only_adds_gap_loop only_adds_finalize intro: only_adds_trans
        split: sum.splits option.splits prod.splits)
  with p show ?thesis by (rule only_adds_trans)
qed

text \<open>C12. Whatever the node answers and however a recovery ends, it only adds to the history: every event stays,
  in order, up to its number, every cell stays with nothing changed but a spend that was not recorded, and every
  covenant stays, in order, up to its summary. What the live follower goes on from is as before: the cursor and
  all of \<open>meta\<close> but the recovery's own markers, the delivery stream, the batches, the queue, the application
  tables and the reorg log. Nothing is said here of the token and market tables, which a recovery derives again.\<close>

theorem recovery_only_adds:
  assumes "recover_gap X reg N J now opts d = Some (r, d')"
  shows "only_adds d d'"
  using assms unfolding recover_gap_def
  by (auto simp: only_adds_refl only_adds_walk_window split: gap_window.splits if_splits)

section \<open>A recovery ends, and is done once\<close>

definition same_window :: "gap_walk \<Rightarrow> gap_walk \<Rightarrow> bool" where
  "same_window w w' \<longleftrightarrow> gr_gap_lo (gw_report w') = gr_gap_lo (gw_report w) \<and> gr_gap_hi (gw_report w') = gr_gap_hi (gw_report w) \<and>
     gr_already_recovered (gw_report w') = gr_already_recovered (gw_report w)"

lemma same_window_refl: "same_window w w"
  by (simp add: same_window_def)

lemma same_window_trans: "same_window u v \<Longrightarrow> same_window v w \<Longrightarrow> same_window u w"
  by (simp add: same_window_def)

lemma same_window_block:
  assumes "gap_block X reg N lo hi stop a w = Inr (f, w')"
  shows "same_window w w'"
proof -
  have m: "gw_report w' = gw_report w" if "merge_into X reg b w = Inr w'" for b w w'
    using that by (auto simp: merge_into_def split: if_splits sum.splits)
  from assms show ?thesis
    unfolding gap_block_def Let_def split_beta
    by (auto simp: same_window_def map_sum_Inr note_residue_def split: sum.splits if_splits dest!: m)
qed

lemma same_window_blocks: "gap_blocks X reg N lo hi stop as w = (r, w') \<Longrightarrow> same_window w w'"
  by (induction as arbitrary: w)
    (auto simp: same_window_refl split: sum.splits prod.splits bool.splits dest!: same_window_block intro: same_window_trans)

lemma same_window_turn:
  assumes "gap_turn X reg N lo hi stop c w = (r, w')"
  shows "same_window w w'"
proof -
  have b: "same_window w (w1\<lparr>gw_db := d\<rparr>)" if "gap_blocks X reg N lo hi stop as w = (r, w1)" for as r w1 d
    using same_window_blocks [OF that] by (simp add: same_window_def)
  have s: "same_window w (w\<lparr>gw_db := d, gw_report := (gw_report w)\<lparr>gr_chain_blocks_walked := n\<rparr>\<rparr>)" for d n
    by (simp add: same_window_def)
  from assms show ?thesis
    unfolding gap_turn_def Let_def
    by (auto intro: b same_window_blocks simp: same_window_refl s
        split: sum.splits if_splits prod.splits bool.splits)
qed

lemma same_window_loop: "gap_loop X reg N lo hi stop c w = Some y \<Longrightarrow> same_window w (snd y)"
proof (induction rule: gap_loop.raw_induct [rotated 1, consumes 1])
  case (1 loop X reg N lo hi stop c w y)
  obtain r w1 where t: "gap_turn X reg N lo hi stop c w = (r, w1)" by fastforce
  note a = same_window_turn [OF t]
  consider (error) e where "r = Inl e" | (halt) "r = Inr None" | (go) c' where "r = Inr (Some c')"
    by (metis sum.exhaust option.exhaust)
  then show ?case
  proof cases
    case go
    with 1(2) t have "loop X reg N lo hi stop c' w1 = Some y" by simp
    from same_window_trans [OF a 1(1) [OF this]] show ?thesis .
  qed (use 1(2) t a in auto)
qed

lemma finalize_records:
  "finalize_gap_recovery X reg J now lo hi merged d = Inr (fin, d') \<Longrightarrow>
     \<exists>n d2. d' = record_recovery J (gap_entry lo hi now merged n) d2"
  by (auto simp: finalize_gap_recovery_def Let_def dest!: early_return)

lemma walk_window_records:
  assumes "walk_window X reg N J now opts lo hi d = Some (Inr report, d')"
  shows "gr_gap_lo report = lo \<and> gr_gap_hi report = hi \<and> \<not> gr_already_recovered report \<and>
    (\<exists>m n d2. d' = record_recovery J (gap_entry lo hi now m n) d2)"
proof -
  from assms obtain c stop w0 w where w0: "gw_report w0 = fresh_report lo hi False"
    and l: "gap_loop X reg N lo hi stop c w0 = Some (None, w)" and f: "close_walk X reg J now lo hi w = (Inr report, d')"
    unfolding walk_window_def Let_def by (force split: sum.splits option.splits prod.splits)
  from same_window_loop [OF l] w0 f show ?thesis
    by (auto simp: close_walk_def same_window_def fresh_report_def split: sum.splits prod.splits dest!: finalize_records)
qed

text \<open>C15. A recovery that is done is not done again: after a run that closed its window, a run that looks for a
  gap itself finds it on record and leaves the database as it is.\<close>

theorem recovery_is_once:
  assumes "recover_gap X reg N J now opts d = Some (Inr report, d')" and "\<not> gr_already_recovered report"
    and "serde_documented J" and "fits_u64 (gr_gap_lo report)" and "fits_u64 (gr_gap_hi report)"
    and "go_from_daa opts' = None" and "go_to_daa opts' = None"
  shows "recover_gap X' reg' N' J now' opts' d' = Some (Inr (fresh_report (gr_gap_lo report) (gr_gap_hi report) True), d')"
proof -
  from assms(1,2) obtain lo hi where "walk_window X reg N J now opts lo hi d = Some (Inr report, d')"
    unfolding recover_gap_def by (auto simp: fresh_report_def split: gap_window.splits if_splits)
  from walk_window_records [OF this] obtain m n d2 where r: "gr_gap_lo report = lo" "gr_gap_hi report = hi"
    "d' = record_recovery J (gap_entry lo hi now m n) d2" by blast
  have "gap_recovery_pending d' = None"
    by (simp add: r gap_recovery_pending_def get_meta_record_recovery)
  moreover have "gap_recoveries J d' = (lo, hi) # gap_recoveries J d2"
    using assms(3-5) unfolding r by (intro gap_recoveries_recorded)
  ultimately show ?thesis
    using assms(6,7) by (simp add: recover_gap_def chosen_window_def detected_window_def r)
qed

text \<open>C14. The walk of a recovery ends whenever the chain it walks does: if every answer of the node that lists
  blocks leads strictly closer to the tip, a run returns.\<close>

theorem recovery_ends:
  fixes rank :: "bytes \<Rightarrow> nat"
  assumes "\<And>c step. nd_virtual_chain_from N c = Inr step \<Longrightarrow> cp_added step \<noteq> [] \<Longrightarrow>
    rank (ab_accepting_block (last (cp_added step))) < rank c"
  shows "\<exists>r d'. recover_gap X reg N J now opts d = Some (r, d')"
proof -
  have closer: "rank c' < rank c" if "gap_turn X reg N lo hi stop c w = (Inr (Some c'), w')" for lo hi stop c c' w w'
    using that assms unfolding gap_turn_def Let_def by (auto split: sum.splits if_splits prod.splits bool.splits)
  have loop: "\<exists>e w'. gap_loop X reg N lo hi stop c w = Some (e, w')" for lo hi stop c w
  proof (induction c arbitrary: w rule: measure_induct_rule [of rank])
    case (less c)
    obtain r w1 where t: "gap_turn X reg N lo hi stop c w = (r, w1)" by fastforce
    consider (error) e where "r = Inl e" | (halt) "r = Inr None" | (go) c' where "r = Inr (Some c')"
      by (metis sum.exhaust option.exhaust)
    then show ?case
    proof cases
      case go
      from less.IH [OF closer [OF t [unfolded go]], of w1] show ?thesis
        by (subst gap_loop.simps) (simp add: t go)
    qed (subst gap_loop.simps, simp add: t)+
  qed
  have "\<exists>r d'. walk_window X reg N J now opts lo hi d = Some (r, d')" for lo hi
  proof -
    have some: "\<exists>q. (case y of None \<Rightarrow> None | Some (Some e, w) \<Rightarrow> Some (Inl e, gw_db w)
        | Some (None, w) \<Rightarrow> Some (close_walk X reg J now lo hi w)) = Some q" if "\<exists>e w. y = Some (e, w)" for y
      using that by (auto split: option.splits)
    have "\<exists>q. walk_window X reg N J now opts lo hi d = Some q"
      unfolding walk_window_def Let_def by (cases "nd_dag_info N") (simp, simp only: sum.case some [OF loop])
    then show ?thesis by (metis prod.exhaust)
  qed
  then show ?thesis unfolding recover_gap_def by (auto split: gap_window.splits)
qed

text \<open>The saved cursor is not tied to a window: a run over explicit bounds that finds the cursor of another,
  interrupted run near the tip walks nothing and still puts its window on record.\<close>

lemma leftover_cursor_closes_window:
  assumes "go_from_daa opts = Some lo" and "go_to_daa opts = Some hi" and "lo < hi" and "\<not> covered_already J opts lo hi d"
    and "nd_dag_info N = Inr dag" and "gap_walk_cursor X d = Some c"
    and "nd_virtual_chain_from N c = Inr \<lparr>cp_removed = [], cp_added = []\<rparr>"
    and "recover_gap X reg N J now opts d = Some (Inr report, d')"
  shows "gr_chain_blocks_walked report = 0 \<and> (\<exists>n d2. d' = record_recovery J (gap_entry lo hi now no_merges n) d2)"
proof -
  let ?d = "set_gap_recovery_pending lo hi d"
  let ?w = "\<lparr>gw_db = ?d, gw_report = fresh_report lo hi False, gw_merged = no_merges\<rparr>"
  have "gap_walk_cursor X ?d = Some c"
    using assms(6) by (simp add: gap_walk_cursor_def set_gap_recovery_pending_def get_meta_set)
  then have start: "walk_start X opts dag ?d = c" by (simp add: walk_start_def)
  have "gap_loop X reg N lo hi stop c ?w = Some (None, ?w)" for stop
    by (subst gap_loop.simps) (simp add: gap_turn_def assms(7))
  then have "recover_gap X reg N J now opts d = Some (close_walk X reg J now lo hi ?w)"
    using assms(1-5) by (simp add: recover_gap_def chosen_window_def walk_window_def Let_def start)
  with assms(8) show ?thesis
    by (auto simp: close_walk_def fresh_report_def split: sum.splits prod.splits dest!: finalize_records)
qed

section \<open>An example\<close>

text \<open>A codec that keeps the documented law, and a chain of one block after the pruning point, whose genesis the
  index missed: all it has of that covenant is a later event.\<close>

instance json :: countable by countable_datatype

definition counting_serde :: serde where
  "counting_serde = \<lparr>sj_parse = \<lambda>s. if json_value (\<lambda>_. True) (from_nat (length s)) then Some (from_nat (length s)) else None,
     sj_print = \<lambda>v. replicate (to_nat v) CHR ''1'', sj_number = \<lambda>_. True\<rparr>"

lemma counting_serde_documented: "serde_documented counting_serde"
  by (simp add: serde_documented_def counting_serde_def)

definition missed_genesis :: transaction where
  "missed_genesis = \<lparr>x_txid = [5], x_version = 0,
     x_inputs = [\<lparr>i_previous_outpoint = ([3], 0), i_signature_script = [], i_compute_budget = 0\<rparr>],
     x_outputs = [\<lparr>o_value = 7, o_spk_version = 0, o_spk_script = [0x51],
       o_covenant = Some \<lparr>cb_covenant_id = [9], cb_authorizing_input = 0\<rparr>\<rparr>], x_payload = []\<rparr>"

definition gap_step :: chain_step where
  "gap_step = \<lparr>cp_removed = [], cp_added = [\<lparr>ab_accepting_block = [2], ab_accepted_tx_ids = [[5]]\<rparr>]\<rparr>"

definition gap_node :: node where
  "gap_node = \<lparr>
     nd_dag_info = Inr \<lparr>di_network = ''testnet-10'', di_sink = [2], di_virtual_daa_score = 300, di_pruning_point = [1]\<rparr>,
     nd_virtual_chain_from = \<lambda>c. Inr (if c = [1] then gap_step else \<lparr>cp_removed = [], cp_added = []\<rparr>),
     nd_block_with_txs = \<lambda>_ _ _. Inr \<lparr>bl_hash = [2], bl_daa_score = 100, bl_blue_score = 90, bl_timestamp_ms = 1000,
       bl_parents = [], bl_mergeset = [], bl_transactions = [missed_genesis]\<rparr>,
     nd_completed = id, nd_covenant_id = \<lambda>_ _. [9]\<rparr>"

definition later_event :: event_row where
  "later_event = \<lparr>e_covenant_id = [9], e_seq = 0, e_kind = ''transition'', e_txid = [1],
     e_accepting_block = [4], e_accepting_daa = 200, e_tx_index = None, e_blue_score = None, e_time_ms = None,
     e_payload = None, e_lane_namespace = None, e_payload_tag = None, e_inscription_kind = None,
     e_event_index = None, e_delivery_stream_seq = None\<rparr>"

definition gap_db :: db where
  "gap_db = empty_db\<lparr>d_events := [later_event],
     d_covenants := [(bare_covenant [9])\<lparr>c_event_count := 1, c_last_activity_daa := 200\<rparr>]\<rparr>"

definition gap_opts :: gap_options where
  "gap_opts = \<lparr>go_from_daa = Some 50, go_to_daa = Some 150, go_min_gap_daa = 100000, go_anchor_block = None\<rparr>"

definition gap_start :: gap_walk where
  "gap_start = \<lparr>gw_db = set_gap_recovery_pending 50 150 gap_db, gw_report = fresh_report 50 150 False, gw_merged = no_merges\<rparr>"

definition gap_walked :: gap_walk where
  "gap_walked = snd (gap_turn documented_hex [] gap_node 50 150 150 [1] gap_start)"

definition gap_covenants :: "bytes list" where
  "gap_covenants = window_covenants 50 150 (gw_db gap_walked)"

definition gap_settled :: "nat \<times> db" where
  "gap_settled = projr (fold_result settle_covenant gap_covenants (0, gw_db gap_walked))"

lemma gap_values:
  "fst (gap_turn documented_hex [] gap_node 50 150 150 [1] gap_start) = Inr (Some [2]) \<and> length gap_covenants = 1 \<and>
   \<not> isl (fold_result settle_covenant gap_covenants (0, gw_db gap_walked)) \<and> fst gap_settled = 1 \<and>
   \<not> isl (rederive_due documented_hex [] gap_covenants (snd gap_settled)) \<and>
   fst (projr (rederive_due documented_hex [] gap_covenants (snd gap_settled))) = 0"
  by code_simp

lemma gap_walked: "gap_turn documented_hex [] gap_node 50 150 150 [1] gap_start = (Inr (Some [2]), gap_walked)"
  using gap_values unfolding gap_walked_def by (metis prod.collapse)

lemma gap_loop_run: "gap_loop documented_hex [] gap_node 50 150 150 [1] gap_start = Some (None, gap_walked)"
proof -
  have "gap_turn documented_hex [] gap_node 50 150 150 [2] gap_walked = (Inr None, gap_walked)"
    by (simp add: gap_turn_def gap_node_def)
  then have "gap_loop documented_hex [] gap_node 50 150 150 [2] gap_walked = Some (None, gap_walked)"
    by (subst gap_loop.simps) simp
  then show ?thesis by (subst gap_loop.simps) (simp add: gap_walked)
qed

lemma gap_closes:
  "\<exists>d2. finalize_gap_recovery documented_hex [] J now 50 150 merged (gw_db gap_walked) =
     Inr (\<lparr>fc_covenants_refreshed = 1, fc_covenants_resequenced = 1, fc_tokens_rederived = 0\<rparr>, d2)"
proof -
  have s: "fold_result settle_covenant gap_covenants (0, gw_db gap_walked) = Inr gap_settled"
    using gap_values unfolding gap_settled_def by (metis sum.collapse(2))
  obtain d2 where "rederive_due documented_hex [] gap_covenants (snd gap_settled) = Inr (0, d2)"
    using gap_values by (metis prod.collapse sum.collapse(2))
  then show ?thesis
    using s gap_values by (simp add: finalize_gap_recovery_def Let_def split_beta flip: gap_covenants_def)
qed

lemma gap_dag: "nd_dag_info gap_node = Inr \<lparr>di_network = ''testnet-10'', di_sink = [2], di_virtual_daa_score = 300,
    di_pruning_point = [1]\<rparr>"
  by (simp add: gap_node_def)

lemma gap_run:
  obtains report d' where "recover_gap documented_hex [] gap_node counting_serde now gap_opts gap_db = Some (Inr report, d')"
    "report = (gw_report gap_walked)\<lparr>gr_merged := gw_merged gap_walked,
       gr_finalized := \<lparr>fc_covenants_refreshed = 1, fc_covenants_resequenced = 1, fc_tokens_rederived = 0\<rparr>\<rparr>"
proof -
  obtain d2 where c: "finalize_gap_recovery documented_hex [] counting_serde now 50 150 (gw_merged gap_walked) (gw_db gap_walked) =
     Inr (\<lparr>fc_covenants_refreshed = 1, fc_covenants_resequenced = 1, fc_tokens_rederived = 0\<rparr>, d2)"
    using gap_closes by blast
  have p: "processed_daa (set_gap_recovery_pending 50 150 gap_db) = None"
    and a: "gap_walk_cursor documented_hex (set_gap_recovery_pending 50 150 gap_db) = None"
    by (simp_all add: processed_daa_def set_gap_recovery_pending_def set_meta_def gap_db_def empty_db_def upsert_def
        gap_walk_cursor_def get_meta_def)
  have "walk_window documented_hex [] gap_node counting_serde now gap_opts 50 150 gap_db = Some (close_walk documented_hex [] counting_serde now 50 150 gap_walked)"
    using gap_loop_run unfolding gap_start_def
    by (simp add: walk_window_def Let_def p a walk_start_def gap_opts_def gap_dag)
  moreover have "recover_gap documented_hex [] gap_node counting_serde now gap_opts gap_db =
      walk_window documented_hex [] gap_node counting_serde now gap_opts 50 150 gap_db"
    by (simp add: recover_gap_def chosen_window_def gap_opts_def covered_already_def gap_recoveries_def gap_entries_def
        get_meta_def gap_db_def empty_db_def List.map_filter_def)
  ultimately show ?thesis using c that by (simp add: close_walk_def)
qed

lemma recovery_only_adds_witness:
  "\<exists>r d'. recover_gap documented_hex [] gap_node counting_serde 0 gap_opts gap_db = Some (r, d') \<and> only_adds gap_db d'"
  by (rule gap_run [of 0]) (blast intro: recovery_only_adds)

lemma recovery_is_once_witness:
  "\<exists>d'. recover_gap documented_hex [] gap_node counting_serde 0 (gap_opts\<lparr>go_from_daa := None, go_to_daa := None\<rparr>) d' =
     Some (Inr (fresh_report 50 150 True), d')"
proof -
  obtain report d' where r: "recover_gap documented_hex [] gap_node counting_serde 0 gap_opts gap_db = Some (Inr report, d')"
    "report = (gw_report gap_walked)\<lparr>gr_merged := gw_merged gap_walked,
       gr_finalized := \<lparr>fc_covenants_refreshed = 1, fc_covenants_resequenced = 1, fc_tokens_rederived = 0\<rparr>\<rparr>"
    by (rule gap_run [of 0])
  have w: "gr_gap_lo report = 50" "gr_gap_hi report = 150" "\<not> gr_already_recovered report"
    using same_window_turn [OF gap_walked] by (simp_all add: r(2) same_window_def gap_start_def fresh_report_def)
  show ?thesis
    using recovery_is_once [OF r(1) w(3) counting_serde_documented, of "gap_opts\<lparr>go_from_daa := None, go_to_daa := None\<rparr>"
        documented_hex "[]" gap_node 0]
    by (auto simp: w fits_u64_def)
qed

lemma recovery_ends_witness:
  "\<exists>r d'. recover_gap documented_hex [] gap_node counting_serde 0 gap_opts gap_db = Some (r, d')"
proof (rule recovery_ends [where rank = "\<lambda>c. if c = [1] then 1 else 0"])
  fix c step
  assume "nd_virtual_chain_from gap_node c = Inr step" "cp_added step \<noteq> []"
  then show "(if ab_accepting_block (last (cp_added step)) = [1] then 1 else 0) < (if c = [1] then 1 else 0 :: nat)"
    by (auto simp: gap_node_def gap_step_def split: if_splits)
qed

lemma finalize_settles_witness:
  "\<exists>d'. list_all (in_order d') (window_covenants 50 150 d') \<and> window_covenants 50 150 d' = gap_covenants \<and>
     gap_recoveries counting_serde d' = (50, 150) # gap_recoveries counting_serde (gw_db gap_walked)"
proof -
  obtain fin d2 where f: "finalize_gap_recovery documented_hex [] counting_serde 0 50 150 no_merges (gw_db gap_walked) = Inr (fin, d2)"
    using gap_closes by blast
  have "keys_ok (d_events (gw_db gap_walked))" by code_simp
  from finalize_settles [OF f this counting_serde_documented] show ?thesis by (auto simp: gap_covenants_def fits_u64_def)
qed

end
