(* ===== verification/Event_Stream.thy ===== *)
theory Event_Stream
  imports Delivery Chain_Sync
begin

text \<open>
  \<open>crates/kascov/src/stream.rs\<close>: the live event stream. A subscriber takes a slot of its network's hub,
  replays the delivery log from its cursor up to the high-water mark read after subscribing, and then
  follows the broadcasts of committed deliveries; frames of the pending feed ride along without a cursor.

  The response of a handler is its status or its first frame and the state of the stream; headers,
  keep-alive frames and the choice of the socket are not modelled. A loop of the code that waits is one
  iteration per call, given the arm of \<open>tokio::select!\<close> that completed and the time. JSON text is
  written by \<open>wire\<close> and read by \<open>from_str\<close> (crate \<open>serde_json\<close>); a derived serialiser lists the
  fields in the order of the struct, a \<open>json!\<close> value keeps its members sorted by name.
\<close>

section \<open>Limits and the hub\<close>

definition REPLAY_PAGE_CANDIDATES :: "nat list" where "REPLAY_PAGE_CANDIDATES = [256, 512, 1024]"

record capacity_limits =
  cl_max_streams :: nat
  cl_max_replays :: nat
  cl_replay_page_size :: nat
  cl_event_page_size :: nat

definition validate_limits :: "capacity_limits \<Rightarrow> string + capacity_limits" where
  "validate_limits l =
     (if cl_max_streams l = 0 \<or> cl_max_replays l = 0 \<or>
         cl_replay_page_size l \<notin> set REPLAY_PAGE_CANDIDATES \<or> cl_event_page_size l = 0
      then Inl ''stream capacity values are invalid or replay-page-size is not a fixed candidate''
      else Inr l)"

definition DELIVERY_BUFFER :: nat where "DELIVERY_BUFFER = 1024"
definition PENDING_BUFFER :: nat where "PENDING_BUFFER = 256"
definition MAX_STREAM_REQUEST_BYTES :: nat where "MAX_STREAM_REQUEST_BYTES = 4 * 1024"
definition MAX_STREAM_EVENT_BYTES :: nat where "MAX_STREAM_EVENT_BYTES = 1024 * 1024"

text \<open>The two atomic counters with their maxima, and the free permits of the two semaphores.\<close>

record delivery_hub =
  hub_streams :: nat
  hub_max_streams :: nat
  hub_subscribers :: nat
  hub_max_subscribers :: nat
  hub_replays :: nat
  hub_max_replays :: nat
  hub_resets :: nat
  hub_max_resets :: nat

definition new_hub :: "capacity_limits \<Rightarrow> delivery_hub" where
  "new_hub l =
     \<lparr>hub_streams = 0, hub_max_streams = cl_max_streams l, hub_subscribers = 0, hub_max_subscribers = cl_max_streams l,
      hub_replays = cl_max_replays l, hub_max_replays = cl_max_replays l,
      hub_resets = cl_max_streams l, hub_max_resets = cl_max_streams l\<rparr>"

text \<open>The atomic steps of the hub: adding and subtracting return the value before.\<close>

definition add_stream :: "delivery_hub \<Rightarrow> nat \<times> delivery_hub" where
  "add_stream h = (hub_streams h, h\<lparr>hub_streams := hub_streams h + 1\<rparr>)"

definition sub_stream :: "delivery_hub \<Rightarrow> delivery_hub" where
  "sub_stream h = h\<lparr>hub_streams := hub_streams h - 1\<rparr>"

definition add_subscriber :: "delivery_hub \<Rightarrow> nat \<times> delivery_hub" where
  "add_subscriber h = (hub_subscribers h, h\<lparr>hub_subscribers := hub_subscribers h + 1\<rparr>)"

definition sub_subscriber :: "delivery_hub \<Rightarrow> delivery_hub" where
  "sub_subscriber h = h\<lparr>hub_subscribers := hub_subscribers h - 1\<rparr>"

text \<open>\<open>try_subscribe\<close>, with whether a slot was given.\<close>

definition try_subscribe :: "delivery_hub \<Rightarrow> bool \<times> delivery_hub" where
  "try_subscribe h =
     (let (total, h) = add_stream h in
      if total \<ge> hub_max_streams h then (False, sub_stream h)
      else
        let (accepted, h) = add_subscriber h in
        if accepted \<ge> hub_max_subscribers h then (False, sub_stream (sub_subscriber h))
        else (True, h))"

definition try_replay :: "delivery_hub \<Rightarrow> delivery_hub option" where
  "try_replay h = (if hub_replays h = 0 then None else Some (h\<lparr>hub_replays := hub_replays h - 1\<rparr>))"

definition try_reset :: "delivery_hub \<Rightarrow> delivery_hub option" where
  "try_reset h = (if hub_resets h = 0 then None else Some (h\<lparr>hub_resets := hub_resets h - 1\<rparr>))"

definition drop_replay :: "delivery_hub \<Rightarrow> delivery_hub" where
  "drop_replay h = h\<lparr>hub_replays := hub_replays h + 1\<rparr>"

definition drop_reset :: "delivery_hub \<Rightarrow> delivery_hub" where
  "drop_reset h = h\<lparr>hub_resets := hub_resets h + 1\<rparr>"

text \<open>\<open>SubscriberSlot::into_reset\<close> keeps the stream and gives the subscriber back.\<close>

definition into_reset :: "delivery_hub \<Rightarrow> delivery_hub" where
  "into_reset h = sub_subscriber h"

definition drop_subscriber :: "delivery_hub \<Rightarrow> delivery_hub" where
  "drop_subscriber h = sub_stream (sub_subscriber h)"

definition drop_stream :: "delivery_hub \<Rightarrow> delivery_hub" where
  "drop_stream h = sub_stream h"

section \<open>Filters\<close>

text \<open>\<open>str::trim\<close>: the UTF-8 encodings of the characters with the property \<open>White_Space\<close>.\<close>

definition white_space :: "string list" where
  "white_space =
     map (map char_of)
       ([[9], [10], [11], [12], [13], [32], [0xC2, 0x85], [0xC2, 0xA0], [0xE1, 0x9A, 0x80]] @
        map (\<lambda>k. [0xE2, 0x80, 0x80 + k]) [0..<11] @
        [[0xE2, 0x80, 0xA8], [0xE2, 0x80, 0xA9], [0xE2, 0x80, 0xAF], [0xE2, 0x81, 0x9F], [0xE3, 0x80, 0x80 :: nat]])"

definition leading :: "string list \<Rightarrow> string \<Rightarrow> string option" where
  "leading ws s = find (\<lambda>w. w \<noteq> [] \<and> take (length w) s = w) ws"

lemma leading_some: "leading ws s = Some w \<Longrightarrow> w \<noteq> [] \<and> take (length w) s = w"
  by (auto simp: leading_def find_Some_iff)

function strip :: "string list \<Rightarrow> string \<Rightarrow> string" where
  "strip ws s = (case leading ws s of None \<Rightarrow> s | Some w \<Rightarrow> strip ws (drop (length w) s))"
  by auto
termination
proof (relation "measure (\<lambda>(ws, s). length s)")
  fix ws s w
  assume "leading ws s = Some w"
  then have "w \<noteq> []" "take (length w) s = w" using leading_some by blast+
  then have "s \<noteq> []" "w \<noteq> []" by auto
  then show "((ws, drop (length w) s), ws, s) \<in> measure (\<lambda>(ws, s). length s)"
    by (cases s; cases w) auto
qed simp

declare strip.simps [simp del]

definition trim :: "string \<Rightarrow> string" where
  "trim s = rev (strip (map rev white_space) (rev (strip white_space s)))"

definition to_ascii_lowercase :: "string \<Rightarrow> string" where
  "to_ascii_lowercase = map (\<lambda>c. let n = of_char c :: nat in if 65 \<le> n \<and> n \<le> 90 then char_of (n + 32) else c)"

text \<open>Query parameters, each name once.\<close>

type_synonym params = "(string \<times> string) list"

definition bounded_filter :: "string option \<Rightarrow> nat \<Rightarrow> string \<Rightarrow> string + string option" where
  "bounded_filter value limit name =
     (case value of None \<Rightarrow> Inr None
      | Some v \<Rightarrow>
          let v = trim v in
          if v = [] \<or> length v > limit then
            Inl (if name = ''application'' then ''application must be 1..=128 bytes''
                 else ''actor must be 1..=256 bytes'')
          else Inr (Some v))"

text \<open>\<open>transpose\<close> of an optional parse.\<close>

definition parsed :: "(string \<Rightarrow> 'a option) \<Rightarrow> string \<Rightarrow> string option \<Rightarrow> string + 'a option" where
  "parsed p message v =
     (case v of None \<Rightarrow> Inr None
      | Some s \<Rightarrow> (case p s of None \<Rightarrow> Inl message | Some x \<Rightarrow> Inr (Some x)))"

definition filter_of_params :: "externals \<Rightarrow> params \<Rightarrow> string + delivery_filter" where
  "filter_of_params X ps =
     (case parsed (\<lambda>s. parse_hash X (to_ascii_lowercase (trim s)))
             ''covenant must be 64 lowercase or uppercase hex characters'' (map_of ps ''covenant'') of
        Inl e \<Rightarrow> Inl e
      | Inr covenant \<Rightarrow>
     (case bounded_filter (map_of ps ''application'') 128 ''application'' of Inl e \<Rightarrow> Inl e
      | Inr app \<Rightarrow>
     (case bounded_filter (map_of ps ''actor'') 256 ''actor'' of Inl e \<Rightarrow> Inl e
      | Inr actor \<Rightarrow>
     (case parsed (\<lambda>s. parse_hash X (trim s)) ''artifact must be 64 hex characters'' (map_of ps ''artifact'') of
        Inl e \<Rightarrow> Inl e
      | Inr artifact \<Rightarrow>
          Inr \<lparr>fl_covenant_id = covenant, fl_application_id = app, fl_artifact_id = artifact, fl_actor_path = actor\<rparr>))))"

definition saturating_usize :: "nat \<Rightarrow> nat \<Rightarrow> nat" where
  "saturating_usize a b = min (a + b) (2 ^ 64 - 1)"

definition stream_request_bytes :: "params \<Rightarrow> string option \<Rightarrow> nat" where
  "stream_request_bytes ps last_event_id =
     saturating_usize
       (sum_list (map (\<lambda>(k, v). saturating_usize (saturating_usize (length k) (length v)) 2) ps))
       (case last_event_id of None \<Rightarrow> 0 | Some v \<Rightarrow> length v)"

text \<open>\<open>is_none_or\<close>, and the filter on a record of the live stream.\<close>

definition none_or :: "'a option \<Rightarrow> ('a \<Rightarrow> bool) \<Rightarrow> bool" where
  "none_or v p \<longleftrightarrow> (case v of None \<Rightarrow> True | Some x \<Rightarrow> p x)"

definition delivery_matches :: "delivery_record \<Rightarrow> delivery_filter \<Rightarrow> bool" where
  "delivery_matches r fl \<longleftrightarrow>
     (if (case fl_covenant_id fl of None \<Rightarrow> False | Some i \<Rightarrow> dr_covenant_id r \<noteq> i) then False
      else if fl_application_id fl = None \<and> fl_artifact_id fl = None \<and> fl_actor_path fl = None then True
      else (\<exists>a \<in> set (dr_applications r).
              none_or (fl_application_id fl) (\<lambda>i. ao_application_id a = i) \<and>
              none_or (fl_artifact_id fl) (\<lambda>i. ao_artifact_id a = i) \<and>
              none_or (fl_actor_path fl) (\<lambda>p. ao_actor_path a = p)))"

text \<open>\<open>serde_json::Value\<close>: members, paths, strings, arrays and unsigned numbers.\<close>

definition json_get :: "string \<Rightarrow> json \<Rightarrow> json option" where
  "json_get k v = (case v of JObject ms \<Rightarrow> map_of ms k | _ \<Rightarrow> None)"

definition json_array :: "json \<Rightarrow> json list option" where
  "json_array v = (case v of JArray vs \<Rightarrow> Some vs | _ \<Rightarrow> None)"

definition json_as_u64 :: "json \<Rightarrow> nat option" where
  "json_as_u64 v = (case v of JNumber s \<Rightarrow> if list_all (\<lambda>c. digit_of c \<noteq> None) s then parse_u64 s else None | _ \<Rightarrow> None)"

definition json_bytes_are :: "bytes \<Rightarrow> json list \<Rightarrow> bool" where
  "json_bytes_are bs vs \<longleftrightarrow>
     length vs = length bs \<and> list_all (\<lambda>(v, b). json_as_u64 v = Some (unat b)) (zip vs bs)"

definition pending_output_wanted :: "delivery_filter \<Rightarrow> json \<Rightarrow> bool" where
  "pending_output_wanted fl out \<longleftrightarrow>
     none_or (fl_application_id fl) (\<lambda>i. json_str ''application_id'' out = Some i) \<and>
     none_or (fl_artifact_id fl) (\<lambda>i.
       case Option.bind (json_get ''artifact_id'' out) json_array of None \<Rightarrow> False | Some vs \<Rightarrow> json_bytes_are i vs) \<and>
     none_or (fl_actor_path fl) (\<lambda>p. json_str ''actor_path'' out = Some p)"

definition pending_matches :: "externals \<Rightarrow> (string \<Rightarrow> json option) \<Rightarrow> string \<Rightarrow> delivery_filter \<Rightarrow> bool" where
  "pending_matches X from_str msg fl =
     (case from_str msg of None \<Rightarrow> False
      | Some v \<Rightarrow>
          if (case fl_covenant_id fl of None \<Rightarrow> False
              | Some i \<Rightarrow> json_str ''covenant_id'' v \<noteq> Some (hex_encode X i)) then False
          else if fl_application_id fl = None \<and> fl_artifact_id fl = None \<and> fl_actor_path fl = None then True
          else (case Option.bind (Option.bind (json_get ''application'' v) (json_get ''outputs'')) json_array of
                  None \<Rightarrow> False
                | Some outs \<Rightarrow> list_ex (pending_output_wanted fl) outs))"

section \<open>Where a stream starts\<close>

datatype stream_start = Ready stream_cursor | Reset string stream_cursor

text \<open>\<open>HeaderValue::to_str\<close> takes visible ASCII, spaces and tabs.\<close>

definition visible_ascii :: "char \<Rightarrow> bool" where
  "visible_ascii c \<longleftrightarrow> (let n = of_char c :: nat in 32 \<le> n \<and> n < 127 \<or> n = 9)"

definition saturating_next :: "nat \<Rightarrow> nat" where
  "saturating_next n = min (n + 1) (2 ^ 64 - 1)"

definition start_at :: "delivery_stream_info \<Rightarrow> stream_cursor \<Rightarrow> stream_start" where
  "start_at info c =
     (case classify_cursor info c of
        Valid \<Rightarrow>
          if (case si_earliest info of None \<Rightarrow> False
              | Some earliest \<Rightarrow> saturating_next (sc_seq c) < sc_seq earliest)
          then Reset ''history_unavailable'' (si_current info) else Ready c
      | ForeignEpoch \<Rightarrow> Reset ''foreign_epoch'' (si_current info)
      | Ahead \<Rightarrow> Reset ''ahead'' (si_current info))"

definition select_stream_start ::
  "externals \<Rightarrow> string option \<Rightarrow> params \<Rightarrow> delivery_stream_info \<Rightarrow> string + stream_start" where
  "select_stream_start X last_event_id ps info =
     (case (case last_event_id of
              Some v \<Rightarrow> if list_all visible_ascii v then Inr (Some v)
                        else Inl ''Last-Event-ID must be an opaque <epoch>:<sequence> cursor''
            | None \<Rightarrow> Inr (map_of ps ''after'')) of
        Inl e \<Rightarrow> Inl e
      | Inr raw \<Rightarrow>
     (case parsed (\<lambda>s. parse_cursor X (trim s))
             ''Last-Event-ID or after must be an opaque <epoch>:<sequence> cursor'' raw of
        Inl e \<Rightarrow> Inl e
      | Inr parsed_cursor \<Rightarrow>
          Inr (start_at info (case parsed_cursor of None \<Rightarrow> si_current info | Some c \<Rightarrow> c))))"

section \<open>The state of a stream\<close>

record accepted_broadcast =
  ab_record :: delivery_record
  ab_observed_at_ms :: "nat option"

record pending_broadcast =
  pb_message :: string
  pb_observed_at_ms :: nat

text \<open>A receiver of \<open>tokio::sync::broadcast\<close>: what was sent and not yet received, whether older messages were
  overwritten since the last receive, and whether the senders are gone.\<close>

record 'a receiver =
  rv_items :: "'a list"
  rv_lagged :: bool
  rv_closed :: bool

definition subscribed :: "'a receiver" where
  "subscribed = \<lparr>rv_items = [], rv_lagged = False, rv_closed = False\<rparr>"

definition broadcast :: "nat \<Rightarrow> 'a \<Rightarrow> 'a receiver \<Rightarrow> 'a receiver" where
  "broadcast capacity x rx =
     (if length (rv_items rx) < capacity then rx\<lparr>rv_items := rv_items rx @ [x]\<rparr>
      else rx\<lparr>rv_items := tl (rv_items rx) @ [x], rv_lagged := True\<rparr>)"

datatype 'a received = Got 'a | Lagged | Gone

definition recv :: "'a receiver \<Rightarrow> ('a received \<times> 'a receiver) option" where
  "recv rx =
     (if rv_lagged rx then Some (Lagged, rx\<lparr>rv_lagged := False\<rparr>)
      else (case rv_items rx of
              x # xs \<Rightarrow> Some (Got x, rx\<lparr>rv_items := xs\<rparr>)
            | [] \<Rightarrow> if rv_closed rx then Some (Gone, rx) else None))"

datatype stream_frame =
    DeliveryFrame delivery_record "nat option"
  | CheckpointFrame stream_cursor
  | PendingFrame pending_broadcast

record replay_state =
  rp_cursor :: stream_cursor
  rp_through :: stream_cursor
  rp_last_emitted :: stream_cursor

record stream_state =
  st_delivery_rx :: "accepted_broadcast receiver"
  st_pending_rx :: "pending_broadcast receiver"
  st_filter :: delivery_filter
  st_page_size :: nat
  st_replay :: "replay_state option"
  st_discard_through :: stream_cursor
  st_queued :: "stream_frame list"
  st_checkpoint :: "stream_cursor option"
  st_checkpoint_count :: nat
  st_checkpoint_at :: nat
  st_deadline :: nat

text \<open>What an iteration of the loop does: a frame is yielded, the loop goes round, it waits, or the stream ends.\<close>

datatype iteration = Yield stream_frame stream_state | Again stream_state | Wait | Ended

section \<open>The next frame\<close>

definition replay_page ::
  "externals \<Rightarrow> db \<Rightarrow> stream_cursor \<Rightarrow> stream_cursor \<Rightarrow> nat \<Rightarrow> string + delivery_record list" where
  "replay_page X d after through page_size =
     map_sum id (filter (\<lambda>r. sc_seq (dr_cursor r) \<le> sc_seq through)) (delivery_replay_page X (Some after) page_size d)"

definition page_frames :: "delivery_filter \<Rightarrow> replay_state \<Rightarrow> delivery_record list \<Rightarrow> replay_state \<times> stream_frame list" where
  "page_frames fl rp page =
     (let wanted = filter (\<lambda>r. delivery_matches r fl) page;
          scanned_to = dr_cursor (last page);
          rp = rp\<lparr>rp_last_emitted := (if wanted = [] then rp_last_emitted rp else dr_cursor (last wanted)),
                  rp_cursor := scanned_to\<rparr>;
          frames = map (\<lambda>r. DeliveryFrame r None) wanted
      in if fl \<noteq> no_filter \<and> sc_seq scanned_to > sc_seq (rp_last_emitted rp)
         then (rp\<lparr>rp_last_emitted := scanned_to\<rparr>, frames @ [CheckpointFrame scanned_to])
         else (rp, frames))"

definition replay_iteration :: "externals \<Rightarrow> db \<Rightarrow> replay_state \<Rightarrow> stream_state \<Rightarrow> iteration" where
  "replay_iteration X d rp s =
     (case replay_page X d (rp_cursor rp) (rp_through rp) (st_page_size s) of
        Inl _ \<Rightarrow> Ended
      | Inr page \<Rightarrow>
          if page = [] then Ended
          else let (rp, frames) = page_frames (st_filter s) rp page
               in Again (s\<lparr>st_replay := Some rp, st_queued := st_queued s @ frames\<rparr>))"

definition delivery_arm :: "nat \<Rightarrow> stream_state \<Rightarrow> iteration" where
  "delivery_arm t s =
     (case recv (st_delivery_rx s) of
        None \<Rightarrow> Wait
      | Some (Got b, rx) \<Rightarrow>
          let r = ab_record b; s = s\<lparr>st_delivery_rx := rx\<rparr> in
          if sc_epoch (dr_cursor r) = sc_epoch (st_discard_through s) \<and>
             sc_seq (dr_cursor r) \<le> sc_seq (st_discard_through s) then Again s
          else if delivery_matches r (st_filter s) then
            Yield (DeliveryFrame r (ab_observed_at_ms b)) (s\<lparr>st_checkpoint := None, st_checkpoint_count := 0\<rparr>)
          else if st_filter s \<noteq> no_filter then
            let s = (if st_checkpoint s = None then s\<lparr>st_checkpoint_at := t + 1000\<rparr> else s);
                s = s\<lparr>st_checkpoint := Some (dr_cursor r), st_checkpoint_count := min (st_checkpoint_count s + 1) 65535\<rparr>
            in if st_checkpoint_count s \<ge> st_page_size s mod 65536
               then Yield (CheckpointFrame (dr_cursor r)) (s\<lparr>st_checkpoint_count := 0, st_checkpoint := None\<rparr>)
               else Again s
          else Again s
      | Some (_, rx) \<Rightarrow> Ended)"

definition pending_arm :: "externals \<Rightarrow> (string \<Rightarrow> json option) \<Rightarrow> stream_state \<Rightarrow> iteration" where
  "pending_arm X from_str s =
     (case recv (st_pending_rx s) of
        None \<Rightarrow> Wait
      | Some (Got m, rx) \<Rightarrow>
          if pending_matches X from_str (pb_message m) (st_filter s)
          then Yield (PendingFrame m) (s\<lparr>st_pending_rx := rx\<rparr>) else Again (s\<lparr>st_pending_rx := rx\<rparr>)
      | Some (Lagged, rx) \<Rightarrow> Again (s\<lparr>st_pending_rx := rx\<rparr>)
      | Some (Gone, rx) \<Rightarrow> Ended)"

definition checkpoint_arm :: "nat \<Rightarrow> stream_state \<Rightarrow> iteration" where
  "checkpoint_arm t s =
     (case st_checkpoint s of
        Some c \<Rightarrow> if st_checkpoint_at s \<le> t
                  then Yield (CheckpointFrame c) (s\<lparr>st_checkpoint_count := 0, st_checkpoint := None\<rparr>) else Wait
      | None \<Rightarrow> Wait)"

datatype select_arm = DeliveryArm | PendingArm | CheckpointArm | DeadlineArm

definition select_iteration ::
  "externals \<Rightarrow> (string \<Rightarrow> json option) \<Rightarrow> nat \<Rightarrow> select_arm \<Rightarrow> stream_state \<Rightarrow> iteration" where
  "select_iteration X from_str t sel s =
     (case sel of
        DeliveryArm \<Rightarrow> delivery_arm t s
      | PendingArm \<Rightarrow> pending_arm X from_str s
      | CheckpointArm \<Rightarrow> checkpoint_arm t s
      | DeadlineArm \<Rightarrow> if st_deadline s \<le> t then Ended else Wait)"

text \<open>One round of \<open>next_stream_frame\<close>: a queued frame, else a page of the replay, else an arm of the select.\<close>

definition next_iteration ::
  "externals \<Rightarrow> (string \<Rightarrow> json option) \<Rightarrow> db \<Rightarrow> nat \<Rightarrow> select_arm \<Rightarrow> stream_state \<Rightarrow> iteration" where
  "next_iteration X from_str d t sel s =
     (case st_queued s of
        frame # rest \<Rightarrow> Yield frame (s\<lparr>st_queued := rest\<rparr>)
      | [] \<Rightarrow>
          (case st_replay s of
             Some rp \<Rightarrow>
               if sc_seq (rp_cursor rp) < sc_seq (rp_through rp) then replay_iteration X d rp s
               else select_iteration X from_str t sel (s\<lparr>st_replay := None\<rparr>)
           | None \<Rightarrow> select_iteration X from_str t sel s))"

section \<open>Events\<close>

record sse_event =
  ev_id :: "string option"
  ev_event :: "string option"
  ev_data :: string

definition json_option :: "('a \<Rightarrow> json) \<Rightarrow> 'a option \<Rightarrow> json" where
  "json_option f v = (case v of None \<Rightarrow> JNull | Some x \<Rightarrow> f x)"

definition json_nat :: "nat \<Rightarrow> json" where
  "json_nat n = JNumber (show_nat n)"

definition json_cursor :: "externals \<Rightarrow> stream_cursor \<Rightarrow> json" where
  "json_cursor X c = JString (show_cursor X c)"

definition application_output_json :: "externals \<Rightarrow> application_output \<Rightarrow> json" where
  "application_output_json X a =
     JObject [(''output_index'', json_nat (ao_output_index a)), (''covenant_id'', JString (hex_encode X (ao_covenant_id a))),
       (''application_id'', JString (ao_application_id a)),
       (''artifact_id'', JArray (map (\<lambda>b. json_nat (unat b)) (ao_artifact_id a))),
       (''actor_path'', JString (ao_actor_path a)), (''state_json'', JString (ao_state_json a))]"

text \<open>The derived serialiser of a delivery record.\<close>

definition delivery_record_json :: "externals \<Rightarrow> delivery_record \<Rightarrow> json" where
  "delivery_record_json X r =
     JObject [(''cursor'', json_cursor X (dr_cursor r)), (''kind'', JString (delivery_kind_str (dr_kind r))),
       (''source_cursor'', json_option (json_cursor X) (dr_source_cursor r)),
       (''covenant_id'', JString (hex_encode X (dr_covenant_id r))),
       (''covenant_event_seq'', json_nat (dr_covenant_event_seq r)), (''txid'', JString (hex_encode X (dr_txid r))),
       (''accepting_block'', JString (hex_encode X (dr_accepting_block r))),
       (''accepting_daa'', json_nat (dr_accepting_daa r)), (''tx_index'', json_option json_nat (dr_tx_index r)),
       (''event_index'', json_option json_nat (dr_event_index r)), (''order_complete'', JBool (dr_order_complete r)),
       (''pending_id'', json_option JString (dr_pending_id r)),
       (''applications'', JArray (map (application_output_json X) (dr_applications r)))]"

definition pending_sse_event :: "string \<Rightarrow> sse_event option" where
  "pending_sse_event msg =
     (if length msg \<le> MAX_STREAM_EVENT_BYTES then Some \<lparr>ev_id = None, ev_event = None, ev_data = msg\<rparr> else None)"

definition stream_frame_event :: "externals \<Rightarrow> (json \<Rightarrow> string) \<Rightarrow> stream_frame \<Rightarrow> string + sse_event option" where
  "stream_frame_event X wire frame =
     (case frame of
        DeliveryFrame r _ \<Rightarrow>
          let data = wire (delivery_record_json X r) in
          if length data > MAX_STREAM_EVENT_BYTES then Inl ''delivery exceeds the stream event byte limit''
          else Inr (Some \<lparr>ev_id = Some (show_cursor X (dr_cursor r)),
                          ev_event = Some (delivery_kind_str (dr_kind r)), ev_data = data\<rparr>)
      | CheckpointFrame c \<Rightarrow>
          Inr (Some \<lparr>ev_id = Some (show_cursor X c), ev_event = Some ''checkpoint'',
                     ev_data = wire (JObject [(''cursor'', json_cursor X c), (''kind'', JString ''checkpoint'')])\<rparr>)
      | PendingFrame m \<Rightarrow> Inr (pending_sse_event (pb_message m)))"

text \<open>A round of the response body: a frame becomes an event, is passed over, or ends the stream.\<close>

definition body_iteration ::
  "externals \<Rightarrow> (json \<Rightarrow> string) \<Rightarrow> (string \<Rightarrow> json option) \<Rightarrow> db \<Rightarrow> nat \<Rightarrow> select_arm \<Rightarrow> stream_state \<Rightarrow>
   (sse_event option \<times> stream_state) option" where
  "body_iteration X wire from_str d t sel s =
     (case next_iteration X from_str d t sel s of
        Yield frame s \<Rightarrow> (case stream_frame_event X wire frame of Inl _ \<Rightarrow> None | Inr ev \<Rightarrow> Some (ev, s))
      | Again s \<Rightarrow> Some (None, s)
      | Wait \<Rightarrow> Some (None, s)
      | Ended \<Rightarrow> None)"

section \<open>The handler\<close>

datatype stream_response =
    Refused nat string
  | ResetStream sse_event
  | OpenStream sse_event stream_state

definition STREAM_MILLIS :: nat where "STREAM_MILLIS = 15 * 60 * 1000"

definition reset_event :: "externals \<Rightarrow> (json \<Rightarrow> string) \<Rightarrow> string \<Rightarrow> string \<Rightarrow> stream_cursor \<Rightarrow> sse_event" where
  "reset_event X wire network reason current =
     \<lparr>ev_id = None, ev_event = Some ''reset'',
      ev_data = wire (JObject [(''current'', json_cursor X current),
        (''current_epoch'', JString (hex_encode X (sc_epoch current))), (''reason'', JString reason),
        (''snapshot'', JString (''/data/'' @ network @ ''.json''))])\<rparr>"

definition ready_event :: "externals \<Rightarrow> (json \<Rightarrow> string) \<Rightarrow> stream_cursor \<Rightarrow> stream_cursor \<Rightarrow> sse_event" where
  "ready_event X wire after current =
     \<lparr>ev_id = None, ev_event = Some ''ready'',
      ev_data = wire (JObject [(''after'', json_cursor X after), (''current'', json_cursor X current)])\<rparr>"

definition open_state ::
  "delivery_filter \<Rightarrow> nat \<Rightarrow> delivery_stream_info \<Rightarrow> stream_cursor \<Rightarrow> accepted_broadcast receiver \<Rightarrow>
   pending_broadcast receiver \<Rightarrow> nat \<Rightarrow> stream_state" where
  "open_state fl page_size info after rx prx t =
     \<lparr>st_delivery_rx = rx, st_pending_rx = prx, st_filter = fl, st_page_size = page_size,
      st_replay = (if sc_seq after < sc_seq (si_current info)
                   then Some \<lparr>rp_cursor = after, rp_through = si_current info, rp_last_emitted = after\<rparr> else None),
      st_discard_through = si_current info, st_queued = [], st_checkpoint = None, st_checkpoint_count = 0,
      st_checkpoint_at = t + STREAM_MILLIS, st_deadline = t + STREAM_MILLIS\<rparr>"

text \<open>
  The handler for a configured network (an unknown one is refused before, with 404). It subscribes before it reads the high-water mark, so \<open>rx\<close> and
  \<open>prx\<close> hold what was broadcast in between; \<open>d\<close> is the database that the read pool shows. A failed read
  of it answers 503 (\<open>read_unavailable\<close>). The slot and the permits that a refusal drops are given back.
\<close>

definition stream_handler ::
  "externals \<Rightarrow> (json \<Rightarrow> string) \<Rightarrow> string \<Rightarrow> capacity_limits \<Rightarrow> params \<Rightarrow> string option \<Rightarrow>
   accepted_broadcast receiver \<Rightarrow> pending_broadcast receiver \<Rightarrow> nat \<Rightarrow> db \<Rightarrow> delivery_hub \<Rightarrow>
   stream_response \<times> delivery_hub" where
  "stream_handler X wire network limits ps last_event_id rx prx t d h =
     (if stream_request_bytes ps last_event_id > MAX_STREAM_REQUEST_BYTES then
        (Refused 413 ''stream request exceeds 4096 bytes'', h)
      else (case filter_of_params X ps of Inl message \<Rightarrow> (Refused 400 message, h)
      | Inr fl \<Rightarrow>
     (case try_subscribe h of
        (False, h) \<Rightarrow> (Refused 503 ''stream capacity exhausted; retry or use the polling feeds'', h)
      | (True, h) \<Rightarrow>
     (case delivery_stream_info X d of
        Inl _ \<Rightarrow> (Refused 503 ''stream unavailable'', drop_subscriber h)
      | Inr info \<Rightarrow>
     (case select_stream_start X last_event_id ps info of
        Inl message \<Rightarrow> (Refused 400 message, drop_subscriber h)
      | Inr (Reset reason current) \<Rightarrow>
          (case try_reset h of
             None \<Rightarrow> (Refused 503 ''reset stream capacity exhausted; retry'', drop_subscriber h)
           | Some h \<Rightarrow> (ResetStream (reset_event X wire network reason current), into_reset h))
      | Inr (Ready after) \<Rightarrow>
          let s = open_state fl (cl_replay_page_size limits) info after rx prx t in
          if sc_seq after < sc_seq (si_current info) then
            (case try_replay h of
               None \<Rightarrow> (Refused 429 ''historical replay capacity exhausted; retry'', drop_subscriber h)
             | Some h \<Rightarrow> (OpenStream (ready_event X wire after (si_current info)) s, h))
          else (OpenStream (ready_event X wire after (si_current info)) s, h))))))"

end
