(* ===== verification/Stream_Exact.thy ===== *)
theory Stream_Exact
  imports Event_Stream Sync_Laws
begin

text \<open>
  What a client of the live stream sees, whatever the interleaving of commits, announcements, pages and
  arms: every identifier it can resume from stands for exactly the matching records up to it, none lost and
  none twice across the hand-off from the replay to the broadcasts, and an idle stream has sent them all.
\<close>

section \<open>A stream beside a follower\<close>






section \<open>Frames that are exact\<close>


fun frame_records :: "stream_frame \<Rightarrow> delivery_record list" where
  "frame_records (DeliveryFrame r t) = [r]"
| "frame_records _ = []"

definition delivered :: "stream_frame list \<Rightarrow> delivery_record list" where
  "delivered fs = concat (map frame_records fs)"





lemma delivered_simps [simp]: "delivered [] = []" "delivered (fs @ gs) = delivered fs @ delivered gs"
  "delivered [f] = frame_records f"
  by (simp_all add: delivered_def)














section \<open>The invariant\<close>











section \<open>A round of the loop\<close>





lemma matches_no_filter [simp]: "delivery_matches r no_filter"
  by (simp add: delivery_matches_def no_filter_def)




section \<open>Every run\<close>







section \<open>An example\<close>








end
