(* ===== verification/Spec2Isabelle.thy ===== *)
theory Spec2Isabelle
  imports Vesting Pass_Ledger Argent Gap_Laws Stream_Exact
begin

text \<open>
  A verification library for kascov, an indexer and explorer for covenants on the Kaspa chain: what the
  indexer computes and stores, what it hands to its consumers, and why that is right. Paths are below
  \<open>crates/\<close>; C1 to C40 are the numbered properties, each stated beside its theorem.

  The program. A follower walks the virtual selected parent chain of a node (\<open>kascov-core/src/sync.rs\<close>). For every
  block it classifies the covenant activity of the accepted transactions and commits one batch to a SQLite
  store (\<open>kascov-core/src/store.rs\<close>): cells, events, covenants, an append-only stream of deliveries, the application
  outputs that Argent envelopes declare, and a queue of derived work. Draining the queue re-derives the
  token and market tables (\<open>tokens.rs\<close>, \<open>market.rs\<close>) from the cells, whose scripts the crate \<open>kascov-decode\<close>
  reads. Clients page the stream or follow it live over server-sent events (\<open>kascov/src/stream.rs\<close>). A reorg is
  rolled back; a stretch the follower had to skip is merged later by the offline command \<open>recover-gap\<close>.
\<close>

section \<open>The theories\<close>

text \<open>
  \<^item> \<open>Prelude\<close>: bytes, checked reads, integer ranges, ordered maps, results, the external functions; the
    collections \<open>slice_simps\<close>, \<open>le_simps\<close>, \<open>range_simps\<close>, \<open>btree_simps\<close>; the locale \<open>settling\<close> (a step that is
    done the second time).
  \<^item> \<open>kascov-decode\<close>: \<open>Disasm\<close> (\<open>disasm.rs\<close>), \<open>Push_Codec\<close> (pushes of \<open>lib.rs\<close> and \<open>kcc1.rs\<close>, locale
    \<open>prefix_codec\<close>), \<open>Script_Int\<close> and \<open>Kcc1\<close> (\<open>kcc1.rs\<close>), \<open>Skeletons\<close> and \<open>Decoders\<close> (\<open>lib.rs\<close>, \<open>observed.rs\<close>,
    locales \<open>decoder\<close> and \<open>decoder_list\<close>), \<open>Kcc20\<close> (\<open>kcc20.rs\<close>, locale \<open>state_proof\<close>), \<open>Vesting\<close>
    (\<open>vesting.rs\<close>).
  \<^item> Tables and chain data: \<open>Chain_Model\<close> (\<open>model.rs\<close>, \<open>application.rs\<close>, \<open>delivery.rs\<close>, \<open>detect.rs\<close>), \<open>Database\<close> (the
    schema: one record per table, the record \<open>db\<close> of all of them).
  \<^item> Derived tables: \<open>Tokens_Proof\<close>, \<open>Tokens_Events\<close>, \<open>Tokens_Derive\<close> (\<open>tokens.rs\<close>), \<open>Market_Match\<close>,
    \<open>Market_Price\<close> (\<open>market.rs\<close>); what they guarantee is in \<open>Tokens_Laws\<close> and beside the market definitions.
  \<^item> The store: \<open>Ledger\<close> (\<open>apply_accepted_block\<close>, \<open>rollback_removed_blocks\<close>, the stream and application tables
    of \<open>store_delivery.rs\<close> and \<open>store_application.rs\<close>), \<open>Delivery\<close> (pages, status, drain, the offline backfill;
    \<open>projection.rs\<close>), \<open>Repair\<close> (\<open>repair_application_failures\<close>); laws in \<open>Reorg\<close>, \<open>Stream_Laws\<close> and
    \<open>Stream_History\<close>, whose relation \<open>store_run\<close> gives the histories of a store.
  \<^item> Following the chain: \<open>Chain_Sync\<close> (\<open>sync_once\<close>, \<open>re_anchor\<close>, \<open>ProgressWatch\<close>); laws in \<open>Classify_Laws\<close>,
    \<open>Sync_Laws\<close>, \<open>Pass_Ledger\<close>.
  \<^item> Gap recovery: \<open>Gap_Recovery\<close> (\<open>recover_gap\<close> and the store operations it uses), \<open>Gap_Renumber\<close>, \<open>Gap_Laws\<close>.
  \<^item> Argent (\<open>kascov-argent/src\<close>): \<open>Argi\<close> (\<open>envelope.rs\<close>, locale \<open>field_codec\<close>), \<open>Argent\<close> (\<open>manifest.rs\<close>,
    \<open>decoder.rs\<close>).
  \<^item> Live delivery: \<open>Event_Stream\<close> (\<open>kascov/src/stream.rs\<close>), \<open>Stream_Exact\<close>.
\<close>

section \<open>How the code is modelled\<close>

text \<open>
  \<^item> A struct is a record and an enum a datatype, with the fields and variants of the source. A function that may
    fail is a value of a sum type, with the error on the left, or an option. Bytes are \<open>8 word\<close>; where the code
    computes in \<open>u64\<close>, \<open>i64\<close> or \<open>i128\<close> and may overflow, the check, the wrap-around or the saturation is written
    out.
  \<^item> A SQLite transaction is a function from a database to an error or a new database. Tables are lists of rows in
    table order, queries are filters and stable sorts, ties come in table order, \<open>INSERT OR REPLACE\<close> keeps the
    place of a row. Violated constraints and the overflow of \<open>SUM\<close> are errors; other failures of the
    engine are not modelled. \<open>rusqlite\<close> refuses to bind a \<open>u64\<close> above \<open>i64::MAX\<close>: this error is not modelled
    either, so the definitions are the code's for amounts and scores below \<open>2 ^ 63\<close>, which those of a valid chain
    are. A JSON column holds the value it was serialised from.
  \<^item> Code outside the repository is an argument. \<open>externals\<close> has BLAKE2b, hex, the embedded fixture files and a JSON
    reader; \<open>serde\<close> the JSON library of the gap records, of which the properties assume that what it prints for a
    value with sorted members parses back (\<open>serde_documented\<close>); \<open>argent_env\<close> files, SHA-256, the manifest's JSON
    and the Argent runtime; \<open>node\<close> the answers of the RPC client, failures included. The clock is \<open>now\<close> or
    \<open>t\<close>, the process-wide registry of decoders \<open>reg\<close>. The channels and semaphores of \<open>tokio\<close> in \<open>Event_Stream\<close>
    are modelled as documented: a bounded queue per receiver that drops its oldest message and then
    reports that it lagged.
  \<^item> Where the code walks a hash map and leaves the order open, the model walks it in the order of the keys.
\<close>

section \<open>What is proved\<close>

text \<open>
  \<^item> The stream is a faithful log (C1, C7 to C10). After any history in \<open>store_run\<close> a replay of the stream is the
    event table; numbers have no gaps; the queue is what lies behind its cursor; drains empty it; pages cover
    the log; applying a block again changes nothing. The steps of \<open>store_run\<close> are opening the store, applying,
    rolling back, draining, moving the cursor, noting the tip and repairing application failures. Not among them are
    the migration \<open>backfill_delivery_batch\<close> and a gap recovery, which adds events that have no delivery, and the
    re-stamping and re-derivation at the start of a session, which write no stream, queue or event.
  \<^item> The chain tables follow the chain (C2 to C6, C16). Rolling a chain of blocks back restores them, up to two
    columns of a cell and the activity stamp; a pass commits exactly the ledger steps of the accepted
    transactions, keeps its place when it fails anywhere, and tells its subscriber everything; the events of
    a block are those of a declarative rule; the watch demands a recovery exactly after the stated streaks.
  \<^item> Gap recovery (C11 to C15). It only adds to the history and leaves the follower's state alone; the token
    and market tables, which it derives again, are outside that statement. Covenants of the window end up in
    chronological order; merging is idempotent; the walk ends on a chain that ends; a closed window is not
    recovered again.
  \<^item> Argent (C17 to C21): the decoder passes on exactly the backed declarations, its output is well typed, its limits
    are wide enough, the manifest approves only what it checked, and the envelope codec is exact.
  \<^item> Tokens and markets (C22 to C29): the verified stamp is equivalent to an independent set of token rules,
    published supplies are exact, proven cells are backed by programs, extracted trades balance and are the
    market's own, recognised builds are the pinned ones, and the price bracket bounds the reserve product.
  \<^item> Scripts (C30 to C38, C40): round trips and exact recognition of state blocks, invocations, typed states,
    skeletons, reveals and vesting locks; disassembly loses nothing.
  \<^item> The live stream (C39): whatever the interleaving of commits, announcements, replay pages and select arms, each
    identifier a client can resume from stands for exactly the matching records up to it. The relation
    \<open>live_run\<close> has the follower's passes as steps, not the roll-back of \<open>re_anchor\<close>, whose deliveries are
    stored and never announced, and not the offline commands.

  Loops. All recursions are structural or proved terminating by a measure, but the walk of a recovery:
  \<open>gap_loop\<close> is a partial function whose value \<open>None\<close> means that the node leads it round for ever; C14 gives the
  condition under which it returns. There is no fuel. The iteration counts in C9 and C10 are bounds in
  the statements. One round of the live loop is one call of \<open>next_iteration\<close>, given the arm that completed.
\<close>

section \<open>What is not modelled\<close>

text \<open>
  \<^item> \<open>store.rs\<close>: \<open>backfill_tx_index\<close>, the column migrations and backfills of opening a store (\<open>open_writer\<close> has the
    part that concerns the stream), the read pages, the tables of the web features (subscriptions, verified sources,
    token images, resting orders, which the indexer never fills). \<open>tokens.rs\<close> and \<open>market.rs\<close>: the read-only
    directories and the published summary with its floating-point prices.
  \<^item> \<open>kascov/src\<close>: the command line and the web handlers other than the event stream (\<open>main.rs\<close>, \<open>api.rs\<close>,
    \<open>og.rs\<close>), the loop around the passes in \<open>follower.rs\<close>, the mempool overlay \<open>pending.rs\<close> (best-effort hints,
    of which \<open>Event_Stream\<close> models the filter), \<open>preflight.rs\<close>, \<open>registry.rs\<close>, \<open>witness.rs\<close>, metrics and the
    read pool. Of \<open>stream.rs\<close> itself the response headers, keep-alive frames and the capacity report.
  \<^item> The RPC client (\<open>node/wrpc.rs\<close>), the writer thread, \<open>bench.rs\<close>, and the crates \<open>kascov-sim\<close>, \<open>kascov-lab\<close>,
    \<open>kascov-labkit\<close> and \<open>kascov-bench\<close>, tools around the indexer that do not write to it.
\<close>

end
